(* ===== verification/Limiter_Prelude.thy ===== *)
theory Limiter_Prelude
  imports Main "HOL-Library.Word" "HOL-Library.AList" "HOL-Library.Signed_Division"
begin

text \<open>
  What every component of the model shares: the Go types the limiter uses, its integer
  arithmetic (32-bit counters as words, 64-bit times as integers with the wrap-around written
  out), run-time panics as values, slices with their bounds checks, and Go maps as association
  lists together with the contract (locale \<open>go_map\<close>) the components rely on.
\<close>

section \<open>Types\<close>

type_synonym u8 = "8 word"
type_synonym u32 = "32 word"
type_synonym u64 = "64 word"

text \<open>
  A run-time panic of Go is a value. A function of the source that can panic returns
  \<open>panic + 'a\<close>: \<open>Inl\<close> is the panic, \<open>Inr\<close> the normal result.
\<close>

datatype panic = NilPointer | IndexRange | DivZero | MakeSlice | NonPositiveTicker | TypeAssertion

definition bindR :: "'e + 'a \<Rightarrow> ('a \<Rightarrow> 'e + 'b) \<Rightarrow> 'e + 'b" where
  "bindR m f = (case m of Inl e \<Rightarrow> Inl e | Inr x \<Rightarrow> f x)"

lemma bindR_simps [simp]:
  "bindR (Inl e) f = Inl e"
  "bindR (Inr x) f = f x"
  by (simp_all add: bindR_def)

lemma bindR_eq_Inr_iff: "bindR m f = Inr y \<longleftrightarrow> (\<exists>x. m = Inr x \<and> f x = Inr y)"
  by (cases m) simp_all

lemma bindR_eq_Inl_iff: "bindR m f = Inl e \<longleftrightarrow> m = Inl e \<or> (\<exists>x. m = Inr x \<and> f x = Inl e)"
  by (cases m) simp_all

lemma bindR_assoc: "bindR (bindR m f) g = bindR m (\<lambda>x. bindR (f x) g)"
  by (cases m) simp_all

lemma bindR_cong [fundef_cong]:
  "m = m' \<Longrightarrow> (\<And>x. m' = Inr x \<Longrightarrow> f x = g x) \<Longrightarrow> bindR m f = bindR m' g"
  by (cases m') auto

section \<open>Integers\<close>

text \<open>
  Signed 64-bit values (\<open>int64\<close>, \<open>int\<close>, \<open>time.Duration\<close>) are integers, and every operation
  that can leave the range is wrapped by \<open>i64\<close>. Division truncates towards zero, as in Go.
\<close>

definition i64 :: "int \<Rightarrow> int" where
  "i64 x = (x + 2 ^ 63) mod 2 ^ 64 - 2 ^ 63"

definition in64 :: "int \<Rightarrow> bool" where
  "in64 x \<longleftrightarrow> - (2 ^ 63) \<le> x \<and> x < 2 ^ 63"

lemma i64_id [simp]: "in64 x \<Longrightarrow> i64 x = x"
  by (simp add: i64_def in64_def)

lemma in64_nonneg: "0 \<le> x \<Longrightarrow> x < 2 ^ 63 \<Longrightarrow> in64 x"
  by (simp add: in64_def)

lemma in64_diff: "0 \<le> x \<Longrightarrow> x < 2 ^ 62 \<Longrightarrow> 0 \<le> y \<Longrightarrow> y < 2 ^ 62 \<Longrightarrow> in64 (x - y)"
  by (simp add: in64_def)

lemma in64_i64 [simp]: "in64 (i64 x)"
  using pos_mod_bound [of "2 ^ 64" "x + 2 ^ 63"] pos_mod_sign [of "2 ^ 64" "x + 2 ^ 63"]
  by (simp add: i64_def in64_def)

definition add64 :: "int \<Rightarrow> int \<Rightarrow> int" where "add64 a b = i64 (a + b)"
definition sub64 :: "int \<Rightarrow> int \<Rightarrow> int" where "sub64 a b = i64 (a - b)"
definition mul64 :: "int \<Rightarrow> int \<Rightarrow> int" where "mul64 a b = i64 (a * b)"

definition quot64 :: "int \<Rightarrow> int \<Rightarrow> panic + int" where
  "quot64 a b = (if b = 0 then Inl DivZero else Inr (i64 (a sdiv b)))"

definition rem64 :: "int \<Rightarrow> int \<Rightarrow> panic + int" where
  "rem64 a b = (if b = 0 then Inl DivZero else Inr (a smod b))"

named_theorems go_arith \<open>unfolds the 64-bit operations where no wrap-around happens\<close>

lemma add64_id [go_arith]: "in64 (a + b) \<Longrightarrow> add64 a b = a + b"
  by (simp add: add64_def)

lemma sub64_id [go_arith]: "in64 (a - b) \<Longrightarrow> sub64 a b = a - b"
  by (simp add: sub64_def)

lemma mul64_id [go_arith]: "in64 (a * b) \<Longrightarrow> mul64 a b = a * b"
  by (simp add: mul64_def)

lemma quot64_pos [go_arith]:
  assumes "0 \<le> a" "0 < b" "in64 a"
  shows "quot64 a b = Inr (a div b)"
proof -
  have "0 \<le> a div b" "a div b \<le> a"
    using assms zdiv_mono2 [of a 1 b] by (simp_all add: pos_imp_zdiv_nonneg_iff)
  then have "in64 (a div b)" using assms by (simp add: in64_def)
  then show ?thesis
    using assms by (cases "a = 0") (simp_all add: quot64_def signed_divide_int_def)
qed

lemma rem64_pos [go_arith]: "0 \<le> a \<Longrightarrow> 0 < b \<Longrightarrow> rem64 a b = Inr (a mod b)"
  by (cases "a = 0") (simp_all add: rem64_def signed_modulo_int_def)

lemma rem64_total: "b \<noteq> 0 \<Longrightarrow> rem64 a b = Inr (a smod b)"
  by (simp add: rem64_def)

text \<open>The value of a 32-bit counter as an integer, and back.\<close>

lemma uint_u32_bounds: "0 \<le> uint (x :: u32)" "uint (x :: u32) < 2 ^ 32"
  using uint_range_size [of x] by (simp_all add: word_size)

lemma uint_u32_le: "uint (x :: u32) \<le> 4294967295"
  using uint_u32_bounds(2) [of x] by simp

lemma of_int_uint_u32 [simp]: "of_int (uint (x :: u32)) = x"
  by simp

section \<open>Slices\<close>

text \<open>Reading and writing a slice element: Go checks the (signed) index.\<close>

definition slice_get :: "'a list \<Rightarrow> int \<Rightarrow> panic + 'a" where
  "slice_get xs i = (if 0 \<le> i \<and> i < int (length xs) then Inr (xs ! nat i) else Inl IndexRange)"

definition slice_set :: "'a list \<Rightarrow> int \<Rightarrow> 'a \<Rightarrow> panic + 'a list" where
  "slice_set xs i x =
     (if 0 \<le> i \<and> i < int (length xs) then Inr (xs[nat i := x]) else Inl IndexRange)"

lemma slice_get_in: "0 \<le> i \<Longrightarrow> i < int (length xs) \<Longrightarrow> slice_get xs i = Inr (xs ! nat i)"
  by (simp add: slice_get_def)

lemma slice_set_in: "0 \<le> i \<Longrightarrow> i < int (length xs) \<Longrightarrow> slice_set xs i x = Inr (xs[nat i := x])"
  by (simp add: slice_set_def)

lemma slice_get_set:
  "slice_set xs i x = Inr ys \<Longrightarrow> slice_get ys j = (if i = j then Inr x else slice_get xs j)"
  by (auto simp: slice_set_def slice_get_def nth_list_update split: if_splits)

section \<open>Maps\<close>

text \<open>
  The contract of a Go map (and of \<open>sync.Map\<close> used from one operation at a time): what the
  components assume of look-up, store, delete and \<open>len\<close>. The model represents a map by an
  association list with distinct keys; the list order stands for the unspecified iteration
  order, so a theorem over every such list holds for every iteration order.
\<close>

locale go_map =
  fixes get :: "'m \<Rightarrow> 'k \<Rightarrow> 'v option"
    and put :: "'k \<Rightarrow> 'v \<Rightarrow> 'm \<Rightarrow> 'm"
    and del :: "'k \<Rightarrow> 'm \<Rightarrow> 'm"
    and len_of :: "'m \<Rightarrow> nat"
    and ok :: "'m \<Rightarrow> bool"
  assumes get_put: "get (put k v m) k' = (if k' = k then Some v else get m k')"
    and get_del: "get (del k m) k' = (if k' = k then None else get m k')"
    and ok_put: "ok m \<Longrightarrow> ok (put k v m)"
    and ok_del: "ok m \<Longrightarrow> ok (del k m)"
    and fin: "finite (dom (get m))"
    and len_card: "ok m \<Longrightarrow> len_of m = card (dom (get m))"
begin

lemma dom_put: "dom (get (put k v m)) = insert k (dom (get m))"
  by (auto simp: dom_def get_put)

lemma dom_del: "dom (get (del k m)) = dom (get m) - {k}"
  by (auto simp: dom_def get_del)

lemma len_put: "ok m \<Longrightarrow> len_of (put k v m) = (if get m k = None then Suc (len_of m) else len_of m)"
  using fin [of m] by (simp add: len_card ok_put dom_put card_insert_if domIff)

lemma len_del: "ok m \<Longrightarrow> len_of (del k m) = (if get m k = None then len_of m else len_of m - 1)"
  using fin [of m] by (simp add: len_card ok_del dom_del card_Diff_singleton_if domIff)

lemma len_zero_iff: "ok m \<Longrightarrow> len_of m = 0 \<longleftrightarrow> (\<forall>k. get m k = None)"
  by (auto simp: len_card fin)

lemma len_pos: "ok m \<Longrightarrow> get m k = Some v \<Longrightarrow> 0 < len_of m"
  using len_zero_iff [of m] by auto

end

abbreviation wf_map :: "('k \<times> 'v) list \<Rightarrow> bool" where
  "wf_map m \<equiv> distinct (map fst m)"

interpretation amap: go_map map_of AList.update AList.delete length wf_map
proof
  fix m :: "('a \<times> 'b) list"
  assume "wf_map m"
  then have "card (set (map fst m)) = length (map fst m)"
    by (rule distinct_card)
  then show "length m = card (dom (map_of m))"
    by (simp add: dom_map_of_conv_image_fst)
qed (auto simp: update_conv' delete_conv' distinct_update distinct_delete finite_dom_map_of)

lemmas map_simps = amap.get_put amap.get_del
lemmas map_wf = amap.ok_put amap.ok_del
lemmas map_len = amap.len_put amap.len_del

section \<open>Sums over lists\<close>

lemma sum_list_update_at:
  fixes xs :: "'a :: ab_group_add list"
  shows "i < length xs \<Longrightarrow> sum_list (xs[i := x]) = sum_list xs - xs ! i + x"
  by (induction xs arbitrary: i) (auto split: nat.splits simp: nth_Cons)

lemma sum_list_filter_map:
  "sum_list (map f (filter P xs)) = sum_list (map (\<lambda>x. if P x then f x else 0) xs)"
  for f :: "'a \<Rightarrow> 'b :: monoid_add"
  by (induction xs) auto

end
