(* ===== verification/Sliding_Window.thy ===== *)
theory Sliding_Window
  imports Limiter_Prelude
begin

text \<open>
  The sliding window of \<open>pkg/utils/sliding.go\<close>: an array of \<open>slideCount\<close> buckets, one per
  window of \<open>windowLengthMs\<close>, and a cached sum (\<open>StableSlideValue\<close>) of the buckets before the
  current one. The model follows one call at a time; the slow path that the code runs under the
  mutex is a definition of its own (\<open>resetAndReload\<close>), so that interleavings of two callers
  can be stated. The abstract specification is a log of the accepted amounts, and the main
  result is that \<open>AddAndGetCurrent\<close> refines it.
\<close>

section \<open>State\<close>

record Window =
  windowStart :: int
  counterValue :: u32

record StableSlideValue =
  curStartTimeMs :: int
  slideValue :: int

record SlidingWindow =
  windowLengthMs :: int
  intervalMs :: int
  windowArray :: "Window list"
  slideCount :: int
  stableValue :: StableSlideValue

definition zeroWindow :: Window where
  "zeroWindow = \<lparr>windowStart = 0, counterValue = 0\<rparr>"

section \<open>Operations\<close>

definition NewSlidingWindow :: "int \<Rightarrow> int \<Rightarrow> panic + SlidingWindow" where
  "NewSlidingWindow count interval =
     bindR (quot64 interval count) (\<lambda>len.
       if count < 0 then Inl MakeSlice
       else Inr \<lparr>windowLengthMs = len, intervalMs = interval,
                 windowArray = replicate (nat count) zeroWindow, slideCount = count,
                 stableValue = \<lparr>curStartTimeMs = 0, slideValue = 0\<rparr>\<rparr>)"

definition calculateWindowStart :: "SlidingWindow \<Rightarrow> int \<Rightarrow> panic + int" where
  "calculateWindowStart sw curTimeMs =
     bindR (rem64 curTimeMs (windowLengthMs sw)) (\<lambda>r. Inr (sub64 curTimeMs r))"

definition calculateTimeIdx :: "SlidingWindow \<Rightarrow> int \<Rightarrow> panic + int" where
  "calculateTimeIdx sw curTimeMs =
     bindR (quot64 curTimeMs (windowLengthMs sw)) (\<lambda>timeId. rem64 timeId (slideCount sw))"

text \<open>\<open>Window.reset\<close>: the compare-and-swap fails when another caller has reset the bucket.\<close>

definition window_reset :: "Window \<Rightarrow> int \<Rightarrow> int \<Rightarrow> u32 \<times> Window" where
  "window_reset b oldStart newStart =
     (if windowStart b = oldStart
      then (counterValue b, b\<lparr>windowStart := newStart, counterValue := 0\<rparr>)
      else (0, b))"

definition addAndGet :: "Window \<Rightarrow> u32 \<Rightarrow> u32 \<times> Window" where
  "addAndGet b c = (counterValue b + c, b\<lparr>counterValue := counterValue b + c\<rparr>)"

definition Value :: "StableSlideValue \<Rightarrow> u32" where
  "Value s = (if slideValue s < 0 then 0 else of_int (slideValue s))"

text \<open>\<open>currentWindow\<close> with \<open>reset = false\<close>: only looks the bucket up, as \<open>Reload\<close> uses it.\<close>

definition peekWindow :: "SlidingWindow \<Rightarrow> int \<Rightarrow> panic + int option" where
  "peekWindow sw curTimeMs =
     bindR (calculateTimeIdx sw curTimeMs) (\<lambda>idx.
     bindR (calculateWindowStart sw curTimeMs) (\<lambda>start.
     bindR (slice_get (windowArray sw) idx) (\<lambda>b.
       Inr (if windowStart b = start then Some idx else None))))"

definition reloadAll :: "int \<Rightarrow> int \<Rightarrow> Window list \<Rightarrow> int" where
  "reloadAll interval nextStartMs bs =
     foldl (\<lambda>v b. let diffTime = sub64 nextStartMs (windowStart b) in
                 if 0 < diffTime \<and> diffTime < interval
                 then add64 v (uint (counterValue b)) else v) 0 bs"

definition Reload :: "SlidingWindow \<Rightarrow> int \<Rightarrow> int \<Rightarrow> u32 \<Rightarrow> panic + SlidingWindow" where
  "Reload sw nextStartMs expiredStartMs expireValue =
     (let s = stableValue sw;
          timePassed = sub64 nextStartMs (curStartTimeMs s);
          expireTimePassed = sub64 (curStartTimeMs s) expiredStartMs;
          store = (\<lambda>v. Inr (sw\<lparr>stableValue := \<lparr>curStartTimeMs = nextStartMs, slideValue = v\<rparr>\<rparr>));
          traverse = (\<lambda>_ :: unit. store (reloadAll (intervalMs sw) nextStartMs (windowArray sw)))
      in if length (windowArray sw) = 1 then Inr sw
         else if timePassed \<le> 0 \<or> intervalMs sw \<le> timePassed then store 0
         else if timePassed = windowLengthMs sw then
           let v = (if 0 < expireTimePassed \<and> expireTimePassed < intervalMs sw
                    then sub64 (slideValue s) (uint expireValue) else slideValue s)
           in bindR (peekWindow sw (curStartTimeMs s)) (\<lambda>curBucket.
                case curBucket of
                  Some i \<Rightarrow> store (add64 v (uint (counterValue (windowArray sw ! nat i))))
                | None \<Rightarrow> traverse ())
         else traverse ())"

text \<open>The part of \<open>currentWindow\<close> that runs under the mutex.\<close>

definition resetAndReload :: "SlidingWindow \<Rightarrow> int \<Rightarrow> int \<Rightarrow> int \<Rightarrow> panic + SlidingWindow" where
  "resetAndReload sw idx oldStart start =
     (let (expiredCount, b') = window_reset (windowArray sw ! nat idx) oldStart start
      in Reload (sw\<lparr>windowArray := (windowArray sw)[nat idx := b']\<rparr>) start oldStart expiredCount)"

definition currentWindow :: "SlidingWindow \<Rightarrow> int \<Rightarrow> bool \<Rightarrow> panic + (int option \<times> SlidingWindow)" where
  "currentWindow sw curTimeMs reset =
     bindR (calculateTimeIdx sw curTimeMs) (\<lambda>idx.
     bindR (calculateWindowStart sw curTimeMs) (\<lambda>start.
     bindR (slice_get (windowArray sw) idx) (\<lambda>oldWindow.
       if windowStart oldWindow = start then Inr (Some idx, sw)
       else if \<not> reset then Inr (None, sw)
       else bindR (resetAndReload sw idx (windowStart oldWindow) start) (\<lambda>sw'.
              Inr (Some idx, sw')))))"

definition AddAndGetCurrent :: "SlidingWindow \<Rightarrow> int \<Rightarrow> int \<Rightarrow> u32 \<Rightarrow> panic + (u32 \<times> SlidingWindow)" where
  "AddAndGetCurrent sw clientTimeMs serverTimeMs counter =
     bindR (currentWindow sw serverTimeMs True) (\<lambda>(w, sw1).
     case w of
       None \<Rightarrow> Inl NilPointer
     | Some idx \<Rightarrow>
         bindR (calculateWindowStart sw1 clientTimeMs) (\<lambda>clientStart.
           let b = windowArray sw1 ! nat idx;
               (delta, b') = addAndGet b (if windowStart b = clientStart then counter else 0);
               sw2 = sw1\<lparr>windowArray := (windowArray sw1)[nat idx := b']\<rparr>
           in Inr (Value (stableValue sw2) + delta, sw2)))"

section \<open>Specification: a log of accepted amounts\<close>

text \<open>
  The log holds, for every call, the start of the window of the server time and the amount it
  adds: the reported amount when the client's time lies in the same window, else zero. The total
  at a window is the sum (modulo \<open>2\<^sup>3\<^sup>2\<close>) of the amounts of the last \<open>n\<close> windows.
\<close>

type_synonym slide_log = "(int \<times> u32) list"

definition slide_amount :: "int \<Rightarrow> int \<Rightarrow> int \<Rightarrow> u32 \<Rightarrow> u32" where
  "slide_amount wl clientMs serverMs c =
     (if sub64 clientMs (clientMs smod wl) = serverMs - serverMs mod wl then c else 0)"

definition window_total :: "slide_log \<Rightarrow> int \<Rightarrow> int \<Rightarrow> u32" where
  "window_total L lo hi = sum_list (map (\<lambda>(s, a). if lo < s \<and> s \<le> hi then a else 0) L)"

definition slot :: "int \<Rightarrow> int \<Rightarrow> int \<Rightarrow> int" where
  "slot n wl s = s div wl mod n"

definition log_at :: "int \<Rightarrow> int \<Rightarrow> slide_log \<Rightarrow> int \<Rightarrow> int \<Rightarrow> u32" where
  "log_at n wl L s i = sum_list (map (\<lambda>(s', a). if s' = s \<and> slot n wl s' = i then a else 0) L)"

text \<open>The parameters a valid rule gives: at least one window, windows no shorter than their number.\<close>

definition geom :: "int \<Rightarrow> int \<Rightarrow> int \<Rightarrow> bool" where
  "geom n wl iv \<longleftrightarrow> 1 \<le> n \<and> n \<le> 2 ^ 20 \<and> 1 \<le> wl \<and> n * wl \<le> iv \<and> iv < (n + 1) * wl \<and> iv < 2 ^ 62"

definition bucket_inv :: "int \<Rightarrow> int \<Rightarrow> slide_log \<Rightarrow> int \<Rightarrow> Window list \<Rightarrow> bool" where
  "bucket_inv n wl L cur arr \<longleftrightarrow>
     length arr = nat n \<and> 0 \<le> cur \<and> wl dvd cur \<and>
     (\<forall>(s, a) \<in> set L. 0 \<le> s \<and> s \<le> cur \<and> wl dvd s \<and> s \<le> windowStart (arr ! nat (slot n wl s))) \<and>
     (\<forall>i < nat n. 0 \<le> windowStart (arr ! i) \<and> windowStart (arr ! i) \<le> cur \<and> wl dvd windowStart (arr ! i) \<and>
        (slot n wl (windowStart (arr ! i)) = int i \<or> windowStart (arr ! i) = 0) \<and>
        counterValue (arr ! i) = log_at n wl L (windowStart (arr ! i)) (int i)) \<and>
     windowStart (arr ! nat (slot n wl cur)) = cur"

definition stable_sum :: "int \<Rightarrow> int \<Rightarrow> Window list \<Rightarrow> int" where
  "stable_sum iv cur arr =
     (\<Sum>i < length arr. if 0 < cur - windowStart (arr ! i) \<and> cur - windowStart (arr ! i) < iv
                       then uint (counterValue (arr ! i)) else 0)"

text \<open>The state of a window that has seen the calls of the log, the last one in window \<open>cur\<close>.\<close>

definition slide_rel :: "SlidingWindow \<Rightarrow> slide_log \<Rightarrow> int \<Rightarrow> bool" where
  "slide_rel sw L cur \<longleftrightarrow>
     geom (slideCount sw) (windowLengthMs sw) (intervalMs sw) \<and> cur < 2 ^ 62 \<and>
     bucket_inv (slideCount sw) (windowLengthMs sw) L cur (windowArray sw) \<and>
     (if slideCount sw = 1 then slideValue (stableValue sw) = 0
      else curStartTimeMs (stableValue sw) = cur \<and>
           slideValue (stableValue sw) = stable_sum (intervalMs sw) cur (windowArray sw))"

section \<open>Slots and windows\<close>

lemma slot_bounds: "1 \<le> n \<Longrightarrow> 0 \<le> slot n wl s \<and> slot n wl s < n"
  by (simp add: slot_def)

lemma slot_nat: "1 \<le> n \<Longrightarrow> nat (slot n wl s) < nat n \<and> int (nat (slot n wl s)) = slot n wl s"
  using slot_bounds [of n wl s] by auto

text \<open>Two window starts with the same slot that are less than \<open>n\<close> windows apart are equal.\<close>

lemma same_slot:
  assumes "1 \<le> n" "1 \<le> wl" "wl dvd s" "wl dvd t"
    and "slot n wl s = slot n wl t" "s \<le> t" "t - s < n * wl"
  shows "s = t"
proof -
  obtain p q where p: "s = wl * p" and q: "t = wl * q" using assms(3,4) by (auto elim!: dvdE)
  have "p mod n = q mod n" using assms p q by (simp add: slot_def)
  then have "n dvd q - p" by (metis mod_eq_dvd_iff)
  moreover have "q - p < n"
  proof -
    have "wl * (q - p) < wl * n" using assms(7) p q by (simp add: algebra_simps)
    then show ?thesis using assms(2) by (simp add: mult_less_cancel_left_pos)
  qed
  moreover have "0 \<le> q - p"
    using assms(2,6) p q by (simp add: mult_le_cancel_left_pos)
  ultimately have "q - p = 0" by (metis zdvd_imp_le less_le_not_le linorder_not_le order_le_less)
  then show ?thesis using p q by simp
qed

lemma slot_shift:
  assumes "1 \<le> wl" "wl dvd s"
  shows "slot n wl (s + m * wl) = (slot n wl s + m) mod n"
  using assms by (auto simp: slot_def mod_simps elim!: dvdE)

lemma multiple_between:
  assumes "1 \<le> wl" "wl dvd d" "m * wl < d + wl" "d < (m + 1) * wl"
  shows "d = m * (wl :: int)"
proof -
  obtain p where p: "d = wl * p" using assms(2) by (auto elim!: dvdE)
  have "wl * m < wl * (p + 1)" "wl * p < wl * (m + 1)"
    using assms(3,4) p by (simp_all add: algebra_simps)
  then have "m < p + 1" "p < m + 1"
    using assms(1) by (simp_all add: mult_less_cancel_left_pos)
  then show ?thesis using p by simp
qed

lemma sum_at:
  fixes f :: "nat \<Rightarrow> 'a :: comm_monoid_add"
  shows "k < n \<Longrightarrow> (\<Sum>i < n. if i = k then f i else 0) = f k"
  by (simp add: sum.delta')

lemma of_int_stable_sum:
  "of_int (stable_sum iv cur arr) =
     (\<Sum>i < length arr. if 0 < cur - windowStart (arr ! i) \<and> cur - windowStart (arr ! i) < iv
                       then counterValue (arr ! i) else 0)"
  unfolding stable_sum_def of_int_sum by (intro sum.cong refl) simp

lemma stable_sum_bounds:
  assumes "int (length arr) \<le> 2 ^ 20"
  shows "0 \<le> stable_sum iv cur arr" "stable_sum iv cur arr \<le> 2 ^ 52"
proof -
  show "0 \<le> stable_sum iv cur arr"
    unfolding stable_sum_def by (intro sum_nonneg) (simp add: uint_u32_bounds)
  have "stable_sum iv cur arr \<le> (\<Sum>i < length arr. 2 ^ 32)"
    unfolding stable_sum_def by (intro sum_mono) (auto intro: order_trans [OF uint_u32_le])
  also have "\<dots> \<le> 2 ^ 20 * 2 ^ 32" using assms by simp
  finally show "stable_sum iv cur arr \<le> 2 ^ 52" by simp
qed

section \<open>The buckets hold the log\<close>

lemma bucket_invD:
  assumes "bucket_inv n wl L cur arr" "i < nat n"
  shows "0 \<le> windowStart (arr ! i)" "windowStart (arr ! i) \<le> cur" "wl dvd windowStart (arr ! i)"
    "slot n wl (windowStart (arr ! i)) = int i \<or> windowStart (arr ! i) = 0"
    "counterValue (arr ! i) = log_at n wl L (windowStart (arr ! i)) (int i)"
  using assms unfolding bucket_inv_def by blast+

lemma bucket_inv_logD:
  assumes "bucket_inv n wl L cur arr" "(s, a) \<in> set L"
  shows "0 \<le> s" "s \<le> cur" "wl dvd s" "s \<le> windowStart (arr ! nat (slot n wl s))"
  using assms unfolding bucket_inv_def by blast+

lemma bucket_inv_curD:
  assumes "bucket_inv n wl L cur arr"
  shows "length arr = nat n" "0 \<le> cur" "wl dvd cur" "windowStart (arr ! nat (slot n wl cur)) = cur"
  using assms unfolding bucket_inv_def by blast+

lemma bucket_entry:
  assumes "bucket_inv n wl L cur arr" "1 \<le> n" "1 \<le> wl" "(s, a) \<in> set L" "cur - n * wl < s"
  shows "windowStart (arr ! nat (slot n wl s)) = s"
proof -
  let ?i = "nat (slot n wl s)"
  have i: "?i < nat n" "int ?i = slot n wl s" using slot_nat [OF assms(2)] by auto
  note s = bucket_inv_logD [OF assms(1,4)] and b = bucket_invD [OF assms(1) i(1)]
  from b(4) show ?thesis
  proof
    assume "slot n wl (windowStart (arr ! ?i)) = int ?i"
    then have "slot n wl s = slot n wl (windowStart (arr ! ?i))" using i(2) by simp
    then show ?thesis
      using same_slot [OF assms(2,3) s(3) b(3) _ s(4)] b(2) assms(5) by simp
  qed (use s in simp)
qed

text \<open>What one bucket contributes to the total of the log.\<close>

lemma total_by_bucket:
  assumes inv: "bucket_inv n wl L cur arr" and n: "1 \<le> n" and wl: "1 \<le> wl"
  shows "window_total L (cur - n * wl) cur =
     (\<Sum>i < nat n. if cur - n * wl < windowStart (arr ! i) then counterValue (arr ! i) else 0)"
proof -
  let ?lo = "cur - n * wl"
  define g where "g s i = (s = windowStart (arr ! i) \<and> slot n wl s = int i \<and> ?lo < windowStart (arr ! i))" for s i
  have entry: "(if ?lo < s \<and> s \<le> cur then a else 0) = (\<Sum>i < nat n. if g s i then a else 0)"
    if "(s, a) \<in> set L" for s a
  proof (cases "?lo < s")
    case True
    have "s \<le> cur" using that inv by (auto simp: bucket_inv_def)
    have "(\<Sum>i < nat n. if g s i then a else 0) = (\<Sum>i < nat n. if i = nat (slot n wl s) then a else 0)"
      by (intro sum.cong refl) (use bucket_entry [OF inv n wl that True] True slot_nat [OF n, of wl s] in \<open>auto simp: g_def\<close>)
    then show ?thesis using True \<open>s \<le> cur\<close> slot_nat [OF n, of wl s] by (simp add: sum_at)
  next
    case False
    then have "\<not> g s i" for i by (auto simp: g_def)
    with False show ?thesis by simp
  qed
  have "window_total L ?lo cur = (\<Sum>e \<leftarrow> L. \<Sum>i < nat n. if g (fst e) i then snd e else 0)"
    unfolding window_total_def
  proof (intro arg_cong [where f = sum_list] map_cong refl)
    fix e assume "e \<in> set L"
    then show "(case e of (s, a) \<Rightarrow> if ?lo < s \<and> s \<le> cur then a else 0) =
        (\<Sum>i < nat n. if g (fst e) i then snd e else 0)"
      using entry [of "fst e" "snd e"] by (simp add: case_prod_beta)
  qed
  also have "\<dots> = (\<Sum>i < nat n. \<Sum>e \<leftarrow> L. if g (fst e) i then snd e else 0)"
    by (induction L) (simp_all add: sum.distrib)
  also have "\<dots> = (\<Sum>i < nat n. if ?lo < windowStart (arr ! i) then counterValue (arr ! i) else 0)"
  proof (intro sum.cong refl)
    fix i assume "i \<in> {..<nat n}"
    then have "counterValue (arr ! i) = log_at n wl L (windowStart (arr ! i)) (int i)"
      using inv by (auto simp: bucket_inv_def)
    then show "(\<Sum>e \<leftarrow> L. if g (fst e) i then snd e else 0) =
        (if ?lo < windowStart (arr ! i) then counterValue (arr ! i) else 0)"
      by (auto simp: log_at_def g_def case_prod_beta intro!: arg_cong [where f = sum_list])
  qed
  finally show ?thesis .
qed

text \<open>A bucket whose start has another slot is one never used: its counter is zero.\<close>

lemma bucket_foreign:
  assumes "bucket_inv n wl L cur arr" "i < nat n" "slot n wl (windowStart (arr ! i)) \<noteq> int i"
  shows "windowStart (arr ! i) = 0" "counterValue (arr ! i) = 0"
proof -
  note * = bucket_invD(4,5) [OF assms(1,2)]
  then show "windowStart (arr ! i) = 0" using assms(3) by auto
  have "log_at n wl L (windowStart (arr ! i)) (int i) = 0"
    unfolding log_at_def using assms(3) by (induction L) auto
  then show "counterValue (arr ! i) = 0" using * by simp
qed

lemma bucket_total:
  assumes inv: "bucket_inv n wl L cur arr" and geom: "geom n wl iv"
  shows "of_int (stable_sum iv cur arr) + counterValue (arr ! nat (slot n wl cur)) =
    window_total L (cur - n * wl) cur"
proof -
  let ?k = "nat (slot n wl cur)"
  let ?c = "\<lambda>i. counterValue (arr ! i)" and ?t = "\<lambda>i. windowStart (arr ! i)"
  have g: "1 \<le> n" "1 \<le> wl" "n * wl \<le> iv" "iv < (n + 1) * wl" using geom by (auto simp: geom_def)
  have k: "?k < nat n" "int ?k = slot n wl cur" using slot_nat [OF g(1)] by auto
  have tk: "?t ?k = cur" and len: "length arr = nat n" and dc: "wl dvd cur"
    using inv by (auto simp: bucket_inv_def)
  have "0 < n * wl" using g by simp
  have term_eq: "(if 0 < cur - ?t i \<and> cur - ?t i < iv then ?c i else 0) + (if i = ?k then ?c i else 0)
      = (if cur - n * wl < ?t i then ?c i else 0)" if i: "i < nat n" for i
  proof (cases "i = ?k")
    case True
    then show ?thesis using tk \<open>0 < n * wl\<close> by simp
  next
    case False
    have t: "?t i \<le> cur" "wl dvd ?t i" using inv i by (auto simp: bucket_inv_def)
    show ?thesis
    proof (cases "slot n wl (?t i) = int i")
      case True
      have "?t i \<noteq> cur" using True False k(2) by auto
      moreover have "cur - ?t i \<noteq> n * wl"
      proof
        assume "cur - ?t i = n * wl"
        then have "cur = ?t i + n * wl" by simp
        then have "slot n wl cur = slot n wl (?t i)"
          using slot_shift [OF g(2) t(2), of n n] slot_bounds [OF g(1), of wl "?t i"] by simp
        then show False using True False by simp
      qed
      moreover have "cur - ?t i = n * wl" if "n * wl \<le> cur - ?t i" "cur - ?t i < iv"
        using that g t dc by (intro multiple_between [OF g(2)]) auto
      ultimately show ?thesis using False t(1) g(3) by (cases "cur - ?t i < iv") auto
    qed (use False bucket_foreign [OF inv i] in simp)
  qed
  have "of_int (stable_sum iv cur arr) + ?c ?k =
      (\<Sum>i < nat n. (if 0 < cur - ?t i \<and> cur - ?t i < iv then ?c i else 0) + (if i = ?k then ?c i else 0))"
    using k(1) by (simp add: of_int_stable_sum len sum.distrib sum_at)
  also have "\<dots> = (\<Sum>i < nat n. if cur - n * wl < ?t i then ?c i else 0)"
    by (intro sum.cong refl) (use term_eq in auto)
  finally show ?thesis using total_by_bucket [OF inv g(1,2)] by simp
qed

section \<open>What one call does to the buckets\<close>

lemma log_at_append:
  "log_at n wl (L @ [(s', a)]) s i = log_at n wl L s i + (if s' = s \<and> slot n wl s' = i then a else 0)"
  by (simp add: log_at_def)

lemma log_at_later:
  assumes "bucket_inv n wl L cur arr" "cur < s"
  shows "log_at n wl L s i = 0"
proof -
  have "\<forall>(s', a) \<in> set L. s' \<noteq> s" using bucket_inv_logD(2) [OF assms(1)] assms(2) by fastforce
  then show ?thesis unfolding log_at_def by (induction L) auto
qed

lemma reset_bucket_inv:
  assumes inv: "bucket_inv n wl L cur arr" and n: "1 \<le> n" and ws: "wl dvd ws" "cur < ws"
    and j: "j = nat (slot n wl ws)"
  shows "bucket_inv n wl L ws (arr[j := (arr ! j)\<lparr>windowStart := ws, counterValue := 0\<rparr>])"
    (is "bucket_inv n wl L ws ?arr")
proof -
  note cur = bucket_inv_curD [OF inv]
  have jn: "j < nat n" "int j = slot n wl ws" using slot_nat [OF n] j by auto
  have get: "?arr ! i = (if i = j then (arr ! j)\<lparr>windowStart := ws, counterValue := 0\<rparr> else arr ! i)"
    if "i < nat n" for i
    using that cur(1) by (simp add: nth_list_update)
  have log: "\<forall>(s, a) \<in> set L. 0 \<le> s \<and> s \<le> ws \<and> wl dvd s \<and> s \<le> windowStart (?arr ! nat (slot n wl s))"
  proof clarify
    fix s a assume "(s, a) \<in> set L"
    from bucket_inv_logD [OF inv this] show "0 \<le> s \<and> s \<le> ws \<and> wl dvd s \<and>
        s \<le> windowStart (?arr ! nat (slot n wl s))"
      using ws(2) slot_nat [OF n, of wl s] by (simp add: get)
  qed
  have buckets: "\<forall>i < nat n. 0 \<le> windowStart (?arr ! i) \<and> windowStart (?arr ! i) \<le> ws \<and>
      wl dvd windowStart (?arr ! i) \<and>
      (slot n wl (windowStart (?arr ! i)) = int i \<or> windowStart (?arr ! i) = 0) \<and>
      counterValue (?arr ! i) = log_at n wl L (windowStart (?arr ! i)) (int i)"
  proof clarify
    fix i assume i: "i < nat n"
    from bucket_invD [OF inv i] show "0 \<le> windowStart (?arr ! i) \<and> windowStart (?arr ! i) \<le> ws \<and>
      wl dvd windowStart (?arr ! i) \<and>
      (slot n wl (windowStart (?arr ! i)) = int i \<or> windowStart (?arr ! i) = 0) \<and>
      counterValue (?arr ! i) = log_at n wl L (windowStart (?arr ! i)) (int i)"
      using ws jn cur(2) log_at_later [OF inv ws(2)] by (simp add: get [OF i])
  qed
  show ?thesis
    unfolding bucket_inv_def using cur(1,2) ws log buckets jn by (simp add: j [symmetric] get)
qed

lemma add_bucket_inv:
  assumes inv: "bucket_inv n wl L cur arr" and n: "1 \<le> n" and j: "j = nat (slot n wl cur)"
  shows "bucket_inv n wl (L @ [(cur, a)]) cur
      (arr[j := (arr ! j)\<lparr>counterValue := counterValue (arr ! j) + a\<rparr>])"
    (is "bucket_inv n wl ?L cur ?arr")
proof -
  note cur = bucket_inv_curD [OF inv]
  have jn: "j < nat n" "int j = slot n wl cur" using slot_nat [OF n] j by auto
  have start: "windowStart (?arr ! i) = windowStart (arr ! i)" if "i < nat n" for i
    using that cur(1) by (cases "i = j") simp_all
  have tj: "windowStart (arr ! j) = cur" using cur(4) j by simp
  have log: "\<forall>(s, b) \<in> set ?L. 0 \<le> s \<and> s \<le> cur \<and> wl dvd s \<and> s \<le> windowStart (?arr ! nat (slot n wl s))"
    using bucket_inv_logD [OF inv] cur tj jn slot_nat [OF n] by (auto simp: start j [symmetric])
  have buckets: "\<forall>i < nat n. 0 \<le> windowStart (?arr ! i) \<and> windowStart (?arr ! i) \<le> cur \<and>
      wl dvd windowStart (?arr ! i) \<and>
      (slot n wl (windowStart (?arr ! i)) = int i \<or> windowStart (?arr ! i) = 0) \<and>
      counterValue (?arr ! i) = log_at n wl ?L (windowStart (?arr ! i)) (int i)"
  proof clarify
    fix i assume i: "i < nat n"
    from bucket_invD [OF inv i] show "0 \<le> windowStart (?arr ! i) \<and> windowStart (?arr ! i) \<le> cur \<and>
      wl dvd windowStart (?arr ! i) \<and>
      (slot n wl (windowStart (?arr ! i)) = int i \<or> windowStart (?arr ! i) = 0) \<and>
      counterValue (?arr ! i) = log_at n wl ?L (windowStart (?arr ! i)) (int i)"
      using i jn tj cur(1) by (auto simp: start log_at_append nth_list_update)
  qed
  show ?thesis
    unfolding bucket_inv_def using cur log buckets jn tj by (simp add: j [symmetric] start)
qed

lemma window_total_append:
  "window_total (L @ [(s, a)]) lo hi = window_total L lo hi + (if lo < s \<and> s \<le> hi then a else 0)"
  by (simp add: window_total_def)

section \<open>What the slow path does to the cached sum\<close>

lemma stable_sum_idle:
  assumes inv: "bucket_inv n wl L cur arr" and n: "1 \<le> n" and ws: "iv \<le> ws - cur" "0 < iv"
    and j: "j = nat (slot n wl ws)"
  shows "stable_sum iv ws (arr[j := (arr ! j)\<lparr>windowStart := ws, counterValue := 0\<rparr>]) = 0"
  unfolding stable_sum_def
proof (intro sum.neutral ballI)
  fix i assume "i \<in> {..<length (arr[j := (arr ! j)\<lparr>windowStart := ws, counterValue := 0\<rparr>])}"
  then have "i < nat n" using bucket_inv_curD(1) [OF inv] by simp
  with bucket_invD(2) [OF inv this] bucket_inv_curD(1) [OF inv] ws
  show "(if 0 < ws - windowStart (arr[j := (arr ! j)\<lparr>windowStart := ws, counterValue := 0\<rparr>] ! i) \<and>
      ws - windowStart (arr[j := (arr ! j)\<lparr>windowStart := ws, counterValue := 0\<rparr>] ! i) < iv
      then uint (counterValue (arr[j := (arr ! j)\<lparr>windowStart := ws, counterValue := 0\<rparr>] ! i)) else 0) = 0"
    by (cases "i = j") auto
qed

lemma next_slot_differs:
  assumes "2 \<le> n" "1 \<le> wl" "wl dvd cur"
  shows "slot n wl (cur + wl) \<noteq> slot n wl cur"
proof
  assume eq: "slot n wl (cur + wl) = slot n wl cur"
  have "1 * wl < n * wl" using assms by (intro mult_strict_right_mono) auto
  then have lt: "cur + wl - cur < n * wl" by simp
  have "cur = cur + wl"
    by (rule same_slot [OF _ assms(2,3) _ eq [symmetric] _ lt]) (use assms in simp_all)
  then show False using assms(2) by simp
qed

text \<open>A bucket kept by the next window is kept by the interval test, for all slots but two.\<close>

lemma kept_bucket:
  assumes geom: "geom n wl iv" and n: "2 \<le> n" and cur: "wl dvd cur"
    and t: "wl dvd t" "t \<le> cur" and slots: "slot n wl t \<noteq> slot n wl (cur + wl)" "slot n wl t \<noteq> slot n wl cur"
  shows "0 < cur - t \<and> cur - t < iv \<longleftrightarrow> 0 < cur + wl - t \<and> cur + wl - t < iv"
proof -
  have g: "1 \<le> wl" "n * wl \<le> iv" "iv < (n + 1) * wl" using geom by (auto simp: geom_def)
  have far: "cur - t \<noteq> m * wl" if m: "m = n \<or> m = n - 1" for m
  proof
    assume "cur - t = m * wl"
    then have *: "cur = t + m * wl" "cur + wl = t + (m + 1) * wl" by (simp_all add: algebra_simps)
    show False
    proof (cases "m = n")
      case True
      then have "slot n wl cur = (slot n wl t + n) mod n"
        using slot_shift [OF g(1) t(1), of n m] by (simp only: *(1))
      then show False using slots(2) slot_bounds [of n wl t] n by simp
    next
      case False
      then have "m + 1 = n" using m by simp
      then have "slot n wl (cur + wl) = (slot n wl t + n) mod n"
        using slot_shift [OF g(1) t(1), of n "m + 1"] by (simp only: *(2))
      then show False using slots(1) slot_bounds [of n wl t] n by simp
    qed
  qed
  have d: "wl dvd cur - t" using cur t by simp
  have "cur - t \<noteq> 0" using slots(2) by auto
  moreover have "cur + wl - t < iv" if "cur - t < iv"
  proof (rule ccontr)
    assume "\<not> cur + wl - t < iv"
    then have ge: "n * wl \<le> cur - t + wl" using g by simp
    show False
    proof (cases "cur - t < n * wl")
      case True
      have "cur - t = (n - 1) * wl"
      proof (intro multiple_between [OF g(1) d])
        show "(n - 1) * wl < cur - t + wl" using ge g(1) by (simp add: algebra_simps)
        show "cur - t < (n - 1 + 1) * wl" using True by simp
      qed
      then show False using far by blast
    next
      case False
      have "cur - t = n * wl"
        by (intro multiple_between [OF g(1) d]) (use False that g in \<open>auto simp: algebra_simps\<close>)
      then show False using far by blast
    qed
  qed
  ultimately show ?thesis using t(2) g(1) by auto
qed

lemma stable_sum_next:
  assumes inv: "bucket_inv n wl L cur arr" and geom: "geom n wl iv" and n: "2 \<le> n"
    and j: "j = nat (slot n wl (cur + wl))" and k: "k = nat (slot n wl cur)"
  shows "stable_sum iv (cur + wl) (arr[j := (arr ! j)\<lparr>windowStart := cur + wl, counterValue := 0\<rparr>]) =
    stable_sum iv cur arr
      - (if 0 < cur - windowStart (arr ! j) \<and> cur - windowStart (arr ! j) < iv then uint (counterValue (arr ! j)) else 0)
      + uint (counterValue (arr ! k))"
proof -
  let ?arr = "arr[j := (arr ! j)\<lparr>windowStart := cur + wl, counterValue := 0\<rparr>]"
  define f where "f c (b :: Window) = (if 0 < c - windowStart b \<and> c - windowStart b < iv then uint (counterValue b) else 0)" for c b
  have g: "1 \<le> wl" "n * wl \<le> iv" using geom by (auto simp: geom_def)
  have "1 * wl < n * wl" using n g by (intro mult_strict_right_mono) auto
  then have wl_iv: "wl < iv" using g(2) by simp
  note cur = bucket_inv_curD [OF inv]
  have n1: "1 \<le> n" using n by simp
  have jn: "j < nat n" "int j = slot n wl (cur + wl)" using slot_nat [OF n1] j by auto
  have kn: "k < nat n" "int k = slot n wl cur" using slot_nat [OF n1] k by auto
  have jk: "j \<noteq> k" using next_slot_differs [OF n g(1) cur(3)] jn(2) kn(2) by auto
  have tk: "windowStart (arr ! k) = cur" using cur(4) k by simp
  have same: "f (cur + wl) (arr ! i) = f cur (arr ! i)" if i: "i < nat n" "i \<noteq> j" "i \<noteq> k" for i
  proof (cases "slot n wl (windowStart (arr ! i)) = int i")
    case True
    then show ?thesis
      using kept_bucket [OF geom n cur(3) bucket_invD(3,2) [OF inv i(1)]] jn(2) kn(2) i
      by (simp add: f_def)
  qed (use bucket_foreign [OF inv i(1)] in \<open>simp add: f_def\<close>)
  let ?rest = "{..<nat n} - {j} - {k}"
  have "(\<Sum>i < nat n. f (cur + wl) (?arr ! i)) =
      f (cur + wl) (?arr ! j) + (f (cur + wl) (?arr ! k) + (\<Sum>i \<in> ?rest. f (cur + wl) (?arr ! i)))"
    using jn kn jk by (subst sum.remove [of _ j], simp_all, subst sum.remove [of _ k], simp_all)
  also have "f (cur + wl) (?arr ! j) = 0" using jn cur(1) by (simp add: f_def)
  also have "f (cur + wl) (?arr ! k) = uint (counterValue (arr ! k))"
    using jk tk wl_iv g(1) by (simp add: f_def)
  also have "(\<Sum>i \<in> ?rest. f (cur + wl) (?arr ! i)) = (\<Sum>i \<in> ?rest. f cur (arr ! i))"
    by (intro sum.cong refl) (use same in auto)
  finally have new: "(\<Sum>i < nat n. f (cur + wl) (?arr ! i)) =
      uint (counterValue (arr ! k)) + (\<Sum>i \<in> ?rest. f cur (arr ! i))" by simp
  have old: "(\<Sum>i < nat n. f cur (arr ! i)) = f cur (arr ! j) + (f cur (arr ! k) + (\<Sum>i \<in> ?rest. f cur (arr ! i)))"
    using jn kn jk by (subst sum.remove [of _ j], simp_all, subst sum.remove [of _ k], simp_all)
  have "f cur (arr ! k) = 0" using tk by (simp add: f_def)
  with new old cur(1) show ?thesis by (simp add: stable_sum_def f_def)
qed

lemma foldl_reload:
  assumes "0 \<le> v" "v + int (length bs) * 2 ^ 32 < 2 ^ 63" "\<forall>b \<in> set bs. in64 (t - windowStart b)"
  shows "foldl (\<lambda>v b. let diffTime = sub64 t (windowStart b) in
        if 0 < diffTime \<and> diffTime < iv then add64 v (uint (counterValue b)) else v) v bs =
    v + (\<Sum>b \<leftarrow> bs. if 0 < t - windowStart b \<and> t - windowStart b < iv then uint (counterValue b) else 0)"
  using assms
proof (induction bs arbitrary: v)
  case (Cons b bs)
  have c: "0 \<le> uint (counterValue b)" "uint (counterValue b) \<le> 4294967295"
    using uint_u32_bounds uint_u32_le by auto
  have len: "0 \<le> int (length bs) * 2 ^ 32" by simp
  have "v + int (length bs) * 2 ^ 32 + 2 ^ 32 < 2 ^ 63"
    using Cons.prems(2) by (simp add: algebra_simps)
  with len c(2) have "v + uint (counterValue b) < 2 ^ 63" by simp
  with Cons.prems(1) c(1) have "in64 (v + uint (counterValue b))"
    by (intro in64_nonneg add_nonneg_nonneg)
  then show ?case
    using Cons.prems c Cons.IH [of v] Cons.IH [of "v + uint (counterValue b)"]
    by (simp add: Let_def sub64_id add64_id algebra_simps)
qed simp

lemma reloadAll_eq:
  assumes "length arr \<le> 2 ^ 20" "\<forall>i < length arr. in64 (t - windowStart (arr ! i))"
  shows "reloadAll iv t arr = stable_sum iv t arr"
proof -
  have "int (length arr) * 2 ^ 32 \<le> 2 ^ 20 * 2 ^ 32"
    using assms(1) by (intro mult_right_mono) auto
  then show ?thesis
    unfolding reloadAll_def using assms
    by (subst foldl_reload) (auto simp: in_set_conv_nth stable_sum_def sum_list_sum_nth lessThan_atLeast0)
qed

section \<open>The operations refine the log\<close>

lemma slide_relD:
  assumes "slide_rel sw L cur"
  shows "1 \<le> slideCount sw" "1 \<le> windowLengthMs sw" "slideCount sw \<le> 2 ^ 20"
    "slideCount sw * windowLengthMs sw \<le> intervalMs sw"
    "intervalMs sw < 2 ^ 62" "cur < 2 ^ 62" "geom (slideCount sw) (windowLengthMs sw) (intervalMs sw)"
    "bucket_inv (slideCount sw) (windowLengthMs sw) L cur (windowArray sw)"
  using assms by (auto simp: slide_rel_def geom_def)

lemma slide_rel_value:
  assumes "slide_rel sw L cur"
  shows "slideCount sw = 1 \<Longrightarrow> slideValue (stableValue sw) = 0"
    "slideCount sw \<noteq> 1 \<Longrightarrow> curStartTimeMs (stableValue sw) = cur"
    "slideCount sw \<noteq> 1 \<Longrightarrow> slideValue (stableValue sw) = stable_sum (intervalMs sw) cur (windowArray sw)"
  using assms by (auto simp: slide_rel_def)

text \<open>The start of a window: a multiple of its length, in the slot of every time of the window.\<close>

lemma window_start_facts:
  assumes "1 \<le> wl" "0 \<le> t"
  shows "wl dvd t - t mod wl" "0 \<le> t - t mod wl" "t - t mod wl \<le> t" "slot n wl (t - t mod wl) = slot n wl t"
proof -
  show "wl dvd t - t mod wl" by (simp add: minus_mod_eq_mult_div)
  show "0 \<le> t - t mod wl" "t - t mod wl \<le> t"
    using assms zmod_le_nonneg_dividend [of t wl] by auto
  have "(t - t mod wl) div wl = t div wl"
    using assms by (simp add: minus_mod_eq_mult_div)
  then show "slot n wl (t - t mod wl) = slot n wl t" by (simp add: slot_def)
qed

lemma time_eqs:
  assumes "1 \<le> windowLengthMs sw" "1 \<le> slideCount sw" "0 \<le> t" "t < 2 ^ 62"
  shows "calculateTimeIdx sw t = Inr (slot (slideCount sw) (windowLengthMs sw) t)"
    "calculateWindowStart sw t = Inr (t - t mod windowLengthMs sw)"
proof -
  have t: "in64 t" using assms by (simp add: in64_def)
  have q: "0 \<le> t div windowLengthMs sw" using assms by (simp add: pos_imp_zdiv_nonneg_iff)
  show "calculateTimeIdx sw t = Inr (slot (slideCount sw) (windowLengthMs sw) t)"
    using assms t q by (simp add: calculateTimeIdx_def quot64_pos rem64_pos slot_def)
  have "in64 (t - t mod windowLengthMs sw)"
    using window_start_facts(2,3) [OF assms(1,3)] assms(4) by (simp add: in64_def)
  then show "calculateWindowStart sw t = Inr (t - t mod windowLengthMs sw)"
    using assms by (simp add: calculateWindowStart_def rem64_pos sub64_id)
qed

lemma Reload_rel:
  assumes rel: "slide_rel sw L cur" and ws: "windowLengthMs sw dvd ws" "cur < ws" "ws < 2 ^ 62"
    and j: "j = nat (slot (slideCount sw) (windowLengthMs sw) ws)" and b: "b = windowArray sw ! j"
    and arr: "arr' = (windowArray sw)[j := b\<lparr>windowStart := ws, counterValue := 0\<rparr>]"
  shows "\<exists>st. Reload (sw\<lparr>windowArray := arr'\<rparr>) ws (windowStart b) (counterValue b) =
      Inr (sw\<lparr>windowArray := arr', stableValue := st\<rparr>) \<and>
    (if slideCount sw = 1 then slideValue st = 0
     else st = \<lparr>curStartTimeMs = ws, slideValue = stable_sum (intervalMs sw) ws arr'\<rparr>)"
proof -
  let ?n = "slideCount sw" and ?wl = "windowLengthMs sw" and ?iv = "intervalMs sw"
  let ?s = "stableValue sw" and ?S = "stable_sum (intervalMs sw) cur (windowArray sw)"
  note D = slide_relD [OF rel] and V = slide_rel_value [OF rel]
  note cur = bucket_inv_curD [OF D(8)]
  have inv': "bucket_inv ?n ?wl L ws arr'"
    using reset_bucket_inv [OF D(8,1) ws(1,2) j] arr b by simp
  have len: "length arr' = nat ?n" using bucket_inv_curD(1) [OF inv'] .
  have jn: "j < nat ?n" using slot_nat [OF D(1)] j by auto
  note bj = bucket_invD [OF D(8) jn, folded b]
  show ?thesis
  proof (cases "?n = 1")
    case True
    then have "length arr' = 1" using len by simp
    with True V(1) show ?thesis by (intro exI [of _ ?s]) (simp add: Reload_def)
  next
    case False
    then have n2: "2 \<le> ?n" using D(1) by simp
    have "1 \<le> ?n * ?wl" using mult_mono [of 1 ?n 1 ?wl] D(1,2) by simp
    then have iv: "0 < ?iv" using D(4) by linarith
    have passed: "sub64 ws (curStartTimeMs ?s) = ws - cur"
      using V(2) [OF False] ws cur(2) D(6) by (simp add: sub64_id in64_diff)
    have epassed: "sub64 (curStartTimeMs ?s) (windowStart b) = cur - windowStart b"
      using V(2) [OF False] D(6) cur(2) bj(1,2) by (simp add: sub64_id in64_diff)
    have l1: "length arr' \<noteq> 1" using len n2 by simp
    have small: "length arr' \<le> 2 ^ 20" using len D(3) by simp
    have all: "reloadAll ?iv ws arr' = stable_sum ?iv ws arr'"
    proof (rule reloadAll_eq [OF small], intro allI impI)
      fix i assume "i < length arr'"
      then have "i < nat ?n" using len by simp
      from bucket_invD(1,2) [OF inv' this] show "in64 (ws - windowStart (arr' ! i))"
        using ws cur(2) by (intro in64_diff) auto
    qed
    consider "?iv \<le> ws - cur" | "ws - cur < ?iv" "ws - cur = ?wl" | "ws - cur < ?iv" "ws - cur \<noteq> ?wl"
      by linarith
    then show ?thesis
    proof cases
      case 1
      have "stable_sum ?iv ws arr' = 0"
        using stable_sum_idle [OF D(8,1) 1 iv j] arr b by simp
      with 1 False l1 passed show ?thesis
        by (intro exI [of _ "\<lparr>curStartTimeMs = ws, slideValue = 0\<rparr>"]) (simp add: Reload_def)
    next
      case 2
      then have ws_eq: "ws = cur + ?wl" by simp
      let ?k = "nat (slot ?n ?wl cur)"
      let ?v = "if 0 < cur - windowStart b \<and> cur - windowStart b < ?iv then uint (counterValue b) else 0"
      have k: "?k < nat ?n" "int ?k = slot ?n ?wl cur" using slot_nat [OF D(1)] by auto
      have "int j = slot ?n ?wl ws" using slot_nat [OF D(1), of ?wl ws] j by simp
      then have jk: "j \<noteq> ?k"
        using next_slot_differs [OF n2 D(2) cur(3)] k(2) unfolding ws_eq by metis
      have ak: "arr' ! ?k = windowArray sw ! ?k" using jk arr by simp
      have "calculateTimeIdx (sw\<lparr>windowArray := arr'\<rparr>) cur = Inr (slot ?n ?wl cur)"
        "calculateWindowStart (sw\<lparr>windowArray := arr'\<rparr>) cur = Inr cur"
        using time_eqs [of "sw\<lparr>windowArray := arr'\<rparr>" cur] D(1,2,6) cur(2,3) by (simp_all add: dvd_imp_mod_0)
      then have peek: "peekWindow (sw\<lparr>windowArray := arr'\<rparr>) cur = Inr (Some (slot ?n ?wl cur))"
        using slot_bounds [OF D(1), of ?wl cur] D(1) len ak cur(4)
        by (simp add: peekWindow_def slice_get_def)
      have next_sum: "stable_sum ?iv ws arr' = ?S - ?v + uint (counterValue (arr' ! ?k))"
        using stable_sum_next [OF D(8,7) n2 _ refl, of j] j arr b ak unfolding ws_eq by simp
      have "int (length (windowArray sw)) \<le> 2 ^ 20" using cur(1) D(3) by simp
      note sb = stable_sum_bounds [OF this, of ?iv cur]
      have "in64 (?S - uint (counterValue b))"
        by (rule in64_diff) (use sb uint_u32_bounds [of "counterValue b"] in simp_all)
      then have sub: "(if 0 < cur - windowStart b \<and> cur - windowStart b < ?iv
          then sub64 (slideValue ?s) (uint (counterValue b)) else slideValue ?s) = ?S - ?v"
        using V(3) [OF False] by (simp add: sub64_id)
      have "int (length arr') \<le> 2 ^ 20" using len D(3) by simp
      from stable_sum_bounds [OF this, of ?iv ws]
      have "in64 (?S - ?v + uint (counterValue (arr' ! ?k)))"
        unfolding next_sum [symmetric] by (simp add: in64_def)
      then have add: "add64 (?S - ?v) (uint (counterValue (arr' ! ?k))) = stable_sum ?iv ws arr'"
        by (simp add: add64_id next_sum)
      from 2 False l1 passed epassed sub add peek V(2) [OF False] ws show ?thesis
        by (intro exI [of _ "\<lparr>curStartTimeMs = ws, slideValue = stable_sum ?iv ws arr'\<rparr>"])
          (simp add: Reload_def Let_def)
    next
      case 3
      with False l1 passed all ws show ?thesis
        by (intro exI [of _ "\<lparr>curStartTimeMs = ws, slideValue = stable_sum ?iv ws arr'\<rparr>"])
          (simp add: Reload_def Let_def)
    qed
  qed
qed

lemma resetAndReload_rel:
  assumes rel: "slide_rel sw L cur" and ws: "windowLengthMs sw dvd ws" "cur < ws" "ws < 2 ^ 62"
    and idx: "idx = slot (slideCount sw) (windowLengthMs sw) ws"
  shows "\<exists>sw'. resetAndReload sw idx (windowStart (windowArray sw ! nat idx)) ws = Inr sw' \<and>
    slide_rel sw' L ws \<and> windowLengthMs sw' = windowLengthMs sw \<and> slideCount sw' = slideCount sw \<and>
    intervalMs sw' = intervalMs sw"
proof -
  let ?b = "windowArray sw ! nat idx"
  let ?arr = "(windowArray sw)[nat idx := ?b\<lparr>windowStart := ws, counterValue := 0\<rparr>]"
  note D = slide_relD [OF rel]
  have inv': "bucket_inv (slideCount sw) (windowLengthMs sw) L ws ?arr"
    using reset_bucket_inv [OF D(8,1) ws(1,2)] idx by simp
  obtain st where st: "Reload (sw\<lparr>windowArray := ?arr\<rparr>) ws (windowStart ?b) (counterValue ?b) =
      Inr (sw\<lparr>windowArray := ?arr, stableValue := st\<rparr>)"
    "if slideCount sw = 1 then slideValue st = 0
     else st = \<lparr>curStartTimeMs = ws, slideValue = stable_sum (intervalMs sw) ws ?arr\<rparr>"
    using Reload_rel [OF rel ws, of "nat idx"] idx by blast
  then have "resetAndReload sw idx (windowStart ?b) ws = Inr (sw\<lparr>windowArray := ?arr, stableValue := st\<rparr>)"
    by (simp add: resetAndReload_def window_reset_def)
  moreover have "slide_rel (sw\<lparr>windowArray := ?arr, stableValue := st\<rparr>) L ws"
    using st(2) inv' ws(3) D(7) by (auto simp: slide_rel_def)
  ultimately show ?thesis by simp
qed

text \<open>\<open>currentWindow\<close> returns the bucket of the server's time and moves the log to its window.\<close>

lemma currentWindow_rel:
  assumes rel: "slide_rel sw L cur" and t: "cur \<le> t" "t < 2 ^ 62"
  defines "ws \<equiv> t - t mod windowLengthMs sw"
  shows "\<exists>sw'. currentWindow sw t True = Inr (Some (slot (slideCount sw) (windowLengthMs sw) ws), sw') \<and>
    slide_rel sw' L ws \<and> windowLengthMs sw' = windowLengthMs sw \<and> slideCount sw' = slideCount sw \<and>
    intervalMs sw' = intervalMs sw"
proof -
  let ?n = "slideCount sw" and ?wl = "windowLengthMs sw"
  let ?i = "slot ?n ?wl ws"
  note D = slide_relD [OF rel]
  note cur = bucket_inv_curD [OF D(8)]
  have t0: "0 \<le> t" using cur(2) t(1) by simp
  note W = window_start_facts [OF D(2) t0, folded ws_def]
  have ws_cur: "cur \<le> ws"
  proof -
    have "cur div ?wl * ?wl \<le> t div ?wl * ?wl"
      using t(1) D(2) by (intro mult_right_mono zdiv_mono1) auto
    then show ?thesis using cur(3) by (simp add: ws_def minus_mod_eq_div_mult)
  qed
  note T = time_eqs [OF D(2,1) t0 t(2)]
  have i: "nat ?i < nat ?n" "0 \<le> ?i" "?i < ?n" using slot_nat [OF D(1)] slot_bounds [OF D(1)] by auto
  have get: "slice_get (windowArray sw) ?i = Inr (windowArray sw ! nat ?i)"
    using i cur(1) D(1) by (simp add: slice_get_def)
  have start: "calculateTimeIdx sw t = Inr ?i" "calculateWindowStart sw t = Inr ws"
    using T W(4) by (simp_all add: ws_def)
  show ?thesis
  proof (cases "windowStart (windowArray sw ! nat ?i) = ws")
    case True
    then have "ws = cur" using bucket_invD(2) [OF D(8) i(1)] ws_cur by simp
    with rel True get start show ?thesis by (simp add: currentWindow_def)
  next
    case False
    have "cur \<noteq> ws" using False cur(4) by auto
    then have "cur < ws" "ws < 2 ^ 62" using ws_cur W(3) t(2) by auto
    from resetAndReload_rel [OF rel W(1) this refl]
    show ?thesis using False get start by (auto simp: currentWindow_def)
  qed
qed

lemma AddAndGetCurrent_rel:
  fixes clientMs :: int and c :: u32
  assumes rel: "slide_rel sw L cur" and t: "cur \<le> t" "t < 2 ^ 62"
  defines "ws \<equiv> t - t mod windowLengthMs sw"
    and "L' \<equiv> L @ [(t - t mod windowLengthMs sw, slide_amount (windowLengthMs sw) clientMs t c)]"
  shows "\<exists>sw'. AddAndGetCurrent sw clientMs t c =
      Inr (window_total L' (ws - slideCount sw * windowLengthMs sw) ws, sw') \<and> slide_rel sw' L' ws \<and>
      windowLengthMs sw' = windowLengthMs sw \<and> slideCount sw' = slideCount sw \<and> intervalMs sw' = intervalMs sw"
proof -
  let ?n = "slideCount sw" and ?wl = "windowLengthMs sw"
  let ?i = "nat (slot ?n ?wl ws)"
  obtain sw1 where cw: "currentWindow sw t True = Inr (Some (slot ?n ?wl ws), sw1)"
    and rel1: "slide_rel sw1 L ws" and eq: "windowLengthMs sw1 = ?wl" "slideCount sw1 = ?n"
      "intervalMs sw1 = intervalMs sw"
    using currentWindow_rel [OF rel t] unfolding ws_def by blast
  note D = slide_relD [OF rel1, unfolded eq]
  note cur1 = bucket_inv_curD [OF D(8)]
  have wl0: "?wl \<noteq> 0" using D(2) by simp
  define b where "b = windowArray sw1 ! ?i"
  define a where "a = slide_amount ?wl clientMs t c"
  define arr where "arr = (windowArray sw1)[?i := b\<lparr>counterValue := counterValue b + a\<rparr>]"
  have L': "L' = L @ [(ws, a)]" by (simp add: L'_def a_def ws_def)
  have i: "?i < length (windowArray sw1)" using slot_nat [OF D(1), of ?wl ws] cur1(1) by simp
  have inv: "bucket_inv ?n ?wl L' ws arr"
    unfolding L' arr_def b_def by (rule add_bucket_inv [OF D(8,1) refl])
  define cs where "cs = sub64 clientMs (clientMs smod ?wl)"
  have cs: "calculateWindowStart sw1 clientMs = Inr cs"
    using wl0 eq by (simp add: calculateWindowStart_def rem64_total cs_def)
  have amount: "(if windowStart b = cs then c else 0) = a"
    using cur1(4) by (auto simp: a_def b_def slide_amount_def cs_def ws_def)
  have stable_eq: "stable_sum (intervalMs sw) ws arr = stable_sum (intervalMs sw) ws (windowArray sw1)"
    unfolding stable_sum_def
    by (intro sum.cong) (use cur1(4) i in \<open>auto simp: arr_def b_def nth_list_update\<close>)
  let ?sw' = "sw1\<lparr>windowArray := arr\<rparr>"
  have rel': "slide_rel ?sw' L' ws"
    using rel1 inv stable_eq D(7) eq by (auto simp: slide_rel_def)
  have add: "AddAndGetCurrent sw clientMs t c = Inr (Value (stableValue sw1) + (counterValue b + a), ?sw')"
    using cw cs amount by (simp add: AddAndGetCurrent_def addAndGet_def b_def arr_def Let_def)
  have cached: "Value (stableValue sw1) = of_int (stable_sum (intervalMs sw) ws arr)"
  proof (cases "?n = 1")
    case True
    then have "length arr = 1" using cur1(1) arr_def by simp
    moreover have "windowStart (arr ! 0) = ws"
      using bucket_inv_curD(4) [OF inv] True by (simp add: slot_def)
    ultimately have "stable_sum (intervalMs sw) ws arr = 0" by (simp add: stable_sum_def)
    then show ?thesis using slide_rel_value(1) [OF rel1] eq True by (simp add: Value_def)
  next
    case False
    have "0 \<le> stable_sum (intervalMs sw) ws arr"
      unfolding stable_sum_def by (intro sum_nonneg) (simp add: uint_u32_bounds)
    then show ?thesis
      using slide_rel_value(3) [OF rel1] eq False stable_eq by (simp add: Value_def)
  qed
  have "arr ! ?i = b\<lparr>counterValue := counterValue b + a\<rparr>" using i by (simp add: arr_def)
  then have "Value (stableValue sw1) + (counterValue b + a) = window_total L' (ws - ?n * ?wl) ws"
    using bucket_total [OF inv D(7)] cached by simp
  with add rel' eq show ?thesis by simp
qed

section \<open>Runs\<close>

text \<open>
  A run of calls \<open>(client time, server time, amount)\<close> over any implementation of the window,
  and what the log says the calls return.
\<close>

fun slide_calls :: "('w \<Rightarrow> int \<Rightarrow> int \<Rightarrow> u32 \<Rightarrow> panic + (u32 \<times> 'w)) \<Rightarrow> 'w \<Rightarrow> (int \<times> int \<times> u32) list
    \<Rightarrow> panic + (u32 list \<times> 'w)" where
  "slide_calls add w [] = Inr ([], w)"
| "slide_calls add w ((ct, t, c) # calls) =
     bindR (add w ct t c) (\<lambda>(r, w').
     bindR (slide_calls add w' calls) (\<lambda>(rs, w''). Inr (r # rs, w'')))"

fun slide_spec :: "int \<Rightarrow> int \<Rightarrow> slide_log \<Rightarrow> (int \<times> int \<times> u32) list \<Rightarrow> u32 list" where
  "slide_spec n wl L [] = []"
| "slide_spec n wl L ((ct, t, c) # calls) =
     (let ws = t - t mod wl; L' = L @ [(ws, slide_amount wl ct t c)]
      in window_total L' (ws - n * wl) ws # slide_spec n wl L' calls)"

fun times_from :: "int \<Rightarrow> (int \<times> int \<times> u32) list \<Rightarrow> bool" where
  "times_from t0 [] = True"
| "times_from t0 ((ct, t, c) # calls) = (t0 \<le> t \<and> t < 2 ^ 62 \<and> times_from t calls)"

lemma times_from_mono: "times_from t calls \<Longrightarrow> s \<le> t \<Longrightarrow> times_from s calls"
  by (induction t calls rule: times_from.induct) auto

text \<open>
  What the quota allocator relies on: a window that answers a call at a time not before its
  last window with the total of the log, and never panics there.
\<close>

locale usage_window =
  fixes add :: "'w \<Rightarrow> int \<Rightarrow> int \<Rightarrow> u32 \<Rightarrow> panic + (u32 \<times> 'w)"
    and rel :: "'w \<Rightarrow> slide_log \<Rightarrow> int \<Rightarrow> bool"
    and count_of :: "'w \<Rightarrow> int"
    and length_of :: "'w \<Rightarrow> int"
  assumes add_total: "rel w L cur \<Longrightarrow> cur \<le> t \<Longrightarrow> t < 2 ^ 62 \<Longrightarrow>
      ws = t - t mod length_of w \<Longrightarrow> L' = L @ [(ws, slide_amount (length_of w) ct t c)] \<Longrightarrow>
      \<exists>w'. add w ct t c = Inr (window_total L' (ws - count_of w * length_of w) ws, w') \<and>
        rel w' L' ws \<and> length_of w' = length_of w \<and> count_of w' = count_of w"
    and rel_length: "rel w L cur \<Longrightarrow> 1 \<le> length_of w"
    and rel_cur: "rel w L cur \<Longrightarrow> 0 \<le> cur"
begin

lemma window_le:
  assumes "rel w L cur" "cur \<le> t"
  shows "t - t mod length_of w \<le> t"
  using rel_length [OF assms(1)] rel_cur [OF assms(1)] assms(2) by simp

lemma run_total:
  "rel w L cur \<Longrightarrow> times_from cur calls \<Longrightarrow>
     \<exists>w'. slide_calls add w calls = Inr (slide_spec (count_of w) (length_of w) L calls, w')"
proof (induction calls arbitrary: w L cur)
  case (Cons call calls)
  obtain ct t c where call: "call = (ct, t, c)" by (cases call)
  define ws where "ws = t - t mod length_of w"
  define L' where "L' = L @ [(ws, slide_amount (length_of w) ct t c)]"
  have t: "cur \<le> t" "t < 2 ^ 62" "times_from t calls" using Cons.prems(2) call by auto
  obtain w' where w': "add w ct t c = Inr (window_total L' (ws - count_of w * length_of w) ws, w')"
    "rel w' L' ws" "length_of w' = length_of w" "count_of w' = count_of w"
    using add_total [OF Cons.prems(1) t(1,2) ws_def L'_def] by blast
  have "times_from ws calls"
    using times_from_mono [OF t(3)] window_le [OF Cons.prems(1) t(1)] by (simp add: ws_def)
  from Cons.IH [OF w'(2) this] w' show ?case
    by (auto simp: call Let_def ws_def L'_def)
qed simp

text \<open>A call with nothing to add reads the total and changes nothing that a later call can see.\<close>

lemma read_total:
  assumes "rel w L cur" "cur \<le> t" "t < 2 ^ 62" "ws = t - t mod length_of w"
  shows "\<exists>w'. add w ct t 0 = Inr (window_total L (ws - count_of w * length_of w) ws, w') \<and>
      rel w' (L @ [(ws, 0)]) ws"
proof -
  have "slide_amount (length_of w) ct t 0 = 0" by (simp add: slide_amount_def)
  then show ?thesis
    using add_total [OF assms refl, of ct 0] by (auto simp: window_total_append)
qed

end

interpretation sliding: usage_window AddAndGetCurrent slide_rel slideCount windowLengthMs
proof
  fix w :: SlidingWindow and L cur t ws L' ct and c :: u32
  assume "slide_rel w L cur" "cur \<le> t" "t < 2 ^ 62" "ws = t - t mod windowLengthMs w"
    "L' = L @ [(ws, slide_amount (windowLengthMs w) ct t c)]"
  then show "\<exists>w'. AddAndGetCurrent w ct t c =
      Inr (window_total L' (ws - slideCount w * windowLengthMs w) ws, w') \<and> slide_rel w' L' ws \<and>
      windowLengthMs w' = windowLengthMs w \<and> slideCount w' = slideCount w"
    using AddAndGetCurrent_rel [of w L cur t ct c] by blast
next
  fix w :: SlidingWindow and L cur
  assume "slide_rel w L cur"
  from slide_relD(2,8) [OF this] bucket_inv_curD(2)
  show "1 \<le> windowLengthMs w" "0 \<le> cur" by auto
qed

text \<open>A new window has seen nothing.\<close>

lemma NewSlidingWindow_ok:
  assumes "1 \<le> count" "count \<le> 2 ^ 20" "count * count \<le> interval" "interval < 2 ^ 62"
  shows "\<exists>sw. NewSlidingWindow count interval = Inr sw \<and> slide_rel sw [] 0 \<and>
    slideCount sw = count \<and> windowLengthMs sw = interval div count \<and> intervalMs sw = interval"
proof -
  let ?wl = "interval div count"
  let ?sw = "\<lparr>windowLengthMs = ?wl, intervalMs = interval,
                 windowArray = replicate (nat count) zeroWindow, slideCount = count,
                 stableValue = \<lparr>curStartTimeMs = 0, slideValue = 0\<rparr>\<rparr>"
  have "1 * 1 \<le> count * count" using assms(1) by (intro mult_mono) auto
  then have i: "1 \<le> interval" using assms(3) by linarith
  have wl: "count \<le> ?wl" using zdiv_mono1 [OF assms(3), of count] assms(1) by simp
  have "count * ?wl \<le> interval" "interval < count * ?wl + count"
    using assms(1) pos_mod_bound [of count interval] pos_mod_sign [of count interval]
    by (simp_all add: minus_mod_eq_mult_div [symmetric])
  then have geom: "geom count ?wl interval"
    using assms wl by (simp add: geom_def algebra_simps)
  have zero: "slot count ?wl 0 = 0" by (simp add: slot_def)
  have inv: "bucket_inv count ?wl [] 0 (replicate (nat count) zeroWindow)"
    using assms(1) zero by (auto simp: bucket_inv_def zeroWindow_def log_at_def)
  have "stable_sum interval 0 (replicate (nat count) zeroWindow) = 0"
    by (simp add: stable_sum_def zeroWindow_def)
  then have "slide_rel ?sw [] 0" using geom inv by (simp add: slide_rel_def)
  moreover have "NewSlidingWindow count interval = Inr ?sw"
    using assms(1,4) i by (simp add: NewSlidingWindow_def quot64_pos in64_def)
  ultimately show ?thesis by simp
qed

section \<open>Properties\<close>

text \<open>C4: Refinement of the usage log. For a valid geometry, every sequence of reports whose server
  times do not go back runs without a panic, and each report is answered with the sum of the
  accepted amounts of the last \<open>count\<close> windows, as the log specification computes it.\<close>
theorem sliding_window_refines_log:
  assumes "1 \<le> count" "count \<le> 2 ^ 20" "count * count \<le> interval" "interval < 2 ^ 62"
    and "times_from 0 calls"
  shows "\<exists>sw sw'. NewSlidingWindow count interval = Inr sw \<and>
    slide_calls AddAndGetCurrent sw calls = Inr (slide_spec count (interval div count) [] calls, sw')"
proof -
  obtain sw where sw: "NewSlidingWindow count interval = Inr sw" "slide_rel sw [] 0"
    "slideCount sw = count" "windowLengthMs sw = interval div count"
    using NewSlidingWindow_ok [OF assms(1-4)] by blast
  then show ?thesis using sliding.run_total [OF sw(2) assms(5)] by auto
qed

text \<open>Two windows of 500 ms: the report at 1200 no longer counts the first one, and the late report
  (client time 100, server time 1300) adds nothing.\<close>
lemma sliding_window_refines_log_witness:
  "\<exists>sw sw'. NewSlidingWindow 2 1000 = Inr sw \<and>
     slide_calls AddAndGetCurrent sw [(100, 100, 3), (700, 700, 4), (1200, 1200, 1), (100, 1300, 9)] =
       Inr ([3, 7, 5, 5], sw')"
  using sliding_window_refines_log [of 2 1000 "[(100, 100, 3), (700, 700, 4), (1200, 1200, 1), (100, 1300, 9)]"]
  by (simp add: window_total_def slide_amount_def sub64_def in64_def smod_int_range signed_modulo_int_def)

text \<open>C13: The race at a window change. Two reports that both see the old window before either takes
  the lock run the locked section one after the other. The first leaves the window in step with
  its log; the second takes the zero time difference for a clock that went back and clears the
  cached sum of all earlier windows.\<close>
theorem concurrent_reset_drops_history:
  assumes "slide_rel sw L cur" "slideCount sw \<noteq> 1"
    and "windowLengthMs sw dvd ws" "cur < ws" "ws < 2 ^ 62"
    and "idx = slot (slideCount sw) (windowLengthMs sw) ws"
    and "old = windowStart (windowArray sw ! nat idx)"
  shows "\<exists>sw1 sw2. resetAndReload sw idx old ws = Inr sw1 \<and> slide_rel sw1 L ws \<and>
    slideValue (stableValue sw1) = stable_sum (intervalMs sw1) ws (windowArray sw1) \<and>
    resetAndReload sw1 idx old ws = Inr sw2 \<and> windowArray sw2 = windowArray sw1 \<and>
    slideValue (stableValue sw2) = 0"
proof -
  note D = slide_relD [OF assms(1)]
  obtain sw1 where sw1: "resetAndReload sw idx old ws = Inr sw1" "slide_rel sw1 L ws"
    "windowLengthMs sw1 = windowLengthMs sw" "slideCount sw1 = slideCount sw"
    using resetAndReload_rel [OF assms(1,3-6)] assms(7) by auto
  note D1 = slide_relD [OF sw1(2)] and V1 = slide_rel_value [OF sw1(2)]
  have n: "slideCount sw1 \<noteq> 1" using sw1(4) assms(2) by simp
  have len: "length (windowArray sw1) = nat (slideCount sw1)" and start: "windowStart (windowArray sw1 ! nat idx) = ws"
    using bucket_inv_curD [OF D1(8)] assms(6) sw1(3,4) by simp_all
  have idx: "nat idx < length (windowArray sw)"
    using slot_nat [OF D(1)] bucket_inv_curD(1) [OF D(8)] assms(6) by simp
  have "old \<le> cur"
    using bucket_invD(2) [OF D(8)] idx bucket_inv_curD(1) [OF D(8)] assms(7) by simp
  then have "ws \<noteq> old" using assms(4) by simp
  then have "resetAndReload sw1 idx old ws =
      Inr (sw1\<lparr>stableValue := \<lparr>curStartTimeMs = ws, slideValue = 0\<rparr>\<rparr>)"
    using start V1(2) n len D1(1)
    by (simp add: resetAndReload_def window_reset_def Reload_def Let_def sub64_def in64_def)
  then show ?thesis using sw1(1,2) V1(3) n by simp
qed

text \<open>Three of a quota are used in the first of two windows; the second caller at 500 forgets them.\<close>
lemma concurrent_reset_drops_history_witness:
  "\<exists>sw sw1 sw2. (\<exists>w. NewSlidingWindow 2 1000 = Inr w \<and> AddAndGetCurrent w 100 100 3 = Inr (3, sw)) \<and>
     resetAndReload sw 1 0 500 = Inr sw1 \<and> slideValue (stableValue sw1) = 3 \<and>
     resetAndReload sw1 1 0 500 = Inr sw2 \<and> slideValue (stableValue sw2) = 0"
proof -
  let ?w = "\<lparr>windowLengthMs = 500, intervalMs = 1000, windowArray = [zeroWindow, zeroWindow], slideCount = 2,
     stableValue = \<lparr>curStartTimeMs = 0, slideValue = 0\<rparr>\<rparr>"
  let ?sw = "?w\<lparr>windowArray := [\<lparr>windowStart = 0, counterValue = 3\<rparr>, zeroWindow]\<rparr>"
  have new: "NewSlidingWindow 2 1000 = Inr ?w"
    by (simp add: NewSlidingWindow_def quot64_pos in64_def numeral_2_eq_2)
  have rel: "slide_rel ?w [] 0" using NewSlidingWindow_ok [of 2 1000] new by auto
  have add: "AddAndGetCurrent ?w 100 100 3 = Inr (3, ?sw)"
    by (simp add: zeroWindow_def AddAndGetCurrent_def currentWindow_def calculateTimeIdx_def
        calculateWindowStart_def slice_get_def addAndGet_def Value_def quot64_pos rem64_pos sub64_def in64_def)
  have "slide_rel ?sw [(0, slide_amount 500 100 100 3)] 0"
    using AddAndGetCurrent_rel [OF rel, of 100 100 3] add by auto
  from concurrent_reset_drops_history [OF this, of 500 1 0] obtain sw1 sw2 where
    r: "resetAndReload ?sw 1 0 500 = Inr sw1" "resetAndReload sw1 1 0 500 = Inr sw2"
      "slideValue (stableValue sw2) = 0"
    by (auto simp: slot_def zeroWindow_def)
  have "resetAndReload ?sw 1 0 500 = Inr (?sw\<lparr>windowArray := [\<lparr>windowStart = 0, counterValue = 3\<rparr>,
      \<lparr>windowStart = 500, counterValue = 0\<rparr>], stableValue := \<lparr>curStartTimeMs = 500, slideValue = 3\<rparr>\<rparr>)"
    by (simp add: zeroWindow_def resetAndReload_def window_reset_def Reload_def peekWindow_def
        calculateTimeIdx_def calculateWindowStart_def slice_get_def quot64_pos rem64_pos sub64_def add64_def in64_def)
  then have "slideValue (stableValue sw1) = 3" using r(1) by auto
  then show ?thesis using new add r by blast
qed

end
