(* ===== verification/Labels.thy ===== *)
theory Labels
  imports Limiter_Prelude "HOL-Library.Sublist"
begin

text \<open>
  \<open>pkg/utils/stat.go\<close>: the client sends the label values of a rule as one string of items
  separated by a bar; \<open>ParseLabels\<close> takes the method, the application id and the user id out of
  it and keeps the rest. Strings are lists of characters, as in Go where the separators and
  prefixes used here are single bytes that occur in no other UTF-8 character.
\<close>

section \<open>The string functions of Go that the parser uses\<close>

fun strings_split :: "char \<Rightarrow> string \<Rightarrow> string list" where
  "strings_split sep [] = [[]]"
| "strings_split sep (c # cs) =
     (if c = sep then [] # strings_split sep cs
      else (case strings_split sep cs of
              [] \<Rightarrow> [[c]]
            | item # items \<Rightarrow> (c # item) # items))"

fun strings_join :: "char \<Rightarrow> string list \<Rightarrow> string" where
  "strings_join sep [] = []"
| "strings_join sep [item] = item"
| "strings_join sep (item # items) = item @ sep # strings_join sep items"

lemma strings_split_nonempty: "strings_split sep s \<noteq> []"
  by (induction s) (auto split: list.splits)

lemma strings_join_Cons: "items \<noteq> [] \<Longrightarrow> strings_join sep (item # items) = item @ sep # strings_join sep items"
  by (cases items) simp_all

lemma strings_join_push: "items \<noteq> [] \<Longrightarrow>
    strings_join sep ((c # item) # items) = c # strings_join sep (item # items)"
  by (cases items) simp_all

lemma join_split: "strings_join sep (strings_split sep s) = s"
proof (induction s)
  case (Cons c cs)
  obtain item items where "strings_split sep cs = item # items"
    using strings_split_nonempty by (meson neq_Nil_conv)
  with Cons show ?case
    by (cases items) (auto simp: strings_join_Cons)
qed simp

lemma split_item_free: "item \<in> set (strings_split sep s) \<Longrightarrow> sep \<notin> set item"
  by (induction s arbitrary: item) (auto split: list.splits if_splits)

lemma split_free: "sep \<notin> set s \<Longrightarrow> strings_split sep s = [s]"
  by (induction s) auto

lemma split_append: "sep \<notin> set item \<Longrightarrow> strings_split sep (item @ sep # s) = item # strings_split sep s"
  by (induction item) auto

lemma split_join:
  "items \<noteq> [] \<Longrightarrow> \<forall>item \<in> set items. sep \<notin> set item \<Longrightarrow> strings_split sep (strings_join sep items) = items"
proof (induction sep items rule: strings_join.induct)
  case (3 sep item next_item items)
  then show ?case by (simp add: split_append)
qed (auto simp: split_free)

section \<open>The parser\<close>

record SubLabels =
  Method :: string
  AppId :: string
  Uin :: string
  Labels :: string

definition splitItems :: char where "splitItems = CHR ''|''"
definition methodPrefix :: string where "methodPrefix = ''method:''"
definition appIdPrefix :: string where "appIdPrefix = ''appid:''"
definition uinPrefix :: string where "uinPrefix = ''uin:''"

text \<open>
  One item of the first loop: whether it is excluded from the rest, and the labels after it.
\<close>

definition parse_item :: "string \<Rightarrow> SubLabels \<Rightarrow> bool \<times> SubLabels" where
  "parse_item item sub =
     (if prefix methodPrefix item then (True, sub\<lparr>Method := drop (length methodPrefix) item\<rparr>)
      else if prefix appIdPrefix item then (True, sub\<lparr>AppId := drop (length appIdPrefix) item\<rparr>)
      else if prefix uinPrefix item then (True, sub\<lparr>Uin := drop (length uinPrefix) item\<rparr>)
      else (False, sub))"

fun parse_items :: "nat \<Rightarrow> string list \<Rightarrow> nat list \<times> SubLabels \<Rightarrow> nat list \<times> SubLabels" where
  "parse_items i [] st = st"
| "parse_items i (item # items) (excludeItems, sub) =
     (let (excluded, sub') = parse_item item sub
      in parse_items (Suc i) items ((if excluded then excludeItems @ [i] else excludeItems), sub'))"

fun rest_items :: "nat \<Rightarrow> nat list \<Rightarrow> string list \<Rightarrow> string list" where
  "rest_items i excludeItems [] = []"
| "rest_items i excludeItems (item # items) =
     (if i \<in> set excludeItems then rest_items (Suc i) excludeItems items
      else item # rest_items (Suc i) excludeItems items)"

definition ParseLabels :: "string \<Rightarrow> SubLabels" where
  "ParseLabels composedLabels =
     (let items = strings_split splitItems composedLabels;
          (excludeItems, subLabels) =
            parse_items 0 items ([], \<lparr>Method = [], AppId = [], Uin = [], Labels = []\<rparr>)
      in if length excludeItems = 0 then subLabels\<lparr>Labels := composedLabels\<rparr>
         else if length excludeItems = length items then subLabels
         else subLabels\<lparr>Labels := strings_join splitItems (rest_items 0 excludeItems items)\<rparr>)"

section \<open>What it computes\<close>

definition reserved :: "string \<Rightarrow> bool" where
  "reserved item \<longleftrightarrow> prefix methodPrefix item \<or> prefix appIdPrefix item \<or> prefix uinPrefix item"

text \<open>The last value of a prefix wins; a prefix that no item has leaves the value empty.\<close>

definition last_value :: "string \<Rightarrow> string list \<Rightarrow> string" where
  "last_value p items =
     (case filter (prefix p) items of [] \<Rightarrow> [] | xs \<Rightarrow> drop (length p) (last xs))"

lemma prefixes_apart:
  "prefix methodPrefix item \<Longrightarrow> \<not> prefix appIdPrefix item"
  "prefix methodPrefix item \<Longrightarrow> \<not> prefix uinPrefix item"
  "prefix appIdPrefix item \<Longrightarrow> \<not> prefix uinPrefix item"
  by (auto simp: methodPrefix_def appIdPrefix_def uinPrefix_def elim!: prefixE)

lemma fst_parse_item [simp]: "fst (parse_item item sub) = reserved item"
  by (simp add: parse_item_def reserved_def)

lemma parse_item_fields:
  "Method (snd (parse_item item sub)) = (if prefix methodPrefix item then drop (length methodPrefix) item else Method sub)"
  "AppId (snd (parse_item item sub)) = (if prefix appIdPrefix item then drop (length appIdPrefix) item else AppId sub)"
  "Uin (snd (parse_item item sub)) = (if prefix uinPrefix item then drop (length uinPrefix) item else Uin sub)"
  "Labels (snd (parse_item item sub)) = Labels sub"
  by (auto simp: parse_item_def prefixes_apart)

text \<open>The index list of the loop is that of the reserved items.\<close>

fun reserved_at :: "nat \<Rightarrow> string list \<Rightarrow> nat list" where
  "reserved_at i [] = []"
| "reserved_at i (item # items) =
     (if reserved item then i # reserved_at (Suc i) items else reserved_at (Suc i) items)"

lemma parse_items_step:
  "parse_items i (item # items) (ex, sub) =
     parse_items (Suc i) items ((if reserved item then ex @ [i] else ex), snd (parse_item item sub))"
  by (simp add: case_prod_beta)

lemma parse_items_exclude: "fst (parse_items i items (ex, sub)) = ex @ reserved_at i items"
proof (induction items arbitrary: i ex sub)
  case (Cons item items)
  then show ?case unfolding parse_items_step by simp
qed simp

text \<open>\<open>last_or\<close> is \<open>last_value\<close> with the value an earlier item has left.\<close>

definition last_or :: "string \<Rightarrow> string \<Rightarrow> string list \<Rightarrow> string" where
  "last_or d p items =
     (case filter (prefix p) items of [] \<Rightarrow> d | xs \<Rightarrow> drop (length p) (last xs))"

lemma last_or_Nil [simp]: "last_or d p [] = d"
  by (simp add: last_or_def)

lemma last_or_Cons:
  "last_or d p (item # items) = last_or (if prefix p item then drop (length p) item else d) p items"
  by (auto simp: last_or_def split: list.splits)

lemma last_value_or: "last_value p items = last_or [] p items"
  by (simp add: last_value_def last_or_def)

lemma parse_items_fields:
  "snd (parse_items i items (ex, sub)) =
     sub\<lparr>Method := last_or (Method sub) methodPrefix items,
         AppId := last_or (AppId sub) appIdPrefix items,
         Uin := last_or (Uin sub) uinPrefix items\<rparr>"
proof (induction items arbitrary: i ex sub)
  case (Cons item items)
  have eta: "snd (parse_item item sub) =
     sub\<lparr>Method := Method (snd (parse_item item sub)), AppId := AppId (snd (parse_item item sub)),
         Uin := Uin (snd (parse_item item sub))\<rparr>"
    by (simp add: parse_item_def)
  show ?case
    unfolding parse_items_step Cons.IH last_or_Cons
    by (subst eta) (simp add: parse_item_fields)
qed simp

lemma reserved_at_ge: "j \<in> set (reserved_at i items) \<Longrightarrow> i \<le> j"
  by (induction items arbitrary: i) (auto split: if_splits dest: Suc_leD)

lemma rest_items_reserved:
  "\<forall>k. i \<le> k \<longrightarrow> (k \<in> set ex \<longleftrightarrow> k \<in> set (reserved_at i items)) \<Longrightarrow>
     rest_items i ex items = filter (\<lambda>item. \<not> reserved item) items"
proof (induction items arbitrary: i)
  case (Cons item items)
  have "\<forall>k. Suc i \<le> k \<longrightarrow> (k \<in> set ex \<longleftrightarrow> k \<in> set (reserved_at (Suc i) items))"
    using Cons.prems by (auto split: if_splits)
  note IH = Cons.IH [OF this]
  have "i \<in> set ex \<longleftrightarrow> reserved item"
    using Cons.prems reserved_at_ge [of i "Suc i" items] by auto
  with IH show ?case by auto
qed simp

lemma length_reserved_at: "length (reserved_at i items) = length (filter reserved items)"
  by (induction items arbitrary: i) auto

lemma length_filter_all: "length (filter P xs) = length xs \<longleftrightarrow> (\<forall>x \<in> set xs. P x)"
  by (metis filter_True length_filter_less less_irrefl)

lemma ParseLabels_parts:
  assumes "items = strings_split splitItems s"
  shows "ParseLabels s =
    \<lparr>Method = last_value methodPrefix items, AppId = last_value appIdPrefix items,
     Uin = last_value uinPrefix items,
     Labels = strings_join splitItems (filter (\<lambda>item. \<not> reserved item) items)\<rparr>"
proof -
  let ?empty = "\<lparr>Method = [], AppId = [], Uin = [], Labels = []\<rparr> :: SubLabels"
  define r where "r = parse_items 0 items ([], ?empty)"
  have ex: "fst r = reserved_at 0 items" unfolding r_def parse_items_exclude by simp
  have sub: "snd r = ?empty\<lparr>Method := last_value methodPrefix items,
      AppId := last_value appIdPrefix items, Uin := last_value uinPrefix items\<rparr>"
    unfolding r_def parse_items_fields last_value_or by simp
  have none: "filter (\<lambda>item. \<not> reserved item) items = items" if "length (fst r) = 0"
    using that by (auto simp: ex length_reserved_at filter_empty_conv intro!: filter_True)
  have all: "filter (\<lambda>item. \<not> reserved item) items = []" if "length (fst r) = length items"
    using that by (auto simp: ex length_reserved_at length_filter_all filter_empty_conv)
  have rest: "rest_items 0 (fst r) items = filter (\<lambda>item. \<not> reserved item) items"
    by (rule rest_items_reserved) (simp add: ex)
  have P: "ParseLabels s =
     (if length (fst r) = 0 then (snd r)\<lparr>Labels := s\<rparr>
      else if length (fst r) = length items then snd r
      else (snd r)\<lparr>Labels := strings_join splitItems (rest_items 0 (fst r) items)\<rparr>)"
    by (simp add: ParseLabels_def assms r_def case_prod_beta Let_def)
  have join: "strings_join splitItems items = s" by (simp add: assms join_split)
  show ?thesis
    using none all rest by (auto simp: P sub join)
qed

text \<open>The composed label a client with these parts and no reserved item in the rest sends.\<close>

definition compose_labels :: "string \<Rightarrow> string \<Rightarrow> string \<Rightarrow> string list \<Rightarrow> string" where
  "compose_labels m a u rest =
     strings_join splitItems ([methodPrefix @ m, appIdPrefix @ a, uinPrefix @ u] @ rest)"

definition plain :: "string \<Rightarrow> bool" where
  "plain s \<longleftrightarrow> splitItems \<notin> set s"

lemma prefix_parts:
  "prefix methodPrefix (methodPrefix @ s)" "prefix appIdPrefix (appIdPrefix @ s)"
  "prefix uinPrefix (uinPrefix @ s)"
  "\<not> prefix methodPrefix (appIdPrefix @ s)" "\<not> prefix methodPrefix (uinPrefix @ s)"
  "\<not> prefix appIdPrefix (methodPrefix @ s)" "\<not> prefix appIdPrefix (uinPrefix @ s)"
  "\<not> prefix uinPrefix (methodPrefix @ s)" "\<not> prefix uinPrefix (appIdPrefix @ s)"
  by (simp_all add: methodPrefix_def appIdPrefix_def uinPrefix_def)

lemma filter_prefix_rest:
  assumes "\<forall>item \<in> set rest. \<not> reserved item"
  shows "filter (prefix methodPrefix) rest = []" "filter (prefix appIdPrefix) rest = []"
    "filter (prefix uinPrefix) rest = []"
  using assms by (auto simp: reserved_def filter_empty_conv)

lemma ParseLabels_compose:
  assumes "plain m" "plain a" "plain u" "\<forall>item \<in> set rest. plain item \<and> \<not> reserved item"
  shows "ParseLabels (compose_labels m a u rest) =
    \<lparr>Method = m, AppId = a, Uin = u, Labels = strings_join splitItems rest\<rparr>"
proof -
  let ?items = "[methodPrefix @ m, appIdPrefix @ a, uinPrefix @ u] @ rest"
  have "\<forall>item \<in> set ?items. splitItems \<notin> set item"
    using assms by (auto simp: plain_def methodPrefix_def appIdPrefix_def uinPrefix_def splitItems_def)
  then have split: "?items = strings_split splitItems (compose_labels m a u rest)"
    unfolding compose_labels_def by (intro split_join [symmetric]) auto
  have rest: "\<forall>item \<in> set rest. \<not> reserved item" using assms(4) by auto
  have res: "reserved (methodPrefix @ m)" "reserved (appIdPrefix @ a)" "reserved (uinPrefix @ u)"
    by (simp_all add: reserved_def prefix_parts)
  have "filter (\<lambda>item. \<not> reserved item) rest = rest" using rest by simp
  then show ?thesis
    unfolding ParseLabels_parts [OF split]
    by (simp add: last_value_def prefix_parts res filter_prefix_rest [OF rest])
qed

section \<open>Properties\<close>

text \<open>What \<open>ParseLabels\<close> extracts from any label string: the last item with each reserved prefix,
  without the prefix, and the other items, in order, joined again.\<close>
theorem ParseLabels_any:
  "ParseLabels s =
    (let items = strings_split splitItems s in
     \<lparr>Method = last_value methodPrefix items, AppId = last_value appIdPrefix items,
      Uin = last_value uinPrefix items,
      Labels = strings_join splitItems (filter (\<lambda>item. \<not> reserved item) items)\<rparr>)"
  unfolding Let_def by (rule ParseLabels_parts [OF refl])

text \<open>Round trip: a string composed of a method, an application, a user and other labels parses
  back into exactly these parts.\<close>
theorem ParseLabels_round_trip:
  assumes "plain m" "plain a" "plain u" "\<forall>item \<in> set rest. plain item \<and> \<not> reserved item"
  shows "ParseLabels (compose_labels m a u rest) =
    \<lparr>Method = m, AppId = a, Uin = u, Labels = strings_join splitItems rest\<rparr>"
  by (rule ParseLabels_compose [OF assms])

lemma ParseLabels_round_trip_witness:
  "ParseLabels (compose_labels ''Echo'' ''app'' ''42'' [''a:b'', ''c:d'']) =
    \<lparr>Method = ''Echo'', AppId = ''app'', Uin = ''42'', Labels = strings_join splitItems [''a:b'', ''c:d'']\<rparr>"
  by (rule ParseLabels_round_trip)
    (simp_all add: plain_def splitItems_def reserved_def methodPrefix_def appIdPrefix_def uinPrefix_def)

end
