(* ===== verification/Api_V2.thy ===== *)
theory Api_V2
  imports Limiter_Prelude
begin

text \<open>
  The wire interface: the return codes and response constructors of \<open>pkg/api/v2\<close>, their classes
  (\<open>pkg/utils/code.go\<close>) and the clock of \<open>pkg/utils/now.go\<close>. The protobuf messages come from
  another module; a record holds the fields that this repository reads or writes. A message
  pointer is an option, and a getter on \<open>None\<close> gives the zero value, as the generated getters do.
\<close>

section \<open>Clock\<close>

record Timeval =
  Sec :: int
  Usec :: int

definition CurrentMicrosecond :: "Timeval \<Rightarrow> int" where
  "CurrentMicrosecond tv = add64 (mul64 (Sec tv) 1000000) (Usec tv)"

definition CurrentMillisecond :: "Timeval \<Rightarrow> int" where
  "CurrentMillisecond tv = add64 (mul64 (Sec tv) 1000) (i64 (Usec tv sdiv 1000))"

definition CurrentNanosecond :: "Timeval \<Rightarrow> int" where
  "CurrentNanosecond tv = mul64 (CurrentMicrosecond tv) 1000"

text \<open>Readings of the clock before the year 4000: the times the theorems are about.\<close>

definition clock_ok :: "Timeval \<Rightarrow> bool" where
  "clock_ok tv \<longleftrightarrow> 0 \<le> Sec tv \<and> Sec tv < 64060588800 \<and> 0 \<le> Usec tv \<and> Usec tv < 1000000"

lemma CurrentMicrosecond_ok:
  "clock_ok tv \<Longrightarrow> CurrentMicrosecond tv = Sec tv * 1000000 + Usec tv"
  by (simp add: CurrentMicrosecond_def clock_ok_def add64_def mul64_def in64_def)

lemma CurrentMillisecond_ok:
  assumes "clock_ok tv"
  shows "CurrentMillisecond tv = Sec tv * 1000 + Usec tv div 1000"
proof -
  have u: "0 \<le> Usec tv div 1000" "Usec tv div 1000 < 1000" and s: "0 \<le> Sec tv" "Sec tv < 64060588800"
    using assms by (auto simp: clock_ok_def)
  have "Usec tv sdiv 1000 = Usec tv div 1000"
    using assms by (cases "Usec tv = 0") (simp_all add: clock_ok_def signed_divide_int_def)
  with u s show ?thesis
    by (simp add: CurrentMillisecond_def add64_def mul64_def in64_def)
qed

lemma CurrentMillisecond_div:
  "clock_ok tv \<Longrightarrow> CurrentMillisecond tv = CurrentMicrosecond tv div 1000"
  by (simp add: CurrentMicrosecond_ok CurrentMillisecond_ok algebra_simps)

lemma clock_bounds:
  assumes "clock_ok tv"
  shows "0 \<le> CurrentMillisecond tv" "CurrentMillisecond tv < 2 ^ 46"
    "0 \<le> CurrentMicrosecond tv" "CurrentMicrosecond tv < 2 ^ 56"
  using assms unfolding CurrentMillisecond_ok [OF assms] CurrentMicrosecond_ok [OF assms]
  by (auto simp: clock_ok_def)

section \<open>Return codes\<close>

named_theorems codes \<open>the values of the return codes\<close>

definition ExecuteSuccess :: u32 where [codes]: "ExecuteSuccess = 200000"
definition ExecuteContinue :: u32 where [codes]: "ExecuteContinue = 200100"
definition ParseException :: u32 where [codes]: "ParseException = 400001"
definition InvalidServiceName :: u32 where [codes]: "InvalidServiceName = 400201"
definition InvalidNamespace :: u32 where [codes]: "InvalidNamespace = 400202"
definition InvalidClientId :: u32 where [codes]: "InvalidClientId = 400203"
definition InvalidTotalLimit :: u32 where [codes]: "InvalidTotalLimit = 400204"
definition InvalidDuration :: u32 where [codes]: "InvalidDuration = 400205"
definition InvalidSlideCount :: u32 where [codes]: "InvalidSlideCount = 400206"
definition InvalidMode :: u32 where [codes]: "InvalidMode = 400207"
definition InvalidLabels :: u32 where [codes]: "InvalidLabels = 400208"
definition InvalidBatchInitReq :: u32 where [codes]: "InvalidBatchInitReq = 400209"
definition InvalidUsedLimit :: u32 where [codes]: "InvalidUsedLimit = 400211"
definition InvalidTimestamp :: u32 where [codes]: "InvalidTimestamp = 400212"
definition InvalidClientKey :: u32 where [codes]: "InvalidClientKey = 400213"
definition InvalidCounterKey :: u32 where [codes]: "InvalidCounterKey = 400214"
definition ExceedMaxCounter :: u32 where [codes]: "ExceedMaxCounter = 401101"
definition ExceedMaxClient :: u32 where [codes]: "ExceedMaxClient = 401102"
definition ExceedMaxClientOneStream :: u32 where [codes]: "ExceedMaxClientOneStream = 401103"
definition NotFoundLimiter :: u32 where [codes]: "NotFoundLimiter = 404001"
definition NotFoundClient :: u32 where [codes]: "NotFoundClient = 404002"

definition Code2HTTPStatus :: "u32 \<Rightarrow> int" where
  "Code2HTTPStatus code = uint (code div 1000)"

definition code2CommonCode :: "u32 \<Rightarrow> int" where
  "code2CommonCode code =
     (let v = uint (code div 1000) in if v < 100 then 0 else (v div 100) * 100)"

definition IsSuccess :: "u32 \<Rightarrow> bool" where "IsSuccess code \<longleftrightarrow> code2CommonCode code = 200"
definition IsUserErr :: "u32 \<Rightarrow> bool" where "IsUserErr code \<longleftrightarrow> code2CommonCode code = 400"
definition IsSysErr :: "u32 \<Rightarrow> bool" where "IsSysErr code \<longleftrightarrow> code2CommonCode code = 500"

definition error_codes :: "u32 list" where
  "error_codes = [ParseException, InvalidServiceName, InvalidNamespace, InvalidClientId,
     InvalidTotalLimit, InvalidDuration, InvalidSlideCount, InvalidMode, InvalidLabels,
     InvalidBatchInitReq, InvalidUsedLimit, InvalidTimestamp, InvalidClientKey, InvalidCounterKey,
     ExceedMaxCounter, ExceedMaxClient, ExceedMaxClientOneStream, NotFoundLimiter, NotFoundClient]"

section \<open>Messages\<close>

datatype Mode = ADAPTIVE | BATCH_OCCUPY | BATCH_SHARE | OtherMode nat
datatype QuotaMode = WHOLE | DIVIDE | OtherQuotaMode nat
datatype RateLimitCmd = INIT | ACQUIRE | BATCH_INIT | BATCH_ACQUIRE | OtherCmd nat

record LimitTarget =
  Target_Namespace :: string
  Target_Service :: string
  Target_Labels :: string
  Target_LabelsList :: "string list"

record QuotaTotal =
  Total_MaxAmount :: u32
  Total_Duration :: u32
  Total_Mode :: QuotaMode

record RateLimitInitRequest =
  Init_Target :: "LimitTarget option"
  Init_ClientId :: string
  Init_Totals :: "QuotaTotal list"
  Init_SlideCount :: u32
  Init_Mode :: Mode

record RateLimitBatchInitRequest =
  Batch_Request :: "RateLimitInitRequest list"
  Batch_ClientId :: string

record QuotaSum =
  Sum_CounterKey :: u32
  Sum_Used :: u32
  Sum_Limited :: u32

record RateLimitReportRequest =
  Report_ClientKey :: u32
  QuotaUses :: "QuotaSum list"
  Report_Timestamp :: int

record RateLimitRequest =
  Req_Cmd :: RateLimitCmd
  Req_Init :: "RateLimitInitRequest option"
  Req_BatchInit :: "RateLimitBatchInitRequest option"
  Req_Report :: "RateLimitReportRequest option"

record QuotaCounter =
  QC_Duration :: u32
  QC_CounterKey :: u32
  QC_Left :: int
  QC_Mode :: Mode
  QC_ClientCount :: u32

record QuotaLeft =
  Left_CounterKey :: u32
  Left_Mode :: Mode
  Left_Left :: int
  Left_ClientCount :: u32

record RateLimitInitResponse =
  InitResp_Code :: u32
  InitResp_Target :: "LimitTarget option"
  InitResp_Timestamp :: int
  InitResp_ClientKey :: u32
  InitResp_Counters :: "QuotaCounter list"
  InitResp_SlideCount :: u32

record LabeledQuotaCounter =
  LQC_Labels :: string
  LQC_Counters :: "QuotaCounter list"

record BatchInitResult =
  Result_Code :: u32
  Result_SlideCount :: u32
  Result_Target :: "LimitTarget option"
  Result_Counters :: "LabeledQuotaCounter list"

record RateLimitBatchInitResponse =
  BatchResp_Code :: u32
  BatchResp_Timestamp :: int
  BatchResp_ClientKey :: u32
  BatchResp_Result :: "BatchInitResult list"

record RateLimitReportResponse =
  ReportResp_Code :: u32
  ReportResp_Timestamp :: int
  ReportResp_QuotaLefts :: "QuotaLeft list"

record RateLimitResponse =
  Resp_Cmd :: RateLimitCmd
  Resp_Init :: "RateLimitInitResponse option"
  Resp_BatchInit :: "RateLimitBatchInitResponse option"
  Resp_Report :: "RateLimitReportResponse option"

section \<open>Response constructors\<close>

record TimedRateLimitReportResponse =
  Timed_Response :: RateLimitReportResponse
  createTimeMicro :: int

definition NewRateLimitInitResponse :: "Timeval \<Rightarrow> u32 \<Rightarrow> LimitTarget option \<Rightarrow> RateLimitInitResponse" where
  "NewRateLimitInitResponse tv code target =
     \<lparr>InitResp_Code = code, InitResp_Target = target, InitResp_Timestamp = CurrentMillisecond tv,
      InitResp_ClientKey = 0, InitResp_Counters = [], InitResp_SlideCount = 0\<rparr>"

definition NewRateLimitBatchInitResponse :: "Timeval \<Rightarrow> u32 \<Rightarrow> RateLimitBatchInitResponse" where
  "NewRateLimitBatchInitResponse tv code =
     \<lparr>BatchResp_Code = code, BatchResp_Timestamp = CurrentMillisecond tv,
      BatchResp_ClientKey = 0, BatchResp_Result = []\<rparr>"

definition NewRateLimitReportResponse :: "Timeval \<Rightarrow> u32 \<Rightarrow> TimedRateLimitReportResponse" where
  "NewRateLimitReportResponse tv code =
     (let curTimeMicro = CurrentMicrosecond tv
      in \<lparr>Timed_Response = \<lparr>ReportResp_Code = code,
            ReportResp_Timestamp = i64 (curTimeMicro sdiv 1000), ReportResp_QuotaLefts = []\<rparr>,
          createTimeMicro = curTimeMicro\<rparr>)"

datatype APIKey = InitQuotaV1 | AcquireQuotaV1 | InitQuotaV2 | AcquireQuotaV2
  | BatchInitQuotaV2 | BatchAcquireQuotaV2

definition GetAPIKey :: "RateLimitResponse \<Rightarrow> APIKey" where
  "GetAPIKey resp =
     (if Resp_Cmd resp = INIT then InitQuotaV2
      else if Resp_Cmd resp = ACQUIRE then AcquireQuotaV2
      else if Resp_Cmd resp = BATCH_INIT then BatchInitQuotaV2
      else BatchAcquireQuotaV2)"

definition init_code :: "RateLimitInitResponse option \<Rightarrow> u32" where
  "init_code r = (case r of None \<Rightarrow> 0 | Some x \<Rightarrow> InitResp_Code x)"

definition batch_code :: "RateLimitBatchInitResponse option \<Rightarrow> u32" where
  "batch_code r = (case r of None \<Rightarrow> 0 | Some x \<Rightarrow> BatchResp_Code x)"

definition report_code :: "RateLimitReportResponse option \<Rightarrow> u32" where
  "report_code r = (case r of None \<Rightarrow> 0 | Some x \<Rightarrow> ReportResp_Code x)"

definition GetErrorCode :: "RateLimitResponse \<Rightarrow> u32" where
  "GetErrorCode resp =
     (if Resp_Cmd resp = INIT then init_code (Resp_Init resp)
      else if Resp_Cmd resp = ACQUIRE \<or> Resp_Cmd resp = BATCH_ACQUIRE then report_code (Resp_Report resp)
      else if Resp_BatchInit resp \<noteq> None then batch_code (Resp_BatchInit resp)
      else report_code (Resp_Report resp))"

section \<open>Lemmas\<close>

lemma code_classes:
  "IsSuccess ExecuteSuccess" "IsSuccess ExecuteContinue"
  "list_all IsUserErr error_codes"
  by (simp_all add: IsSuccess_def IsUserErr_def code2CommonCode_def error_codes_def codes Let_def)

lemma error_codes_distinct: "distinct (ExecuteSuccess # ExecuteContinue # error_codes)"
  by (simp add: error_codes_def codes)

text \<open>A code is in at most one class, and the class is the first digit of its status.\<close>

lemma code2CommonCode_status:
  "code2CommonCode c = (if Code2HTTPStatus c < 100 then 0 else Code2HTTPStatus c - Code2HTTPStatus c mod 100)"
  by (simp add: code2CommonCode_def Code2HTTPStatus_def Let_def minus_mod_eq_div_mult)

lemma code_class_range:
  "IsSuccess c \<longleftrightarrow> 200000 \<le> c \<and> c < 300000"
  "IsUserErr c \<longleftrightarrow> 400000 \<le> c \<and> c < 500000"
  "IsSysErr c \<longleftrightarrow> 500000 \<le> c \<and> c < 600000"
proof -
  have "uint (c div 1000) = uint c div 1000" by (simp add: uint_div)
  then show "IsSuccess c \<longleftrightarrow> 200000 \<le> c \<and> c < 300000"
    "IsUserErr c \<longleftrightarrow> 400000 \<le> c \<and> c < 500000"
    "IsSysErr c \<longleftrightarrow> 500000 \<le> c \<and> c < 600000"
    by (auto simp: IsSuccess_def IsUserErr_def IsSysErr_def code2CommonCode_def Let_def
        word_le_def word_less_def)
qed

end
