(* ===== verification/Stream_Client.thy ===== *)
theory Stream_Client
  imports Api_V2
begin

text \<open>
  \<open>ratelimitv2/client.go\<close> and \<open>ratelimitv2/event.go\<close>: the client object, the stream it is
  bound to, and the events the server logs. Clients are shared by reference (the client manager,
  the counters and the stream handlers all point to them), so they live in an explicit store and
  a reference is an index into it; a nil interface is \<open>None\<close>. The unique id of a stream, which
  comes from the \<open>uuid\<close> package, is an argument, and so is whether the transport fails to send.
\<close>

section \<open>Events\<close>

record IPAddress =
  LowValue :: u64
  HighValue :: u64

definition ActionAdd :: string where "ActionAdd = ''add''"
definition ActionReplace :: string where "ActionReplace = ''replace''"
definition ActionDelete :: string where "ActionDelete = ''delete''"
definition TriggerShareEqually :: string where "TriggerShareEqually = ''shareEqually''"
definition TriggerShareGlobal :: string where "TriggerShareGlobal = ''shareGlobal''"

text \<open>
  The structures of \<open>event.go\<close>. A time is the millisecond value before it is formatted, an
  address and a duration are likewise kept before their conversion to text.
\<close>

record StreamUpdateEvent =
  sue_TimeNumber :: int
  sue_StreamId :: string
  sue_IPAddress :: IPAddress
  sue_Action :: string

record ClientUpdateEvent =
  cue_TimeNumber :: int
  cue_ClientId :: string
  cue_IPAddress :: IPAddress
  cue_Action :: string

record ClientStreamUpdateEvent =
  csue_TimeNumber :: int
  csue_LastStreamId :: string
  csue_StreamId :: string
  csue_ClientId :: string
  csue_IPAddress :: IPAddress
  csue_Action :: string

record CounterClientUpdateEvent =
  ccue_TimeNumber :: int
  ccue_Namespace :: string
  ccue_Service :: string
  ccue_Labels :: string
  ccue_Duration :: int
  ccue_ClientId :: string
  ccue_IPAddress :: IPAddress
  ccue_Action :: string
  ccue_ClientCount :: int

record QuotaChangeEvent =
  qce_TimeNumber :: int
  qce_Namespace :: string
  qce_Service :: string
  qce_Labels :: string
  qce_Duration :: int
  qce_Action :: string
  qce_ClientId :: string
  qce_LatestAmount :: u32
  qce_CurrentAmount :: u32

record CounterUpdateEvent =
  coue_TimeNumber :: int
  coue_Namespace :: string
  coue_Service :: string
  coue_Labels :: string
  coue_Duration :: int
  coue_Action :: string
  coue_Amount :: u32

datatype Event = StreamUpdate StreamUpdateEvent | ClientUpdate ClientUpdateEvent
  | ClientStreamUpdate ClientStreamUpdateEvent | CounterClientUpdate CounterClientUpdateEvent
  | QuotaChange QuotaChangeEvent | CounterUpdate CounterUpdateEvent

fun GetEventType :: "Event \<Rightarrow> string" where
  "GetEventType (StreamUpdate _) = ''streamUpdate''"
| "GetEventType (ClientUpdate _) = ''clientUpdate''"
| "GetEventType (ClientStreamUpdate _) = ''clientStreamUpdate''"
| "GetEventType (CounterClientUpdate _) = ''counterClientUpdate''"
| "GetEventType (QuotaChange _) = ''quotaChange''"
| "GetEventType (CounterUpdate _) = ''counterUpdate''"

definition NewStreamUpdateEvent :: "Timeval \<Rightarrow> string \<Rightarrow> IPAddress \<Rightarrow> string \<Rightarrow> Event" where
  "NewStreamUpdateEvent tv streamId ipAddr action =
     StreamUpdate \<lparr>sue_TimeNumber = CurrentMillisecond tv, sue_StreamId = streamId,
       sue_IPAddress = ipAddr, sue_Action = action\<rparr>"

definition NewClientUpdateEvent :: "Timeval \<Rightarrow> string \<Rightarrow> IPAddress \<Rightarrow> string \<Rightarrow> Event" where
  "NewClientUpdateEvent tv clId ipAddr action =
     ClientUpdate \<lparr>cue_TimeNumber = CurrentMillisecond tv, cue_ClientId = clId,
       cue_IPAddress = ipAddr, cue_Action = action\<rparr>"

section \<open>Clients\<close>

record StreamContext =
  ctxId :: string
  stream :: nat

record client =
  clientKey :: u32
  clientIP :: IPAddress
  clientId :: string
  streamCtx :: "StreamContext option"
  detached :: bool

record ClientSendTime =
  curClient :: nat
  lastSentMicro :: int

definition NewClientStreamUpdateEvent :: "Timeval \<Rightarrow> string \<Rightarrow> string \<Rightarrow> client \<Rightarrow> string \<Rightarrow> Event" where
  "NewClientStreamUpdateEvent tv lastStreamId streamId c action =
     ClientStreamUpdate \<lparr>csue_TimeNumber = CurrentMillisecond tv, csue_LastStreamId = lastStreamId,
       csue_StreamId = streamId, csue_ClientId = clientId c, csue_IPAddress = clientIP c,
       csue_Action = action\<rparr>"

text \<open>The store of clients, the event log and the messages handed to the streams.\<close>

record Mem =
  clientObjs :: "client list"
  eventLog :: "Event list"
  outbox :: "(StreamContext \<times> RateLimitResponse) list"

definition AddEventToLog :: "Event \<Rightarrow> 'a Mem_scheme \<Rightarrow> 'a Mem_scheme" where
  "AddEventToLog e m = m\<lparr>eventLog := eventLog m @ [e]\<rparr>"

text \<open>A method call on a client reference.\<close>

definition deref :: "'a Mem_scheme \<Rightarrow> nat option \<Rightarrow> panic + client" where
  "deref m r = (case r of
     None \<Rightarrow> Inl NilPointer
   | Some i \<Rightarrow> if i < length (clientObjs m) then Inr (clientObjs m ! i) else Inl NilPointer)"

definition setClient :: "nat \<Rightarrow> client \<Rightarrow> 'a Mem_scheme \<Rightarrow> 'a Mem_scheme" where
  "setClient r c m = m\<lparr>clientObjs := (clientObjs m)[r := c]\<rparr>"

definition NewStreamContext :: "string \<Rightarrow> nat \<Rightarrow> StreamContext" where
  "NewStreamContext uuid s = \<lparr>ctxId = uuid, stream = s\<rparr>"

definition NewClient :: "Timeval \<Rightarrow> u32 \<Rightarrow> IPAddress \<Rightarrow> string \<Rightarrow> StreamContext option \<Rightarrow> 'a Mem_scheme
    \<Rightarrow> panic + (nat \<times> 'a Mem_scheme)" where
  "NewClient tv key ip clId sctx m =
     (let c = \<lparr>clientKey = key, clientIP = ip, clientId = clId, streamCtx = sctx, detached = False\<rparr>;
          m1 = AddEventToLog (NewClientUpdateEvent tv clId ip ActionAdd)
                 (m\<lparr>clientObjs := clientObjs m @ [c]\<rparr>)
      in case sctx of
           None \<Rightarrow> Inl NilPointer
         | Some s \<Rightarrow> Inr (length (clientObjs m),
             AddEventToLog (NewClientStreamUpdateEvent tv '''' (ctxId s) c ActionAdd) m1))"

text \<open>
  \<open>UpdateLastSendTime\<close>: the loop of load and compare-and-swap, given the values that other
  callers store between the load and the swap of each round (nothing in between ends the loop).
\<close>

fun UpdateLastSendTime_loop :: "int list \<Rightarrow> int \<Rightarrow> int \<Rightarrow> bool \<times> int" where
  "UpdateLastSendTime_loop [] cur val = (if val \<le> cur then (False, cur) else (True, val))"
| "UpdateLastSendTime_loop (other # others) cur val =
     (if val \<le> cur then (False, cur)
      else if other = cur then (True, val)
      else UpdateLastSendTime_loop others other val)"

definition UpdateLastSendTime :: "ClientSendTime \<Rightarrow> int \<Rightarrow> bool \<times> ClientSendTime" where
  "UpdateLastSendTime t val =
     (let (updated, v) = UpdateLastSendTime_loop [] (lastSentMicro t) val
      in (updated, t\<lparr>lastSentMicro := v\<rparr>))"

definition SameContext :: "client \<Rightarrow> string \<Rightarrow> panic + bool" where
  "SameContext c ctx = (case streamCtx c of None \<Rightarrow> Inl NilPointer | Some s \<Rightarrow> Inr (ctxId s = ctx))"

text \<open>\<open>StreamContext.Send\<close>: the message goes to the stream, which may report an error.\<close>

definition Send :: "(StreamContext \<Rightarrow> RateLimitResponse \<Rightarrow> bool) \<Rightarrow> StreamContext option \<Rightarrow> RateLimitResponse
    \<Rightarrow> 'a Mem_scheme \<Rightarrow> panic + (bool \<times> 'a Mem_scheme)" where
  "Send fails sctx resp m =
     (case sctx of
        None \<Rightarrow> Inl NilPointer
      | Some s \<Rightarrow> Inr (fails s resp, m\<lparr>outbox := outbox m @ [(s, resp)]\<rparr>))"

text \<open>The result is whether the message was sent and whether sending failed.\<close>

definition SendAndUpdate :: "(StreamContext \<Rightarrow> RateLimitResponse \<Rightarrow> bool) \<Rightarrow> client \<Rightarrow> RateLimitResponse
    \<Rightarrow> ClientSendTime option \<Rightarrow> int \<Rightarrow> 'a Mem_scheme
    \<Rightarrow> panic + ((bool \<times> bool) \<times> ClientSendTime option \<times> 'a Mem_scheme)" where
  "SendAndUpdate fails c resp sendTime msgTimeMicro m =
     (if Resp_Cmd resp = ACQUIRE then
        (case (sendTime, streamCtx c) of
           (Some t, Some s) \<Rightarrow>
             let (updateSuccess, t') = UpdateLastSendTime t msgTimeMicro
             in if \<not> updateSuccess then Inr ((False, False), Some t', m)
                else bindR (Send fails (Some s) resp m) (\<lambda>(err, m'). Inr ((True, err), Some t', m'))
         | _ \<Rightarrow> Inr ((False, False), sendTime, m))
      else bindR (Send fails (streamCtx c) resp m) (\<lambda>(err, m'). Inr ((True, err), sendTime, m')))"

definition streamContextId :: "client \<Rightarrow> string" where
  "streamContextId c = (case streamCtx c of Some s \<Rightarrow> ctxId s | None \<Rightarrow> '''')"

definition Detach :: "client \<Rightarrow> string \<Rightarrow> string \<Rightarrow> bool \<times> client" where
  "Detach c clId streamCtxId =
     (let c' = (if clientId c = clId \<and> streamContextId c = streamCtxId then c\<lparr>detached := True\<rparr> else c)
      in (detached c', c'))"

definition clearStreamContext :: "client \<Rightarrow> StreamContext option \<times> client" where
  "clearStreamContext c = (streamCtx c, c\<lparr>streamCtx := None\<rparr>)"

definition Cleanup :: "Timeval \<Rightarrow> nat \<Rightarrow> 'a Mem_scheme \<Rightarrow> panic + 'a Mem_scheme" where
  "Cleanup tv r m =
     bindR (deref m (Some r)) (\<lambda>c.
       let (lastCtx, c') = clearStreamContext c;
           id = (case lastCtx of Some s \<Rightarrow> ctxId s | None \<Rightarrow> '''')
       in Inr (AddEventToLog (NewClientUpdateEvent tv (clientId c') (clientIP c') ActionDelete)
            (AddEventToLog (NewClientStreamUpdateEvent tv id '''' c' ActionDelete) (setClient r c' m))))"

text \<open>The previous context, whether it was replaced, and whether the client is detached.\<close>

definition setStreamContext :: "client \<Rightarrow> StreamContext option
    \<Rightarrow> panic + ((StreamContext option \<times> bool \<times> bool) \<times> client)" where
  "setStreamContext c sctx =
     (if detached c then Inr ((None, False, True), c)
      else (case (streamCtx c, sctx) of
              (Some l, Some s) \<Rightarrow>
                if ctxId l = ctxId s then Inr ((Some l, False, False), c)
                else Inr ((Some l, True, False), c\<lparr>streamCtx := Some s\<rparr>)
            | _ \<Rightarrow> Inl NilPointer))"

definition UpdateStreamContext :: "Timeval \<Rightarrow> nat \<Rightarrow> StreamContext option \<Rightarrow> 'a Mem_scheme
    \<Rightarrow> panic + (bool \<times> 'a Mem_scheme)" where
  "UpdateStreamContext tv r sctx m =
     bindR (deref m (Some r)) (\<lambda>c.
     bindR (setStreamContext c sctx) (\<lambda>((lastCtx, updated, detach), c').
       let m' = setClient r c' m;
           id = (\<lambda>s. case s of Some x \<Rightarrow> ctxId x | None \<Rightarrow> '''')
       in if detach then Inr (False, m')
          else if \<not> updated then Inr (True, m')
          else Inr (True, AddEventToLog
                 (NewClientStreamUpdateEvent tv (id lastCtx) (id sctx) c' ActionReplace) m')))"

definition IsDetached :: "client \<Rightarrow> bool" where
  "IsDetached c = detached c"

section \<open>Properties of one client\<close>

text \<open>A client that is not detached has a stream.\<close>

definition client_ok :: "client \<Rightarrow> bool" where
  "client_ok c \<longleftrightarrow> (\<not> detached c \<longrightarrow> streamCtx c \<noteq> None)"

lemma Mem_log_simps [simp]:
  "clientObjs (AddEventToLog e m) = clientObjs m" "outbox (AddEventToLog e m) = outbox m"
  "eventLog (AddEventToLog e m) = eventLog m @ [e]" "Mem.more (AddEventToLog e m) = Mem.more m"
  by (simp_all add: AddEventToLog_def)

lemma Mem_set_simps [simp]:
  "clientObjs (setClient r c m) = (clientObjs m)[r := c]" "outbox (setClient r c m) = outbox m"
  "eventLog (setClient r c m) = eventLog m" "Mem.more (setClient r c m) = Mem.more m"
  by (simp_all add: setClient_def)

lemma deref_Some [simp]: "r < length (clientObjs m) \<Longrightarrow> deref m (Some r) = Inr (clientObjs m ! r)"
  by (simp add: deref_def)

lemma deref_None [simp]: "deref m None = Inl NilPointer"
  by (simp add: deref_def)

lemma deref_Inr: "deref m x = Inr c \<longleftrightarrow> (\<exists>r. x = Some r \<and> r < length (clientObjs m) \<and> c = clientObjs m ! r)"
  by (auto simp: deref_def split: option.splits)

lemma setStreamContext_ok:
  assumes "client_ok c" "setStreamContext c (Some s) = Inr ((l, updated, detach), c')"
  shows "client_ok c'" "detach \<longleftrightarrow> detached c" "detached c' \<longleftrightarrow> detached c"
    "\<not> detach \<Longrightarrow> streamContextId c' = ctxId s" "clientId c' = clientId c" "clientKey c' = clientKey c"
    "clientIP c' = clientIP c"
  using assms
  by (cases "streamCtx c"; auto simp: setStreamContext_def client_ok_def streamContextId_def
      split: if_splits)+

lemma setStreamContext_total:
  "client_ok c \<Longrightarrow> \<exists>l u d c'. setStreamContext c (Some s) = Inr ((l, u, d), c')"
  by (auto simp: setStreamContext_def client_ok_def)

lemma Detach_iff:
  "fst (Detach c i s) \<longleftrightarrow> detached c \<or> (clientId c = i \<and> streamContextId c = s)"
  by (auto simp: Detach_def Let_def)

lemma Detach_snd:
  "client_ok c \<Longrightarrow> client_ok (snd (Detach c i s))"
  "clientId (snd (Detach c i s)) = clientId c" "clientKey (snd (Detach c i s)) = clientKey c"
  "clientIP (snd (Detach c i s)) = clientIP c" "streamCtx (snd (Detach c i s)) = streamCtx c"
  "detached (snd (Detach c i s)) = fst (Detach c i s)"
  by (auto simp: Detach_def Let_def client_ok_def)

lemma Detach_not: "\<not> fst (Detach c i s) \<Longrightarrow> snd (Detach c i s) = c"
  by (auto simp: Detach_def Let_def split: if_splits)

text \<open>
  The send time only grows: whatever other callers store in between, the call returns false
  exactly when it leaves a value at least as recent as its own, and true when its own is stored.
\<close>

lemma UpdateLastSendTime_loop_cases:
  "UpdateLastSendTime_loop others cur val = (updated, v) \<Longrightarrow>
     (updated \<longrightarrow> v = val) \<and> (\<not> updated \<longrightarrow> val \<le> v \<and> v \<in> set (cur # others))"
  by (induction others cur val rule: UpdateLastSendTime_loop.induct) (auto split: if_splits)

lemma UpdateLastSendTime_max:
  "UpdateLastSendTime t val = (val > lastSentMicro t, t\<lparr>lastSentMicro := max (lastSentMicro t) val\<rparr>)"
  by (simp add: UpdateLastSendTime_def)

lemma SendAndUpdate_push:
  assumes "Resp_Cmd resp = ACQUIRE"
  shows "\<exists>sent err t' m'. SendAndUpdate fails c resp (Some t) msg m = Inr ((sent, err), Some t', m') \<and>
    curClient t' = curClient t \<and>
    (sent \<longleftrightarrow> streamCtx c \<noteq> None \<and> lastSentMicro t < msg) \<and>
    lastSentMicro t' = (if streamCtx c = None then lastSentMicro t else max (lastSentMicro t) msg) \<and>
    m' = m\<lparr>outbox := outbox m @ (if sent then [(the (streamCtx c), resp)] else [])\<rparr>"
  using assms
  by (cases "streamCtx c") (auto simp: SendAndUpdate_def UpdateLastSendTime_max Send_def Let_def)

section \<open>Stores of clients\<close>

text \<open>The store of clients only grows and keeps the identity of every client.\<close>

definition same_clients :: "client list \<Rightarrow> client list \<Rightarrow> bool" where
  "same_clients h h' \<longleftrightarrow> length h \<le> length h' \<and>
     (\<forall>r < length h. clientKey (h' ! r) = clientKey (h ! r) \<and> clientId (h' ! r) = clientId (h ! r) \<and>
        clientIP (h' ! r) = clientIP (h ! r))"

lemma same_clients_refl [simp]: "same_clients h h"
  by (simp add: same_clients_def)

lemma same_clients_trans: "same_clients h h1 \<Longrightarrow> same_clients h1 h2 \<Longrightarrow> same_clients h h2"
  unfolding same_clients_def by (metis order_less_le_trans order_trans)

lemma same_clients_append [simp]: "same_clients h (h @ cs)"
  by (simp add: same_clients_def nth_append)

lemma same_clients_update:
  "r < length h \<Longrightarrow> clientKey c = clientKey (h ! r) \<Longrightarrow> clientId c = clientId (h ! r) \<Longrightarrow>
     clientIP c = clientIP (h ! r) \<Longrightarrow> same_clients h (h[r := c])"
  by (auto simp: same_clients_def nth_list_update)

end
