(* ===== verification/Stat_Collector.thy ===== *)
theory Stat_Collector
  imports Stream_Client
begin

text \<open>
  \<open>plugin/statis_api_obj_limit.go\<close>: the statistics of one stream. A collector maps a key to the
  passed and limited amounts reported under it. Version 1 and version 2 of the code differ only
  in the key and in the labels a value carries besides it, so the model has one value type with
  the key and the labels as parameters and one operation for both versions.
\<close>

section \<open>Amounts\<close>

record rateLimitData =
  Passed :: int
  Limited :: int
  LastFetchTime :: int

definition AddPassed :: "int \<Rightarrow> rateLimitData \<Rightarrow> rateLimitData" where
  "AddPassed delta r = r\<lparr>Passed := add64 (Passed r) delta\<rparr>"

definition AddLimited :: "int \<Rightarrow> rateLimitData \<Rightarrow> rateLimitData" where
  "AddLimited delta r = r\<lparr>Limited := add64 (Limited r) delta\<rparr>"

definition AddValues :: "rateLimitData \<Rightarrow> rateLimitData \<Rightarrow> rateLimitData" where
  "AddValues d r = AddLimited (Limited d) (AddPassed (Passed d) r)"

definition InitValues :: "int \<Rightarrow> int \<Rightarrow> int \<Rightarrow> rateLimitData" where
  "InitValues passed limited lastFetchTime =
     \<lparr>Passed = passed, Limited = limited, LastFetchTime = lastFetchTime\<rparr>"

definition SetLastFetchTime :: "int \<Rightarrow> rateLimitData \<Rightarrow> rateLimitData" where
  "SetLastFetchTime t r = r\<lparr>LastFetchTime := t\<rparr>"

section \<open>Values and keys\<close>

record ('k, 'l) RateLimitStatValue =
  StatKey :: 'k
  Total :: int
  CurveData :: rateLimitData
  PrecisionData :: rateLimitData
  StatLabels :: 'l
  ExpireDuration :: int
  LastUpdateTime :: int

record RateLimitStatKeyV2 =
  CounterKeyV2 :: u32
  ClientIPV2 :: IPAddress

record StatLabelsV2 =
  stat_Namespace :: string
  stat_Service :: string
  stat_Method :: string
  stat_AppId :: string
  stat_Uin :: string
  stat_Labels :: string
  stat_Duration :: int

record RateLimitStatKeyV1 =
  CounterKeyV1 :: StatLabelsV2
  ClientIPV1 :: IPAddress

type_synonym RateLimitStatValueV2 = "(RateLimitStatKeyV2, StatLabelsV2) RateLimitStatValue"
type_synonym RateLimitStatValueV1 = "(RateLimitStatKeyV1, unit) RateLimitStatValue"

text \<open>\<open>GetStatKey\<close>: the key without the client address when only the counter matters.\<close>

definition GetStatKeyV2 :: "bool \<Rightarrow> RateLimitStatValueV2 \<Rightarrow> u32 + RateLimitStatKeyV2" where
  "GetStatKeyV2 counterOnly v = (if counterOnly then Inl (CounterKeyV2 (StatKey v)) else Inr (StatKey v))"

definition GetStatKeyV1 :: "bool \<Rightarrow> RateLimitStatValueV1 \<Rightarrow> StatLabelsV2 + RateLimitStatKeyV1" where
  "GetStatKeyV1 counterOnly v = (if counterOnly then Inl (CounterKeyV1 (StatKey v)) else Inr (StatKey v))"

section \<open>Collectors\<close>

record ('k, 'l) RateLimitStatCollector =
  collectorId :: string
  statValues :: "('k \<times> ('k, 'l) RateLimitStatValue) list"

definition NewRateLimitStatCollector :: "string \<Rightarrow> ('k, 'l) RateLimitStatCollector" where
  "NewRateLimitStatCollector uuid = \<lparr>collectorId = uuid, statValues = []\<rparr>"

text \<open>
  \<open>createStatValue\<close> runs under the write lock: it stores a copy when the key is still absent
  and returns the value that another caller has stored otherwise.
\<close>

definition createStatValue :: "('k, 'l) RateLimitStatCollector \<Rightarrow> ('k, 'l) RateLimitStatValue
    \<Rightarrow> ('k, 'l) RateLimitStatValue option \<times> ('k, 'l) RateLimitStatCollector" where
  "createStatValue r v =
     (case map_of (statValues r) (StatKey v) of
        None \<Rightarrow> (None, r\<lparr>statValues := AList.update (StatKey v) v (statValues r)\<rparr>)
      | Some e \<Rightarrow> (Some e, r))"

definition addToExisting :: "('k, 'l) RateLimitStatValue \<Rightarrow> ('k, 'l) RateLimitStatValue
    \<Rightarrow> ('k, 'l) RateLimitStatValue" where
  "addToExisting e v =
     e\<lparr>PrecisionData := AddValues (PrecisionData v) (PrecisionData e),
       CurveData := AddValues (CurveData v) (CurveData e),
       ExpireDuration := ExpireDuration v, LastUpdateTime := LastUpdateTime v\<rparr>"

definition AddStatValue :: "('k, 'l) RateLimitStatCollector \<Rightarrow> ('k, 'l) RateLimitStatValue
    \<Rightarrow> ('k, 'l) RateLimitStatCollector" where
  "AddStatValue r v =
     (let (existValue, r') = (case map_of (statValues r) (StatKey v) of
            Some e \<Rightarrow> (Some e, r) | None \<Rightarrow> createStatValue r v)
      in case existValue of
           Some e \<Rightarrow> r'\<lparr>statValues := AList.update (StatKey v) (addToExisting e v) (statValues r')\<rparr>
         | None \<Rightarrow> r')"

definition isExpiredValue :: "int \<Rightarrow> ('k, 'l) RateLimitStatValue \<Rightarrow> bool" where
  "isExpiredValue nowMilli v \<longleftrightarrow> ExpireDuration v < sub64 nowMilli (LastUpdateTime v)"

definition DumpAndExpire :: "Timeval \<Rightarrow> ('k, 'l) RateLimitStatValue list \<Rightarrow> bool
    \<Rightarrow> ('k, 'l) RateLimitStatCollector
    \<Rightarrow> (('k, 'l) RateLimitStatValue list \<times> nat) \<times> ('k, 'l) RateLimitStatCollector" where
  "DumpAndExpire tv valueSlice enableExpire r =
     (let all = map snd (statValues r);
          slice = (if length valueSlice < length all then all
                   else all @ drop (length all) valueSlice);
          expiredKeys = (if enableExpire
            then map fst (filter (\<lambda>(k, v). isExpiredValue (CurrentMillisecond tv) v) (statValues r)) else [])
      in ((slice, length all), r\<lparr>statValues := fold AList.delete expiredKeys (statValues r)\<rparr>))"

section \<open>Lemmas\<close>

lemma AddStatValue_cases:
  "AddStatValue r v = (case map_of (statValues r) (StatKey v) of
     None \<Rightarrow> r\<lparr>statValues := AList.update (StatKey v) v (statValues r)\<rparr>
   | Some e \<Rightarrow> r\<lparr>statValues := AList.update (StatKey v) (addToExisting e v) (statValues r)\<rparr>)"
  by (simp add: AddStatValue_def createStatValue_def split: option.splits)

lemma AddStatValue_get:
  "map_of (statValues (AddStatValue r v)) k =
     (if k = StatKey v
      then Some (case map_of (statValues r) k of None \<Rightarrow> v | Some e \<Rightarrow> addToExisting e v)
      else map_of (statValues r) k)"
  by (auto simp: AddStatValue_cases amap.get_put split: option.splits)

lemma AddStatValue_wf: "wf_map (statValues r) \<Longrightarrow> wf_map (statValues (AddStatValue r v))"
  by (auto simp: AddStatValue_cases amap.ok_put split: option.splits)

text \<open>What a collector holds for a key, zero when it has no value.\<close>

definition curve_at :: "(rateLimitData \<Rightarrow> int) \<Rightarrow> ('k, 'l) RateLimitStatCollector \<Rightarrow> 'k \<Rightarrow> int" where
  "curve_at f r k = (case map_of (statValues r) k of None \<Rightarrow> 0 | Some v \<Rightarrow> f (CurveData v))"

lemma i64_add: "i64 (i64 a + b) = i64 (a + b)"
  unfolding i64_def by (simp add: mod_simps algebra_simps)

lemma curve_at_AddStatValue:
  assumes "f = Passed \<or> f = Limited" "in64 (f (CurveData v))"
  shows "curve_at f (AddStatValue r v) k =
     (if k = StatKey v then add64 (curve_at f r k) (f (CurveData v)) else curve_at f r k)"
  using assms
  by (auto simp: curve_at_def AddStatValue_get addToExisting_def AddValues_def AddPassed_def
      AddLimited_def add64_def split: option.splits)

definition reported :: "(rateLimitData \<Rightarrow> int) \<Rightarrow> ('k, 'l) RateLimitStatValue list \<Rightarrow> 'k \<Rightarrow> int" where
  "reported f vs k = sum_list (map (\<lambda>v. if StatKey v = k then f (CurveData v) else 0) vs)"

lemma curve_at_fold:
  assumes "f = Passed \<or> f = Limited" "\<forall>v \<in> set vs. in64 (f (CurveData v))" "in64 (curve_at f r k)"
  shows "curve_at f (foldl AddStatValue r vs) k = i64 (curve_at f r k + reported f vs k)"
  using assms(2,3)
proof (induction vs arbitrary: r)
  case (Cons v vs)
  have "curve_at f (AddStatValue r v) k =
      (if k = StatKey v then i64 (curve_at f r k + f (CurveData v)) else curve_at f r k)"
    using curve_at_AddStatValue [OF assms(1), of v r k] Cons.prems(1) by (simp add: add64_def)
  then show ?case
    using Cons.IH [of "AddStatValue r v"] Cons.prems
    by (auto simp: reported_def i64_add add.assoc)
qed (simp add: reported_def)

lemma fold_delete_get:
  "map_of (fold AList.delete ks m) k = (if k \<in> set ks then None else map_of m k)"
  by (induction ks arbitrary: m) (auto simp: amap.get_del)

lemma fold_delete_wf: "wf_map m \<Longrightarrow> wf_map (fold AList.delete ks m)"
  by (induction ks arbitrary: m) (auto simp: amap.ok_del)

lemma DumpAndExpire_result:
  assumes "DumpAndExpire tv sl en r = ((dumped, n), r')"
  shows "n = length (statValues r)" "take n dumped = map snd (statValues r)"
    "length dumped = max (length sl) n"
  using assms by (auto simp: DumpAndExpire_def Let_def split: if_splits)

lemma DumpAndExpire_get:
  assumes "wf_map (statValues r)" "DumpAndExpire tv sl en r = ((dumped, n), r')"
  shows "map_of (statValues r') k = (case map_of (statValues r) k of
     None \<Rightarrow> None
   | Some v \<Rightarrow> if en \<and> isExpiredValue (CurrentMillisecond tv) v then None else Some v)"
proof -
  let ?exp = "filter (\<lambda>(k, v). isExpiredValue (CurrentMillisecond tv) v) (statValues r)"
  have r': "statValues r' = fold AList.delete (if en then map fst ?exp else []) (statValues r)"
    using assms(2) by (auto simp: DumpAndExpire_def Let_def)
  have "k \<in> set (map fst ?exp) \<longleftrightarrow>
      (\<exists>v. map_of (statValues r) k = Some v \<and> isExpiredValue (CurrentMillisecond tv) v)"
    using assms(1) by (auto simp: map_of_eq_Some_iff intro: rev_image_eqI)
  then show ?thesis
    unfolding r' fold_delete_get by (auto split: option.splits if_splits)
qed

end
