(* ===== verification/Api_Call.thy ===== *)
theory Api_Call
  imports Api_V2
begin

text \<open>
  \<open>plugin/statis_api_obj_srv.go\<close>: one record of a served call, as the handlers fill it and as
  the statistics plugins accumulate it. The object pool hands out a value whose fields the
  caller overwrites; the two reserved fields of such a value are zero, because only clones of
  it are ever updated.
\<close>

datatype MsgType = MsgSync | MsgPush

definition MsgType_String :: "MsgType \<Rightarrow> string" where
  "MsgType_String m = (if m = MsgPush then ''push'' else ''sync'')"

record APICallStatKey =
  ApiKey :: APIKey
  ApiCode :: u32
  ApiMsgType :: MsgType
  ApiDuration :: int

record APICallStatValueImpl =
  ApiStatKey :: APICallStatKey
  Latency :: int
  ReqCount :: "32 word"
  MaxLatency :: int
  ApiLastUpdateTime :: int

definition NewAPICall :: "APICallStatKey \<Rightarrow> int \<Rightarrow> APICallStatValueImpl" where
  "NewAPICall key latency =
     \<lparr>ApiStatKey = key, Latency = latency, ReqCount = 1, MaxLatency = 0, ApiLastUpdateTime = 0\<rparr>"

definition AddLatency :: "int \<Rightarrow> APICallStatValueImpl \<Rightarrow> APICallStatValueImpl" where
  "AddLatency delta a = a\<lparr>Latency := add64 (Latency a) delta\<rparr>"

definition AddReqCount :: "32 word \<Rightarrow> APICallStatValueImpl \<Rightarrow> APICallStatValueImpl" where
  "AddReqCount delta a = a\<lparr>ReqCount := ReqCount a + delta\<rparr>"

text \<open>\<open>CasMaxLatency\<close> as one update; \<open>Cas_Max\<close> runs its loads and swaps apart.\<close>

definition CasMaxLatency :: "int \<Rightarrow> APICallStatValueImpl \<Rightarrow> APICallStatValueImpl" where
  "CasMaxLatency val a = (if val \<le> MaxLatency a then a else a\<lparr>MaxLatency := val\<rparr>)"

definition ResetMaxLatency :: "int \<Rightarrow> APICallStatValueImpl \<Rightarrow> APICallStatValueImpl" where
  "ResetMaxLatency lastValue a = (if MaxLatency a = lastValue then a\<lparr>MaxLatency := 0\<rparr> else a)"

definition SetLastUpdateTime :: "int \<Rightarrow> APICallStatValueImpl \<Rightarrow> APICallStatValueImpl" where
  "SetLastUpdateTime t a = a\<lparr>ApiLastUpdateTime := t\<rparr>"

definition ApiClone :: "APICallStatValueImpl \<Rightarrow> APICallStatValueImpl" where
  "ApiClone a = a\<lparr>MaxLatency := Latency a\<rparr>"

definition GetAPIKeyPresent :: "APIKey \<Rightarrow> string" where
  "GetAPIKeyPresent k = (case k of
     InitQuotaV1 \<Rightarrow> ''v1.RateLimitGRPC/InitializeQuota''
   | AcquireQuotaV1 \<Rightarrow> ''v1.RateLimitGRPC/AcquireQuota''
   | InitQuotaV2 \<Rightarrow> ''v2.RateLimitGRPCV2/Service/Init''
   | AcquireQuotaV2 \<Rightarrow> ''v2.RateLimitGRPCV2/Service/Acquire''
   | BatchInitQuotaV2 \<Rightarrow> ''v2.RateLimitGRPCV2/Service/BatchInit''
   | BatchAcquireQuotaV2 \<Rightarrow> ''v2.RateLimitGRPCV2/Service/BatchAcquire'')"

lemma GetAPIKeyPresent_inj: "inj GetAPIKeyPresent"
proof (rule injI)
  fix a b
  assume "GetAPIKeyPresent a = GetAPIKeyPresent b"
  then show "a = b" by (cases a; cases b) (simp_all add: GetAPIKeyPresent_def)
qed

lemma CasMaxLatency_max: "MaxLatency (CasMaxLatency val a) = max (MaxLatency a) val"
  by (simp add: CasMaxLatency_def)

end
