(* ===== verification/Push.thy ===== *)
theory Push
  imports Api_Call Stream_Client
begin

text \<open>
  \<open>ratelimitv2/push.go\<close>: the push manager, a fixed number of bounded channels with one worker
  each. \<open>Schedule\<close> never blocks: it tries the channel of the counter's key first, then the
  others in order, and drops the value when all are full. A value holds its counter and the
  quota message by reference, so the message is read when it is sent, not when it is scheduled.
\<close>

record PushValue =
  Counter :: nat
  Report :: RateLimitReportResponse
  LeftRefs :: "nat list"
  ExcludeClient :: string
  StartTimeMicro :: int
  MsgTimeMicro :: int

record pushManager =
  workerCount :: int
  chanSize :: nat
  pushChannels :: "PushValue list list"

datatype push_error = WorkerCountZero

definition NewPushManager :: "int \<Rightarrow> nat \<Rightarrow> push_error + pushManager" where
  "NewPushManager workers cap =
     (if workers = 0 then Inl WorkerCountZero
      else Inr \<lparr>workerCount = workers, chanSize = cap, pushChannels = replicate (nat workers) []\<rparr>)"

fun tryChannels :: "nat \<Rightarrow> nat list \<Rightarrow> PushValue \<Rightarrow> PushValue list list \<Rightarrow> PushValue list list" where
  "tryChannels cap [] v chans = chans"
| "tryChannels cap (i # is) v chans =
     (if length (chans ! i) < cap then chans[i := chans ! i @ [v]]
      else tryChannels cap is v chans)"

definition Schedule :: "u32 \<Rightarrow> PushValue \<Rightarrow> pushManager \<Rightarrow> panic + pushManager" where
  "Schedule key v pm =
     bindR (rem64 (uint key) (workerCount pm)) (\<lambda>startIdx.
       Inr (pm\<lparr>pushChannels := tryChannels (chanSize pm)
              (map (\<lambda>i. nat ((startIdx + int i) mod workerCount pm)) [0..<nat (workerCount pm)])
              v (pushChannels pm)\<rparr>))"

text \<open>One round of the worker \<open>idx\<close>: it takes the oldest value of its channel, if there is one.\<close>

definition receive :: "nat \<Rightarrow> pushManager \<Rightarrow> (PushValue \<times> pushManager) option" where
  "receive idx pm =
     (case pushChannels pm ! idx of
        [] \<Rightarrow> None
      | v # vs \<Rightarrow> Some (v, pm\<lparr>pushChannels := (pushChannels pm)[idx := vs]\<rparr>))"

section \<open>Lemmas\<close>

definition push_ok :: "pushManager \<Rightarrow> bool" where
  "push_ok pm \<longleftrightarrow> 0 < workerCount pm \<and> workerCount pm < 2 ^ 32 \<and>
     length (pushChannels pm) = nat (workerCount pm) \<and>
     (\<forall>i < length (pushChannels pm). length (pushChannels pm ! i) \<le> chanSize pm)"

definition queued :: "pushManager \<Rightarrow> nat" where
  "queued pm = sum_list (map length (pushChannels pm))"

lemma NewPushManager_ok:
  "0 < workers \<Longrightarrow> workers < 2 ^ 32 \<Longrightarrow> \<exists>pm. NewPushManager workers cap = Inr pm \<and> push_ok pm \<and> queued pm = 0"
  by (simp add: NewPushManager_def push_ok_def queued_def sum_list_replicate)

lemma tryChannels_cases:
  "(\<forall>i \<in> set is. i < length chans) \<Longrightarrow>
     (\<exists>i \<in> set is. length (chans ! i) < cap \<and> tryChannels cap is v chans = chans[i := chans ! i @ [v]]) \<or>
     (\<forall>i \<in> set is. cap \<le> length (chans ! i)) \<and> tryChannels cap is v chans = chans"
  by (induction cap "is" v chans rule: tryChannels.induct) auto

text \<open>The channels are tried in a rotation, so all of them are.\<close>

lemma rotation_indices:
  assumes "0 < (w :: int)" "0 \<le> s"
  shows "set (map (\<lambda>i. nat ((s + int i) mod w)) [0..<nat w]) = {..<nat w}"
proof
  show "set (map (\<lambda>i. nat ((s + int i) mod w)) [0..<nat w]) \<subseteq> {..<nat w}"
    using assms by auto
  show "{..<nat w} \<subseteq> set (map (\<lambda>i. nat ((s + int i) mod w)) [0..<nat w])"
  proof
    fix j assume j: "j \<in> {..<nat w}"
    define i where "i = nat ((int j - s) mod w)"
    have i: "i < nat w" "int i = (int j - s) mod w" using assms by (auto simp: i_def)
    have "(s + int i) mod w = int j mod w" unfolding i(2) by (simp add: mod_simps)
    then have "nat ((s + int i) mod w) = j" using j assms(1) by simp
    with i(1) show "j \<in> set (map (\<lambda>i. nat ((s + int i) mod w)) [0..<nat w])" by force
  qed
qed

lemma Schedule_cases:
  assumes "push_ok pm"
  shows "(\<exists>i < length (pushChannels pm). length (pushChannels pm ! i) < chanSize pm \<and>
            Schedule key v pm = Inr (pm\<lparr>pushChannels := (pushChannels pm)[i := pushChannels pm ! i @ [v]]\<rparr>)) \<or>
         (\<forall>i < length (pushChannels pm). length (pushChannels pm ! i) = chanSize pm) \<and> Schedule key v pm = Inr pm"
proof -
  let ?w = "workerCount pm" and ?chs = "pushChannels pm"
  have w: "0 < ?w" "length ?chs = nat ?w" using assms by (auto simp: push_ok_def)
  define s where "s = uint key mod ?w"
  have s: "rem64 (uint key) ?w = Inr s" "0 \<le> s"
    using w(1) uint_u32_bounds(1) [of key] by (simp_all add: rem64_pos s_def)
  let ?is = "map (\<lambda>i. nat ((s + int i) mod ?w)) [0..<nat ?w]"
  have is_set: "set ?is = {..<nat ?w}" by (rule rotation_indices [OF w(1) s(2)])
  have S: "Schedule key v pm = Inr (pm\<lparr>pushChannels := tryChannels (chanSize pm) ?is v ?chs\<rparr>)"
    by (simp add: Schedule_def s)
  have "\<forall>i \<in> set ?is. i < length ?chs" using is_set w(2) by auto
  from tryChannels_cases [OF this, of "chanSize pm" v] show ?thesis
  proof (elim disjE bexE conjE)
    fix i assume "i \<in> set ?is" "length (?chs ! i) < chanSize pm"
      "tryChannels (chanSize pm) ?is v ?chs = ?chs[i := ?chs ! i @ [v]]"
    with S is_set w(2) show ?thesis by auto
  next
    assume full: "\<forall>i \<in> set ?is. chanSize pm \<le> length (?chs ! i)"
      and same: "tryChannels (chanSize pm) ?is v ?chs = ?chs"
    have "\<forall>i < length ?chs. length (?chs ! i) = chanSize pm"
      using full assms w(2) unfolding is_set by (auto simp: push_ok_def intro: antisym)
    with S same show ?thesis by simp
  qed
qed

lemma sum_list_length_update:
  "i < length xs \<Longrightarrow> sum_list (map length (xs[i := xs ! i @ [v]])) = Suc (sum_list (map length xs))"
  by (induction xs arbitrary: i) (auto split: nat.splits simp: nth_Cons)

lemma push_ok_append:
  assumes "push_ok pm" "i < length (pushChannels pm)" "length (pushChannels pm ! i) < chanSize pm"
  shows "push_ok (pm\<lparr>pushChannels := (pushChannels pm)[i := pushChannels pm ! i @ [v]]\<rparr>)"
  using assms by (auto simp: push_ok_def nth_list_update Suc_le_eq)

lemma Schedule_ok:
  assumes "push_ok pm"
  shows "\<exists>pm'. Schedule key v pm = Inr pm' \<and> push_ok pm' \<and> workerCount pm' = workerCount pm \<and>
    chanSize pm' = chanSize pm"
  using Schedule_cases [OF assms, of key v] push_ok_append [OF assms] assms by auto

lemma receive_ok:
  assumes "push_ok pm" "receive idx pm = Some (v, pm')" "idx < length (pushChannels pm)"
  shows "push_ok pm'" "pushChannels pm ! idx = v # pushChannels pm' ! idx"
proof -
  obtain vs where vs: "pushChannels pm ! idx = v # vs" "pm' = pm\<lparr>pushChannels := (pushChannels pm)[idx := vs]\<rparr>"
    using assms(2) by (auto simp: receive_def split: list.splits)
  have "length (v # vs) \<le> chanSize pm" using assms(1,3) vs(1) unfolding push_ok_def by metis
  then show "push_ok pm'" using assms(1,3) vs(2) by (auto simp: push_ok_def nth_list_update)
  show "pushChannels pm ! idx = v # pushChannels pm' ! idx" using vs assms(3) by simp
qed

end
