(* ===== verification/Counter.thy ===== *)
theory Counter
  imports Sliding_Window Labels Stat_Collector Push
begin

text \<open>
  \<open>ratelimitv2/counter.go\<close> and \<open>ratelimitv2/occupy.go\<close>: a counter holds the quota of one label
  set and duration, the clients subscribed to it, and the allocator that owns the sliding window.
  An operation takes the counter and the memory it shares with the other components (clients,
  quota messages, push channels, logs) and returns both updated. The back pointer of the
  allocator to its counter is the counter passed along; a reference to the counter itself, where
  one is stored (the push value), is its index in the store of counters.
\<close>

section \<open>State\<close>

record CounterIdentifier =
  id_Service :: string
  id_Namespace :: string
  id_Labels :: string
  id_Duration :: int

record InitRequest =
  MaxAmount :: u32
  Req_SlideCount :: int
  Sender :: "nat option"
  Req_Duration :: int
  Req_ExpireDuration :: int
  AmountMode :: QuotaMode

record OccupyAllocator =
  slidingWindow :: SlidingWindow
  quotaUsedOff :: u32
  allocMode :: Mode

record CounterClients =
  clientSenders :: "(u32 \<times> ClientSendTime) list"
  clientIds :: "(string \<times> (u32 \<times> bool) list) list"
  clientCount :: u32

record counterV2 =
  cIdentifier :: CounterIdentifier
  subLabels :: SubLabels
  counterKey :: u32
  duration :: int
  expireDurationMilli :: int
  lastMTimeMilli :: int
  ruleMaxAmount :: u32
  maxAmount :: u32
  amountMode :: QuotaMode
  allocator :: "OccupyAllocator option"
  counterClients :: CounterClients

text \<open>The memory of the clients, with the quota messages, the push channels and the call log.\<close>

record CMem = Mem +
  quotaLefts :: "QuotaLeft list"
  pushMgr :: pushManager
  apiCalls :: "APICallStatValueImpl list"

definition AddAPICall :: "APICallStatValueImpl \<Rightarrow> 'a CMem_scheme \<Rightarrow> 'a CMem_scheme" where
  "AddAPICall a m = m\<lparr>apiCalls := apiCalls m @ [a]\<rparr>"

section \<open>Clients of a counter\<close>

definition reloadMaxAmount :: "int \<Rightarrow> u32 \<Rightarrow> string \<Rightarrow> counterV2 \<Rightarrow> 'a Mem_scheme
    \<Rightarrow> counterV2 \<times> 'a Mem_scheme" where
  "reloadMaxAmount timeNum count clId c m =
     (let (action, curMaxAmount) =
            (if amountMode c \<noteq> DIVIDE then (TriggerShareGlobal, ruleMaxAmount c)
             else (TriggerShareEqually, count * ruleMaxAmount c))
      in (c\<lparr>maxAmount := curMaxAmount\<rparr>,
          AddEventToLog (QuotaChange
            \<lparr>qce_TimeNumber = timeNum, qce_Namespace = id_Namespace (cIdentifier c),
             qce_Service = id_Service (cIdentifier c), qce_Labels = id_Labels (cIdentifier c),
             qce_Duration = id_Duration (cIdentifier c), qce_Action = action, qce_ClientId = clId,
             qce_LatestAmount = maxAmount c, qce_CurrentAmount = curMaxAmount\<rparr>) m))"

definition clientEvent :: "int \<Rightarrow> counterV2 \<Rightarrow> client \<Rightarrow> string \<Rightarrow> u32 \<Rightarrow> Event" where
  "clientEvent timeNum c s action count =
     CounterClientUpdate
       \<lparr>ccue_TimeNumber = timeNum, ccue_Namespace = id_Namespace (cIdentifier c),
        ccue_Service = id_Service (cIdentifier c), ccue_Labels = id_Labels (cIdentifier c),
        ccue_Duration = id_Duration (cIdentifier c), ccue_ClientId = clientId s,
        ccue_IPAddress = clientIP s, ccue_Action = action, ccue_ClientCount = uint count\<rparr>"

definition AddSender :: "Timeval \<Rightarrow> nat option \<Rightarrow> counterV2 \<Rightarrow> 'a Mem_scheme
    \<Rightarrow> panic + (counterV2 \<times> 'a Mem_scheme)" where
  "AddSender tv sender c m =
     bindR (deref m sender) (\<lambda>s.
       let cc = counterClients c;
           timeNum = CurrentMillisecond tv;
           senders = AList.update (clientKey s) \<lparr>curClient = the sender, lastSentMicro = 0\<rparr> (clientSenders cc);
           ok = (map_of (clientIds cc) (clientId s) \<noteq> None);
           ids = (if ok then clientIds cc
                  else AList.update (clientId s) (AList.update (clientKey s) True []) (clientIds cc));
           count = of_nat (length ids);
           m1 = (if \<not> ok then AddEventToLog (clientEvent timeNum c s ActionAdd count) m else m);
           c1 = c\<lparr>counterClients := \<lparr>clientSenders = senders, clientIds = ids, clientCount = count\<rparr>\<rparr>
       in Inr (reloadMaxAmount timeNum count (clientId s) c1 m1))"

definition DelSender :: "Timeval \<Rightarrow> nat option \<Rightarrow> bool \<Rightarrow> counterV2 \<Rightarrow> 'a Mem_scheme
    \<Rightarrow> panic + (counterV2 \<times> 'a Mem_scheme)" where
  "DelSender tv sender counterExpired c m =
     bindR (deref m sender) (\<lambda>s.
       let cc = counterClients c; timeNum = CurrentMillisecond tv in
       case map_of (clientIds cc) (clientId s) of
         None \<Rightarrow> Inr (c, m)
       | Some clientKeys \<Rightarrow>
           if \<not> counterExpired \<and> \<not> IsDetached s then Inr (c, m)
           else
             let senders = AList.delete (clientKey s) (clientSenders cc);
                 keys = AList.delete (clientKey s) clientKeys;
                 ids = (if length keys = 0 then AList.delete (clientId s) (clientIds cc)
                        else AList.update (clientId s) keys (clientIds cc));
                 count = of_nat (length ids);
                 c1 = c\<lparr>counterClients := \<lparr>clientSenders = senders, clientIds = ids, clientCount = count\<rparr>\<rparr>
             in if count \<noteq> clientCount cc
                then Inr (reloadMaxAmount timeNum count (clientId s) c1
                       (AddEventToLog (clientEvent timeNum c s ActionDelete count) m))
                else Inr (c1, m))"

text \<open>\<open>CleanupSenders\<close>: every sender that the map held when the loop began.\<close>

fun delSenders :: "Timeval \<Rightarrow> bool \<Rightarrow> (u32 \<times> ClientSendTime) list \<Rightarrow> counterV2 \<Rightarrow> 'a Mem_scheme
    \<Rightarrow> panic + (counterV2 \<times> 'a Mem_scheme)" where
  "delSenders tv expired [] c m = Inr (c, m)"
| "delSenders tv expired ((k, t) # senders) c m =
     bindR (DelSender tv (Some (curClient t)) expired c m) (\<lambda>(c', m').
       delSenders tv expired senders c' m')"

definition CleanupSenders :: "Timeval \<Rightarrow> bool \<Rightarrow> counterV2 \<Rightarrow> 'a Mem_scheme
    \<Rightarrow> panic + (counterV2 \<times> 'a Mem_scheme)" where
  "CleanupSenders tv expired c m = delSenders tv expired (clientSenders (counterClients c)) c m"

section \<open>The allocator\<close>

definition NewOccupyAllocator :: "int \<Rightarrow> int \<Rightarrow> panic + OccupyAllocator" where
  "NewOccupyAllocator slides interval =
     bindR (NewSlidingWindow slides interval) (\<lambda>w.
       Inr \<lparr>slidingWindow = w, quotaUsedOff = 0, allocMode = BATCH_OCCUPY\<rparr>)"

definition doPush :: "Timeval \<Rightarrow> nat \<Rightarrow> u32 \<Rightarrow> nat \<Rightarrow> nat option \<Rightarrow> int \<Rightarrow> 'a CMem_scheme
    \<Rightarrow> panic + 'a CMem_scheme" where
  "doPush tv self key left cl startTimeMicro m =
     (let resp = NewRateLimitReportResponse tv ExecuteSuccess in
      bindR (deref m cl) (\<lambda>s.
      bindR (Schedule key
          \<lparr>Counter = self, Report = Timed_Response resp, LeftRefs = [left],
           ExcludeClient = clientId s, StartTimeMicro = startTimeMicro,
           MsgTimeMicro = createTimeMicro resp\<rparr> (pushMgr m)) (\<lambda>pm.
        Inr (m\<lparr>pushMgr := pm\<rparr>))))"

text \<open>
  \<open>Allocate\<close>: the result is a new quota message, by reference. The message is pushed to the
  other clients when the quota runs out, once until it recovers.
\<close>

definition quotaFlag :: "int \<Rightarrow> u32 \<Rightarrow> bool \<times> u32" where
  "quotaFlag quotaLeft off =
     (if quotaLeft \<le> 0 \<and> off = 0 then (True, 1)
      else if quotaLeft > 0 then (False, if off = 1 then 0 else off)
      else (False, off))"

definition Allocate :: "Timeval \<Rightarrow> nat \<Rightarrow> nat option \<Rightarrow> QuotaSum \<Rightarrow> int \<Rightarrow> int \<Rightarrow> counterV2 \<Rightarrow> 'a CMem_scheme
    \<Rightarrow> panic + (nat \<times> counterV2 \<times> 'a CMem_scheme)" where
  "Allocate tv self cl quotaSum timestampMs startTimeMicro c m =
     (case allocator c of
        None \<Rightarrow> Inl NilPointer
      | Some o' \<Rightarrow>
          let serverTimeMs = i64 (startTimeMicro sdiv 1000) in
          bindR (AddAndGetCurrent (slidingWindow o') timestampMs serverTimeMs (Sum_Used quotaSum)) (\<lambda>(totalUsed, w).
            let quotaLeft = sub64 (uint (maxAmount c)) (uint totalUsed);
                left = \<lparr>Left_CounterKey = Sum_CounterKey quotaSum, Left_Mode = allocMode o',
                        Left_Left = quotaLeft, Left_ClientCount = clientCount (counterClients c)\<rparr>;
                ref = length (quotaLefts m);
                m1 = m\<lparr>quotaLefts := quotaLefts m @ [left]\<rparr>
            in if Sum_Used quotaSum = 0 \<and> Sum_Limited quotaSum = 0
               then Inr (ref, c\<lparr>allocator := Some (o'\<lparr>slidingWindow := w\<rparr>)\<rparr>, m1)
               else let (push, off) = quotaFlag quotaLeft (quotaUsedOff o');
                        c1 = c\<lparr>allocator := Some (o'\<lparr>slidingWindow := w, quotaUsedOff := off\<rparr>)\<rparr>
                    in if push
                       then bindR (doPush tv self (counterKey c) ref cl startTimeMicro m1) (\<lambda>m2.
                              Inr (ref, c1, m2))
                       else Inr (ref, c1, m1)))"

section \<open>The counter\<close>

definition Milliseconds :: "int \<Rightarrow> int" where
  "Milliseconds d = i64 (d sdiv 1000000)"

definition counterEvent :: "int \<Rightarrow> string \<Rightarrow> counterV2 \<Rightarrow> Event" where
  "counterEvent timeNum action c =
     CounterUpdate
       \<lparr>coue_TimeNumber = timeNum, coue_Namespace = id_Namespace (cIdentifier c),
        coue_Service = id_Service (cIdentifier c), coue_Labels = id_Labels (cIdentifier c),
        coue_Duration = id_Duration (cIdentifier c), coue_Action = action,
        coue_Amount = maxAmount c\<rparr>"

definition Init :: "Timeval \<Rightarrow> InitRequest \<Rightarrow> counterV2 \<Rightarrow> 'a Mem_scheme
    \<Rightarrow> panic + (counterV2 \<times> 'a Mem_scheme)" where
  "Init tv req c m =
     (let c1 = c\<lparr>ruleMaxAmount := MaxAmount req, lastMTimeMilli := CurrentMillisecond tv,
                 duration := Req_Duration req,
                 expireDurationMilli := Milliseconds (Req_ExpireDuration req),
                 amountMode := AmountMode req\<rparr> in
      bindR (AddSender tv (Sender req) c1 m) (\<lambda>(c2, m2).
      bindR (NewOccupyAllocator (Req_SlideCount req) (Milliseconds (duration c2))) (\<lambda>o'.
        let c3 = c2\<lparr>allocator := Some o'\<rparr>
        in Inr (c3, AddEventToLog (counterEvent (lastMTimeMilli c3) ActionAdd c3) m2))))"

definition NewCounterV2 :: "Timeval \<Rightarrow> u32 \<Rightarrow> CounterIdentifier \<Rightarrow> InitRequest \<Rightarrow> 'a Mem_scheme
    \<Rightarrow> panic + (counterV2 \<times> 'a Mem_scheme)" where
  "NewCounterV2 tv key ident req m =
     Init tv req
       \<lparr>cIdentifier = ident, subLabels = ParseLabels (id_Labels ident), counterKey = key,
        duration = id_Duration ident, expireDurationMilli = 0, lastMTimeMilli = 0,
        ruleMaxAmount = 0, maxAmount = 0, amountMode = WHOLE, allocator = None,
        counterClients = \<lparr>clientSenders = [], clientIds = [], clientCount = 0\<rparr>\<rparr> m"

definition counter_ExpireDuration :: "counterV2 \<Rightarrow> int" where
  "counter_ExpireDuration c = mul64 (expireDurationMilli c) 1000000"

definition counter_Reload :: "Timeval \<Rightarrow> InitRequest \<Rightarrow> counterV2 \<Rightarrow> 'a Mem_scheme
    \<Rightarrow> panic + (counterV2 \<times> 'a Mem_scheme)" where
  "counter_Reload tv req c m =
     AddSender tv (Sender req)
       (c\<lparr>ruleMaxAmount := MaxAmount req,
          expireDurationMilli := Milliseconds (Req_ExpireDuration req),
          amountMode := AmountMode req, duration := Req_Duration req,
          lastMTimeMilli := CurrentMillisecond tv\<rparr>) m"

definition counter_Update :: "Timeval \<Rightarrow> counterV2 \<Rightarrow> counterV2" where
  "counter_Update tv c = c\<lparr>lastMTimeMilli := CurrentMillisecond tv\<rparr>"

definition UpdateClientSendTime :: "nat option \<Rightarrow> int \<Rightarrow> counterV2 \<Rightarrow> 'a Mem_scheme \<Rightarrow> panic + counterV2" where
  "UpdateClientSendTime sender sendTimeMicro c m =
     bindR (deref m sender) (\<lambda>s.
       let cc = counterClients c in
       case map_of (clientSenders cc) (clientKey s) of
         None \<Rightarrow> Inr c
       | Some t \<Rightarrow>
           Inr (c\<lparr>counterClients := cc\<lparr>clientSenders :=
             AList.update (clientKey s) (snd (UpdateLastSendTime t sendTimeMicro)) (clientSenders cc)\<rparr>\<rparr>))"

definition IsExpired :: "Timeval \<Rightarrow> counterV2 \<Rightarrow> bool" where
  "IsExpired tv c \<longleftrightarrow> expireDurationMilli c < sub64 (CurrentMillisecond tv) (lastMTimeMilli c)"

definition doQuotaStatReport :: "int \<Rightarrow> u32 \<Rightarrow> u32 \<Rightarrow> nat option \<Rightarrow> counterV2 \<Rightarrow> 'a Mem_scheme
    \<Rightarrow> (RateLimitStatKeyV2, StatLabelsV2) RateLimitStatCollector
    \<Rightarrow> panic + (RateLimitStatKeyV2, StatLabelsV2) RateLimitStatCollector" where
  "doQuotaStatReport startTimeMicro passed limited cl c m collector =
     (let startTimeMilli = i64 (startTimeMicro sdiv 1000) in
      if passed > 0 \<or> limited > 0 then
        bindR (deref m cl) (\<lambda>s.
          Inr (AddStatValue collector
            \<lparr>StatKey = \<lparr>CounterKeyV2 = counterKey c, ClientIPV2 = clientIP s\<rparr>,
             Total = uint (maxAmount c),
             CurveData = InitValues (uint passed) (uint limited) startTimeMilli,
             PrecisionData = InitValues (uint passed) (uint limited) startTimeMilli,
             StatLabels = \<lparr>stat_Namespace = id_Namespace (cIdentifier c),
               stat_Service = id_Service (cIdentifier c), stat_Method = Method (subLabels c),
               stat_AppId = AppId (subLabels c), stat_Uin = Uin (subLabels c),
               stat_Labels = Labels (subLabels c), stat_Duration = id_Duration (cIdentifier c)\<rparr>,
             ExpireDuration = expireDurationMilli c, LastUpdateTime = startTimeMilli\<rparr>))
      else Inr collector)"

definition counter_AcquireQuota :: "Timeval \<Rightarrow> nat \<Rightarrow> nat option \<Rightarrow> QuotaSum \<Rightarrow> int \<Rightarrow> int
    \<Rightarrow> counterV2 \<Rightarrow> 'a CMem_scheme \<Rightarrow> (RateLimitStatKeyV2, StatLabelsV2) RateLimitStatCollector
    \<Rightarrow> panic + (nat \<times> counterV2 \<times> 'a CMem_scheme \<times> (RateLimitStatKeyV2, StatLabelsV2) RateLimitStatCollector)" where
  "counter_AcquireQuota tv self cl quotaSum timestampMs startTimeMicro c m collector =
     bindR (doQuotaStatReport startTimeMicro (Sum_Used quotaSum) (Sum_Limited quotaSum) cl c m collector) (\<lambda>collector'.
     bindR (Allocate tv self cl quotaSum timestampMs startTimeMicro c m) (\<lambda>(left, c', m').
       Inr (left, c', m', collector')))"

definition SumQuota :: "Timeval \<Rightarrow> nat \<Rightarrow> nat option \<Rightarrow> int \<Rightarrow> counterV2 \<Rightarrow> 'a CMem_scheme
    \<Rightarrow> panic + (nat \<times> counterV2 \<times> 'a CMem_scheme)" where
  "SumQuota tv self cl timestampMs c m =
     Allocate tv self cl \<lparr>Sum_CounterKey = counterKey c, Sum_Used = 0, Sum_Limited = 0\<rparr>
       timestampMs (mul64 timestampMs 1000) c m"

text \<open>The message of a push value, as it reads when it is sent.\<close>

definition pushMsg :: "'a CMem_scheme \<Rightarrow> PushValue \<Rightarrow> RateLimitResponse" where
  "pushMsg m v =
     \<lparr>Resp_Cmd = ACQUIRE, Resp_Init = None, Resp_BatchInit = None,
      Resp_Report = Some ((Report v)\<lparr>ReportResp_QuotaLefts := map (\<lambda>r. quotaLefts m ! r) (LeftRefs v)\<rparr>)\<rparr>"

fun pushSenders :: "Timeval \<Rightarrow> (StreamContext \<Rightarrow> RateLimitResponse \<Rightarrow> bool) \<Rightarrow> PushValue \<Rightarrow> int
    \<Rightarrow> (u32 \<times> ClientSendTime) list \<Rightarrow> 'a CMem_scheme
    \<Rightarrow> panic + ((u32 \<times> ClientSendTime) list \<times> 'a CMem_scheme)" where
  "pushSenders tv fails v dur [] m = Inr ([], m)"
| "pushSenders tv fails v dur ((k, t) # senders) m =
     bindR (deref m (Some (curClient t))) (\<lambda>s.
       if clientId s = ExcludeClient v
       then bindR (pushSenders tv fails v dur senders m) (\<lambda>(rest, m'). Inr ((k, t) # rest, m'))
       else
         let spendTimeMicro = sub64 (CurrentMicrosecond tv) (StartTimeMicro v); msg = pushMsg m v in
         bindR (SendAndUpdate fails s msg (Some t) (MsgTimeMicro v) m) (\<lambda>((sent, err), t', m1).
           let m2 = (if \<not> sent then m1
                     else AddAPICall (NewAPICall \<lparr>ApiKey = AcquireQuotaV2, ApiCode = GetErrorCode msg,
                       ApiMsgType = MsgPush, ApiDuration = dur\<rparr> spendTimeMicro) m1)
           in bindR (pushSenders tv fails v dur senders m2) (\<lambda>(rest, m').
                Inr ((k, the t') # rest, m'))))"

definition PushMessage :: "Timeval \<Rightarrow> (StreamContext \<Rightarrow> RateLimitResponse \<Rightarrow> bool) \<Rightarrow> PushValue
    \<Rightarrow> counterV2 \<Rightarrow> 'a CMem_scheme \<Rightarrow> panic + (counterV2 \<times> 'a CMem_scheme)" where
  "PushMessage tv fails v c m =
     bindR (pushSenders tv fails v (id_Duration (cIdentifier c)) (clientSenders (counterClients c)) m)
       (\<lambda>(senders, m'). Inr (c\<lparr>counterClients := (counterClients c)\<lparr>clientSenders := senders\<rparr>\<rparr>, m'))"

end
