(* ===== verification/Counter_Quota.thy ===== *)
theory Counter_Quota
  imports Counter
begin

text \<open>
  What a counter promises: its client sets stay consistent with the clients they name, the
  effective quota follows the rule and the number of clients, an allocation answers the quota
  minus the usage of the window (the log of the sliding window is the specification), and a push
  reaches every other subscribed client at most once.
\<close>

section \<open>Invariant\<close>

definition sender_ok :: "client list \<Rightarrow> u32 \<times> ClientSendTime \<Rightarrow> bool" where
  "sender_ok h e \<longleftrightarrow> curClient (snd e) < length h \<and> clientKey (h ! curClient (snd e)) = fst e"

definition clients_ok :: "client list \<Rightarrow> CounterClients \<Rightarrow> bool" where
  "clients_ok h cc \<longleftrightarrow> wf_map (clientSenders cc) \<and> wf_map (clientIds cc) \<and>
     (\<forall>e \<in> set (clientSenders cc). sender_ok h e) \<and>
     clientCount cc = of_nat (length (clientIds cc))"

definition effectiveMax :: "counterV2 \<Rightarrow> u32" where
  "effectiveMax c = (if amountMode c = DIVIDE
     then clientCount (counterClients c) * ruleMaxAmount c else ruleMaxAmount c)"

definition allocator_ok :: "OccupyAllocator \<Rightarrow> slide_log \<Rightarrow> int \<Rightarrow> bool" where
  "allocator_ok a L cur \<longleftrightarrow> slide_rel (slidingWindow a) L cur \<and> allocMode a = BATCH_OCCUPY \<and>
     (quotaUsedOff a = 0 \<or> quotaUsedOff a = 1)"

definition counter_ok :: "client list \<Rightarrow> counterV2 \<Rightarrow> slide_log \<Rightarrow> int \<Rightarrow> bool" where
  "counter_ok h c L cur \<longleftrightarrow> clients_ok h (counterClients c) \<and> maxAmount c = effectiveMax c \<and>
     (\<exists>a. allocator c = Some a \<and> allocator_ok a L cur)"

lemma sender_ok_mono: "same_clients h h' \<Longrightarrow> sender_ok h e \<Longrightarrow> sender_ok h' e"
  by (auto simp: same_clients_def sender_ok_def)

lemma clients_ok_mono: "same_clients h h' \<Longrightarrow> clients_ok h cc \<Longrightarrow> clients_ok h' cc"
  by (auto simp: clients_ok_def intro: sender_ok_mono)

lemma counter_ok_mono: "same_clients h h' \<Longrightarrow> counter_ok h c L cur \<Longrightarrow> counter_ok h' c L cur"
  by (auto simp: counter_ok_def intro: clients_ok_mono)

lemma set_update_subset: "set (AList.update k v m) \<subseteq> insert (k, v) (set m)"
  by (induction m) auto

lemma set_delete_subset: "set (AList.delete k m) \<subseteq> set m"
  by (auto simp: AList.delete_eq)

lemma clients_ok_senders:
  assumes "clients_ok h cc" "senders = AList.update k t (clientSenders cc)" "sender_ok h (k, t)"
  shows "wf_map senders" "\<forall>e \<in> set senders. sender_ok h e"
  using assms set_update_subset [of k t "clientSenders cc"]
  by (auto simp: clients_ok_def amap.ok_put)

section \<open>Clients\<close>

lemma reloadMaxAmount_simps:
  "fst (reloadMaxAmount timeNum n i c m) = c\<lparr>maxAmount := (if amountMode c = DIVIDE
     then n * ruleMaxAmount c else ruleMaxAmount c)\<rparr>"
  "\<exists>e. snd (reloadMaxAmount timeNum n i c m) = AddEventToLog e m"
  by (auto simp: reloadMaxAmount_def)

text \<open>Adding a sender: the outcome without the event log.\<close>

definition senders_after_add :: "client \<Rightarrow> nat \<Rightarrow> CounterClients \<Rightarrow> CounterClients" where
  "senders_after_add s r cc =
     (let ids = (if map_of (clientIds cc) (clientId s) \<noteq> None then clientIds cc
                 else AList.update (clientId s) [(clientKey s, True)] (clientIds cc))
      in \<lparr>clientSenders = AList.update (clientKey s) \<lparr>curClient = r, lastSentMicro = 0\<rparr> (clientSenders cc),
          clientIds = ids, clientCount = of_nat (length ids)\<rparr>)"

lemma AddSender_result:
  assumes "r < length (clientObjs m)"
  shows "\<exists>m' es. AddSender tv (Some r) c m =
      Inr (let cc = senders_after_add (clientObjs m ! r) r (counterClients c)
           in c\<lparr>counterClients := cc,
                maxAmount := effectiveMax (c\<lparr>counterClients := cc\<rparr>)\<rparr>, m') \<and>
      m' = m\<lparr>eventLog := eventLog m @ es\<rparr>"
proof -
  have log: "\<exists>es. AddEventToLog e m = m\<lparr>eventLog := eventLog m @ es\<rparr>" for e
    by (auto simp: AddEventToLog_def)
  show ?thesis
    using assms
    by (auto simp: AddSender_def senders_after_add_def reloadMaxAmount_def effectiveMax_def
        AddEventToLog_def Let_def)
qed

lemma senders_after_add_ok:
  assumes "clients_ok h cc" "r < length h"
  shows "clients_ok h (senders_after_add (h ! r) r cc)"
proof -
  have "sender_ok h (clientKey (h ! r), \<lparr>curClient = r, lastSentMicro = 0\<rparr>)"
    using assms(2) by (simp add: sender_ok_def)
  note S = clients_ok_senders [OF assms(1) refl this]
  have ids: "wf_map (clientIds cc)" using assms(1) by (simp add: clients_ok_def)
  show ?thesis
    using S ids by (simp add: clients_ok_def senders_after_add_def Let_def amap.ok_put)
qed

definition senders_after_del :: "client \<Rightarrow> bool \<Rightarrow> CounterClients \<Rightarrow> CounterClients" where
  "senders_after_del s expired cc =
     (case map_of (clientIds cc) (clientId s) of
        None \<Rightarrow> cc
      | Some keys \<Rightarrow>
          if \<not> expired \<and> \<not> detached s then cc
          else let keys' = AList.delete (clientKey s) keys;
                   ids = (if keys' = [] then AList.delete (clientId s) (clientIds cc)
                          else AList.update (clientId s) keys' (clientIds cc))
               in \<lparr>clientSenders = AList.delete (clientKey s) (clientSenders cc),
                   clientIds = ids, clientCount = of_nat (length ids)\<rparr>)"

lemma DelSender_result:
  assumes "r < length (clientObjs m)" "maxAmount c = effectiveMax c"
  shows "\<exists>m' es. DelSender tv (Some r) expired c m =
      Inr (let cc = senders_after_del (clientObjs m ! r) expired (counterClients c)
           in c\<lparr>counterClients := cc,
                maxAmount := effectiveMax (c\<lparr>counterClients := cc\<rparr>)\<rparr>, m') \<and>
      m' = m\<lparr>eventLog := eventLog m @ es\<rparr>"
proof -
  have same: "c\<lparr>counterClients := counterClients c, maxAmount := effectiveMax c\<rparr> = c"
    using assms(2) by simp
  have nolog: "m = m\<lparr>eventLog := eventLog m @ []\<rparr>" by simp
  show ?thesis
  proof (cases "map_of (clientIds (counterClients c)) (clientId (clientObjs m ! r))")
    case None
    then show ?thesis
      using assms same by (auto simp: DelSender_def senders_after_del_def intro: nolog)
  next
    case (Some keys)
    show ?thesis
    proof (cases "\<not> expired \<and> \<not> detached (clientObjs m ! r)")
      case True
      then show ?thesis using assms Some same
        by (auto simp: DelSender_def senders_after_del_def IsDetached_def intro: nolog)
    next
      case False
      define cc where "cc = senders_after_del (clientObjs m ! r) expired (counterClients c)"
      let ?c1 = "c\<lparr>counterClients := cc\<rparr>"
      have D: "DelSender tv (Some r) expired c m =
         (if clientCount cc \<noteq> clientCount (counterClients c)
          then Inr (reloadMaxAmount (CurrentMillisecond tv) (clientCount cc) (clientId (clientObjs m ! r)) ?c1
             (AddEventToLog (clientEvent (CurrentMillisecond tv) c (clientObjs m ! r) ActionDelete (clientCount cc)) m))
          else Inr (?c1, m))"
        using assms(1) Some False
        by (auto simp: DelSender_def cc_def senders_after_del_def IsDetached_def Let_def)
      show ?thesis
      proof (cases "clientCount cc = clientCount (counterClients c)")
        case True
        then have "effectiveMax ?c1 = maxAmount c" using assms(2) by (simp add: effectiveMax_def)
        then have "c\<lparr>counterClients := cc, maxAmount := effectiveMax ?c1\<rparr> = ?c1" by simp
        with D True show ?thesis by (auto simp: cc_def [symmetric] Let_def intro: nolog)
      next
        case F: False
        with D show ?thesis
          by (auto simp: cc_def [symmetric] reloadMaxAmount_def effectiveMax_def AddEventToLog_def Let_def)
      qed
    qed
  qed
qed

lemma senders_after_del_ok:
  assumes "clients_ok h cc"
  shows "clients_ok h (senders_after_del s expired cc)"
  using assms set_delete_subset [of "clientKey s" "clientSenders cc"]
  by (auto simp: clients_ok_def senders_after_del_def Let_def map_wf split: option.splits)

text \<open>The rest of the counter is not touched.\<close>

definition same_rule :: "counterV2 \<Rightarrow> counterV2 \<Rightarrow> bool" where
  "same_rule c c' \<longleftrightarrow> cIdentifier c' = cIdentifier c \<and> counterKey c' = counterKey c \<and>
     allocator c' = allocator c \<and> subLabels c' = subLabels c"

lemma AddSender_ok:
  assumes "counter_ok (clientObjs m) c L cur \<or> clients_ok (clientObjs m) (counterClients c)"
    and "r < length (clientObjs m)"
  shows "\<exists>c' es. AddSender tv (Some r) c m = Inr (c', m\<lparr>eventLog := eventLog m @ es\<rparr>) \<and>
     clients_ok (clientObjs m) (counterClients c') \<and> maxAmount c' = effectiveMax c' \<and>
     counterClients c' = senders_after_add (clientObjs m ! r) r (counterClients c) \<and>
     c' = c\<lparr>counterClients := counterClients c', maxAmount := maxAmount c'\<rparr>"
proof -
  have ok: "clients_ok (clientObjs m) (counterClients c)" using assms(1) by (auto simp: counter_ok_def)
  from AddSender_result [OF assms(2), of tv c] show ?thesis
    using senders_after_add_ok [OF ok assms(2)] by (auto simp: Let_def effectiveMax_def)
qed

lemma DelSender_ok:
  assumes "clients_ok (clientObjs m) (counterClients c)" "maxAmount c = effectiveMax c"
    and "r < length (clientObjs m)"
  shows "\<exists>c' es. DelSender tv (Some r) expired c m = Inr (c', m\<lparr>eventLog := eventLog m @ es\<rparr>) \<and>
     clients_ok (clientObjs m) (counterClients c') \<and> maxAmount c' = effectiveMax c' \<and>
     counterClients c' = senders_after_del (clientObjs m ! r) expired (counterClients c) \<and>
     c' = c\<lparr>counterClients := counterClients c', maxAmount := maxAmount c'\<rparr>"
  using DelSender_result [OF assms(3,2), of tv expired] senders_after_del_ok [OF assms(1)]
  by (auto simp: Let_def effectiveMax_def)

lemma delSenders_ok:
  assumes "clients_ok (clientObjs m) (counterClients c)" "maxAmount c = effectiveMax c"
    and "\<forall>e \<in> set senders. sender_ok (clientObjs m) e"
  shows "\<exists>c' es. delSenders tv expired senders c m = Inr (c', m\<lparr>eventLog := eventLog m @ es\<rparr>) \<and>
     clients_ok (clientObjs m) (counterClients c') \<and> maxAmount c' = effectiveMax c' \<and>
     counterClients c' = foldl (\<lambda>cc (k, t). senders_after_del (clientObjs m ! curClient t) expired cc)
       (counterClients c) senders \<and>
     c' = c\<lparr>counterClients := counterClients c', maxAmount := maxAmount c'\<rparr>"
  using assms
proof (induction senders arbitrary: c m)
  case Nil
  then show ?case by (intro exI [of _ c] exI [of _ "[]"]) simp
next
  case (Cons e senders)
  obtain k t where e: "e = (k, t)" by (cases e)
  have r: "curClient t < length (clientObjs m)" using Cons.prems(3) e by (simp add: sender_ok_def)
  obtain c1 es1 where D: "DelSender tv (Some (curClient t)) expired c m = Inr (c1, m\<lparr>eventLog := eventLog m @ es1\<rparr>)"
    "clients_ok (clientObjs m) (counterClients c1)" "maxAmount c1 = effectiveMax c1"
    "counterClients c1 = senders_after_del (clientObjs m ! curClient t) expired (counterClients c)"
    "c1 = c\<lparr>counterClients := counterClients c1, maxAmount := maxAmount c1\<rparr>"
    using DelSender_ok [OF Cons.prems(1,2) r] by blast
  let ?m1 = "m\<lparr>eventLog := eventLog m @ es1\<rparr>"
  have pre: "clients_ok (clientObjs ?m1) (counterClients c1)"
    "\<forall>e \<in> set senders. sender_ok (clientObjs ?m1) e"
    using D(2) Cons.prems(3) by auto
  obtain c2 es2 where E: "delSenders tv expired senders c1 ?m1 = Inr (c2, ?m1\<lparr>eventLog := eventLog ?m1 @ es2\<rparr>)"
    "clients_ok (clientObjs ?m1) (counterClients c2)" "maxAmount c2 = effectiveMax c2"
    "counterClients c2 = foldl (\<lambda>cc (k, t). senders_after_del (clientObjs ?m1 ! curClient t) expired cc)
       (counterClients c1) senders"
    "c2 = c1\<lparr>counterClients := counterClients c2, maxAmount := maxAmount c2\<rparr>"
    using Cons.IH [OF pre(1) D(3) pre(2)] by blast
  have "delSenders tv expired (e # senders) c m = Inr (c2, m\<lparr>eventLog := eventLog m @ (es1 @ es2)\<rparr>)"
    using D(1) E(1) e by simp
  moreover have "counterClients c2 = foldl (\<lambda>cc (k, t). senders_after_del (clientObjs m ! curClient t) expired cc)
       (counterClients c) (e # senders)"
    using E(4) D(4) e by simp
  moreover have "c2 = c\<lparr>counterClients := counterClients c2, maxAmount := maxAmount c2\<rparr>"
    by (subst E(5), subst D(5)) simp
  ultimately show ?case using E(2,3) by auto
qed

lemma CleanupSenders_ok:
  assumes "clients_ok (clientObjs m) (counterClients c)" "maxAmount c = effectiveMax c"
  shows "\<exists>c' es. CleanupSenders tv expired c m = Inr (c', m\<lparr>eventLog := eventLog m @ es\<rparr>) \<and>
     clients_ok (clientObjs m) (counterClients c') \<and> maxAmount c' = effectiveMax c' \<and>
     counterClients c' = foldl (\<lambda>cc (k, t). senders_after_del (clientObjs m ! curClient t) expired cc)
       (counterClients c) (clientSenders (counterClients c)) \<and>
     c' = c\<lparr>counterClients := counterClients c', maxAmount := maxAmount c'\<rparr>"
  unfolding CleanupSenders_def
  using assms by (intro delSenders_ok) (auto simp: clients_ok_def)


section \<open>Allocation\<close>

definition slides_of :: "counterV2 \<Rightarrow> int" where
  "slides_of c = slideCount (slidingWindow (the (allocator c)))"

definition winlen_of :: "counterV2 \<Rightarrow> int" where
  "winlen_of c = windowLengthMs (slidingWindow (the (allocator c)))"

definition off_of :: "counterV2 \<Rightarrow> u32" where
  "off_of c = quotaUsedOff (the (allocator c))"

text \<open>The quota left after an amount is reported, as the log of the window gives it.\<close>

definition used_after :: "counterV2 \<Rightarrow> slide_log \<Rightarrow> int \<Rightarrow> u32" where
  "used_after c L ws = window_total L (ws - slides_of c * winlen_of c) ws"

definition log_after :: "counterV2 \<Rightarrow> slide_log \<Rightarrow> int \<Rightarrow> int \<Rightarrow> u32 \<Rightarrow> slide_log" where
  "log_after c L ts t amount = L @ [(t - t mod winlen_of c, slide_amount (winlen_of c) ts t amount)]"

definition idle :: "QuotaSum \<Rightarrow> bool" where
  "idle q \<longleftrightarrow> Sum_Used q = 0 \<and> Sum_Limited q = 0"

lemma u32_diff_in64: "in64 (uint (a :: u32) - uint (b :: u32))"
  using in64_diff [of "uint a" "uint b"] uint_u32_bounds [of a] uint_u32_bounds [of b] by simp

lemma quotaFlag_cases:
  assumes "off = 0 \<or> off = (1 :: u32)"
  shows "fst (quotaFlag left off) \<longleftrightarrow> left \<le> 0 \<and> off = 0"
    "snd (quotaFlag left off) = (if left \<le> 0 then 1 else 0)"
  using assms by (auto simp: quotaFlag_def)

lemma doPush_ok:
  assumes "r < length (clientObjs m)" "push_ok (pushMgr m)"
  shows "\<exists>pm v. doPush tv self key left (Some r) start m = Inr (m\<lparr>pushMgr := pm\<rparr>) \<and> push_ok pm \<and>
    Schedule key v (pushMgr m) = Inr pm \<and> Counter v = self \<and> LeftRefs v = [left] \<and>
    ExcludeClient v = clientId (clientObjs m ! r)"
proof -
  let ?v = "\<lparr>Counter = self, Report = Timed_Response (NewRateLimitReportResponse tv ExecuteSuccess),
     LeftRefs = [left], ExcludeClient = clientId (clientObjs m ! r), StartTimeMicro = start,
     MsgTimeMicro = createTimeMicro (NewRateLimitReportResponse tv ExecuteSuccess)\<rparr>"
  obtain pm where pm: "Schedule key ?v (pushMgr m) = Inr pm" "push_ok pm"
    using Schedule_ok [OF assms(2)] by blast
  then have "doPush tv self key left (Some r) start m = Inr (m\<lparr>pushMgr := pm\<rparr>)"
    using assms(1) by (simp add: doPush_def Let_def)
  with pm show ?thesis by (intro exI [of _ pm] exI [of _ ?v]) simp
qed

lemma Allocate_ok:
  fixes q :: QuotaSum and m :: "'a CMem_scheme" and ts :: int
  assumes ok: "counter_ok (clientObjs m) c L cur" and t: "cur \<le> t" "t < 2 ^ 62" "i64 (start sdiv 1000) = t"
    and push: "push_ok (pushMgr m)"
    and cl: "idle q \<or> (\<exists>r. cl = Some r \<and> r < length (clientObjs m))"
  defines "L' \<equiv> log_after c L ts t (Sum_Used q)" and "ws \<equiv> t - t mod winlen_of c"
  defines "left \<equiv> uint (maxAmount c) - uint (used_after c L' ws)"
  shows "\<exists>c' pm. Allocate tv self cl q ts start c m = Inr (length (quotaLefts m), c',
      m\<lparr>quotaLefts := quotaLefts m @ [\<lparr>Left_CounterKey = Sum_CounterKey q, Left_Mode = BATCH_OCCUPY,
          Left_Left = left, Left_ClientCount = clientCount (counterClients c)\<rparr>], pushMgr := pm\<rparr>) \<and>
    counter_ok (clientObjs m) c' L' ws \<and> c' = c\<lparr>allocator := allocator c'\<rparr> \<and>
    slides_of c' = slides_of c \<and> winlen_of c' = winlen_of c \<and> push_ok pm \<and>
    off_of c' = (if idle q then off_of c else if left \<le> 0 then 1 else 0) \<and>
    (if \<not> idle q \<and> left \<le> 0 \<and> off_of c = 0
     then \<exists>v. Schedule (counterKey c) v (pushMgr m) = Inr pm \<and> Counter v = self \<and>
            LeftRefs v = [length (quotaLefts m)] \<and> ExcludeClient v = clientId (clientObjs m ! the cl)
     else pm = pushMgr m)"
proof -
  obtain a where a: "allocator c = Some a" "allocator_ok a L cur"
    using ok by (auto simp: counter_ok_def)
  let ?w = "slidingWindow a"
  have geo: "slides_of c = slideCount ?w" "winlen_of c = windowLengthMs ?w" "off_of c = quotaUsedOff a"
    using a(1) by (simp_all add: slides_of_def winlen_of_def off_of_def)
  have ws: "ws = t - t mod windowLengthMs ?w" and L': "L' = L @ [(ws, slide_amount (windowLengthMs ?w) ts t (Sum_Used q))]"
    using geo by (simp_all add: ws_def L'_def log_after_def)
  have rel: "slide_rel ?w L cur" and mode: "allocMode a = BATCH_OCCUPY"
    and off: "quotaUsedOff a = 0 \<or> quotaUsedOff a = 1"
    using a(2) by (auto simp: allocator_ok_def)
  obtain w' where add: "AddAndGetCurrent ?w ts t (Sum_Used q) = Inr (used_after c L' ws, w')"
    "slide_rel w' L' ws" "windowLengthMs w' = windowLengthMs ?w" "slideCount w' = slideCount ?w"
    using sliding.add_total [OF rel t(1,2) ws L'] geo by (auto simp: used_after_def)
  have left: "sub64 (uint (maxAmount c)) (uint (used_after c L' ws)) = left"
    by (simp add: left_def sub64_id u32_diff_in64)
  let ?left = "\<lparr>Left_CounterKey = Sum_CounterKey q, Left_Mode = BATCH_OCCUPY,
          Left_Left = left, Left_ClientCount = clientCount (counterClients c)\<rparr>"
  let ?m1 = "m\<lparr>quotaLefts := quotaLefts m @ [?left]\<rparr>"
  have inv: "counter_ok (clientObjs m) (c\<lparr>allocator := Some (a\<lparr>slidingWindow := w', quotaUsedOff := off'\<rparr>)\<rparr>) L' ws"
    if "off' = 0 \<or> off' = 1" for off'
    using ok a(2) add(2) mode that by (simp add: counter_ok_def allocator_ok_def effectiveMax_def)
  show ?thesis
  proof (cases "idle q")
    case True
    let ?c1 = "c\<lparr>allocator := Some (a\<lparr>slidingWindow := w', quotaUsedOff := quotaUsedOff a\<rparr>)\<rparr>"
    have m1: "?m1\<lparr>pushMgr := pushMgr m\<rparr> = ?m1" by simp
    have same: "a\<lparr>slidingWindow := w'\<rparr> = a\<lparr>slidingWindow := w', quotaUsedOff := quotaUsedOff a\<rparr>" by simp
    have A: "Allocate tv self cl q ts start c m = Inr (length (quotaLefts m), ?c1, ?m1)"
      unfolding same [symmetric] using a(1) add(1) t(3) True mode
      by (simp add: Allocate_def Let_def left idle_def)
    have obs: "allocator ?c1 = Some (a\<lparr>slidingWindow := w', quotaUsedOff := quotaUsedOff a\<rparr>)"
      "slides_of ?c1 = slides_of c"
      "winlen_of ?c1 = winlen_of c" "off_of ?c1 = off_of c"
      using add(3,4) geo by (simp_all add: slides_of_def winlen_of_def off_of_def)
    have A': "Allocate tv self cl q ts start c m = Inr (length (quotaLefts m), ?c1, ?m1\<lparr>pushMgr := pushMgr m\<rparr>)"
      using A by (simp only: m1)
    have upd: "?c1 = c\<lparr>allocator := allocator ?c1\<rparr>" by simp
    have flag: "off_of ?c1 = (if idle q then off_of c else if left \<le> 0 then 1 else 0)"
      using obs(4) True by simp
    have none: "if \<not> idle q \<and> left \<le> 0 \<and> off_of c = 0
      then \<exists>v. Schedule (counterKey c) v (pushMgr m) = Inr (pushMgr m) \<and> Counter v = self \<and>
            LeftRefs v = [length (quotaLefts m)] \<and> ExcludeClient v = clientId (clientObjs m ! the cl)
      else pushMgr m = pushMgr m" using True by simp
    show ?thesis
      by (rule exI [of _ ?c1], rule exI [of _ "pushMgr m"])
        (rule conjI [OF A'] conjI [OF inv [OF off]] conjI [OF upd] conjI [OF obs(2)]
          conjI [OF obs(3)] conjI [OF push] conjI [OF flag] none)+
  next
    case False
    define off' :: u32 where "off' = (if left \<le> 0 then 1 else 0)"
    let ?c1 = "c\<lparr>allocator := Some (a\<lparr>slidingWindow := w', quotaUsedOff := off'\<rparr>)\<rparr>"
    have flag: "quotaFlag left (quotaUsedOff a) = (left \<le> 0 \<and> quotaUsedOff a = 0, off')"
      using off by (auto simp: quotaFlag_def off'_def)
    have A: "Allocate tv self cl q ts start c m =
       (if left \<le> 0 \<and> quotaUsedOff a = 0
        then bindR (doPush tv self (counterKey c) (length (quotaLefts m)) cl start ?m1) (\<lambda>m2.
               Inr (length (quotaLefts m), ?c1, m2))
        else Inr (length (quotaLefts m), ?c1, ?m1))"
    proof -
      have nid: "(Sum_Used q = 0 \<and> Sum_Limited q = 0) = False" using False by (simp add: idle_def)
      show ?thesis
        unfolding Allocate_def a(1) option.case Let_def t(3) add(1) bindR_simps prod.case left nid if_False flag mode
        by (rule refl)
    qed
    have c1: "counter_ok (clientObjs m) ?c1 L' ws" by (rule inv) (simp add: off'_def)
    have obs: "slides_of ?c1 = slides_of c"
      "winlen_of ?c1 = winlen_of c" "off_of ?c1 = off'"
      using add(3,4) geo by (simp_all add: slides_of_def winlen_of_def off_of_def)
    show ?thesis
    proof (cases "left \<le> 0 \<and> quotaUsedOff a = 0")
      case True
      obtain r where r: "cl = Some r" "r < length (clientObjs ?m1)" using cl False by auto
      obtain pm v where pm: "doPush tv self (counterKey c) (length (quotaLefts m)) cl start ?m1 = Inr (?m1\<lparr>pushMgr := pm\<rparr>)"
        "push_ok pm" "Schedule (counterKey c) v (pushMgr m) = Inr pm" "Counter v = self"
        "LeftRefs v = [length (quotaLefts m)]" "ExcludeClient v = clientId (clientObjs m ! r)"
        using doPush_ok [OF r(2), of tv self "counterKey c" "length (quotaLefts m)" start] push r(1) by auto
      then show ?thesis using A True False c1 obs geo r
        by (intro exI [of _ ?c1] exI [of _ pm]) (auto simp: off'_def)
    next
      case False
      then show ?thesis using A \<open>\<not> idle q\<close> c1 obs geo push
        by (intro exI [of _ ?c1] exI [of _ "pushMgr m"]) (auto simp: off'_def)
    qed
  qed
qed

section \<open>Push\<close>

text \<open>The subscribers that a push reaches.\<close>

definition receiver :: "client list \<Rightarrow> PushValue \<Rightarrow> u32 \<times> ClientSendTime \<Rightarrow> bool" where
  "receiver h v e \<longleftrightarrow> clientId (h ! curClient (snd e)) \<noteq> ExcludeClient v \<and>
     streamCtx (h ! curClient (snd e)) \<noteq> None \<and> lastSentMicro (snd e) < MsgTimeMicro v"

definition after_push :: "client list \<Rightarrow> PushValue \<Rightarrow> u32 \<times> ClientSendTime \<Rightarrow> u32 \<times> ClientSendTime" where
  "after_push h v e = (if receiver h v e then (fst e, (snd e)\<lparr>lastSentMicro := MsgTimeMicro v\<rparr>) else e)"

lemma pushSenders_result:
  fixes m :: "'a CMem_scheme"
  assumes "\<forall>e \<in> set senders. sender_ok (clientObjs m) e"
  shows "\<exists>calls. pushSenders tv fails v dur senders m =
     Inr (map (after_push (clientObjs m) v) senders,
       m\<lparr>outbox := outbox m @ map (\<lambda>e. (the (streamCtx (clientObjs m ! curClient (snd e))), pushMsg m v))
                             (filter (receiver (clientObjs m) v) senders),
         apiCalls := apiCalls m @ calls\<rparr>)
     \<and> length calls = length (filter (receiver (clientObjs m) v) senders)"
  using assms
proof (induction senders arbitrary: m)
  case Nil
  then show ?case by (intro exI [of _ "[]"]) simp
next
  case (Cons e senders)
  obtain k t where e: "e = (k, t)" by (cases e)
  let ?s = "clientObjs m ! curClient t"
  have r: "curClient t < length (clientObjs m)" using Cons.prems e by (simp add: sender_ok_def)
  have cmd: "Resp_Cmd (pushMsg m v) = ACQUIRE" by (simp add: pushMsg_def)
  show ?case
  proof (cases "receiver (clientObjs m) v e")
    case False
    have step: "pushSenders tv fails v dur (e # senders) m =
       bindR (pushSenders tv fails v dur senders m) (\<lambda>(rest, m'). Inr (e # rest, m'))"
      using False r by (cases "streamCtx ?s")
        (auto simp: e receiver_def SendAndUpdate_def cmd UpdateLastSendTime_max Let_def max_def)
    have "\<forall>e \<in> set senders. sender_ok (clientObjs m) e" using Cons.prems by simp
    from Cons.IH [OF this] False show ?thesis
      unfolding step by (auto simp: after_push_def)
  next
    case True
    obtain sc where sc: "streamCtx ?s = Some sc" using True by (auto simp: receiver_def e)
    let ?call = "NewAPICall \<lparr>ApiKey = AcquireQuotaV2, ApiCode = GetErrorCode (pushMsg m v),
        ApiMsgType = MsgPush, ApiDuration = dur\<rparr> (sub64 (CurrentMicrosecond tv) (StartTimeMicro v))"
    let ?m2 = "m\<lparr>outbox := outbox m @ [(sc, pushMsg m v)], apiCalls := apiCalls m @ [?call]\<rparr>"
    have step: "pushSenders tv fails v dur (e # senders) m =
       bindR (pushSenders tv fails v dur senders ?m2) (\<lambda>(rest, m').
         Inr ((k, t\<lparr>lastSentMicro := MsgTimeMicro v\<rparr>) # rest, m'))"
      using True r sc
      by (auto simp: e receiver_def SendAndUpdate_def cmd UpdateLastSendTime_max Send_def AddAPICall_def
          Let_def max_def)
    have "\<forall>e \<in> set senders. sender_ok (clientObjs ?m2) e" using Cons.prems by simp
    from Cons.IH [OF this] obtain calls where calls:
      "pushSenders tv fails v dur senders ?m2 =
        Inr (map (after_push (clientObjs m) v) senders,
          ?m2\<lparr>outbox := outbox ?m2 @ map (\<lambda>e. (the (streamCtx (clientObjs m ! curClient (snd e))), pushMsg m v))
                             (filter (receiver (clientObjs m) v) senders),
            apiCalls := apiCalls ?m2 @ calls\<rparr>)"
      "length calls = length (filter (receiver (clientObjs m) v) senders)"
      by (auto simp: pushMsg_def)
    show ?thesis
      using True sc calls unfolding step calls(1)
      by (intro exI [of _ "?call # calls"]) (simp add: after_push_def e)
  qed
qed

lemma PushMessage_result:
  fixes m :: "'a CMem_scheme"
  assumes "clients_ok (clientObjs m) (counterClients c)"
  defines "cc \<equiv> counterClients c"
  shows "\<exists>m'. PushMessage tv fails v c m =
       Inr (c\<lparr>counterClients := cc\<lparr>clientSenders := map (after_push (clientObjs m) v) (clientSenders cc)\<rparr>\<rparr>, m') \<and>
     clientObjs m' = clientObjs m \<and> quotaLefts m' = quotaLefts m \<and> pushMgr m' = pushMgr m \<and>
     eventLog m' = eventLog m \<and>
     outbox m' = outbox m @ map (\<lambda>e. (the (streamCtx (clientObjs m ! curClient (snd e))), pushMsg m v))
                              (filter (receiver (clientObjs m) v) (clientSenders cc))"
proof -
  have "\<forall>e \<in> set (clientSenders cc). sender_ok (clientObjs m) e"
    using assms(1) by (simp add: clients_ok_def cc_def)
  from pushSenders_result [OF this, of tv fails v "id_Duration (cIdentifier c)"] show ?thesis
    by (auto simp: PushMessage_def cc_def)
qed

lemma after_push_simps:
  "fst (after_push h v e) = fst e" "curClient (snd (after_push h v e)) = curClient (snd e)"
  "\<not> receiver h v (after_push h v e)"
  by (auto simp: after_push_def receiver_def)

lemma clients_ok_push:
  assumes "clients_ok h cc"
  shows "clients_ok h (cc\<lparr>clientSenders := map (after_push h v) (clientSenders cc)\<rparr>)"
proof -
  have "map fst (map (after_push h v) s) = map fst s" for s
    by (simp add: after_push_simps)
  with assms show ?thesis
    by (auto simp: clients_ok_def sender_ok_def after_push_simps simp del: map_map)
qed


section \<open>Creation and reload\<close>

text \<open>What the manager passes for an accepted rule of \<open>d\<close> seconds.\<close>

definition init_ok :: "InitRequest \<Rightarrow> u32 \<Rightarrow> bool" where
  "init_ok req d \<longleftrightarrow> d \<noteq> 0 \<and> Req_Duration req = uint d * 1000000000 \<and>
     1 \<le> Req_SlideCount req \<and> Req_SlideCount req \<le> 10"

lemma Milliseconds_pos:
  assumes "0 \<le> d" "d < 2 ^ 63"
  shows "Milliseconds d = d div 1000000"
proof -
  have "0 \<le> d div 1000000" "d div 1000000 \<le> d"
    using assms zdiv_mono2 [of d 1 1000000] by simp_all
  then have "in64 (d div 1000000)" using assms by (simp add: in64_def)
  then show ?thesis
    using assms by (cases "d = 0") (simp_all add: Milliseconds_def signed_divide_int_def)
qed

lemma Milliseconds_seconds: "Milliseconds (uint (d :: u32) * 1000000000) = uint d * 1000"
proof -
  have "Milliseconds (x * 1000000000) = x * 1000" if "0 \<le> x" "x \<le> 4294967295" for x
    using that by (subst Milliseconds_pos) simp_all
  from this [OF uint_u32_bounds(1) uint_u32_le] show ?thesis .
qed

lemma u32_pos: "d \<noteq> 0 \<Longrightarrow> 1 \<le> uint (d :: u32)"
  using uint_u32_bounds(1) [of d] by (metis int_one_le_iff_zero_less order_le_less uint_0_iff)

lemma window_of_rule:
  assumes "init_ok req d"
  shows "\<exists>w. NewSlidingWindow (Req_SlideCount req) (Milliseconds (Req_Duration req)) = Inr w \<and>
    slide_rel w [] 0 \<and> slideCount w = Req_SlideCount req \<and>
    windowLengthMs w = uint d * 1000 div Req_SlideCount req \<and> intervalMs w = uint d * 1000"
proof -
  let ?n = "Req_SlideCount req" and ?iv = "uint d * 1000"
  have n: "1 \<le> ?n" "?n \<le> 10" and dur: "Milliseconds (Req_Duration req) = ?iv"
    using assms by (auto simp: init_ok_def Milliseconds_seconds)
  have "?n * ?n \<le> 10 * 10" using n by (intro mult_mono) auto
  moreover have "1000 \<le> ?iv" using assms u32_pos [of d] by (simp add: init_ok_def)
  moreover have "?iv < 2 ^ 62" using uint_u32_le [of d] by simp
  ultimately show ?thesis unfolding dur using n by (intro NewSlidingWindow_ok) auto
qed

lemma NewCounterV2_ok:
  fixes m :: "'a Mem_scheme"
  assumes "init_ok req d" "Sender req = Some r" "r < length (clientObjs m)"
  shows "\<exists>c es. NewCounterV2 tv key ident req m = Inr (c, m\<lparr>eventLog := eventLog m @ es\<rparr>) \<and>
    counter_ok (clientObjs m) c [] 0 \<and> counterKey c = key \<and> cIdentifier c = ident \<and>
    off_of c = 0 \<and> clientCount (counterClients c) = 1 \<and> slides_of c = Req_SlideCount req \<and>
    winlen_of c = uint d * 1000 div Req_SlideCount req \<and>
    ruleMaxAmount c = MaxAmount req \<and> amountMode c = AmountMode req \<and>
    expireDurationMilli c = Milliseconds (Req_ExpireDuration req) \<and>
    lastMTimeMilli c = CurrentMillisecond tv"
proof -
  let ?c0 = "\<lparr>cIdentifier = ident, subLabels = ParseLabels (id_Labels ident), counterKey = key,
        duration = Req_Duration req, expireDurationMilli = Milliseconds (Req_ExpireDuration req),
        lastMTimeMilli = CurrentMillisecond tv,
        ruleMaxAmount = MaxAmount req, maxAmount = 0, amountMode = AmountMode req, allocator = None,
        counterClients = \<lparr>clientSenders = [], clientIds = [], clientCount = 0\<rparr>\<rparr>"
  have "clients_ok (clientObjs m) (counterClients ?c0)" by (simp add: clients_ok_def)
  then obtain c1 es where c1: "AddSender tv (Some r) ?c0 m = Inr (c1, m\<lparr>eventLog := eventLog m @ es\<rparr>)"
    "clients_ok (clientObjs m) (counterClients c1)" "maxAmount c1 = effectiveMax c1"
    "counterClients c1 = senders_after_add (clientObjs m ! r) r (counterClients ?c0)"
    "c1 = ?c0\<lparr>counterClients := counterClients c1, maxAmount := maxAmount c1\<rparr>"
    using AddSender_ok [of m ?c0 _ _ r tv] assms(3) by blast
  have f: "cIdentifier c1 = ident" "counterKey c1 = key" "duration c1 = Req_Duration req"
    "ruleMaxAmount c1 = MaxAmount req" "amountMode c1 = AmountMode req"
    "expireDurationMilli c1 = Milliseconds (Req_ExpireDuration req)"
    "lastMTimeMilli c1 = CurrentMillisecond tv"
    by (subst c1(5), simp)+
  have count: "clientCount (counterClients c1) = 1"
    unfolding c1(4) by (simp add: senders_after_add_def Let_def)
  obtain w where w: "NewSlidingWindow (Req_SlideCount req) (Milliseconds (Req_Duration req)) = Inr w"
    "slide_rel w [] 0" "slideCount w = Req_SlideCount req"
    "windowLengthMs w = uint d * 1000 div Req_SlideCount req"
    using window_of_rule [OF assms(1)] by blast
  let ?a = "\<lparr>slidingWindow = w, quotaUsedOff = 0, allocMode = BATCH_OCCUPY\<rparr>"
  let ?c = "c1\<lparr>allocator := Some ?a\<rparr>"
  let ?es = "es @ [counterEvent (lastMTimeMilli ?c) ActionAdd ?c]"
  have "NewCounterV2 tv key ident req m = Inr (?c, m\<lparr>eventLog := eventLog m @ ?es\<rparr>)"
    using c1(1) w(1) assms(2) f(3)
    by (simp add: NewCounterV2_def Init_def NewOccupyAllocator_def Let_def AddEventToLog_def)
  moreover have "counter_ok (clientObjs m) ?c [] 0"
    using c1(2,3) w(2) by (simp add: counter_ok_def allocator_ok_def effectiveMax_def)
  ultimately show ?thesis
    using f count w(3,4) by (intro exI [of _ ?c] exI [of _ ?es])
      (simp add: slides_of_def winlen_of_def off_of_def)
qed

lemma counter_Reload_ok:
  fixes m :: "'a Mem_scheme"
  assumes "counter_ok (clientObjs m) c L cur" "Sender req = Some r" "r < length (clientObjs m)"
  shows "\<exists>c' es. counter_Reload tv req c m = Inr (c', m\<lparr>eventLog := eventLog m @ es\<rparr>) \<and>
    counter_ok (clientObjs m) c' L cur \<and> allocator c' = allocator c \<and>
    counterKey c' = counterKey c \<and> cIdentifier c' = cIdentifier c \<and>
    ruleMaxAmount c' = MaxAmount req \<and> amountMode c' = AmountMode req \<and>
    expireDurationMilli c' = Milliseconds (Req_ExpireDuration req) \<and>
    lastMTimeMilli c' = CurrentMillisecond tv \<and>
    counterClients c' = senders_after_add (clientObjs m ! r) r (counterClients c)"
proof -
  let ?c0 = "c\<lparr>ruleMaxAmount := MaxAmount req,
          expireDurationMilli := Milliseconds (Req_ExpireDuration req),
          amountMode := AmountMode req, duration := Req_Duration req,
          lastMTimeMilli := CurrentMillisecond tv\<rparr>"
  have "clients_ok (clientObjs m) (counterClients ?c0)" using assms(1) by (simp add: counter_ok_def)
  then obtain c1 es where c1: "AddSender tv (Some r) ?c0 m = Inr (c1, m\<lparr>eventLog := eventLog m @ es\<rparr>)"
    "clients_ok (clientObjs m) (counterClients c1)" "maxAmount c1 = effectiveMax c1"
    "counterClients c1 = senders_after_add (clientObjs m ! r) r (counterClients ?c0)"
    "c1 = ?c0\<lparr>counterClients := counterClients c1, maxAmount := maxAmount c1\<rparr>"
    using AddSender_ok [of m ?c0 _ _ r tv] assms(3) by blast
  have f: "cIdentifier c1 = cIdentifier c" "counterKey c1 = counterKey c" "allocator c1 = allocator c"
    "ruleMaxAmount c1 = MaxAmount req" "amountMode c1 = AmountMode req"
    "expireDurationMilli c1 = Milliseconds (Req_ExpireDuration req)"
    "lastMTimeMilli c1 = CurrentMillisecond tv"
    by (subst c1(5), simp)+
  have "counter_ok (clientObjs m) c1 L cur"
    using assms(1) c1(2,3) f(3) by (simp add: counter_ok_def)
  with c1(1,4) f assms(2) show ?thesis by (auto simp: counter_Reload_def)
qed

text \<open>Expiry: the time since the last update, in milliseconds, exceeds the period.\<close>

lemma IsExpired_iff:
  assumes "clock_ok tv" "0 \<le> lastMTimeMilli c" "lastMTimeMilli c < 2 ^ 62"
  shows "IsExpired tv c \<longleftrightarrow> expireDurationMilli c < CurrentMillisecond tv - lastMTimeMilli c"
proof -
  have "CurrentMillisecond tv < 2 ^ 62" using clock_bounds(2) [OF assms(1)] by simp
  then show ?thesis
    using assms clock_bounds(1) [OF assms(1)] in64_diff by (simp add: IsExpired_def sub64_id)
qed

section \<open>Who is counted\<close>

text \<open>
  The id table and the sender table name the same clients: every sender's key is listed under
  its client's id, and every listed key has a sender of that id.
\<close>

definition tracked :: "client list \<Rightarrow> CounterClients \<Rightarrow> bool" where
  "tracked h cc \<longleftrightarrow>
     (\<forall>k t. map_of (clientSenders cc) k = Some t \<longrightarrow>
        (\<exists>keys. map_of (clientIds cc) (clientId (h ! curClient t)) = Some keys \<and> map_of keys k \<noteq> None)) \<and>
     (\<forall>i keys. map_of (clientIds cc) i = Some keys \<longrightarrow> keys \<noteq> [] \<and>
        (\<forall>k. map_of keys k \<noteq> None \<longrightarrow>
           (\<exists>t. map_of (clientSenders cc) k = Some t \<and> clientId (h ! curClient t) = i)))"

definition sender_ids :: "client list \<Rightarrow> CounterClients \<Rightarrow> string set" where
  "sender_ids h cc = {i. \<exists>k t. map_of (clientSenders cc) k = Some t \<and> clientId (h ! curClient t) = i}"

lemma tracked_ids:
  assumes "tracked h cc"
  shows "dom (map_of (clientIds cc)) = sender_ids h cc"
proof
  show "dom (map_of (clientIds cc)) \<subseteq> sender_ids h cc"
  proof
    fix i assume "i \<in> dom (map_of (clientIds cc))"
    then obtain keys where keys: "map_of (clientIds cc) i = Some keys" by auto
    then have "keys \<noteq> []" using assms unfolding tracked_def by blast
    then have "map_of keys (fst (hd keys)) \<noteq> None" by (cases keys) auto
    with keys assms show "i \<in> sender_ids h cc" unfolding tracked_def sender_ids_def by blast
  qed
  show "sender_ids h cc \<subseteq> dom (map_of (clientIds cc))"
    using assms unfolding tracked_def sender_ids_def by blast
qed

lemma tracked_count:
  assumes "tracked h cc" "clients_ok h cc"
  shows "clientCount cc = of_nat (card (sender_ids h cc))"
  using assms amap.len_card [of "clientIds cc"] tracked_ids [OF assms(1)] by (simp add: clients_ok_def)

text \<open>A sender keeps the tables in step when its id is new or lists its key, and its key is not another id's.\<close>

definition joins :: "client list \<Rightarrow> client \<Rightarrow> CounterClients \<Rightarrow> bool" where
  "joins h s cc \<longleftrightarrow>
     (\<forall>keys. map_of (clientIds cc) (clientId s) = Some keys \<longrightarrow> map_of keys (clientKey s) \<noteq> None) \<and>
     (\<forall>t. map_of (clientSenders cc) (clientKey s) = Some t \<longrightarrow> clientId (h ! curClient t) = clientId s)"

lemma tracked_add:
  assumes "tracked h cc" "joins h (h ! r) cc"
  shows "tracked h (senders_after_add (h ! r) r cc)"
proof -
  let ?s = "h ! r" and ?cc = "senders_after_add (h ! r) r cc"
  have snd: "map_of (clientSenders ?cc) k = (if k = clientKey ?s then Some \<lparr>curClient = r, lastSentMicro = 0\<rparr>
      else map_of (clientSenders cc) k)" for k
    by (simp add: senders_after_add_def Let_def amap.get_put)
  have ids: "map_of (clientIds ?cc) i = (if i = clientId ?s \<and> map_of (clientIds cc) i = None
      then Some [(clientKey ?s, True)] else map_of (clientIds cc) i)" for i
    by (auto simp: senders_after_add_def Let_def amap.get_put)
  note T1 = assms(1) [unfolded tracked_def, THEN conjunct1, rule_format]
    and T2 = assms(1) [unfolded tracked_def, THEN conjunct2, rule_format]
    and J = assms(2) [unfolded joins_def]
  show ?thesis
    unfolding tracked_def
  proof (intro conjI allI impI)
    fix k t assume kt: "map_of (clientSenders ?cc) k = Some t"
    show "\<exists>keys. map_of (clientIds ?cc) (clientId (h ! curClient t)) = Some keys \<and> map_of keys k \<noteq> None"
    proof (cases "k = clientKey ?s")
      case True
      then have "curClient t = r" using kt by (auto simp: snd)
      then show ?thesis using J True by (auto simp: ids)
    next
      case False
      then have "map_of (clientSenders cc) k = Some t" using kt by (simp add: snd)
      from T1 [OF this] show ?thesis by (auto simp: ids)
    qed
  next
    fix i keys assume ik: "map_of (clientIds ?cc) i = Some keys"
    then show "keys \<noteq> []" using T2 [of i keys] by (auto simp: ids split: if_splits)
    fix k assume k: "map_of keys k \<noteq> None"
    show "\<exists>t. map_of (clientSenders ?cc) k = Some t \<and> clientId (h ! curClient t) = i"
    proof (cases "i = clientId ?s \<and> map_of (clientIds cc) i = None")
      case True
      then show ?thesis using ik k by (auto simp: ids snd split: if_splits)
    next
      case False
      then have "map_of (clientIds cc) i = Some keys" using ik by (simp only: ids if_False)
      then obtain t where "map_of (clientSenders cc) k = Some t" "clientId (h ! curClient t) = i"
        using T2 [of i keys] k by blast
      then show ?thesis using J by (auto simp: snd)
    qed
  qed
qed

lemma tracked_del:
  assumes "tracked h cc"
    and owner: "\<forall>t. map_of (clientSenders cc) (clientKey s) = Some t \<longrightarrow> clientId (h ! curClient t) = clientId s"
  shows "tracked h (senders_after_del s expired cc)"
proof (cases "map_of (clientIds cc) (clientId s) = None \<or> (\<not> expired \<and> \<not> detached s)")
  case True
  then show ?thesis using assms(1) by (auto simp: senders_after_del_def split: option.splits)
next
  case False
  then obtain keys0 where keys0: "map_of (clientIds cc) (clientId s) = Some keys0" by auto
  define keys' where "keys' = AList.delete (clientKey s) keys0"
  let ?cc = "senders_after_del s expired cc"
  have keys': "map_of keys' k = (if k = clientKey s then None else map_of keys0 k)" for k
    by (simp add: keys'_def amap.get_del)
  have snd: "map_of (clientSenders ?cc) k = (if k = clientKey s then None
      else map_of (clientSenders cc) k)" for k
    using False keys0 by (auto simp: senders_after_del_def Let_def amap.get_del)
  have ids: "map_of (clientIds ?cc) i = (if i = clientId s then (if keys' = [] then None else Some keys')
      else map_of (clientIds cc) i)" for i
    using False keys0 by (auto simp: senders_after_del_def Let_def map_simps keys'_def)
  note T1 = assms(1) [unfolded tracked_def, THEN conjunct1, rule_format]
    and T2 = assms(1) [unfolded tracked_def, THEN conjunct2, rule_format]
  show ?thesis
    unfolding tracked_def
  proof (intro conjI allI impI)
    fix k t assume "map_of (clientSenders ?cc) k = Some t"
    then have k: "k \<noteq> clientKey s" "map_of (clientSenders cc) k = Some t" by (auto simp: snd split: if_splits)
    from T1 [OF k(2)] obtain keys where keys: "map_of (clientIds cc) (clientId (h ! curClient t)) = Some keys"
      "map_of keys k \<noteq> None" by blast
    show "\<exists>keys. map_of (clientIds ?cc) (clientId (h ! curClient t)) = Some keys \<and> map_of keys k \<noteq> None"
    proof (cases "clientId (h ! curClient t) = clientId s")
      case True
      then have "map_of keys' k \<noteq> None" using keys keys0 k(1) by (simp add: keys')
      moreover from this have "keys' \<noteq> []" by auto
      ultimately show ?thesis using True by (simp add: ids)
    qed (use keys in \<open>simp add: ids\<close>)
  next
    fix i keys assume ik: "map_of (clientIds ?cc) i = Some keys"
    then show "keys \<noteq> []" using T2 [of i keys] by (auto simp: ids split: if_splits)
    fix k assume k: "map_of keys k \<noteq> None"
    show "\<exists>t. map_of (clientSenders ?cc) k = Some t \<and> clientId (h ! curClient t) = i"
    proof (cases "i = clientId s")
      case True
      then have "keys = keys'" using ik by (simp add: ids split: if_splits)
      then have "k \<noteq> clientKey s" "map_of keys0 k \<noteq> None" using k by (auto simp: keys' split: if_splits)
      then show ?thesis using T2 [OF keys0] True by (simp add: snd)
    next
      case False
      then have "map_of (clientIds cc) i = Some keys" using ik by (simp add: ids)
      then obtain t where t: "map_of (clientSenders cc) k = Some t" "clientId (h ! curClient t) = i"
        using T2 [of i keys] k by blast
      then have "k \<noteq> clientKey s" using owner False by auto
      with t show ?thesis by (simp add: snd)
    qed
  qed
qed

text \<open>
  A client that comes back under another key while its id is still listed is not added to the
  list; when the old key is cleaned up the id goes, and the client, still subscribed, is no
  longer counted.
\<close>

lemma rejoin_uncounted:
  fixes r :: nat
  assumes "map_of (clientIds cc) (clientId s) = Some [(clientKey old, True)]"
    and "clientId old = clientId s" "clientKey old \<noteq> clientKey s" "detached old"
  defines "cc' \<equiv> senders_after_del old False (senders_after_add s r cc)"
  shows "map_of (clientIds cc') (clientId s) = None"
    and "map_of (clientSenders cc') (clientKey s) = Some \<lparr>curClient = r, lastSentMicro = 0\<rparr>"
  using assms
  by (simp_all add: senders_after_del_def senders_after_add_def Let_def map_simps)

section \<open>Properties\<close>

text \<open>C5: A report to a well-formed counter is answered with its maximum less what the log of the last
  windows holds after the report; the message is new, and a push is scheduled exactly when a
  usage or a rejection is reported, nothing is left and no push was made since the quota was
  last available.\<close>
theorem Allocate_answers:
  fixes q :: QuotaSum and m :: "'a CMem_scheme" and ts :: int
  assumes "counter_ok (clientObjs m) c L cur" "cur \<le> t" "t < 2 ^ 62" "i64 (start sdiv 1000) = t"
    and "push_ok (pushMgr m)" "r < length (clientObjs m)"
  shows "\<exists>c' m' left. Allocate tv self (Some r) q ts start c m = Inr (length (quotaLefts m), c', m') \<and>
    quotaLefts m' = quotaLefts m @ [left] \<and> Left_CounterKey left = Sum_CounterKey q \<and>
    Left_Left left = uint (maxAmount c) -
      uint (used_after c (log_after c L ts t (Sum_Used q)) (t - t mod winlen_of c)) \<and>
    Left_ClientCount left = clientCount (counterClients c) \<and>
    counter_ok (clientObjs m) c' (log_after c L ts t (Sum_Used q)) (t - t mod winlen_of c) \<and>
    (if \<not> idle q \<and> Left_Left left \<le> 0 \<and> off_of c = 0
     then off_of c' = 1 \<and> (\<exists>v. Schedule (counterKey c) v (pushMgr m) = Inr (pushMgr m') \<and>
       ExcludeClient v = clientId (clientObjs m ! r) \<and> LeftRefs v = [length (quotaLefts m)])
     else pushMgr m' = pushMgr m \<and>
       off_of c' = (if idle q then off_of c else if Left_Left left \<le> 0 then 1 else 0))"
proof -
  have "idle q \<or> (\<exists>r'. Some r = Some r' \<and> r' < length (clientObjs m))" using assms(6) by blast
  from Allocate_ok [OF assms(1-5) this, of tv self ts]
  obtain c' pm where A: "Allocate tv self (Some r) q ts start c m = Inr (length (quotaLefts m), c',
      m\<lparr>quotaLefts := quotaLefts m @ [\<lparr>Left_CounterKey = Sum_CounterKey q, Left_Mode = BATCH_OCCUPY,
          Left_Left = uint (maxAmount c) - uint (used_after c (log_after c L ts t (Sum_Used q)) (t - t mod winlen_of c)),
          Left_ClientCount = clientCount (counterClients c)\<rparr>], pushMgr := pm\<rparr>)"
    "counter_ok (clientObjs m) c' (log_after c L ts t (Sum_Used q)) (t - t mod winlen_of c)"
    "off_of c' = (if idle q then off_of c else if uint (maxAmount c) -
       uint (used_after c (log_after c L ts t (Sum_Used q)) (t - t mod winlen_of c)) \<le> 0 then 1 else 0)"
    "if \<not> idle q \<and> uint (maxAmount c) - uint (used_after c (log_after c L ts t (Sum_Used q)) (t - t mod winlen_of c)) \<le> 0
        \<and> off_of c = 0
     then \<exists>v. Schedule (counterKey c) v (pushMgr m) = Inr pm \<and> Counter v = self \<and>
            LeftRefs v = [length (quotaLefts m)] \<and> ExcludeClient v = clientId (clientObjs m ! the (Some r))
     else pm = pushMgr m"
    by blast
  show ?thesis
    by (rule exI [of _ c'], rule exI, rule exI, intro conjI, rule A(1)) (use A(2-4) in auto)
qed

text \<open>A store with two clients, a rule of 10 per second and the counter that the first client creates.\<close>

definition two_clients :: CMem where
  "two_clients = \<lparr>clientObjs = [\<lparr>clientKey = 1, clientIP = \<lparr>LowValue = 1, HighValue = 0\<rparr>, clientId = ''a'',
       streamCtx = Some \<lparr>ctxId = ''u'', stream = 1\<rparr>, detached = False\<rparr>,
     \<lparr>clientKey = 2, clientIP = \<lparr>LowValue = 2, HighValue = 0\<rparr>, clientId = ''b'',
       streamCtx = Some \<lparr>ctxId = ''v'', stream = 2\<rparr>, detached = False\<rparr>],
     eventLog = [], outbox = [], quotaLefts = [],
     pushMgr = \<lparr>workerCount = 1, chanSize = 2, pushChannels = [[]]\<rparr>, apiCalls = []\<rparr>"

definition ten_per_second :: "QuotaMode \<Rightarrow> InitRequest" where
  "ten_per_second md = \<lparr>MaxAmount = 10, Req_SlideCount = 2, Sender = Some 0, Req_Duration = 1000000000,
     Req_ExpireDuration = 2000000000, AmountMode = md\<rparr>"

lemma two_clients_simps [simp]:
  "length (clientObjs two_clients) = 2" "quotaLefts two_clients = []" "push_ok (pushMgr two_clients)"
  "clientId (clientObjs two_clients ! 0) = ''a''" "clientId (clientObjs two_clients ! Suc 0) = ''b''"
  "clientKey (clientObjs two_clients ! 0) = 1" "clientKey (clientObjs two_clients ! Suc 0) = 2"
  by (simp_all add: two_clients_def push_ok_def)

lemma sample_counter:
  "\<exists>c m. NewCounterV2 \<lparr>Sec = 0, Usec = 0\<rparr> 7 ident (ten_per_second md) two_clients = Inr (c, m) \<and>
     clientObjs m = clientObjs two_clients \<and> quotaLefts m = [] \<and> push_ok (pushMgr m) \<and>
     counter_ok (clientObjs m) c [] 0 \<and> maxAmount c = 10 \<and> off_of c = 0 \<and> slides_of c = 2 \<and> winlen_of c = 500 \<and>
     clientCount (counterClients c) = 1 \<and> counterKey c = 7 \<and> amountMode c = md \<and> ruleMaxAmount c = 10"
proof -
  have "init_ok (ten_per_second md) 1" "Sender (ten_per_second md) = Some 0" "0 < length (clientObjs two_clients)"
    by (simp_all add: init_ok_def ten_per_second_def)
  from NewCounterV2_ok [OF this, of "\<lparr>Sec = 0, Usec = 0\<rparr>" 7 ident] obtain c es where C:
    "NewCounterV2 \<lparr>Sec = 0, Usec = 0\<rparr> 7 ident (ten_per_second md) two_clients =
       Inr (c, two_clients\<lparr>eventLog := eventLog two_clients @ es\<rparr>)"
    "counter_ok (clientObjs two_clients) c [] 0" "counterKey c = 7" "off_of c = 0"
    "clientCount (counterClients c) = 1" "slides_of c = Req_SlideCount (ten_per_second md)"
    "winlen_of c = uint (1 :: u32) * 1000 div Req_SlideCount (ten_per_second md)"
    "ruleMaxAmount c = MaxAmount (ten_per_second md)" "amountMode c = AmountMode (ten_per_second md)" by blast
  have "maxAmount c = effectiveMax c" using C(2) by (simp add: counter_ok_def)
  then show ?thesis using C by (auto simp: effectiveMax_def ten_per_second_def)
qed

text \<open>The first client reports 12 of 10: the answer is -2 and the other clients are to be told.\<close>
lemma Allocate_answers_witness:
  "\<exists>c m c' m' left v. NewCounterV2 \<lparr>Sec = 0, Usec = 0\<rparr> 7 \<lparr>id_Service = ''s'', id_Namespace = ''n'', id_Labels = [],
       id_Duration = 1000000000\<rparr> (ten_per_second WHOLE) two_clients = Inr (c, m) \<and>
     Allocate \<lparr>Sec = 0, Usec = 0\<rparr> 0 (Some 0) \<lparr>Sum_CounterKey = 7, Sum_Used = 12, Sum_Limited = 0\<rparr> 100 100000 c m =
       Inr (0, c', m') \<and> quotaLefts m' = [left] \<and> Left_Left left = - 2 \<and>
     Schedule 7 v (pushMgr m) = Inr (pushMgr m') \<and> ExcludeClient v = ''a''"
proof -
  obtain c m where C: "NewCounterV2 \<lparr>Sec = 0, Usec = 0\<rparr> 7 \<lparr>id_Service = ''s'', id_Namespace = ''n'', id_Labels = [],
       id_Duration = 1000000000\<rparr> (ten_per_second WHOLE) two_clients = Inr (c, m)"
    "clientObjs m = clientObjs two_clients" "quotaLefts m = []" "push_ok (pushMgr m)"
    "counter_ok (clientObjs m) c [] 0" "maxAmount c = 10" "off_of c = 0" "slides_of c = 2" "winlen_of c = 500"
    "counterKey c = 7"
    using sample_counter by blast
  have "0 < length (clientObjs m)" "i64 ((100000 :: int) sdiv 1000) = 100" using C(2)
    by (simp_all add: in64_def signed_divide_int_def)
  from Allocate_answers [OF C(5) _ _ this(2) C(4) this(1), of "\<lparr>Sec = 0, Usec = 0\<rparr>" 0
      "\<lparr>Sum_CounterKey = 7, Sum_Used = 12, Sum_Limited = 0\<rparr>" 100]
  show ?thesis
    using C by (auto simp: idle_def log_after_def used_after_def window_total_def slide_amount_def sub64_def in64_def
        signed_modulo_int_def)
qed

text \<open>Joining and leaving keep the tables of a counter consistent, and after each of them the
  effective maximum is the rule's, times the number of client ids when the rule divides.\<close>
theorem membership_max:
  assumes "clients_ok (clientObjs m) (counterClients c)" "maxAmount c = effectiveMax c" "r < length (clientObjs m)"
  shows "\<exists>c1 m1 c2 m2. AddSender tv (Some r) c m = Inr (c1, m1) \<and> DelSender tv (Some r) expired c m = Inr (c2, m2) \<and>
    (\<forall>c' \<in> {c1, c2}. clients_ok (clientObjs m) (counterClients c') \<and>
       clientCount (counterClients c') = of_nat (length (clientIds (counterClients c'))) \<and>
       maxAmount c' = (if amountMode c = DIVIDE then clientCount (counterClients c') * ruleMaxAmount c else ruleMaxAmount c)) \<and>
    map_of (clientSenders (counterClients c1)) (clientKey (clientObjs m ! r)) = Some \<lparr>curClient = r, lastSentMicro = 0\<rparr> \<and>
    (expired \<and> map_of (clientIds (counterClients c)) (clientId (clientObjs m ! r)) \<noteq> None \<longrightarrow>
       map_of (clientSenders (counterClients c2)) (clientKey (clientObjs m ! r)) = None)"
proof -
  obtain c1 es1 where 1: "AddSender tv (Some r) c m = Inr (c1, m\<lparr>eventLog := eventLog m @ es1\<rparr>)"
    "clients_ok (clientObjs m) (counterClients c1)" "maxAmount c1 = effectiveMax c1"
    "counterClients c1 = senders_after_add (clientObjs m ! r) r (counterClients c)"
    "c1 = c\<lparr>counterClients := counterClients c1, maxAmount := maxAmount c1\<rparr>"
    using AddSender_ok [of m c undefined undefined r tv] assms by blast
  obtain c2 es2 where 2: "DelSender tv (Some r) expired c m = Inr (c2, m\<lparr>eventLog := eventLog m @ es2\<rparr>)"
    "clients_ok (clientObjs m) (counterClients c2)" "maxAmount c2 = effectiveMax c2"
    "counterClients c2 = senders_after_del (clientObjs m ! r) expired (counterClients c)"
    "c2 = c\<lparr>counterClients := counterClients c2, maxAmount := maxAmount c2\<rparr>"
    using DelSender_ok [OF assms] by blast
  have f: "amountMode c1 = amountMode c" "ruleMaxAmount c1 = ruleMaxAmount c" by (subst 1(5), simp)+
  have g: "amountMode c2 = amountMode c" "ruleMaxAmount c2 = ruleMaxAmount c" by (subst 2(5), simp)+
  have max: "maxAmount c1 = (if amountMode c = DIVIDE then clientCount (counterClients c1) * ruleMaxAmount c else ruleMaxAmount c)"
    "maxAmount c2 = (if amountMode c = DIVIDE then clientCount (counterClients c2) * ruleMaxAmount c else ruleMaxAmount c)"
    using 1(3) 2(3) f g by (simp_all add: effectiveMax_def)
  have cnt: "clientCount (counterClients c1) = of_nat (length (clientIds (counterClients c1)))"
    "clientCount (counterClients c2) = of_nat (length (clientIds (counterClients c2)))"
    using 1(2) 2(2) by (simp_all add: clients_ok_def)
  have "map_of (clientSenders (counterClients c1)) (clientKey (clientObjs m ! r)) = Some \<lparr>curClient = r, lastSentMicro = 0\<rparr>"
    by (simp add: 1(4) senders_after_add_def Let_def amap.get_put)
  moreover have "map_of (clientSenders (counterClients c2)) (clientKey (clientObjs m ! r)) = None"
    if "expired" "map_of (clientIds (counterClients c)) (clientId (clientObjs m ! r)) \<noteq> None"
    using that by (auto simp: 2(4) senders_after_del_def Let_def amap.get_del)
  ultimately show ?thesis using 1(1,2) 2(1,2) max cnt by blast
qed

lemma membership_max_witness:
  "\<exists>c m c1 m1. NewCounterV2 \<lparr>Sec = 0, Usec = 0\<rparr> 7 \<lparr>id_Service = ''s'', id_Namespace = ''n'', id_Labels = [],
       id_Duration = 1000000000\<rparr> (ten_per_second DIVIDE) two_clients = Inr (c, m) \<and>
     AddSender \<lparr>Sec = 0, Usec = 0\<rparr> (Some 1) c m = Inr (c1, m1) \<and> clients_ok (clientObjs m) (counterClients c1) \<and>
     maxAmount c1 = clientCount (counterClients c1) * 10"
proof -
  obtain c m where C: "NewCounterV2 \<lparr>Sec = 0, Usec = 0\<rparr> 7 \<lparr>id_Service = ''s'', id_Namespace = ''n'', id_Labels = [],
       id_Duration = 1000000000\<rparr> (ten_per_second DIVIDE) two_clients = Inr (c, m)"
    "clientObjs m = clientObjs two_clients" "counter_ok (clientObjs m) c [] 0" "amountMode c = DIVIDE" "ruleMaxAmount c = 10"
    using sample_counter by blast
  have "clients_ok (clientObjs m) (counterClients c)" "maxAmount c = effectiveMax c" "1 < length (clientObjs m)"
    using C(2,3) by (simp_all add: counter_ok_def)
  from membership_max [OF this, of "\<lparr>Sec = 0, Usec = 0\<rparr>" True] show ?thesis using C by auto
qed

text \<open>C11: A push reaches exactly the subscribed clients other than the one that caused it whose last
  message is older, once each, in the order of the table; the same push sent again reaches nobody.\<close>
theorem PushMessage_fanout:
  fixes m :: "'a CMem_scheme"
  assumes "clients_ok (clientObjs m) (counterClients c)"
  shows "\<exists>c' m'. PushMessage tv fails v c m = Inr (c', m') \<and>
    outbox m' = outbox m @ map (\<lambda>e. (the (streamCtx (clientObjs m ! curClient (snd e))), pushMsg m v))
      (filter (\<lambda>(k, t). clientId (clientObjs m ! curClient t) \<noteq> ExcludeClient v \<and>
         streamCtx (clientObjs m ! curClient t) \<noteq> None \<and> lastSentMicro t < MsgTimeMicro v)
        (clientSenders (counterClients c))) \<and>
    clients_ok (clientObjs m') (counterClients c') \<and>
    (\<forall>tv' fails'. \<exists>c'' m''. PushMessage tv' fails' v c' m' = Inr (c'', m'') \<and> outbox m'' = outbox m')"
proof -
  let ?cc = "counterClients c" and ?h = "clientObjs m"
  let ?c' = "c\<lparr>counterClients := ?cc\<lparr>clientSenders := map (after_push ?h v) (clientSenders ?cc)\<rparr>\<rparr>"
  obtain m' where A: "PushMessage tv fails v c m = Inr (?c', m')" "clientObjs m' = ?h"
    "outbox m' = outbox m @ map (\<lambda>e. (the (streamCtx (?h ! curClient (snd e))), pushMsg m v))
                              (filter (receiver ?h v) (clientSenders ?cc))"
    using PushMessage_result [OF assms, of tv fails v] by blast
  have ok': "clients_ok (clientObjs m') (counterClients ?c')" using clients_ok_push [OF assms, of v] A(2) by simp
  have none: "filter (receiver ?h v) (map (after_push ?h v) es) = []" for es
    by (induction es) (simp_all add: after_push_simps)
  have "\<exists>c'' m''. PushMessage tv' fails' v ?c' m' = Inr (c'', m'') \<and> outbox m'' = outbox m'" for tv' fails'
  proof -
    obtain m'' where B: "PushMessage tv' fails' v ?c' m' = Inr (?c'\<lparr>counterClients := (counterClients ?c')
        \<lparr>clientSenders := map (after_push (clientObjs m') v) (clientSenders (counterClients ?c'))\<rparr>\<rparr>, m'')"
      "outbox m'' = outbox m' @ map (\<lambda>e. (the (streamCtx (clientObjs m' ! curClient (snd e))), pushMsg m' v))
                              (filter (receiver (clientObjs m') v) (clientSenders (counterClients ?c')))"
      using PushMessage_result [OF ok', of tv' fails' v] by blast
    have "filter (receiver (clientObjs m') v) (clientSenders (counterClients ?c')) = []" using A(2) none by simp
    then show ?thesis using B by simp
  qed
  moreover have "receiver ?h v = (\<lambda>(k, t). clientId (?h ! curClient t) \<noteq> ExcludeClient v \<and>
         streamCtx (?h ! curClient t) \<noteq> None \<and> lastSentMicro t < MsgTimeMicro v)"
    by (simp add: receiver_def fun_eq_iff)
  ultimately show ?thesis using A ok' by auto
qed

lemma PushMessage_fanout_witness:
  "\<exists>c m c1 m1 c' m'. NewCounterV2 \<lparr>Sec = 0, Usec = 0\<rparr> 7 \<lparr>id_Service = ''s'', id_Namespace = ''n'', id_Labels = [],
       id_Duration = 1000000000\<rparr> (ten_per_second WHOLE) two_clients = Inr (c, m) \<and>
     AddSender \<lparr>Sec = 0, Usec = 0\<rparr> (Some 1) c m = Inr (c1, m1) \<and>
     PushMessage \<lparr>Sec = 0, Usec = 9\<rparr> (\<lambda>_ _. False) \<lparr>Counter = 0, Report = \<lparr>ReportResp_Code = 200000,
       ReportResp_Timestamp = 0, ReportResp_QuotaLefts = []\<rparr>, LeftRefs = [], ExcludeClient = ''a'',
       StartTimeMicro = 5, MsgTimeMicro = 6\<rparr> c1 m1 = Inr (c', m') \<and>
     map (\<lambda>(s, msg). (ctxId s, Resp_Cmd msg)) (outbox m') = [(''v'', ACQUIRE)]"
proof -
  let ?tv = "\<lparr>Sec = 0, Usec = 0\<rparr>" and ?id = "\<lparr>id_Service = ''s'', id_Namespace = ''n'', id_Labels = [],
       id_Duration = 1000000000\<rparr>"
  let ?v = "\<lparr>Counter = 0, Report = \<lparr>ReportResp_Code = 200000,
       ReportResp_Timestamp = 0, ReportResp_QuotaLefts = []\<rparr>, LeftRefs = [], ExcludeClient = ''a'',
       StartTimeMicro = 5, MsgTimeMicro = 6\<rparr>"
  obtain c es where C: "NewCounterV2 ?tv 7 ?id (ten_per_second WHOLE) two_clients = Inr (c, two_clients\<lparr>eventLog := es\<rparr>)"
    "clientSenders (counterClients c) = [(1, \<lparr>curClient = 0, lastSentMicro = 0\<rparr>)]"
    by (simp add: NewCounterV2_def Init_def AddSender_def ten_per_second_def two_clients_def Let_def reloadMaxAmount_def
        AddEventToLog_def NewOccupyAllocator_def NewSlidingWindow_def Milliseconds_def quot64_def signed_divide_int_def in64_def)
  let ?m = "two_clients\<lparr>eventLog := es\<rparr>"
  have "counter_ok (clientObjs two_clients) c [] 0"
    using sample_counter [of ?id WHOLE] C(1) by auto
  then have ok: "clients_ok (clientObjs ?m) (counterClients c)" by (simp add: counter_ok_def)
  obtain c1 es1 where 1: "AddSender ?tv (Some 1) c ?m = Inr (c1, ?m\<lparr>eventLog := eventLog ?m @ es1\<rparr>)"
    "clients_ok (clientObjs ?m) (counterClients c1)"
    "counterClients c1 = senders_after_add (clientObjs ?m ! 1) 1 (counterClients c)"
    using AddSender_ok [of ?m c undefined undefined 1 ?tv] ok by auto
  let ?m1 = "?m\<lparr>eventLog := eventLog ?m @ es1\<rparr>"
  have "clients_ok (clientObjs ?m1) (counterClients c1)" using 1(2) by simp
  from PushMessage_fanout [OF this, of "\<lparr>Sec = 0, Usec = 9\<rparr>" "\<lambda>_ _. False" ?v] obtain c' m' where P:
    "PushMessage \<lparr>Sec = 0, Usec = 9\<rparr> (\<lambda>_ _. False) ?v c1 ?m1 = Inr (c', m')"
    "outbox m' = outbox ?m1 @ map (\<lambda>e. (the (streamCtx (clientObjs ?m1 ! curClient (snd e))), pushMsg ?m1 ?v))
      (filter (\<lambda>(k, t). clientId (clientObjs ?m1 ! curClient t) \<noteq> ExcludeClient ?v \<and>
         streamCtx (clientObjs ?m1 ! curClient t) \<noteq> None \<and> lastSentMicro t < MsgTimeMicro ?v)
        (clientSenders (counterClients c1)))" by blast
  have "clientSenders (counterClients c1) =
      [(1, \<lparr>curClient = 0, lastSentMicro = 0\<rparr>), (2, \<lparr>curClient = 1, lastSentMicro = 0\<rparr>)]"
    using 1(3) C(2) by (simp add: senders_after_add_def Let_def)
  then have "map (\<lambda>(s, msg). (ctxId s, Resp_Cmd msg)) (outbox m') = [(''v'', ACQUIRE)]"
    using P(2) by (simp add: two_clients_def pushMsg_def)
  then show ?thesis by (intro exI conjI) (rule C(1), rule 1(1), rule P(1))
qed

text \<open>While every client joins under a key that its id lists, the number of clients of a counter is
  the number of distinct ids among its senders, whatever joins and leaves.\<close>
theorem tracked_membership:
  assumes "tracked h cc" "clients_ok h cc" "r < length h"
  shows "clientCount cc = of_nat (card {clientId (h ! curClient t) | k t. map_of (clientSenders cc) k = Some t}) \<and>
    (joins h (h ! r) cc \<longrightarrow>
      tracked h (senders_after_add (h ! r) r cc)) \<and>
    ((\<forall>t. map_of (clientSenders cc) (clientKey (h ! r)) = Some t \<longrightarrow> clientId (h ! curClient t) = clientId (h ! r)) \<longrightarrow>
      tracked h (senders_after_del (h ! r) expired cc))"
proof -
  have "sender_ids h cc = {clientId (h ! curClient t) | k t. map_of (clientSenders cc) k = Some t}"
    by (auto simp: sender_ids_def)
  then have "clientCount cc = of_nat (card {clientId (h ! curClient t) | k t. map_of (clientSenders cc) k = Some t})"
    using tracked_count [OF assms(1,2)] by simp
  then show ?thesis using tracked_add [OF assms(1)] tracked_del [OF assms(1)] by blast
qed

lemma tracked_membership_witness:
  "clientCount (senders_after_add (clientObjs two_clients ! 0) 0 \<lparr>clientSenders = [], clientIds = [], clientCount = 0\<rparr>) = 1 \<and>
   tracked (clientObjs two_clients) (senders_after_add (clientObjs two_clients ! 0) 0
     \<lparr>clientSenders = [], clientIds = [], clientCount = 0\<rparr>)"
proof -
  let ?cc = "\<lparr>clientSenders = [], clientIds = [], clientCount = 0\<rparr>"
  have "tracked (clientObjs two_clients) ?cc" "clients_ok (clientObjs two_clients) ?cc"
    "joins (clientObjs two_clients) (clientObjs two_clients ! 0) ?cc"
    by (simp_all add: tracked_def clients_ok_def joins_def)
  with tracked_membership [of "clientObjs two_clients" ?cc 0]
  show ?thesis by (simp add: senders_after_add_def)
qed

text \<open>C12: A client that reconnects under a new key before its old, detached key is cleaned up is dropped
  from the count: of a divided rule with that client alone, it stays subscribed with a quota of 0.\<close>
theorem rejoin_loses_quota:
  assumes "clients_ok (clientObjs m) (counterClients c)" "maxAmount c = effectiveMax c" "amountMode c = DIVIDE"
    and "new < length (clientObjs m)" "old < length (clientObjs m)"
    and "clientIds (counterClients c) = [(clientId (clientObjs m ! new), [(clientKey (clientObjs m ! old), True)])]"
    and "clientId (clientObjs m ! old) = clientId (clientObjs m ! new)"
    and "clientKey (clientObjs m ! old) \<noteq> clientKey (clientObjs m ! new)" "detached (clientObjs m ! old)"
  shows "\<exists>c1 m1 c2 m2. AddSender tv (Some new) c m = Inr (c1, m1) \<and> DelSender tv' (Some old) False c1 m1 = Inr (c2, m2) \<and>
    map_of (clientSenders (counterClients c2)) (clientKey (clientObjs m ! new)) = Some \<lparr>curClient = new, lastSentMicro = 0\<rparr> \<and>
    clientCount (counterClients c2) = 0 \<and> maxAmount c2 = 0"
proof -
  let ?n = "clientObjs m ! new" and ?o = "clientObjs m ! old"
  obtain c1 es1 where 1: "AddSender tv (Some new) c m = Inr (c1, m\<lparr>eventLog := eventLog m @ es1\<rparr>)"
    "clients_ok (clientObjs m) (counterClients c1)" "maxAmount c1 = effectiveMax c1"
    "counterClients c1 = senders_after_add ?n new (counterClients c)"
    "c1 = c\<lparr>counterClients := counterClients c1, maxAmount := maxAmount c1\<rparr>"
    using AddSender_ok [of m c undefined undefined new tv] assms(1,4) by blast
  have "clients_ok (clientObjs (m\<lparr>eventLog := eventLog m @ es1\<rparr>)) (counterClients c1)"
    "old < length (clientObjs (m\<lparr>eventLog := eventLog m @ es1\<rparr>))" using 1(2) assms(5) by simp_all
  from DelSender_ok [OF this(1) 1(3) this(2), of tv' False] obtain c2 m2 where 2:
    "DelSender tv' (Some old) False c1 (m\<lparr>eventLog := eventLog m @ es1\<rparr>) = Inr (c2, m2)"
    "maxAmount c2 = effectiveMax c2" "counterClients c2 = senders_after_del ?o False (counterClients c1)"
    "c2 = c1\<lparr>counterClients := counterClients c2, maxAmount := maxAmount c2\<rparr>"
    by auto
  have "amountMode c1 = amountMode c" by (subst 1(5)) simp
  then have md: "amountMode c2 = DIVIDE" using assms(3) by (subst 2(4)) simp
  have "map_of (clientSenders (counterClients c2)) (clientKey ?n) = Some \<lparr>curClient = new, lastSentMicro = 0\<rparr>"
    using rejoin_uncounted(2) [of "counterClients c" ?n ?o new] assms(6-9) by (simp add: 2(3) 1(4))
  moreover have "clientCount (counterClients c2) = 0"
    using assms(6-9) by (simp add: 2(3) 1(4) senders_after_del_def senders_after_add_def Let_def)
  ultimately show ?thesis using 1(1) 2(1,2) md by (auto simp: effectiveMax_def)
qed

definition divided_counter :: counterV2 where
  "divided_counter = \<lparr>cIdentifier = \<lparr>id_Service = ''s'', id_Namespace = ''n'', id_Labels = [], id_Duration = 1000000000\<rparr>,
     subLabels = ParseLabels [], counterKey = 7, duration = 1000000000, expireDurationMilli = 2000, lastMTimeMilli = 0,
     ruleMaxAmount = 10, maxAmount = 10, amountMode = DIVIDE, allocator = None,
     counterClients = \<lparr>clientSenders = [(1, \<lparr>curClient = 0, lastSentMicro = 0\<rparr>)],
       clientIds = [(''a'', [(1, True)])], clientCount = 1\<rparr>\<rparr>"

definition reconnected :: CMem where
  "reconnected = two_clients\<lparr>clientObjs := [(clientObjs two_clients ! 0)\<lparr>detached := True\<rparr>,
     (clientObjs two_clients ! 1)\<lparr>clientId := ''a''\<rparr>]\<rparr>"

lemma rejoin_loses_quota_witness:
  "\<exists>c1 m1 c2 m2. AddSender \<lparr>Sec = 0, Usec = 0\<rparr> (Some 1) divided_counter reconnected = Inr (c1, m1) \<and>
     DelSender \<lparr>Sec = 1, Usec = 0\<rparr> (Some 0) False c1 m1 = Inr (c2, m2) \<and>
     map_of (clientSenders (counterClients c2)) 2 = Some \<lparr>curClient = 1, lastSentMicro = 0\<rparr> \<and>
     maxAmount divided_counter = 10 \<and> maxAmount c2 = 0"
proof -
  have h: "clientObjs reconnected ! 0 = (clientObjs two_clients ! 0)\<lparr>detached := True\<rparr>"
    "clientObjs reconnected ! 1 = (clientObjs two_clients ! 1)\<lparr>clientId := ''a''\<rparr>"
    "length (clientObjs reconnected) = 2" by (simp_all add: reconnected_def)
  have ok: "clients_ok (clientObjs reconnected) (counterClients divided_counter)"
    "maxAmount divided_counter = effectiveMax divided_counter" "amountMode divided_counter = DIVIDE"
    by (simp_all add: clients_ok_def divided_counter_def sender_ok_def h effectiveMax_def)
  have cl: "1 < length (clientObjs reconnected)" "0 < length (clientObjs reconnected)" using h(3) by simp_all
  show ?thesis
    using rejoin_loses_quota [OF ok cl, of "\<lparr>Sec = 0, Usec = 0\<rparr>" "\<lparr>Sec = 1, Usec = 0\<rparr>"] h
    by (auto simp: divided_counter_def)
qed

end
