(* ===== verification/Key_Pool.thy ===== *)
theory Key_Pool
  imports Limiter_Prelude
begin

text \<open>
  Both managers of \<open>ratelimitv2/manager.go\<close> hand out integer keys between 1 and a maximum and
  store the object of key \<open>k\<close> at index \<open>k - 1\<close> of a slice. The locale states what their
  clients rely on: a key that is handed out is in range and was not in use, allocation fails
  only when every key is in use, and a freed key can be handed out again.
\<close>

definition toArrayIndex :: "u32 \<Rightarrow> int" where
  "toArrayIndex key = uint key - 1"

definition key_range :: "u32 \<Rightarrow> u32 set" where
  "key_range n = {k. 1 \<le> k \<and> k \<le> n}"

lemma key_range_iff: "k \<in> key_range n \<longleftrightarrow> 1 \<le> uint k \<and> uint k \<le> uint n"
  by (simp add: key_range_def word_le_def)

lemma key_range_uint: "uint ` key_range n = {1..uint n}"
proof
  show "uint ` key_range n \<subseteq> {1..uint n}" by (auto simp: key_range_iff)
  show "{1..uint n} \<subseteq> uint ` key_range n"
  proof
    fix x assume x: "x \<in> {1..uint n}"
    then have "x < 2 ^ LENGTH(32)" using uint_u32_bounds(2) [of n] by simp
    then have u: "uint (word_of_int x :: u32) = x" using x by (simp add: uint_word_of_int)
    then have "word_of_int x \<in> key_range n" using x by (simp add: key_range_iff)
    with u show "x \<in> uint ` key_range n" by force
  qed
qed

lemma card_key_range: "card (key_range n) = nat (uint n)"
proof -
  have "card (key_range n) = card (uint ` key_range n)" by (rule card_image [symmetric]) (auto intro: inj_onI simp: word_uint_eq_iff)
  then show ?thesis by (simp add: key_range_uint)
qed

lemma finite_key_range [simp]: "finite (key_range n)"
  by (rule finite)

lemma toArrayIndex_range:
  "k \<in> key_range n \<Longrightarrow> 0 \<le> toArrayIndex k \<and> toArrayIndex k < uint n"
  by (simp add: key_range_iff toArrayIndex_def)

lemma toArrayIndex_inj: "toArrayIndex j = toArrayIndex k \<Longrightarrow> j = k"
  by (simp add: toArrayIndex_def word_uint_eq_iff)

text \<open>The slice of the objects, by key.\<close>

definition at_key :: "'a option list \<Rightarrow> u32 \<Rightarrow> 'a option" where
  "at_key xs k = xs ! nat (toArrayIndex k)"

lemma slice_get_key:
  "k \<in> key_range n \<Longrightarrow> int (length xs) = uint n \<Longrightarrow> slice_get xs (toArrayIndex k) = Inr (at_key xs k)"
  using toArrayIndex_range [of k n] by (simp add: slice_get_in at_key_def)

lemma slice_set_key:
  "k \<in> key_range n \<Longrightarrow> int (length xs) = uint n \<Longrightarrow>
     slice_set xs (toArrayIndex k) x = Inr (xs[nat (toArrayIndex k) := x])"
  using toArrayIndex_range [of k n] by (simp add: slice_set_in)

lemma at_key_set:
  assumes "k \<in> key_range n" "j \<in> key_range n" "int (length xs) = uint n"
  shows "at_key (xs[nat (toArrayIndex k) := x]) j = (if j = k then x else at_key xs j)"
proof -
  note K = toArrayIndex_range [OF assms(1)] and J = toArrayIndex_range [OF assms(2)]
  have "nat (toArrayIndex j) = nat (toArrayIndex k) \<longleftrightarrow> j = k"
    using K J toArrayIndex_inj [of j k] by auto
  with K J assms(3) show ?thesis by (auto simp: at_key_def nth_list_update)
qed

section \<open>The contract\<close>

locale key_pool =
  fixes alloc :: "'p \<Rightarrow> u32 option \<times> 'p"
    and free :: "u32 \<Rightarrow> 'p \<Rightarrow> 'p"
    and used :: "'p \<Rightarrow> u32 set"
    and cap :: "'p \<Rightarrow> u32"
    and room :: "'p \<Rightarrow> bool"
    and ok :: "'p \<Rightarrow> bool"
  assumes alloc_key: "ok p \<Longrightarrow> room p \<Longrightarrow> alloc p = (Some k, p') \<Longrightarrow>
      k \<in> key_range (cap p) \<and> k \<notin> used p \<and> used p' = insert k (used p) \<and> ok p' \<and> cap p' = cap p"
    and alloc_full: "ok p \<Longrightarrow> room p \<Longrightarrow> alloc p = (None, p') \<Longrightarrow>
      used p = key_range (cap p) \<and> used p' = used p \<and> ok p' \<and> cap p' = cap p"
    and free_key: "ok p \<Longrightarrow> k \<in> used p \<Longrightarrow> ok (free k p) \<and> used (free k p) = used p - {k} \<and> cap (free k p) = cap p"
    and used_range: "ok p \<Longrightarrow> used p \<subseteq> key_range (cap p)"
begin

lemma finite_used: "ok p \<Longrightarrow> finite (used p)"
  using used_range finite_subset finite_key_range by blast

lemma card_used: "ok p \<Longrightarrow> card (used p) \<le> nat (uint (cap p))"
  using used_range card_mono [OF finite_key_range] card_key_range by metis

lemma alloc_succeeds:
  assumes "ok p" "room p" "card (used p) < nat (uint (cap p))"
  shows "\<exists>k p'. alloc p = (Some k, p')"
proof (cases "alloc p")
  case (Pair r p')
  then show ?thesis
    using alloc_full [OF assms(1,2), of p'] assms(3) card_key_range by (cases r) auto
qed

lemma alloc_grows:
  assumes "ok p" "room p" "alloc p = (Some k, p')"
  shows "card (used p') = Suc (card (used p))"
  using alloc_key [OF assms] finite_used [OF assms(1)] by simp

lemma reuse:
  assumes "ok p" "k \<in> used p" "room (free k p)"
  shows "\<exists>k' p'. alloc (free k p) = (Some k', p')"
proof (rule alloc_succeeds)
  have "card (used p - {k}) < card (used p)"
    using finite_used [OF assms(1)] assms(2) by (rule card_Diff1_less)
  then show "card (used (free k p)) < nat (uint (cap (free k p)))"
    using free_key [OF assms(1,2)] card_used [OF assms(1)] by simp
qed (use free_key [OF assms(1,2)] assms(3) in auto)

end

end
