(* ===== verification/Limit_Config.thy ===== *)
theory Limit_Config
  imports Limiter_Prelude
begin

text \<open>
  \<open>pkg/config/config.go\<close>: the limiter configuration, its defaults and \<open>ParseConfig\<close>, which
  checks a configuration read from the file and fills what it leaves out. Durations are
  nanoseconds; \<open>uint\<close> is 64 bits wide.
\<close>

record Config =
  Myid :: u64
  CounterGroup :: u32
  MaxCounter :: u32
  MaxClient :: u32
  PushWorker :: u32
  SlideCount :: u32
  PurgeCounterInterval :: int
  SyncRemoteStorageInterval :: int
  AsyncRemoteWaitTimeout :: int
  UpdateRemoteStorageThreshold :: int
  FlushLocalStorageThreshold :: int
  MaxQueryWait :: int
  MinQueryWait :: int

definition Millisecond :: int where "Millisecond = 1000000"
definition Second :: int where "Second = 1000000000"
definition Minute :: int where "Minute = 60 * Second"

definition defaultMinQueryWait :: int where "defaultMinQueryWait = 1 * Second"
definition defaultMaxQueryWait :: int where "defaultMaxQueryWait = 1 * Minute"
definition MaxSlideCount :: u32 where "MaxSlideCount = 10"
definition defaultSlideCount :: u32 where "defaultSlideCount = 1"
definition defaultMaxIndex :: u64 where "defaultMaxIndex = 255"
definition maxCounter :: u32 where "maxCounter = xor (- 1) (push_bit 24 255)"

definition DefaultConfig :: Config where
  "DefaultConfig =
     \<lparr>Myid = 1, CounterGroup = 64, MaxCounter = maxCounter, MaxClient = 20 * 1000,
      PushWorker = 4, SlideCount = defaultSlideCount,
      PurgeCounterInterval = Second * 60, SyncRemoteStorageInterval = Second,
      AsyncRemoteWaitTimeout = Millisecond * 200, UpdateRemoteStorageThreshold = Minute,
      FlushLocalStorageThreshold = Second * 3,
      MaxQueryWait = defaultMaxQueryWait, MinQueryWait = defaultMinQueryWait\<rparr>"

datatype config_error = MyidError | MaxCounterError

text \<open>A value that the file sets replaces the default.\<close>

definition orDefault :: "'a \<Rightarrow> 'a \<Rightarrow> bool \<Rightarrow> 'a" where
  "orDefault v d given = (if given then v else d)"

definition ParseConfig :: "Config option \<Rightarrow> config_error + Config" where
  "ParseConfig config =
     (case config of
        None \<Rightarrow> Inr DefaultConfig
      | Some c \<Rightarrow>
          let d = DefaultConfig in
          if Myid c = 0 \<or> Myid c > defaultMaxIndex then Inl MyidError
          else if MaxCounter c > maxCounter then Inl MaxCounterError
          else Inr (d\<lparr>Myid := orDefault (Myid c) (Myid d) (Myid c > 0),
            MaxCounter := orDefault (MaxCounter c) (MaxCounter d) (MaxCounter c > 0),
            PushWorker := orDefault (PushWorker c) (PushWorker d) (PushWorker c > 0),
            MaxClient := orDefault (MaxClient c) (MaxClient d) (MaxClient c > 0),
            CounterGroup := orDefault (CounterGroup c) (CounterGroup d) (CounterGroup c > 0),
            PurgeCounterInterval := orDefault (PurgeCounterInterval c) (PurgeCounterInterval d)
              (PurgeCounterInterval c > 0),
            SyncRemoteStorageInterval := orDefault (SyncRemoteStorageInterval c)
              (SyncRemoteStorageInterval d) (SyncRemoteStorageInterval c > 0),
            AsyncRemoteWaitTimeout := orDefault (AsyncRemoteWaitTimeout c)
              (AsyncRemoteWaitTimeout d) (AsyncRemoteWaitTimeout c > 0),
            UpdateRemoteStorageThreshold := orDefault (UpdateRemoteStorageThreshold c)
              (UpdateRemoteStorageThreshold d) (UpdateRemoteStorageThreshold c > 0),
            FlushLocalStorageThreshold := orDefault (FlushLocalStorageThreshold c)
              (FlushLocalStorageThreshold d) (FlushLocalStorageThreshold c > 0),
            SlideCount := orDefault (SlideCount c) (SlideCount d)
              (SlideCount c > 0 \<and> SlideCount c \<le> MaxSlideCount \<and> 1000 mod SlideCount c = 0)\<rparr>))"

text \<open>What the servers rely on.\<close>

definition config_ok :: "Config \<Rightarrow> bool" where
  "config_ok c \<longleftrightarrow> 1 \<le> Myid c \<and> Myid c \<le> 255 \<and> 1 \<le> MaxCounter c \<and> MaxCounter c \<le> 16777215 \<and>
     1 \<le> MaxClient c \<and> 1 \<le> PushWorker c \<and> 1 \<le> CounterGroup c \<and>
     1 \<le> SlideCount c \<and> SlideCount c \<le> 10 \<and> 1000 mod SlideCount c = 0 \<and>
     0 < PurgeCounterInterval c \<and> 0 < SyncRemoteStorageInterval c \<and> 0 < AsyncRemoteWaitTimeout c \<and>
     0 < UpdateRemoteStorageThreshold c \<and> 0 < FlushLocalStorageThreshold c"

lemma maxCounter_eq: "maxCounter = 16777215"
  by (simp add: maxCounter_def)

lemmas config_defs = DefaultConfig_def orDefault_def maxCounter_eq MaxSlideCount_def
  defaultSlideCount_def defaultMaxIndex_def Second_def Minute_def Millisecond_def

lemma word_pos_ge_1: "0 < x \<longleftrightarrow> 1 \<le> (x :: 'a :: len word)"
  by (metis inc_le word_neq_0_conv word_zero_le add_0 word_le_0_iff zero_neq_one linorder_not_le)

lemma config_ok_default: "config_ok DefaultConfig"
  by (simp add: config_ok_def config_defs)

lemma ParseConfig_rejects:
  "ParseConfig (Some c) = Inl MyidError \<longleftrightarrow> Myid c = 0 \<or> 255 < Myid c"
  "ParseConfig (Some c) = Inl MaxCounterError \<longleftrightarrow> 0 < Myid c \<and> Myid c \<le> 255 \<and> 16777215 < MaxCounter c"
  by (auto simp: ParseConfig_def Let_def defaultMaxIndex_def maxCounter_eq word_neq_0_conv)

lemma ParseConfig_accepts:
  assumes "ParseConfig (Some c) = Inr d"
  shows "Myid c \<noteq> 0" "Myid c \<le> 255" "MaxCounter c \<le> 16777215"
  using assms
  by (auto simp: ParseConfig_def Let_def defaultMaxIndex_def maxCounter_eq split: if_splits)

lemma ParseConfig_fields:
  assumes "ParseConfig (Some c) = Inr d"
  shows "Myid d = Myid c"
    "MaxCounter d = orDefault (MaxCounter c) 16777215 (0 < MaxCounter c)"
    "PushWorker d = orDefault (PushWorker c) 4 (0 < PushWorker c)"
    "MaxClient d = orDefault (MaxClient c) 20000 (0 < MaxClient c)"
    "CounterGroup d = orDefault (CounterGroup c) 64 (0 < CounterGroup c)"
    "SlideCount d = orDefault (SlideCount c) 1
       (0 < SlideCount c \<and> SlideCount c \<le> 10 \<and> 1000 mod SlideCount c = 0)"
    "PurgeCounterInterval d = orDefault (PurgeCounterInterval c) 60000000000 (0 < PurgeCounterInterval c)"
    "SyncRemoteStorageInterval d =
       orDefault (SyncRemoteStorageInterval c) 1000000000 (0 < SyncRemoteStorageInterval c)"
    "AsyncRemoteWaitTimeout d =
       orDefault (AsyncRemoteWaitTimeout c) 200000000 (0 < AsyncRemoteWaitTimeout c)"
    "UpdateRemoteStorageThreshold d =
       orDefault (UpdateRemoteStorageThreshold c) 60000000000 (0 < UpdateRemoteStorageThreshold c)"
    "FlushLocalStorageThreshold d =
       orDefault (FlushLocalStorageThreshold c) 3000000000 (0 < FlushLocalStorageThreshold c)"
proof -
  have d: "Inr d = ParseConfig (Some c)" using assms by simp
  have my: "0 < Myid c" using ParseConfig_accepts(1) [OF assms] by (simp add: word_neq_0_conv)
  have C: "(Myid c = 0) = False" "(255 < Myid c) = False" "(16777215 < MaxCounter c) = False"
    using ParseConfig_accepts [OF assms] by auto
  note D = d [unfolded ParseConfig_def option.case Let_def defaultMaxIndex_def maxCounter_eq
      C simp_thms if_False sum.inject]
  show "Myid d = Myid c"
    unfolding D using my by (simp add: orDefault_def)
  show "MaxCounter d = orDefault (MaxCounter c) 16777215 (0 < MaxCounter c)"
    "PushWorker d = orDefault (PushWorker c) 4 (0 < PushWorker c)"
    "MaxClient d = orDefault (MaxClient c) 20000 (0 < MaxClient c)"
    "CounterGroup d = orDefault (CounterGroup c) 64 (0 < CounterGroup c)"
    "SlideCount d = orDefault (SlideCount c) 1
       (0 < SlideCount c \<and> SlideCount c \<le> 10 \<and> 1000 mod SlideCount c = 0)"
    "PurgeCounterInterval d = orDefault (PurgeCounterInterval c) 60000000000 (0 < PurgeCounterInterval c)"
    "SyncRemoteStorageInterval d =
       orDefault (SyncRemoteStorageInterval c) 1000000000 (0 < SyncRemoteStorageInterval c)"
    "AsyncRemoteWaitTimeout d =
       orDefault (AsyncRemoteWaitTimeout c) 200000000 (0 < AsyncRemoteWaitTimeout c)"
    "UpdateRemoteStorageThreshold d =
       orDefault (UpdateRemoteStorageThreshold c) 60000000000 (0 < UpdateRemoteStorageThreshold c)"
    "FlushLocalStorageThreshold d =
       orDefault (FlushLocalStorageThreshold c) 3000000000 (0 < FlushLocalStorageThreshold c)"
    unfolding D by (simp_all add: DefaultConfig_def maxCounter_eq MaxSlideCount_def
        defaultSlideCount_def Second_def Minute_def Millisecond_def)
qed

lemma orDefault_pos:
  fixes v d :: "'a :: len word"
  shows "1 \<le> d \<Longrightarrow> 1 \<le> orDefault v d (0 < v)"
  using word_pos_ge_1 [of v] by (simp only: orDefault_def split: if_splits) simp

lemma orDefault_pos_int: "0 < d \<Longrightarrow> 0 < orDefault v d (0 < (v :: int))"
  by (simp add: orDefault_def)

lemma orDefault_slide:
  "config_slide = orDefault v (1 :: u32) (0 < v \<and> v \<le> 10 \<and> 1000 mod v = 0) \<Longrightarrow>
     1 \<le> config_slide \<and> config_slide \<le> 10 \<and> 1000 mod config_slide = 0"
  using word_pos_ge_1 [of v] by (cases "0 < v \<and> v \<le> 10 \<and> 1000 mod v = 0") (simp_all add: orDefault_def)

lemma ParseConfig_ok:
  assumes "ParseConfig config = Inr d"
  shows "config_ok d"
proof (cases config)
  case (Some c)
  note F = ParseConfig_fields [OF assms [unfolded Some]]
    and A = ParseConfig_accepts [OF assms [unfolded Some]]
  have my: "1 \<le> Myid c" by (rule word_pos_ge_1 [THEN iffD1, OF word_neq_0_conv [THEN iffD1, OF A(1)]])
  have mc: "MaxCounter d \<le> 16777215"
    unfolding F(2) using A(3) by (simp add: orDefault_def)
  have w: "1 \<le> MaxCounter d" "1 \<le> MaxClient d" "1 \<le> PushWorker d" "1 \<le> CounterGroup d"
    unfolding F by (rule orDefault_pos, simp)+
  have t: "0 < PurgeCounterInterval d" "0 < SyncRemoteStorageInterval d" "0 < AsyncRemoteWaitTimeout d"
    "0 < UpdateRemoteStorageThreshold d" "0 < FlushLocalStorageThreshold d"
    unfolding F by (rule orDefault_pos_int, simp)+
  have m: "1 \<le> Myid d" "Myid d \<le> 255" unfolding F(1) by (fact my, fact A(2))
  show ?thesis
    unfolding config_ok_def using orDefault_slide [OF F(6)] m mc w t by blast
qed (use assms in \<open>auto simp: ParseConfig_def config_ok_default\<close>)

lemma orDefault_given: "given \<Longrightarrow> orDefault v d given = v"
  by (simp add: orDefault_def)

lemma ParseConfig_id:
  assumes "config_ok c" "MaxQueryWait c = defaultMaxQueryWait" "MinQueryWait c = defaultMinQueryWait"
  shows "ParseConfig (Some c) = Inr c"
proof -
  have C: "Myid c \<noteq> 0" "0 < Myid c" "\<not> 255 < Myid c" "\<not> 16777215 < MaxCounter c" "0 < MaxCounter c"
    "0 < PushWorker c" "0 < MaxClient c" "0 < CounterGroup c" "0 < PurgeCounterInterval c"
    "0 < SyncRemoteStorageInterval c" "0 < AsyncRemoteWaitTimeout c" "0 < UpdateRemoteStorageThreshold c"
    "0 < FlushLocalStorageThreshold c" "0 < SlideCount c" "SlideCount c \<le> 10" "1000 mod SlideCount c = 0"
    using assms(1) by (auto simp: config_ok_def word_pos_ge_1)
  show ?thesis
    unfolding ParseConfig_def option.case Let_def defaultMaxIndex_def maxCounter_eq MaxSlideCount_def
    using C assms(2,3) by (simp add: orDefault_given DefaultConfig_def)
qed

text \<open>What the file says about the query waits is dropped.\<close>

lemma ParseConfig_query_wait:
  "ParseConfig config = Inr d \<Longrightarrow>
     MaxQueryWait d = defaultMaxQueryWait \<and> MinQueryWait d = defaultMinQueryWait"
  by (cases config) (auto simp: ParseConfig_def Let_def DefaultConfig_def split: if_splits)

section \<open>Properties\<close>

text \<open>C22: Every configuration that \<open>ParseConfig\<close> returns has valid sizes, divides a second into equal
  windows and fits the three bytes of a counter key; parsing it again changes nothing.\<close>
theorem ParseConfig_normal_form:
  assumes "ParseConfig config = Inr d"
  shows "config_ok d \<and> ParseConfig (Some d) = Inr d"
  using ParseConfig_id [OF ParseConfig_ok [OF assms]] ParseConfig_query_wait [OF assms] ParseConfig_ok [OF assms]
  by simp

lemma ParseConfig_normal_form_witness:
  "ParseConfig (Some (DefaultConfig\<lparr>Myid := 7, SlideCount := 3, MaxCounter := 0\<rparr>)) = Inr (DefaultConfig\<lparr>Myid := 7\<rparr>) \<and>
   config_ok (DefaultConfig\<lparr>Myid := 7\<rparr>)"
proof -
  have "ParseConfig (Some (DefaultConfig\<lparr>Myid := 7, SlideCount := 3, MaxCounter := 0\<rparr>)) = Inr (DefaultConfig\<lparr>Myid := 7\<rparr>)"
    by (simp add: ParseConfig_def config_defs)
  with ParseConfig_normal_form [OF this] show ?thesis by simp
qed

text \<open>A configuration is rejected exactly for a server id outside one byte or for more counters
  than three bytes can number, the first taking precedence.\<close>
theorem ParseConfig_errors:
  "(ParseConfig config = Inl MyidError \<longleftrightarrow> (\<exists>c. config = Some c \<and> (Myid c = 0 \<or> 255 < Myid c))) \<and>
   (ParseConfig config = Inl MaxCounterError \<longleftrightarrow>
      (\<exists>c. config = Some c \<and> Myid c \<noteq> 0 \<and> Myid c \<le> 255 \<and> 16777215 < MaxCounter c))"
proof (cases config)
  case (Some c)
  then show ?thesis using ParseConfig_rejects [of c] by (auto simp: word_gt_0)
qed (simp add: ParseConfig_def)

end
