(* ===== verification/Requests.thy ===== *)
theory Requests
  imports Api_V2 Limit_Config
begin

text \<open>
  \<open>ratelimitv2/utils.go\<close>: the checks a request passes before it reaches the managers. A check
  returns the response to send when the request is rejected, and for an init request also the
  longest duration of its rules; it fills the slide count of the request when the client left
  it zero, so the request is returned too.
\<close>

section \<open>The checks\<close>

text \<open>The getters on a target pointer.\<close>

definition GetService :: "LimitTarget option \<Rightarrow> string" where
  "GetService t = (case t of None \<Rightarrow> [] | Some x \<Rightarrow> Target_Service x)"

definition GetNamespace :: "LimitTarget option \<Rightarrow> string" where
  "GetNamespace t = (case t of None \<Rightarrow> [] | Some x \<Rightarrow> Target_Namespace x)"

definition GetLabels :: "LimitTarget option \<Rightarrow> string" where
  "GetLabels t = (case t of None \<Rightarrow> [] | Some x \<Rightarrow> Target_Labels x)"

definition GetLabelsList :: "LimitTarget option \<Rightarrow> string list" where
  "GetLabelsList t = (case t of None \<Rightarrow> [] | Some x \<Rightarrow> Target_LabelsList x)"

definition CheckRateLimitReportRequest ::
    "Timeval \<Rightarrow> RateLimitReportRequest option \<Rightarrow> TimedRateLimitReportResponse option" where
  "CheckRateLimitReportRequest tv req =
     (let clientKey = (case req of None \<Rightarrow> 0 | Some r \<Rightarrow> Report_ClientKey r);
          timestamp = (case req of None \<Rightarrow> 0 | Some r \<Rightarrow> Report_Timestamp r);
          uses = (case req of None \<Rightarrow> [] | Some r \<Rightarrow> QuotaUses r)
      in if clientKey = 0 then Some (NewRateLimitReportResponse tv InvalidClientKey)
         else if timestamp = 0 then Some (NewRateLimitReportResponse tv InvalidTimestamp)
         else if uses = [] then Some (NewRateLimitReportResponse tv InvalidUsedLimit)
         else if list_ex (\<lambda>used. Sum_CounterKey used = 0) uses
              then Some (NewRateLimitReportResponse tv InvalidCounterKey)
         else None)"

text \<open>\<open>time.Duration(total.GetDuration()) * time.Second\<close>\<close>

definition seconds :: "u32 \<Rightarrow> int" where
  "seconds d = mul64 (uint d) Second"

text \<open>The loop over the rules: \<open>None\<close> when a duration is zero, else the longest duration.\<close>

fun maxDuration :: "int \<Rightarrow> QuotaTotal list \<Rightarrow> int option" where
  "maxDuration m [] = Some m"
| "maxDuration m (r # rs) =
     (if Total_Duration r = 0 then None
      else let timeDuration = seconds (Total_Duration r)
           in maxDuration (if m < timeDuration then timeDuration else m) rs)"

definition checkInitRequest ::
    "Timeval \<Rightarrow> RateLimitInitRequest \<Rightarrow> u32 \<Rightarrow> RateLimitInitResponse option \<times> int \<times> RateLimitInitRequest" where
  "checkInitRequest tv req defaultSlide =
     (let reject = (\<lambda>code r. (Some (NewRateLimitInitResponse tv code (Init_Target r)), 0, r)) in
      if GetService (Init_Target req) = [] then reject InvalidServiceName req
      else if GetNamespace (Init_Target req) = [] then reject InvalidNamespace req
      else if Init_Totals req = [] then reject InvalidTotalLimit req
      else (case maxDuration 0 (Init_Totals req) of
              None \<Rightarrow> reject InvalidDuration req
            | Some m \<Rightarrow>
                if Init_SlideCount req \<noteq> 0 \<and> Init_SlideCount req > MaxSlideCount
                then reject InvalidSlideCount req
                else let req' = (if Init_SlideCount req = 0
                                 then req\<lparr>Init_SlideCount := defaultSlide\<rparr> else req)
                     in if Init_Mode req' \<noteq> ADAPTIVE \<and> Init_Mode req' \<noteq> BATCH_OCCUPY
                        then reject InvalidMode req'
                        else (None, m, req')))"

definition CheckRateLimitInitRequest ::
    "Timeval \<Rightarrow> RateLimitInitRequest \<Rightarrow> u32 \<Rightarrow> RateLimitInitResponse option \<times> int \<times> RateLimitInitRequest" where
  "CheckRateLimitInitRequest tv req defaultSlide =
     (if Init_ClientId req = []
      then (Some (NewRateLimitInitResponse tv InvalidClientId (Init_Target req)), 0, req)
      else checkInitRequest tv req defaultSlide)"

definition CheckRateLimitBatchInitRequest ::
    "Timeval \<Rightarrow> RateLimitInitRequest \<Rightarrow> u32 \<Rightarrow> RateLimitInitResponse option \<times> int \<times> RateLimitInitRequest" where
  "CheckRateLimitBatchInitRequest tv req defaultSlide =
     (if GetLabelsList (Init_Target req) = []
      then (Some (NewRateLimitInitResponse tv InvalidLabels (Init_Target req)), 0, req)
      else checkInitRequest tv req defaultSlide)"

section \<open>What an accepted request is\<close>

definition rules_ok :: "RateLimitInitRequest \<Rightarrow> bool" where
  "rules_ok req \<longleftrightarrow> Init_Target req \<noteq> None \<and> GetService (Init_Target req) \<noteq> [] \<and>
     GetNamespace (Init_Target req) \<noteq> [] \<and> Init_Totals req \<noteq> [] \<and>
     (\<forall>r \<in> set (Init_Totals req). Total_Duration r \<noteq> 0) \<and>
     1 \<le> Init_SlideCount req \<and> Init_SlideCount req \<le> 10 \<and>
     (Init_Mode req = ADAPTIVE \<or> Init_Mode req = BATCH_OCCUPY)"

lemma in64_seconds: "0 \<le> x \<Longrightarrow> x \<le> 4294967295 \<Longrightarrow> in64 (x * 1000000000)"
  by (simp add: in64_def)

lemma seconds_eq: "seconds d = uint d * 1000000000"
proof -
  have "in64 (uint d * 1000000000)"
    by (rule in64_seconds [OF uint_u32_bounds(1) uint_u32_le])
  then show ?thesis by (simp add: seconds_def Second_def mul64_id)
qed

lemma seconds_pos: "d \<noteq> 0 \<Longrightarrow> 1000000000 \<le> seconds d"
proof -
  assume "d \<noteq> 0"
  then have "uint d \<noteq> 0" by (metis uint_0_iff)
  then have "1 \<le> uint d" using uint_u32_bounds(1) [of d] by linarith
  then show ?thesis by (simp add: seconds_eq)
qed

lemma seconds_le: "seconds d \<le> 4294967295000000000"
  using uint_u32_le [of d] by (simp add: seconds_eq)

lemma maxDuration_None:
  "maxDuration m totals = None \<longleftrightarrow> (\<exists>r \<in> set totals. Total_Duration r = 0)"
  by (induction m totals rule: maxDuration.induct) (auto simp: Let_def)

lemma maxDuration_foldl:
  "maxDuration m totals = Some d \<Longrightarrow> d = foldl max m (map (seconds \<circ> Total_Duration) totals)"
  by (induction m totals rule: maxDuration.induct)
    (auto simp: Let_def max_def split: if_splits)

lemma foldl_max_ge: "(m :: int) \<le> foldl max m xs"
  by (induction xs arbitrary: m) (auto intro: order_trans [OF max.cobounded1])

lemma foldl_max_member: "x \<in> set xs \<Longrightarrow> x \<le> foldl max m (xs :: int list)"
  by (induction xs arbitrary: m) (auto intro: order_trans [OF max.cobounded2 foldl_max_ge])

lemma foldl_max_le: "(m :: int) \<le> b \<Longrightarrow> \<forall>x \<in> set xs. x \<le> b \<Longrightarrow> foldl max m xs \<le> b"
  by (induction xs arbitrary: m) auto

lemmas foldl_max_bounds = foldl_max_ge foldl_max_member foldl_max_le

lemma maxDuration_bounds:
  assumes "maxDuration m totals = Some d" "0 \<le> m" "m \<le> 4294967295000000000"
  shows "m \<le> d" "\<forall>r \<in> set totals. seconds (Total_Duration r) \<le> d" "d \<le> 4294967295000000000"
  using maxDuration_foldl [OF assms(1)] assms(3) seconds_le
  by (auto intro: foldl_max_bounds intro!: foldl_max_le)

lemma checkInitRequest_accepts:
  "(\<exists>m req'. checkInitRequest tv req ds = (None, m, req')) \<longleftrightarrow>
     GetService (Init_Target req) \<noteq> [] \<and> GetNamespace (Init_Target req) \<noteq> [] \<and> Init_Totals req \<noteq> [] \<and>
     (\<forall>r \<in> set (Init_Totals req). Total_Duration r \<noteq> 0) \<and> Init_SlideCount req \<le> MaxSlideCount \<and>
     (Init_Mode req = ADAPTIVE \<or> Init_Mode req = BATCH_OCCUPY)"
proof (cases "maxDuration 0 (Init_Totals req)")
  case None
  then have "\<not> (\<forall>r \<in> set (Init_Totals req). Total_Duration r \<noteq> 0)"
    using maxDuration_None by blast
  with None show ?thesis by (auto simp: checkInitRequest_def Let_def)
next
  case (Some m)
  then have "\<forall>r \<in> set (Init_Totals req). Total_Duration r \<noteq> 0"
    using maxDuration_None [of 0 "Init_Totals req"] by auto
  with Some show ?thesis
    by (auto simp: checkInitRequest_def Let_def linorder_not_less not_le word_le_0_iff)
qed

lemma checkInitRequest_ok:
  assumes "checkInitRequest tv req ds = (None, m, req')" "1 \<le> ds" "ds \<le> 10"
  shows "rules_ok req'" "maxDuration 0 (Init_Totals req) = Some m"
    "req' = req\<lparr>Init_SlideCount := (if Init_SlideCount req = 0 then ds else Init_SlideCount req)\<rparr>"
proof -
  show m: "maxDuration 0 (Init_Totals req) = Some m"
    using assms(1) by (auto simp: checkInitRequest_def Let_def split: if_splits option.splits)
  show r: "req' = req\<lparr>Init_SlideCount := (if Init_SlideCount req = 0 then ds else Init_SlideCount req)\<rparr>"
    using assms(1) by (auto simp: checkInitRequest_def Let_def split: if_splits option.splits)
  have acc: "\<exists>m req'. checkInitRequest tv req ds = (None, m, req')" using assms(1) by blast
  have target: "Init_Target req \<noteq> None"
    using acc [unfolded checkInitRequest_accepts] by (cases "Init_Target req") (auto simp: GetService_def)
  have slide: "1 \<le> Init_SlideCount req'"
    using assms(2) word_neq_0_conv [of "Init_SlideCount req"] by (simp add: r word_pos_ge_1)
  show "rules_ok req'"
    using acc [unfolded checkInitRequest_accepts] assms(3) target slide
    unfolding rules_ok_def r by (auto simp: MaxSlideCount_def)
qed

lemma checkInitRequest_duration:
  assumes "checkInitRequest tv req ds = (None, m, req')"
  shows "1000000000 \<le> m" "m \<le> 4294967295000000000" "mul64 2 m = 2 * m"
    "\<forall>r \<in> set (Init_Totals req). seconds (Total_Duration r) \<le> m"
proof -
  have m: "maxDuration 0 (Init_Totals req) = Some m"
    using assms by (auto simp: checkInitRequest_def Let_def split: if_splits option.splits)
  note B = maxDuration_bounds [OF m]
  show all: "\<forall>r \<in> set (Init_Totals req). seconds (Total_Duration r) \<le> m"
    using B by simp
  have acc: "\<exists>m req'. checkInitRequest tv req ds = (None, m, req')" using assms by blast
  from acc [unfolded checkInitRequest_accepts] obtain r where
    "r \<in> set (Init_Totals req)" "Total_Duration r \<noteq> 0"
    by (cases "Init_Totals req") auto
  with all show ge: "1000000000 \<le> m" using seconds_pos by (meson order_trans)
  show le: "m \<le> 4294967295000000000" using B by simp
  show "mul64 2 m = 2 * m" using ge le by (simp add: mul64_id in64_def)
qed

text \<open>A rejected report names the first field at fault.\<close>

lemma CheckRateLimitReportRequest_None:
  "CheckRateLimitReportRequest tv req = None \<longleftrightarrow>
     (\<exists>r. req = Some r \<and> Report_ClientKey r \<noteq> 0 \<and> Report_Timestamp r \<noteq> 0 \<and> QuotaUses r \<noteq> [] \<and>
        (\<forall>used \<in> set (QuotaUses r). Sum_CounterKey used \<noteq> 0))"
  by (cases req) (auto simp: CheckRateLimitReportRequest_def Let_def list_ex_iff)

section \<open>Properties\<close>

text \<open>An initialisation request passes the check exactly when it names a client, a service and a
  namespace, has rules that all have a duration, at most ten windows and a supported mode. What
  passes is normalised: the window count is set, the durations are whole seconds that fit 64 bits,
  and the longest of them, which the caller doubles into the expiry, is returned.\<close>
theorem CheckRateLimitInitRequest_iff:
  assumes "1 \<le> ds" "ds \<le> 10"
  shows "((\<exists>m req'. CheckRateLimitInitRequest tv req ds = (None, m, req')) \<longleftrightarrow>
      Init_ClientId req \<noteq> [] \<and> GetService (Init_Target req) \<noteq> [] \<and> GetNamespace (Init_Target req) \<noteq> [] \<and>
      Init_Totals req \<noteq> [] \<and> (\<forall>r \<in> set (Init_Totals req). Total_Duration r \<noteq> 0) \<and>
      Init_SlideCount req \<le> 10 \<and> (Init_Mode req = ADAPTIVE \<or> Init_Mode req = BATCH_OCCUPY)) \<and>
    (\<forall>m req'. CheckRateLimitInitRequest tv req ds = (None, m, req') \<longrightarrow>
      req' = req\<lparr>Init_SlideCount := (if Init_SlideCount req = 0 then ds else Init_SlideCount req)\<rparr> \<and>
      rules_ok req' \<and> 1000000000 \<le> m \<and> mul64 2 m = 2 * m \<and>
      (\<forall>r \<in> set (Init_Totals req). seconds (Total_Duration r) \<le> m))"
  using checkInitRequest_accepts [of tv req ds]
  by (auto simp: CheckRateLimitInitRequest_def MaxSlideCount_def
      dest: checkInitRequest_ok(1,3) [OF _ assms] checkInitRequest_duration)

definition zero_time :: Timeval where
  "zero_time = \<lparr>Sec = 0, Usec = 0\<rparr>"

definition sample_init :: RateLimitInitRequest where
  "sample_init = \<lparr>Init_Target = Some \<lparr>Target_Namespace = ''ns'', Target_Service = ''svc'',
       Target_Labels = ''method:Echo'', Target_LabelsList = []\<rparr>, Init_ClientId = ''c1'',
     Init_Totals = [\<lparr>Total_MaxAmount = 10, Total_Duration = 1, Total_Mode = WHOLE\<rparr>,
       \<lparr>Total_MaxAmount = 100, Total_Duration = 60, Total_Mode = DIVIDE\<rparr>],
     Init_SlideCount = 0, Init_Mode = ADAPTIVE\<rparr>"

lemma CheckRateLimitInitRequest_iff_witness:
  "(\<exists>m req'. CheckRateLimitInitRequest zero_time sample_init 2 = (None, m, req') \<and> Init_SlideCount req' = 2) \<and>
   \<not> (\<exists>m req'. CheckRateLimitInitRequest zero_time (sample_init\<lparr>Init_SlideCount := 11\<rparr>) 2 = (None, m, req'))"
proof -
  have "\<exists>m req'. CheckRateLimitInitRequest zero_time sample_init 2 = (None, m, req')"
    "\<not> (\<exists>m req'. CheckRateLimitInitRequest zero_time (sample_init\<lparr>Init_SlideCount := 11\<rparr>) 2 = (None, m, req'))"
    using CheckRateLimitInitRequest_iff [of 2 zero_time sample_init]
      CheckRateLimitInitRequest_iff [of 2 zero_time "sample_init\<lparr>Init_SlideCount := 11\<rparr>"]
    by (auto simp: sample_init_def GetService_def GetNamespace_def)
  then show ?thesis
    using CheckRateLimitInitRequest_iff [of 2 zero_time sample_init] by (auto simp: sample_init_def)
qed

text \<open>A report passes the check exactly when the client key, the timestamp and every counter key
  are present and it reports at least one usage; otherwise the code names the first that is not.\<close>
theorem CheckRateLimitReportRequest_code:
  "case CheckRateLimitReportRequest tv req of
     None \<Rightarrow> (\<exists>r. req = Some r \<and> Report_ClientKey r \<noteq> 0 \<and> Report_Timestamp r \<noteq> 0 \<and> QuotaUses r \<noteq> [] \<and>
        0 \<notin> Sum_CounterKey ` set (QuotaUses r))
   | Some resp \<Rightarrow> (\<exists>k ts uses. (k, ts, uses) = (case req of None \<Rightarrow> (0, 0, [])
          | Some r \<Rightarrow> (Report_ClientKey r, Report_Timestamp r, QuotaUses r)) \<and>
        ReportResp_Code (Timed_Response resp) =
          (if k = 0 then InvalidClientKey else if ts = 0 then InvalidTimestamp
           else if uses = [] then InvalidUsedLimit else InvalidCounterKey))"
proof (cases req)
  case (Some r)
  then show ?thesis
    by (auto simp: CheckRateLimitReportRequest_def NewRateLimitReportResponse_def Let_def list_ex_iff)
qed (simp add: CheckRateLimitReportRequest_def NewRateLimitReportResponse_def Let_def)

end
