(* ===== verification/Counter_Manager.thy ===== *)
theory Counter_Manager
  imports Counter_Quota Key_Pool Requests
begin

text \<open>
  The counter manager of \<open>ratelimitv2/manager.go\<close>: it maps the identifier of a rule (service,
  namespace, labels, duration) to a counter and gives every counter a small integer key. The
  counters live in a store and the slice holds references to them, because a push that is still
  queued can refer to a counter after the manager has dropped it.
\<close>

section \<open>State and operations\<close>

record CounterManagerV2 =
  counters :: "nat option list"
  allocatedKeys :: "(u32 \<times> bool) list"
  counterMap :: "(CounterIdentifier \<times> u32) list"
  maxSize :: u32
  counterIdx :: u32
  cleanupInterval :: int

record SMem = CMem +
  counterObjs :: "counterV2 list"

definition setCounter :: "nat \<Rightarrow> counterV2 \<Rightarrow> SMem \<Rightarrow> SMem" where
  "setCounter ref c m = m\<lparr>counterObjs := (counterObjs m)[ref := c]\<rparr>"

text \<open>A method call on a counter reference of the slice, nil when the slot is empty.\<close>

definition derefCounter :: "SMem \<Rightarrow> nat option \<Rightarrow> panic + counterV2" where
  "derefCounter m r = (case r of
     None \<Rightarrow> Inl NilPointer
   | Some i \<Rightarrow> if i < length (counterObjs m) then Inr (counterObjs m ! i) else Inl NilPointer)"

definition NewCounterIdentifier :: "RateLimitInitRequest \<Rightarrow> int \<Rightarrow> panic + CounterIdentifier" where
  "NewCounterIdentifier initReq ruleIdx =
     bindR (slice_get (Init_Totals initReq) ruleIdx) (\<lambda>rule.
       Inr \<lparr>id_Service = GetService (Init_Target initReq),
            id_Namespace = GetNamespace (Init_Target initReq),
            id_Labels = GetLabels (Init_Target initReq),
            id_Duration = seconds (Total_Duration rule)\<rparr>)"

definition NewCounterManagerV2 :: "u32 \<Rightarrow> int \<Rightarrow> CounterManagerV2" where
  "NewCounterManagerV2 size_max interval =
     \<lparr>counters = replicate (unat size_max) None, allocatedKeys = [], counterMap = [],
      maxSize = size_max, counterIdx = 0, cleanupInterval = interval\<rparr>"

text \<open>
  \<open>cleanupCounter\<close> under the lock: an expired counter leaves the slice, the map and the key set.
\<close>

definition cleanupCounter :: "Timeval \<Rightarrow> CounterIdentifier \<Rightarrow> u32 \<Rightarrow> CounterManagerV2 \<Rightarrow> SMem
    \<Rightarrow> panic + ((nat option \<times> bool) \<times> CounterManagerV2 \<times> SMem)" where
  "cleanupCounter tv ident key cm m =
     bindR (slice_get (counters cm) (toArrayIndex key)) (\<lambda>ref.
     bindR (derefCounter m ref) (\<lambda>counter.
       if IsExpired tv counter
       then bindR (slice_set (counters cm) (toArrayIndex key) None) (\<lambda>cs.
              Inr ((ref, True),
                   cm\<lparr>counters := cs, counterMap := AList.delete ident (counterMap cm),
                      allocatedKeys := AList.delete key (allocatedKeys cm)\<rparr>,
                   AddEventToLog (counterEvent (CurrentMillisecond tv) ActionDelete counter) m))
       else Inr ((ref, False), cm, m)))"

text \<open>
  One tick of \<open>Start\<close>: the loop over the map, given the entries it visits; \<open>expired\<close> counts the
  counters it drops.
\<close>

fun cleanupTick :: "Timeval \<Rightarrow> (CounterIdentifier \<times> u32) list \<Rightarrow> CounterManagerV2 \<Rightarrow> SMem
    \<Rightarrow> panic + (nat \<times> CounterManagerV2 \<times> SMem)" where
  "cleanupTick tv [] cm m = Inr (0, cm, m)"
| "cleanupTick tv ((ident, key) # entries) cm m =
     bindR (cleanupCounter tv ident key cm m) (\<lambda>((ref, isExpired), cm1, m1).
     bindR (derefCounter m1 ref) (\<lambda>counter.
     bindR (CleanupSenders tv isExpired counter m1) (\<lambda>(counter', m2).
     bindR (cleanupTick tv entries cm1 (setCounter (the ref) counter' m2)) (\<lambda>(expired, cm3, m3).
       Inr ((if isExpired then Suc expired else expired), cm3, m3)))))"

definition Tick :: "Timeval \<Rightarrow> CounterManagerV2 \<Rightarrow> SMem \<Rightarrow> panic + (nat \<times> CounterManagerV2 \<times> SMem)" where
  "Tick tv cm m = cleanupTick tv (counterMap cm) cm m"

fun lookup_loop :: "nat \<Rightarrow> CounterManagerV2 \<Rightarrow> (u32 \<times> u32) \<times> CounterManagerV2" where
  "lookup_loop 0 cm = ((ExceedMaxCounter, 0), cm)"
| "lookup_loop (Suc n) cm =
     (let nextCounterKey = counterIdx cm + 1;
          cm1 = cm\<lparr>counterIdx := (if nextCounterKey = maxSize cm then 0 else nextCounterKey)\<rparr>
      in if map_of (allocatedKeys cm) nextCounterKey = None
         then ((ExecuteSuccess, nextCounterKey),
               cm1\<lparr>allocatedKeys := AList.update nextCounterKey True (allocatedKeys cm1)\<rparr>)
         else lookup_loop n cm1)"

definition lookupCounterKey :: "CounterManagerV2 \<Rightarrow> (u32 \<times> u32) \<times> CounterManagerV2" where
  "lookupCounterKey cm = lookup_loop (unat (maxSize cm)) cm"

definition allocateCounterKey :: "Timeval \<Rightarrow> CounterIdentifier \<Rightarrow> InitRequest \<Rightarrow> CounterManagerV2 \<Rightarrow> SMem
    \<Rightarrow> panic + ((u32 \<times> nat option \<times> bool) \<times> CounterManagerV2 \<times> SMem)" where
  "allocateCounterKey tv ident req cm m =
     (case map_of (counterMap cm) ident of
        Some key \<Rightarrow>
          bindR (slice_get (counters cm) (toArrayIndex key)) (\<lambda>ref.
          bindR (derefCounter m ref) (\<lambda>counter.
            Inr ((ExecuteSuccess, ref, True), cm, setCounter (the ref) (counter_Update tv counter) m)))
      | None \<Rightarrow>
          if length (allocatedKeys cm) = unat (maxSize cm) then Inr ((ExceedMaxCounter, None, False), cm, m)
          else
            let ((code, key), cm1) = lookupCounterKey cm in
            if code \<noteq> ExecuteSuccess then Inr ((code, None, False), cm1, m)
            else bindR (NewCounterV2 tv key ident req m) (\<lambda>(counter, m1).
              let ref = length (counterObjs m1) in
              bindR (slice_set (counters cm1) (toArrayIndex key) (Some ref)) (\<lambda>cs.
                Inr ((ExecuteSuccess, Some ref, False),
                     cm1\<lparr>counterMap := AList.update ident key (counterMap cm1), counters := cs\<rparr>,
                     m1\<lparr>counterObjs := counterObjs m1 @ [counter]\<rparr>))))"

definition AddCounter :: "Timeval \<Rightarrow> RateLimitInitRequest \<Rightarrow> int \<Rightarrow> nat option \<Rightarrow> int \<Rightarrow> CounterManagerV2 \<Rightarrow> SMem
    \<Rightarrow> panic + ((u32 \<times> nat option) \<times> CounterManagerV2 \<times> SMem)" where
  "AddCounter tv initReq ruleIdx sender expireDuration cm m =
     bindR (NewCounterIdentifier initReq ruleIdx) (\<lambda>ident.
     bindR (slice_get (Init_Totals initReq) ruleIdx) (\<lambda>rule.
       let req = \<lparr>MaxAmount = Total_MaxAmount rule, Req_SlideCount = uint (Init_SlideCount initReq),
                  Sender = sender, Req_Duration = seconds (Total_Duration rule),
                  Req_ExpireDuration = expireDuration, AmountMode = Total_Mode rule\<rparr>
       in bindR (allocateCounterKey tv ident req cm m) (\<lambda>((code, ref, exists), cm1, m1).
            if code \<noteq> ExecuteSuccess then Inr ((code, None), cm1, m1)
            else if exists
            then bindR (derefCounter m1 ref) (\<lambda>counter.
                 bindR (counter_Reload tv req counter m1) (\<lambda>(counter', m2).
                   Inr ((code, ref), cm1, setCounter (the ref) counter' m2)))
            else Inr ((code, ref), cm1, m1))))"

definition CounterCount :: "CounterManagerV2 \<Rightarrow> nat" where
  "CounterCount cm = length (allocatedKeys cm)"

definition paginate :: "'a list \<Rightarrow> int \<Rightarrow> int \<Rightarrow> panic + 'a list" where
  "paginate all offset limit =
     (if int (length all) \<le> offset then Inr []
      else if offset < 0 then Inl IndexRange
      else let rest = drop (nat offset) all
           in Inr (if 0 < limit \<and> limit < int (length rest) then take (nat limit) rest else rest))"

definition ListCounterIdentifiers :: "CounterManagerV2 \<Rightarrow> int \<Rightarrow> int \<Rightarrow> panic + (CounterIdentifier \<times> u32) list" where
  "ListCounterIdentifiers cm offset limit = paginate (counterMap cm) offset limit"

definition GetCounter :: "u32 \<Rightarrow> CounterManagerV2 \<Rightarrow> panic + (u32 \<times> nat option)" where
  "GetCounter key cm =
     (if maxSize cm < key then Inr (NotFoundLimiter, None)
      else bindR (slice_get (counters cm) (toArrayIndex key)) (\<lambda>ref.
             case ref of None \<Rightarrow> Inr (NotFoundLimiter, None) | Some r \<Rightarrow> Inr (ExecuteSuccess, Some r)))"

section \<open>The key set\<close>

definition keys_ok :: "CounterManagerV2 \<Rightarrow> bool" where
  "keys_ok cm \<longleftrightarrow> counterIdx cm < maxSize cm \<and> wf_map (allocatedKeys cm) \<and>
     dom (map_of (allocatedKeys cm)) \<subseteq> key_range (maxSize cm)"

definition usedKeys :: "CounterManagerV2 \<Rightarrow> u32 set" where
  "usedKeys cm = dom (map_of (allocatedKeys cm))"

text \<open>The \<open>i\<close>-th key that the search tries.\<close>

definition tried :: "u32 \<Rightarrow> u32 \<Rightarrow> nat \<Rightarrow> u32" where
  "tried size_max idx i = of_nat ((unat idx + i) mod unat size_max + 1)"

lemma next_key:
  assumes "idx < (n :: u32)"
  defines "k \<equiv> idx + 1" and "idx' \<equiv> (if idx + 1 = n then 0 else idx + 1)"
  shows "k \<in> key_range n" "idx' < n" "k = tried n idx 0" "tried n idx (Suc i) = tried n idx' i"
proof -
  have lt: "unat idx < unat n" using assms(1) by (simp add: word_less_nat_alt)
  have un: "unat n < 2 ^ LENGTH(32)" by (rule unsigned_less)
  have k: "unat k = unat idx + 1"
    using lt un unfolding k_def by (subst unat_add_lem [THEN iffD1]) simp_all
  have idx': "unat idx' = (unat idx + 1) mod unat n"
  proof (cases "idx + 1 = n")
    case True
    then have "unat n = unat idx + 1" using k by (simp add: k_def)
    then show ?thesis using True by (simp add: idx'_def)
  next
    case False
    then have "unat k \<noteq> unat n" by (simp add: k_def word_unat_eq_iff)
    then have "unat idx + 1 < unat n" using k lt by simp
    then show ?thesis using False k by (simp add: idx'_def k_def)
  qed
  show "k \<in> key_range n"
    using k lt by (simp add: key_range_def word_le_nat_alt)
  show "idx' < n" using idx' lt by (simp add: word_less_nat_alt)
  have "k = of_nat (unat k)" by simp
  then show "k = tried n idx 0" using lt by (simp add: tried_def k)
  show "tried n idx (Suc i) = tried n idx' i"
    unfolding tried_def idx' by (simp add: mod_simps)
qed

lemma lookup_loop_cases:
  assumes "counterIdx cm < maxSize cm" "lookup_loop n cm = ((code, k), cm')"
  shows "counterIdx cm' < maxSize cm \<and>
    ((code = ExecuteSuccess \<and> k \<in> key_range (maxSize cm) \<and> map_of (allocatedKeys cm) k = None \<and>
        cm' = cm\<lparr>counterIdx := counterIdx cm', allocatedKeys := AList.update k True (allocatedKeys cm)\<rparr>) \<or>
     (code = ExceedMaxCounter \<and> cm' = cm\<lparr>counterIdx := counterIdx cm'\<rparr> \<and>
        (\<forall>i < n. map_of (allocatedKeys cm) (tried (maxSize cm) (counterIdx cm) i) \<noteq> None)))"
  using assms
proof (induction n arbitrary: cm)
  case (Suc n)
  let ?k = "counterIdx cm + 1"
  let ?cm1 = "cm\<lparr>counterIdx := (if ?k = maxSize cm then 0 else ?k)\<rparr>"
  note N = next_key [OF Suc.prems(1)]
  show ?case
  proof (cases "map_of (allocatedKeys cm) ?k = None")
    case True
    then have "code = ExecuteSuccess" "k = ?k"
      "cm' = ?cm1\<lparr>allocatedKeys := AList.update ?k True (allocatedKeys cm)\<rparr>"
      using Suc.prems(2) by (auto simp: Let_def)
    then show ?thesis using N(1,2) True by simp
  next
    case False
    then have L: "lookup_loop n ?cm1 = ((code, k), cm')" using Suc.prems(2) False by (auto simp: Let_def split: if_splits)
    have idx: "counterIdx ?cm1 < maxSize ?cm1" using N(2) by simp
    from Suc.IH [OF idx L] show ?thesis
    proof (elim conjE disjE, goal_cases)
      case 1
      then show ?case by (auto intro!: disjI1)
    next
      case 2
      have "map_of (allocatedKeys cm) (tried (maxSize cm) (counterIdx cm) i) \<noteq> None" if "i < Suc n" for i
      proof (cases i)
        case 0
        then show ?thesis using False N(3) by simp
      next
        case (Suc j)
        then show ?thesis using 2(4) that N(4) [of j] by simp
      qed
      with 2 show ?case by simp
    qed
  qed
qed simp

lemma tried_all:
  assumes "idx < (n :: u32)"
  shows "tried n idx ` {..<unat n} = key_range n"
proof
  have pos: "0 < unat n" using assms by (simp add: word_less_nat_alt)
  have un: "unat n < 2 ^ LENGTH(32)" by (rule unsigned_less)
  have t: "unat (tried n idx i) = (unat idx + i) mod unat n + 1" for i
  proof -
    have "(unat idx + i) mod unat n + 1 \<le> unat n" using pos by (simp add: Suc_leI)
    with un have "(unat idx + i) mod unat n + 1 < 2 ^ LENGTH(32)" by (rule order_le_less_trans [rotated])
    then show ?thesis unfolding tried_def by (rule of_nat_inverse [OF refl])
  qed
  show "tried n idx ` {..<unat n} \<subseteq> key_range n"
    using t pos by (auto simp: key_range_def word_le_nat_alt Suc_leI)
  show "key_range n \<subseteq> tried n idx ` {..<unat n}"
  proof
    fix k assume "k \<in> key_range n"
    then have k: "1 \<le> unat k" "unat k \<le> unat n" by (auto simp: key_range_def word_le_nat_alt)
    define i where "i = (unat k - 1 + (unat n - unat idx)) mod unat n"
    have lt: "unat idx < unat n" using assms by (simp add: word_less_nat_alt)
    have "(unat idx + i) mod unat n = (unat idx + (unat k - 1 + (unat n - unat idx))) mod unat n"
      by (simp add: i_def mod_simps)
    also have "unat idx + (unat k - 1 + (unat n - unat idx)) = unat k - 1 + unat n" using lt by simp
    also have "(unat k - 1 + unat n) mod unat n = unat k - 1"
      using k by (simp only: mod_add_self2) simp
    finally have "(unat idx + i) mod unat n = unat k - 1" .
    then have "tried n idx i = k" using t [of i] k by (simp add: word_unat_eq_iff)
    moreover have "i < unat n" using pos by (simp add: i_def)
    ultimately show "k \<in> tried n idx ` {..<unat n}" by force
  qed
qed

definition allocKey :: "CounterManagerV2 \<Rightarrow> u32 option \<times> CounterManagerV2" where
  "allocKey cm =
     (if length (allocatedKeys cm) = unat (maxSize cm) then (None, cm)
      else let ((code, k), cm') = lookupCounterKey cm
           in if code = ExecuteSuccess then (Some k, cm') else (None, cm'))"

definition freeKey :: "u32 \<Rightarrow> CounterManagerV2 \<Rightarrow> CounterManagerV2" where
  "freeKey k cm = cm\<lparr>allocatedKeys := AList.delete k (allocatedKeys cm)\<rparr>"

lemma keys_full:
  assumes "keys_ok cm"
  shows "usedKeys cm = key_range (maxSize cm) \<longleftrightarrow> length (allocatedKeys cm) = unat (maxSize cm)"
proof -
  have wf: "wf_map (allocatedKeys cm)" and sub: "usedKeys cm \<subseteq> key_range (maxSize cm)"
    using assms by (auto simp: keys_ok_def usedKeys_def)
  have len: "length (allocatedKeys cm) = card (usedKeys cm)"
    unfolding usedKeys_def by (rule amap.len_card [OF wf])
  show ?thesis
  proof
    assume "length (allocatedKeys cm) = unat (maxSize cm)"
    then have "card (usedKeys cm) = card (key_range (maxSize cm))"
      by (simp add: len card_key_range)
    with sub show "usedKeys cm = key_range (maxSize cm)" by (simp add: card_subset_eq)
  next
    assume "usedKeys cm = key_range (maxSize cm)"
    then show "length (allocatedKeys cm) = unat (maxSize cm)" by (simp add: len card_key_range)
  qed
qed

lemma allocKey_cases:
  assumes "keys_ok cm" "allocKey cm = (r, cm')"
  shows "(\<exists>k. r = Some k \<and> k \<in> key_range (maxSize cm) \<and> k \<notin> usedKeys cm \<and> keys_ok cm' \<and>
            usedKeys cm' = insert k (usedKeys cm) \<and> lookupCounterKey cm = ((ExecuteSuccess, k), cm') \<and>
            cm' = cm\<lparr>counterIdx := counterIdx cm', allocatedKeys := AList.update k True (allocatedKeys cm)\<rparr>) \<or>
         (r = None \<and> usedKeys cm = key_range (maxSize cm) \<and> cm' = cm)"
proof -
  have idx: "counterIdx cm < maxSize cm" and wf: "wf_map (allocatedKeys cm)"
    and sub: "usedKeys cm \<subseteq> key_range (maxSize cm)"
    using assms(1) by (auto simp: keys_ok_def usedKeys_def)
  note full = keys_full [OF assms(1)]
  show ?thesis
  proof (cases "length (allocatedKeys cm) = unat (maxSize cm)")
    case True
    then show ?thesis using assms(2) full by (simp add: allocKey_def)
  next
    case False
    obtain code k cm1 where L: "lookupCounterKey cm = ((code, k), cm1)"
      by (metis prod.collapse)
    from lookup_loop_cases [OF idx L [unfolded lookupCounterKey_def]] show ?thesis
    proof (elim conjE disjE, goal_cases)
      case 1
      have u: "usedKeys cm1 = insert k (usedKeys cm)"
        unfolding usedKeys_def by (subst 1(5)) (simp add: amap.dom_put)
      have "keys_ok cm1"
        unfolding keys_ok_def usedKeys_def [symmetric] u
        by (subst (1 2 3) 1(5)) (use 1(1,3) wf sub amap.ok_put in auto)
      moreover have "k \<notin> usedKeys cm" using 1(4) by (simp add: usedKeys_def domIff)
      ultimately show ?case using assms(2) False L 1 u by (auto simp: allocKey_def)
    next
      case 2
      have "key_range (maxSize cm) \<subseteq> usedKeys cm"
        unfolding tried_all [OF idx, symmetric] using 2(4) by (auto simp: usedKeys_def)
      with sub full False show ?case by auto
    qed
  qed
qed

interpretation counter_keys: key_pool allocKey freeKey usedKeys maxSize "\<lambda>_. True" keys_ok
proof
  fix p p' k
  assume "keys_ok p" "allocKey p = (Some k, p')"
  from allocKey_cases [OF this]
  show "k \<in> key_range (maxSize p) \<and> k \<notin> usedKeys p \<and> usedKeys p' = insert k (usedKeys p) \<and>
      keys_ok p' \<and> maxSize p' = maxSize p"
    by (auto dest: arg_cong [where f = maxSize])
next
  fix p p'
  assume "keys_ok p" "allocKey p = (None, p')"
  from allocKey_cases [OF this] this(1)
  show "usedKeys p = key_range (maxSize p) \<and> usedKeys p' = usedKeys p \<and> keys_ok p' \<and> maxSize p' = maxSize p"
    by auto
next
  fix p k
  assume "keys_ok p" "k \<in> usedKeys p"
  then show "keys_ok (freeKey k p) \<and> usedKeys (freeKey k p) = usedKeys p - {k} \<and> maxSize (freeKey k p) = maxSize p"
    by (auto simp: keys_ok_def usedKeys_def freeKey_def amap.dom_del amap.ok_del)
next
  fix p assume "keys_ok p"
  then show "usedKeys p \<subseteq> key_range (maxSize p)" by (simp add: keys_ok_def usedKeys_def)
qed

end
