(* ===== verification/Counter_Table.thy ===== *)
theory Counter_Table
  imports Counter_Manager
begin

text \<open>
  The invariant of the counter manager (the map, the slice and the key set describe the same
  counters, and every counter is well formed) and what its operations do: look-up, creation or
  reload of a counter, and the periodic clean-up.
\<close>

section \<open>Invariant\<close>

text \<open>
  The log of every counter, in the sense of the sliding window, is a parameter: it maps the
  reference of a counter to the log and the window it has reached, none later than \<open>T\<close>.
\<close>

type_synonym logs = "nat \<Rightarrow> slide_log \<times> int"

definition objs_ok :: "client list \<Rightarrow> counterV2 list \<Rightarrow> logs \<Rightarrow> int \<Rightarrow> bool" where
  "objs_ok h objs logs T \<longleftrightarrow>
     (\<forall>ref < length objs. counter_ok h (objs ! ref) (fst (logs ref)) (snd (logs ref)) \<and> snd (logs ref) \<le> T)"

definition slot_ok :: "CounterManagerV2 \<Rightarrow> counterV2 list \<Rightarrow> CounterIdentifier \<Rightarrow> u32 \<Rightarrow> bool" where
  "slot_ok cm objs ident k \<longleftrightarrow> k \<in> usedKeys cm \<and>
     (\<exists>ref. at_key (counters cm) k = Some ref \<and> ref < length objs \<and>
        counterKey (objs ! ref) = k \<and> cIdentifier (objs ! ref) = ident)"

definition table_ok :: "CounterManagerV2 \<Rightarrow> counterV2 list \<Rightarrow> bool" where
  "table_ok cm objs \<longleftrightarrow> keys_ok cm \<and> int (length (counters cm)) = uint (maxSize cm) \<and>
     wf_map (counterMap cm) \<and>
     (\<forall>ident k. map_of (counterMap cm) ident = Some k \<longrightarrow> slot_ok cm objs ident k) \<and>
     (\<forall>k \<in> usedKeys cm. \<exists>ident. map_of (counterMap cm) ident = Some k) \<and>
     (\<forall>k \<in> key_range (maxSize cm) - usedKeys cm. at_key (counters cm) k = None)"

definition manager_ok :: "CounterManagerV2 \<Rightarrow> SMem \<Rightarrow> logs \<Rightarrow> int \<Rightarrow> bool" where
  "manager_ok cm m logs T \<longleftrightarrow> table_ok cm (counterObjs m) \<and>
     objs_ok (clientObjs m) (counterObjs m) logs T \<and> 0 \<le> T"

lemma objs_okD:
  "objs_ok h objs logs T \<Longrightarrow> ref < length objs \<Longrightarrow>
     counter_ok h (objs ! ref) (fst (logs ref)) (snd (logs ref)) \<and> snd (logs ref) \<le> T"
  by (simp add: objs_ok_def)

lemma objs_ok_mono:
  assumes "objs_ok h objs logs T" "same_clients h h'" "T \<le> T'"
  shows "objs_ok h' objs logs T'"
  using assms(1,3) unfolding objs_ok_def by (auto intro: counter_ok_mono [OF assms(2)])

lemma objs_ok_update:
  assumes "objs_ok h objs logs T" "counter_ok h c L cur" "cur \<le> T" "logs' = logs(ref := (L, cur))"
  shows "objs_ok h (objs[ref := c]) logs' T"
  using assms by (auto simp: objs_ok_def nth_list_update)

lemma objs_ok_same_log:
  assumes "objs_ok h objs logs T" "counter_ok h c (fst (logs ref)) (snd (logs ref))" "ref < length objs"
  shows "objs_ok h (objs[ref := c]) logs T"
  using assms by (auto simp: objs_ok_def nth_list_update)

lemma objs_ok_append:
  assumes "objs_ok h objs logs T" "counter_ok h c [] 0" "0 \<le> T"
  shows "objs_ok h (objs @ [c]) (logs(length objs := ([], 0))) T"
  using assms by (auto simp: objs_ok_def nth_append less_Suc_eq)

lemma slot_ok_update:
  assumes "slot_ok cm objs ident k" "counterKey c = counterKey (objs ! ref)"
    "cIdentifier c = cIdentifier (objs ! ref)"
  shows "slot_ok cm (objs[ref := c]) ident k"
  using assms by (cases "ref < length objs") (auto simp: slot_ok_def nth_list_update list_update_beyond)

lemma table_ok_update:
  assumes "table_ok cm objs" "counterKey c = counterKey (objs ! ref)"
    "cIdentifier c = cIdentifier (objs ! ref)"
  shows "table_ok cm (objs[ref := c])"
  using assms slot_ok_update [OF _ assms(2,3)] unfolding table_ok_def by blast

lemma table_okD:
  assumes "table_ok cm objs"
  shows "keys_ok cm" "int (length (counters cm)) = uint (maxSize cm)" "wf_map (counterMap cm)"
    "map_of (counterMap cm) ident = Some k \<Longrightarrow> slot_ok cm objs ident k"
    "k \<in> usedKeys cm \<Longrightarrow> \<exists>ident. map_of (counterMap cm) ident = Some k"
    "k \<in> key_range (maxSize cm) \<Longrightarrow> k \<notin> usedKeys cm \<Longrightarrow> at_key (counters cm) k = None"
    "usedKeys cm \<subseteq> key_range (maxSize cm)"
  using assms counter_keys.used_range unfolding table_ok_def by blast+

text \<open>Two identifiers never share a key.\<close>

lemma table_inj:
  assumes "table_ok cm objs" "map_of (counterMap cm) i = Some k" "map_of (counterMap cm) j = Some k"
  shows "i = j"
  using table_okD(4) [OF assms(1,2)] table_okD(4) [OF assms(1,3)] by (auto simp: slot_ok_def)

lemma NewCounterManagerV2_ok:
  assumes "0 < n" "0 \<le> T"
  shows "table_ok (NewCounterManagerV2 n iv) []"
proof -
  have "nat (toArrayIndex k) < unat n" if "k \<in> key_range n" for k
    using toArrayIndex_range [OF that] by (simp add: nat_less_iff)
  with assms show ?thesis
    by (auto simp: table_ok_def NewCounterManagerV2_def keys_ok_def usedKeys_def at_key_def)
qed

section \<open>Look-up\<close>

lemma GetCounter_cases:
  assumes "int (length (counters cm)) = uint (maxSize cm)"
  shows "GetCounter key cm =
    (if maxSize cm < key then Inr (NotFoundLimiter, None)
     else if key = 0 then Inl IndexRange
     else case at_key (counters cm) key of
            None \<Rightarrow> Inr (NotFoundLimiter, None) | Some ref \<Rightarrow> Inr (ExecuteSuccess, Some ref))"
proof (cases "maxSize cm < key \<or> key = 0")
  case True
  then show ?thesis by (auto simp: GetCounter_def toArrayIndex_def slice_get_def)
next
  case False
  then have "1 \<le> uint key" using u32_pos by blast
  moreover have "uint key \<le> uint (maxSize cm)" using False by (simp add: word_le_def [symmetric] not_less)
  ultimately have "key \<in> key_range (maxSize cm)" by (simp add: key_range_iff)
  from slice_get_key [OF this assms] False show ?thesis by (simp add: GetCounter_def)
qed

lemma GetCounter_ok:
  assumes "table_ok cm objs" "key \<noteq> 0"
  shows "GetCounter key cm = (if key \<in> usedKeys cm
      then Inr (ExecuteSuccess, at_key (counters cm) key) else Inr (NotFoundLimiter, None))"
    and "key \<in> usedKeys cm \<Longrightarrow> \<exists>ref ident. at_key (counters cm) key = Some ref \<and> ref < length objs \<and>
      counterKey (objs ! ref) = key \<and> cIdentifier (objs ! ref) = ident \<and> map_of (counterMap cm) ident = Some key"
proof -
  note D = table_okD [OF assms(1)]
  show 2: "key \<in> usedKeys cm \<Longrightarrow> \<exists>ref ident. at_key (counters cm) key = Some ref \<and> ref < length objs \<and>
      counterKey (objs ! ref) = key \<and> cIdentifier (objs ! ref) = ident \<and> map_of (counterMap cm) ident = Some key"
    using D(4,5) unfolding slot_ok_def by blast
  have range: "key \<in> key_range (maxSize cm) \<longleftrightarrow> \<not> maxSize cm < key"
    using u32_pos [OF assms(2)] by (simp add: key_range_iff not_less word_le_def)
  show "GetCounter key cm = (if key \<in> usedKeys cm
      then Inr (ExecuteSuccess, at_key (counters cm) key) else Inr (NotFoundLimiter, None))"
  proof (cases "key \<in> usedKeys cm")
    case True
    then show ?thesis using 2 D(7) range assms(2) by (auto simp: GetCounter_cases [OF D(2)])
  next
    case False
    then show ?thesis using D(6) [of key] range assms(2) by (auto simp: GetCounter_cases [OF D(2)])
  qed
qed

section \<open>Creation and reload\<close>

definition ident_of :: "RateLimitInitRequest \<Rightarrow> nat \<Rightarrow> CounterIdentifier" where
  "ident_of req i =
     \<lparr>id_Service = GetService (Init_Target req), id_Namespace = GetNamespace (Init_Target req),
      id_Labels = GetLabels (Init_Target req),
      id_Duration = seconds (Total_Duration (Init_Totals req ! i))\<rparr>"

definition init_of :: "RateLimitInitRequest \<Rightarrow> nat \<Rightarrow> nat \<Rightarrow> int \<Rightarrow> InitRequest" where
  "init_of req i r expire =
     \<lparr>MaxAmount = Total_MaxAmount (Init_Totals req ! i), Req_SlideCount = uint (Init_SlideCount req),
      Sender = Some r, Req_Duration = seconds (Total_Duration (Init_Totals req ! i)),
      Req_ExpireDuration = expire, AmountMode = Total_Mode (Init_Totals req ! i)\<rparr>"

lemma init_of_ok:
  assumes "rules_ok req" "i < length (Init_Totals req)"
  shows "init_ok (init_of req i r expire) (Total_Duration (Init_Totals req ! i))"
proof -
  have "1 \<le> Init_SlideCount req" "Init_SlideCount req \<le> 10" using assms(1) by (auto simp: rules_ok_def)
  then have "1 \<le> uint (Init_SlideCount req)" "uint (Init_SlideCount req) \<le> 10"
    by (simp_all add: word_le_def)
  then show ?thesis
    using assms by (auto simp: init_ok_def init_of_def seconds_eq rules_ok_def)
qed

lemma NewCounterIdentifier_ok:
  "i < length (Init_Totals req) \<Longrightarrow> NewCounterIdentifier req (int i) = Inr (ident_of req i)"
  by (simp add: NewCounterIdentifier_def slice_get_def ident_of_def)

lemma derefCounter_Some [simp]:
  "ref < length (counterObjs m) \<Longrightarrow> derefCounter m (Some ref) = Inr (counterObjs m ! ref)"
  by (simp add: derefCounter_def)

text \<open>A rule that has a counter: the counter is reloaded and keeps its window.\<close>

lemma AddCounter_existing:
  assumes ok: "manager_ok cm m logs T" and i: "i < length (Init_Totals req)"
    and r: "r < length (clientObjs m)"
    and k: "map_of (counterMap cm) (ident_of req i) = Some k"
  shows "\<exists>ref c' es. AddCounter tv req (int i) (Some r) expire cm m =
      Inr ((ExecuteSuccess, Some ref), cm,
        m\<lparr>eventLog := eventLog m @ es, counterObjs := (counterObjs m)[ref := c']\<rparr>) \<and>
    at_key (counters cm) k = Some ref \<and> ref < length (counterObjs m) \<and> counterKey c' = k \<and>
    cIdentifier c' = ident_of req i \<and> allocator c' = allocator (counterObjs m ! ref) \<and>
    ruleMaxAmount c' = Total_MaxAmount (Init_Totals req ! i) \<and>
    amountMode c' = Total_Mode (Init_Totals req ! i) \<and>
    counter_ok (clientObjs m) c' (fst (logs ref)) (snd (logs ref)) \<and>
    manager_ok cm (m\<lparr>eventLog := eventLog m @ es, counterObjs := (counterObjs m)[ref := c']\<rparr>) logs T"
proof -
  have table: "table_ok cm (counterObjs m)" and objs: "objs_ok (clientObjs m) (counterObjs m) logs T"
    and T: "0 \<le> T" using ok by (auto simp: manager_ok_def)
  obtain ref where ref: "at_key (counters cm) k = Some ref" "ref < length (counterObjs m)"
    "counterKey (counterObjs m ! ref) = k" "cIdentifier (counterObjs m ! ref) = ident_of req i"
    "k \<in> usedKeys cm"
    using table_okD(4) [OF table k] by (auto simp: slot_ok_def)
  have "k \<in> key_range (maxSize cm)" using table_okD(7) [OF table] ref(5) by blast
  note get = slice_get_key [OF this table_okD(2) [OF table]]
  let ?req = "init_of req i r expire"
  let ?c = "counter_Update tv (counterObjs m ! ref)"
  let ?m1 = "m\<lparr>counterObjs := (counterObjs m)[ref := ?c]\<rparr>"
  have c: "counter_ok (clientObjs ?m1) ?c (fst (logs ref)) (snd (logs ref))"
    using objs_okD [OF objs ref(2)] by (simp add: counter_Update_def counter_ok_def effectiveMax_def)
  obtain c' es where c': "counter_Reload tv ?req ?c ?m1 = Inr (c', ?m1\<lparr>eventLog := eventLog ?m1 @ es\<rparr>)"
    "counter_ok (clientObjs ?m1) c' (fst (logs ref)) (snd (logs ref))" "allocator c' = allocator ?c"
    "counterKey c' = counterKey ?c" "cIdentifier c' = cIdentifier ?c"
    "ruleMaxAmount c' = MaxAmount ?req" "amountMode c' = AmountMode ?req"
    using counter_Reload_ok [OF c, of ?req r tv] r by (auto simp: init_of_def)
  let ?m' = "m\<lparr>eventLog := eventLog m @ es, counterObjs := (counterObjs m)[ref := c']\<rparr>"
  have "AddCounter tv req (int i) (Some r) expire cm m = Inr ((ExecuteSuccess, Some ref), cm, ?m')"
    using i k ref get c'(1)
    by (simp add: AddCounter_def NewCounterIdentifier_ok slice_get_def allocateCounterKey_def
        setCounter_def init_of_def [symmetric] Let_def)
  moreover have "manager_ok cm ?m' logs T"
    using table_ok_update [OF table, of c' ref] objs_ok_same_log [OF objs _ ref(2)] c' T
    by (simp add: manager_ok_def counter_Update_def)
  ultimately show ?thesis
    using ref c' by (intro exI [of _ ref] exI [of _ c'] exI [of _ es]) (simp add: counter_Update_def init_of_def)
qed

text \<open>A new rule when every key is in use: an error, and nothing changes.\<close>

lemma AddCounter_full:
  assumes "table_ok cm (counterObjs m)" "i < length (Init_Totals req)"
    and "map_of (counterMap cm) (ident_of req i) = None" "usedKeys cm = key_range (maxSize cm)"
  shows "AddCounter tv req (int i) s expire cm m = Inr ((ExceedMaxCounter, None), cm, m)"
proof -
  have "length (allocatedKeys cm) = unat (maxSize cm)"
    using keys_full [OF table_okD(1) [OF assms(1)]] assms(4) by simp
  then show ?thesis
    using assms(2,3)
    by (simp add: AddCounter_def NewCounterIdentifier_ok slice_get_def allocateCounterKey_def codes Let_def)
qed

text \<open>A new rule otherwise: a counter with a fresh key and an empty window.\<close>

lemma table_ok_new:
  assumes table: "table_ok cm objs" and none: "map_of (counterMap cm) ident = None"
    and k: "k \<in> key_range (maxSize cm)" "k \<notin> usedKeys cm"
    and c: "counterKey c = k" "cIdentifier c = ident"
    and cm1: "keys_ok cm1" "usedKeys cm1 = insert k (usedKeys cm)"
      "cm1 = cm\<lparr>counterIdx := counterIdx cm1, allocatedKeys := allocatedKeys cm1\<rparr>"
  shows "table_ok (cm1\<lparr>counterMap := AList.update ident k (counterMap cm1),
      counters := (counters cm1)[nat (toArrayIndex k) := Some (length objs)]\<rparr>) (objs @ [c])"
    (is "table_ok ?cm' _")
proof -
  note D = table_okD [OF table]
  have same: "counters cm1 = counters cm" "counterMap cm1 = counterMap cm" "maxSize cm1 = maxSize cm"
    using cm1(3) by (metis CounterManagerV2.select_convs CounterManagerV2.update_convs CounterManagerV2.surjective)+
  have used: "usedKeys ?cm' = insert k (usedKeys cm)" using cm1(2) by (simp add: usedKeys_def)
  have map: "map_of (counterMap ?cm') i = (if i = ident then Some k else map_of (counterMap cm) i)" for i
    by (simp add: amap.get_put same)
  have at: "at_key (counters ?cm') j = (if j = k then Some (length objs) else at_key (counters cm) j)"
    if "j \<in> key_range (maxSize cm)" for j
    using at_key_set [OF k(1) that D(2)] by (simp add: same)
  show ?thesis
    unfolding table_ok_def
  proof (intro conjI allI impI ballI)
    show "keys_ok ?cm'" using cm1(1) by (simp add: keys_ok_def)
    show "int (length (counters ?cm')) = uint (maxSize ?cm')" using D(2) by (simp add: same)
    show "wf_map (counterMap ?cm')" using D(3) by (simp add: amap.ok_put same)
  next
    fix i j assume ij: "map_of (counterMap ?cm') i = Some j"
    show "slot_ok ?cm' (objs @ [c]) i j"
    proof (cases "i = ident")
      case True
      then have "j = k" using ij map by simp
      then show ?thesis using True used at [OF k(1)] c by (simp add: slot_ok_def)
    next
      case False
      then have "slot_ok cm objs i j" using D(4) [of i j] ij map by simp
      then obtain ref where "j \<in> usedKeys cm" "at_key (counters cm) j = Some ref" "ref < length objs"
        "counterKey (objs ! ref) = j" "cIdentifier (objs ! ref) = i" by (auto simp: slot_ok_def)
      moreover from this have "j \<noteq> k" "j \<in> key_range (maxSize cm)" using k(2) D(7) by auto
      ultimately show ?thesis using used at [of j] by (simp add: slot_ok_def nth_append)
    qed
  next
    fix j assume "j \<in> usedKeys ?cm'"
    then show "\<exists>i. map_of (counterMap ?cm') i = Some j"
      using D(5) [of j] none unfolding used map by (metis insertE option.distinct(1))
  next
    fix j assume "j \<in> key_range (maxSize ?cm') - usedKeys ?cm'"
    then show "at_key (counters ?cm') j = None"
      using D(6) [of j] at [of j] unfolding used by (simp add: same)
  qed
qed

lemma AddCounter_new:
  assumes ok: "manager_ok cm m logs T" and rules: "rules_ok req" and i: "i < length (Init_Totals req)"
    and r: "r < length (clientObjs m)"
    and none: "map_of (counterMap cm) (ident_of req i) = None" and room: "usedKeys cm \<noteq> key_range (maxSize cm)"
  shows "\<exists>c cm' es k. AddCounter tv req (int i) (Some r) expire cm m =
      Inr ((ExecuteSuccess, Some (length (counterObjs m))), cm',
        m\<lparr>eventLog := eventLog m @ es, counterObjs := counterObjs m @ [c]\<rparr>) \<and>
    k \<in> key_range (maxSize cm) \<and> k \<notin> usedKeys cm \<and> usedKeys cm' = insert k (usedKeys cm) \<and>
    maxSize cm' = maxSize cm \<and> at_key (counters cm') k = Some (length (counterObjs m)) \<and>
    counterMap cm' = AList.update (ident_of req i) k (counterMap cm) \<and>
    counterKey c = k \<and> cIdentifier c = ident_of req i \<and> counter_ok (clientObjs m) c [] 0 \<and>
    ruleMaxAmount c = Total_MaxAmount (Init_Totals req ! i) \<and>
    amountMode c = Total_Mode (Init_Totals req ! i) \<and> clientCount (counterClients c) = 1 \<and>
    manager_ok cm' (m\<lparr>eventLog := eventLog m @ es, counterObjs := counterObjs m @ [c]\<rparr>)
      (logs(length (counterObjs m) := ([], 0))) T"
proof -
  have table: "table_ok cm (counterObjs m)" and objs: "objs_ok (clientObjs m) (counterObjs m) logs T"
    and T: "0 \<le> T" using ok by (auto simp: manager_ok_def)
  note D = table_okD [OF table]
  obtain a cm1 where a: "allocKey cm = (a, cm1)" by (cases "allocKey cm")
  from allocKey_cases [OF D(1) a] room obtain k where k: "k \<in> key_range (maxSize cm)" "k \<notin> usedKeys cm"
    "keys_ok cm1" "usedKeys cm1 = insert k (usedKeys cm)" "lookupCounterKey cm = ((ExecuteSuccess, k), cm1)"
    "cm1 = cm\<lparr>counterIdx := counterIdx cm1, allocatedKeys := AList.update k True (allocatedKeys cm)\<rparr>"
    by auto
  have len: "length (allocatedKeys cm) \<noteq> unat (maxSize cm)" using keys_full [OF D(1)] room by simp
  have same: "counters cm1 = counters cm" "counterMap cm1 = counterMap cm" "maxSize cm1 = maxSize cm"
    "allocatedKeys cm1 = AList.update k True (allocatedKeys cm)"
    by (subst k(6), simp)+
  let ?req = "init_of req i r expire"
  have snd: "Sender ?req = Some r" by (simp add: init_of_def)
  obtain c es where c: "NewCounterV2 tv k (ident_of req i) ?req m = Inr (c, m\<lparr>eventLog := eventLog m @ es\<rparr>)"
    "counter_ok (clientObjs m) c [] 0" "counterKey c = k" "cIdentifier c = ident_of req i"
    "clientCount (counterClients c) = 1" "ruleMaxAmount c = MaxAmount ?req" "amountMode c = AmountMode ?req"
    using NewCounterV2_ok [OF init_of_ok [OF rules i] snd r] by blast
  let ?cm' = "cm1\<lparr>counterMap := AList.update (ident_of req i) k (counterMap cm1),
      counters := (counters cm1)[nat (toArrayIndex k) := Some (length (counterObjs m))]\<rparr>"
  let ?m' = "m\<lparr>eventLog := eventLog m @ es, counterObjs := counterObjs m @ [c]\<rparr>"
  have set: "slice_set (counters cm1) (toArrayIndex k) x =
      Inr ((counters cm1)[nat (toArrayIndex k) := x])" for x
    using slice_set_key [OF k(1), of "counters cm1" x] D(2) same by simp
  have "AddCounter tv req (int i) (Some r) expire cm m =
      Inr ((ExecuteSuccess, Some (length (counterObjs m))), ?cm', ?m')"
    using i none len k(5) c(1) set
    by (simp add: AddCounter_def NewCounterIdentifier_ok slice_get_def allocateCounterKey_def
        init_of_def [symmetric] Let_def)
  moreover have "table_ok ?cm' (counterObjs m @ [c])"
    by (rule table_ok_new [OF table none k(1,2) c(3,4) k(3,4)]) (use k(6) same(4) in simp)
  moreover have "objs_ok (clientObjs m) (counterObjs m @ [c]) (logs(length (counterObjs m) := ([], 0))) T"
    by (rule objs_ok_append [OF objs c(2) T])
  moreover have "usedKeys ?cm' = insert k (usedKeys cm)" using k(4) by (simp add: usedKeys_def)
  moreover have "at_key (counters ?cm') k = Some (length (counterObjs m))"
    using at_key_set [OF k(1) k(1), of "counters cm1"] D(2) same by simp
  ultimately show ?thesis
    using k c T same by (intro exI [of _ c] exI [of _ ?cm'] exI [of _ es] exI [of _ k])
      (simp add: manager_ok_def init_of_def)
qed


section \<open>Clean-up\<close>

lemma table_ok_free:
  assumes table: "table_ok cm objs" and k: "map_of (counterMap cm) ident = Some k"
  defines "cm' \<equiv> cm\<lparr>counters := (counters cm)[nat (toArrayIndex k) := None],
      counterMap := AList.delete ident (counterMap cm),
      allocatedKeys := AList.delete k (allocatedKeys cm)\<rparr>"
  shows "table_ok cm' objs" and "usedKeys cm' = usedKeys cm - {k}"
proof -
  note D = table_okD [OF table]
  have used: "k \<in> usedKeys cm" using D(4) [OF k] by (simp add: slot_ok_def)
  then have range: "k \<in> key_range (maxSize cm)" using D(7) by blast
  have F: "keys_ok (freeKey k cm) \<and> usedKeys (freeKey k cm) = usedKeys cm - {k} \<and> maxSize (freeKey k cm) = maxSize cm"
    using counter_keys.free_key [OF D(1) used] by simp
  show used': "usedKeys cm' = usedKeys cm - {k}" using F by (simp add: cm'_def usedKeys_def freeKey_def)
  have map: "map_of (counterMap cm') i = (if i = ident then None else map_of (counterMap cm) i)" for i
    by (simp add: cm'_def amap.get_del)
  have at: "at_key (counters cm') j = (if j = k then None else at_key (counters cm) j)"
    if "j \<in> key_range (maxSize cm)" for j
    using at_key_set [OF range that D(2)] by (simp add: cm'_def)
  show "table_ok cm' objs"
    unfolding table_ok_def
  proof (intro conjI allI impI ballI)
    show "keys_ok cm'" using F by (simp add: cm'_def keys_ok_def freeKey_def)
    show "int (length (counters cm')) = uint (maxSize cm')" using D(2) by (simp add: cm'_def)
    show "wf_map (counterMap cm')" using D(3) by (simp add: cm'_def amap.ok_del)
  next
    fix i j assume ij: "map_of (counterMap cm') i = Some j"
    then have i: "i \<noteq> ident" "map_of (counterMap cm) i = Some j" using map by (auto split: if_splits)
    then have "j \<noteq> k" using table_inj [OF table _ k, of i] by auto
    moreover have "slot_ok cm objs i j" using D(4) i(2) by blast
    moreover from this have "j \<in> key_range (maxSize cm)" using D(7) by (auto simp: slot_ok_def)
    ultimately show "slot_ok cm' objs i j" using used' at [of j] by (simp add: slot_ok_def)
  next
    fix j assume j: "j \<in> usedKeys cm'"
    then obtain i where i: "map_of (counterMap cm) i = Some j" using D(5) [of j] used' by auto
    have "j \<noteq> k" using j unfolding used' by blast
    then have "i \<noteq> ident" using i k by force
    then show "\<exists>i. map_of (counterMap cm') i = Some j" using i map by auto
  next
    fix j assume "j \<in> key_range (maxSize cm') - usedKeys cm'"
    then have "j \<in> key_range (maxSize cm)" "j \<notin> usedKeys cm - {k}"
      unfolding used' by (auto simp: cm'_def)
    then show "at_key (counters cm') j = None" using D(6) [of j] at [of j] by auto
  qed
qed

text \<open>The counter of an entry of the map.\<close>

definition counter_of :: "CounterManagerV2 \<Rightarrow> SMem \<Rightarrow> u32 \<Rightarrow> counterV2" where
  "counter_of cm m k = counterObjs m ! the (at_key (counters cm) k)"

lemma cleanup_entry:
  assumes ok: "manager_ok cm m logs T" and k: "map_of (counterMap cm) ident = Some k"
  shows "\<exists>cm1 c' es ref. at_key (counters cm) k = Some ref \<and> ref < length (counterObjs m) \<and>
    (\<forall>entries. cleanupTick tv ((ident, k) # entries) cm m =
       bindR (cleanupTick tv entries cm1
                (m\<lparr>eventLog := eventLog m @ es, counterObjs := (counterObjs m)[ref := c']\<rparr>))
         (\<lambda>(n, cm3, m3). Inr ((if IsExpired tv (counter_of cm m k) then Suc n else n), cm3, m3))) \<and>
    manager_ok cm1 (m\<lparr>eventLog := eventLog m @ es, counterObjs := (counterObjs m)[ref := c']\<rparr>) logs T \<and>
    (\<forall>i. map_of (counterMap cm1) i =
       (if i = ident \<and> IsExpired tv (counter_of cm m k) then None else map_of (counterMap cm) i)) \<and>
    (\<forall>j \<in> key_range (maxSize cm). j \<noteq> k \<longrightarrow> at_key (counters cm1) j = at_key (counters cm) j) \<and>
    maxSize cm1 = maxSize cm \<and>
    lastMTimeMilli c' = lastMTimeMilli (counterObjs m ! ref) \<and>
    expireDurationMilli c' = expireDurationMilli (counterObjs m ! ref) \<and>
    allocator c' = allocator (counterObjs m ! ref) \<and>
    counterClients c' = foldl (\<lambda>cc (_, t). senders_after_del (clientObjs m ! curClient t)
        (IsExpired tv (counter_of cm m k)) cc)
      (counterClients (counterObjs m ! ref)) (clientSenders (counterClients (counterObjs m ! ref)))"
proof -
  have table: "table_ok cm (counterObjs m)" and objs: "objs_ok (clientObjs m) (counterObjs m) logs T"
    and T: "0 \<le> T" using ok by (auto simp: manager_ok_def)
  note D = table_okD [OF table]
  obtain ref where ref: "at_key (counters cm) k = Some ref" "ref < length (counterObjs m)" "k \<in> usedKeys cm"
    using D(4) [OF k] by (auto simp: slot_ok_def)
  have range: "k \<in> key_range (maxSize cm)" using D(7) ref(3) by blast
  note get = slice_get_key [OF range D(2)] and set = slice_set_key [OF range D(2)]
  let ?c = "counterObjs m ! ref"
  have c: "counter_of cm m k = ?c" using ref(1) by (simp add: counter_of_def)
  define e where "e = IsExpired tv ?c"
  define cm1 where "cm1 = (if e then cm\<lparr>counters := (counters cm)[nat (toArrayIndex k) := None],
      counterMap := AList.delete ident (counterMap cm),
      allocatedKeys := AList.delete k (allocatedKeys cm)\<rparr> else cm)"
  define es1 where "es1 = (if e then [counterEvent (CurrentMillisecond tv) ActionDelete ?c] else [])"
  let ?m1 = "m\<lparr>eventLog := eventLog m @ es1\<rparr>"
  have clean: "cleanupCounter tv ident k cm m = Inr ((Some ref, e), cm1, ?m1)"
    using get set ref by (simp add: cleanupCounter_def cm1_def es1_def e_def AddEventToLog_def)
  have co: "counter_ok (clientObjs m) ?c (fst (logs ref)) (snd (logs ref))"
    using objs_okD [OF objs ref(2)] by blast
  then have pre: "clients_ok (clientObjs ?m1) (counterClients ?c)" "maxAmount ?c = effectiveMax ?c"
    by (auto simp: counter_ok_def)
  obtain c' es2 where c': "CleanupSenders tv e ?c ?m1 = Inr (c', ?m1\<lparr>eventLog := eventLog ?m1 @ es2\<rparr>)"
    "clients_ok (clientObjs ?m1) (counterClients c')" "maxAmount c' = effectiveMax c'"
    "counterClients c' = foldl (\<lambda>cc (k, t). senders_after_del (clientObjs ?m1 ! curClient t) e cc)
       (counterClients ?c) (clientSenders (counterClients ?c))"
    "c' = ?c\<lparr>counterClients := counterClients c', maxAmount := maxAmount c'\<rparr>"
    using CleanupSenders_ok [OF pre] by blast
  have f: "counterKey c' = counterKey ?c" "cIdentifier c' = cIdentifier ?c" "allocator c' = allocator ?c"
    "lastMTimeMilli c' = lastMTimeMilli ?c" "expireDurationMilli c' = expireDurationMilli ?c"
    by (subst c'(5), simp)+
  let ?es = "es1 @ es2"
  let ?m' = "m\<lparr>eventLog := eventLog m @ ?es, counterObjs := (counterObjs m)[ref := c']\<rparr>"
  have step: "cleanupTick tv ((ident, k) # entries) cm m =
       bindR (cleanupTick tv entries cm1 ?m') (\<lambda>(n, cm3, m3). Inr ((if e then Suc n else n), cm3, m3))" for entries
    using clean ref(2) c'(1) by (simp add: setCounter_def)
  have table1: "table_ok cm1 (counterObjs m)"
    using table table_ok_free(1) [OF table k] by (simp add: cm1_def)
  have "counter_ok (clientObjs m) c' (fst (logs ref)) (snd (logs ref))"
    using co c'(2,3) f(3) by (simp add: counter_ok_def)
  from objs_ok_same_log [OF objs this ref(2)] table_ok_update [OF table1 f(1,2)] T
  have ok': "manager_ok cm1 ?m' logs T" by (simp add: manager_ok_def)
  have map: "map_of (counterMap cm1) i = (if i = ident \<and> e then None else map_of (counterMap cm) i)" for i
    by (simp add: cm1_def amap.get_del)
  have at: "at_key (counters cm1) j = at_key (counters cm) j" if "j \<in> key_range (maxSize cm)" "j \<noteq> k" for j
    using at_key_set [OF range that(1) D(2)] that(2) by (simp add: cm1_def)
  have "maxSize cm1 = maxSize cm" by (simp add: cm1_def)
  with step ok' map at f c'(4) ref show ?thesis
    unfolding c e_def [symmetric]
    by (intro exI [of _ cm1] exI [of _ c'] exI [of _ ?es] exI [of _ ref] conjI allI ballI impI) simp_all
qed

lemma cleanupTick_ok:
  assumes "manager_ok cm m logs T" "wf_map entries"
    and "\<forall>(i, k) \<in> set entries. map_of (counterMap cm) i = Some k"
  shows "\<exists>n cm' m'. cleanupTick tv entries cm m = Inr (n, cm', m') \<and> manager_ok cm' m' logs T \<and>
    n = length (filter (\<lambda>(i, k). IsExpired tv (counter_of cm m k)) entries) \<and>
    (\<forall>i. map_of (counterMap cm') i =
      (if \<exists>k. (i, k) \<in> set entries \<and> IsExpired tv (counter_of cm m k) then None
       else map_of (counterMap cm) i)) \<and>
    clientObjs m' = clientObjs m \<and> length (counterObjs m') = length (counterObjs m) \<and>
    quotaLefts m' = quotaLefts m \<and> pushMgr m' = pushMgr m \<and> maxSize cm' = maxSize cm"
  using assms
proof (induction entries arbitrary: cm m)
  case Nil
  then show ?case by (intro exI [of _ 0] exI [of _ cm] exI [of _ m]) simp
next
  case (Cons entry entries)
  obtain ident k where entry: "entry = (ident, k)" by (cases entry)
  have k: "map_of (counterMap cm) ident = Some k" using Cons.prems(3) entry by auto
  obtain cm1 c' es ref where S:
    "at_key (counters cm) k = Some ref" "ref < length (counterObjs m)"
    "\<forall>entries. cleanupTick tv ((ident, k) # entries) cm m =
       bindR (cleanupTick tv entries cm1
                (m\<lparr>eventLog := eventLog m @ es, counterObjs := (counterObjs m)[ref := c']\<rparr>))
         (\<lambda>(n, cm3, m3). Inr ((if IsExpired tv (counter_of cm m k) then Suc n else n), cm3, m3))"
    "manager_ok cm1 (m\<lparr>eventLog := eventLog m @ es, counterObjs := (counterObjs m)[ref := c']\<rparr>) logs T"
    "\<forall>i. map_of (counterMap cm1) i =
       (if i = ident \<and> IsExpired tv (counter_of cm m k) then None else map_of (counterMap cm) i)"
    "\<forall>j \<in> key_range (maxSize cm). j \<noteq> k \<longrightarrow> at_key (counters cm1) j = at_key (counters cm) j"
    "maxSize cm1 = maxSize cm" "lastMTimeMilli c' = lastMTimeMilli (counterObjs m ! ref)"
    "expireDurationMilli c' = expireDurationMilli (counterObjs m ! ref)"
    using cleanup_entry [OF Cons.prems(1) k, of tv] by blast
  let ?m1 = "m\<lparr>eventLog := eventLog m @ es, counterObjs := (counterObjs m)[ref := c']\<rparr>"
  have fresh: "i \<noteq> ident" if "(i, j) \<in> set entries" for i j
    using Cons.prems(2) that entry by (force simp: image_iff)
  have rest: "map_of (counterMap cm1) i = Some j" if "(i, j) \<in> set entries" for i j
    using Cons.prems(3) that fresh [OF that] S(5) by auto
  have same: "IsExpired tv (counter_of cm1 ?m1 j) = IsExpired tv (counter_of cm m j)"
    if "(i, j) \<in> set entries" for i j
  proof -
    have table: "table_ok cm (counterObjs m)" using Cons.prems(1) by (simp add: manager_ok_def)
    have ij: "map_of (counterMap cm) i = Some j" using Cons.prems(3) that by auto
    have "j \<noteq> k" using table_inj [OF table ij, of ident] k fresh [OF that] by auto
    moreover have "j \<in> key_range (maxSize cm)"
      using table_okD(4) [OF table ij] table_okD(7) [OF table] by (auto simp: slot_ok_def)
    ultimately have at: "at_key (counters cm1) j = at_key (counters cm) j" using S(6) by blast
    show ?thesis
      using S(2,8,9) by (cases "the (at_key (counters cm) j) = ref")
        (simp_all add: counter_of_def at IsExpired_def)
  qed
  have wf: "wf_map entries" "\<forall>(i, k) \<in> set entries. map_of (counterMap cm1) i = Some k"
    using Cons.prems(2) rest by auto
  obtain n cm' m' where IH: "cleanupTick tv entries cm1 ?m1 = Inr (n, cm', m')" "manager_ok cm' m' logs T"
    "n = length (filter (\<lambda>(i, k). IsExpired tv (counter_of cm1 ?m1 k)) entries)"
    "\<forall>i. map_of (counterMap cm') i =
      (if \<exists>k. (i, k) \<in> set entries \<and> IsExpired tv (counter_of cm1 ?m1 k) then None
       else map_of (counterMap cm1) i)"
    "clientObjs m' = clientObjs ?m1" "length (counterObjs m') = length (counterObjs ?m1)"
    "quotaLefts m' = quotaLefts ?m1" "pushMgr m' = pushMgr ?m1" "maxSize cm' = maxSize cm1"
    using Cons.IH [OF S(4) wf] by blast
  have count: "n = length (filter (\<lambda>(i, k). IsExpired tv (counter_of cm m k)) entries)"
    unfolding IH(3) by (rule arg_cong [where f = length], rule filter_cong) (use same in auto)
  have ex: "(\<exists>k. (i, k) \<in> set entries \<and> IsExpired tv (counter_of cm1 ?m1 k)) \<longleftrightarrow>
      (\<exists>k. (i, k) \<in> set entries \<and> IsExpired tv (counter_of cm m k))" for i
    using same by blast
  show ?case
    using S(3,5,7) IH(1,2,4-9) count unfolding ex
    by (intro exI [of _ "if IsExpired tv (counter_of cm m k) then Suc n else n"] exI [of _ cm'] exI [of _ m'])
      (auto simp: entry)
qed

lemma Tick_ok:
  assumes "manager_ok cm m logs T"
  shows "\<exists>n cm' m'. Tick tv cm m = Inr (n, cm', m') \<and> manager_ok cm' m' logs T \<and>
    n = length (filter (\<lambda>(i, k). IsExpired tv (counter_of cm m k)) (counterMap cm)) \<and>
    (\<forall>i. map_of (counterMap cm') i = (case map_of (counterMap cm) i of None \<Rightarrow> None
      | Some k \<Rightarrow> if IsExpired tv (counter_of cm m k) then None else Some k)) \<and>
    clientObjs m' = clientObjs m \<and> length (counterObjs m') = length (counterObjs m) \<and>
    quotaLefts m' = quotaLefts m \<and> pushMgr m' = pushMgr m \<and> maxSize cm' = maxSize cm"
proof -
  have wf: "wf_map (counterMap cm)" using assms table_okD(3) by (auto simp: manager_ok_def)
  then have mem: "(i, k) \<in> set (counterMap cm) \<longleftrightarrow> map_of (counterMap cm) i = Some k" for i k by simp
  have entries: "\<forall>(i, k) \<in> set (counterMap cm). map_of (counterMap cm) i = Some k" using mem by auto
  have "(if \<exists>k. (i, k) \<in> set (counterMap cm) \<and> IsExpired tv (counter_of cm m k) then None
       else map_of (counterMap cm) i) = (case map_of (counterMap cm) i of None \<Rightarrow> None
      | Some k \<Rightarrow> if IsExpired tv (counter_of cm m k) then None else Some k)" for i
    unfolding mem by (cases "map_of (counterMap cm) i") auto
  with cleanupTick_ok [OF assms wf entries, of tv] show ?thesis
    unfolding Tick_def by simp
qed

end
