(* ===== verification/Client_Manager.thy ===== *)
theory Client_Manager
  imports Stream_Client Key_Pool
begin

text \<open>
  The client manager of \<open>ratelimitv2/manager.go\<close>: it maps the id of a client to a client object
  and gives every client an integer key, taken from the queue of freed keys first. A client is
  bound to one stream; when that stream ends the client is detached and its key is freed, unless
  it has been rebound to another stream meanwhile.
\<close>

section \<open>State and operations\<close>

record ClientManager =
  freeClientKeys :: "u32 list"
  clients :: "nat option list"
  clientMap :: "(string \<times> u32) list"
  maxClients :: u32
  clientIdx :: u32

definition NewClientManager :: "u32 \<Rightarrow> ClientManager" where
  "NewClientManager n =
     \<lparr>freeClientKeys = [], clients = replicate (unat n) None, clientMap = [], maxClients = n,
      clientIdx = 0\<rparr>"

text \<open>The choice of a key in \<open>AddClient\<close>: a freed one, else the next one, if it is in range.\<close>

definition nextClientKey :: "ClientManager \<Rightarrow> u32 option \<times> ClientManager" where
  "nextClientKey cm =
     (case freeClientKeys cm of
        k # ks \<Rightarrow> (Some k, cm\<lparr>freeClientKeys := ks\<rparr>)
      | [] \<Rightarrow>
          let next = clientIdx cm + 1; cm' = cm\<lparr>clientIdx := next\<rparr>
          in if next > maxClients cm then (None, cm') else (Some next, cm'))"

definition addNewClient :: "Timeval \<Rightarrow> string \<Rightarrow> IPAddress \<Rightarrow> StreamContext option \<Rightarrow> ClientManager
    \<Rightarrow> 'a Mem_scheme \<Rightarrow> panic + ((u32 \<times> nat option) \<times> ClientManager \<times> 'a Mem_scheme)" where
  "addNewClient tv clId ip sctx cm m =
     (case nextClientKey cm of
        (None, cm1) \<Rightarrow> Inr ((ExceedMaxClient, None), cm1, m)
      | (Some key, cm1) \<Rightarrow>
          bindR (NewClient tv key ip clId sctx m) (\<lambda>(ref, m1).
          bindR (slice_set (clients cm1) (toArrayIndex key) (Some ref)) (\<lambda>cs.
            Inr ((ExecuteSuccess, Some ref),
                 cm1\<lparr>clientMap := AList.update clId key (clientMap cm1), clients := cs\<rparr>, m1))))"

definition AddClient :: "Timeval \<Rightarrow> string \<Rightarrow> IPAddress \<Rightarrow> StreamContext option \<Rightarrow> ClientManager
    \<Rightarrow> 'a Mem_scheme \<Rightarrow> panic + ((u32 \<times> nat option) \<times> ClientManager \<times> 'a Mem_scheme)" where
  "AddClient tv clId ip sctx cm m =
     (case map_of (clientMap cm) clId of
        None \<Rightarrow> addNewClient tv clId ip sctx cm m
      | Some key \<Rightarrow>
          bindR (slice_get (clients cm) (toArrayIndex key)) (\<lambda>ref.
          bindR (deref m ref) (\<lambda>_.
          bindR (UpdateStreamContext tv (the ref) sctx m) (\<lambda>(updated, m1).
            if updated then Inr ((ExecuteSuccess, ref), cm, m1)
            else addNewClient tv clId ip sctx cm m1))))"

definition ClientManager_ClientCount :: "ClientManager \<Rightarrow> nat" where
  "ClientManager_ClientCount cm = length (clientMap cm)"

definition GetClient :: "u32 \<Rightarrow> ClientManager \<Rightarrow> panic + (u32 \<times> nat option)" where
  "GetClient key cm =
     (if key = 0 \<or> maxClients cm < key then Inr (NotFoundLimiter, None)
      else bindR (slice_get (clients cm) (toArrayIndex key)) (\<lambda>ref.
             case ref of None \<Rightarrow> Inr (NotFoundLimiter, None) | Some r \<Rightarrow> Inr (ExecuteSuccess, Some r)))"

definition DelClient :: "nat option \<Rightarrow> string \<Rightarrow> ClientManager \<Rightarrow> 'a Mem_scheme
    \<Rightarrow> panic + (bool \<times> ClientManager \<times> 'a Mem_scheme)" where
  "DelClient cl streamCtxId cm m =
     bindR (deref m cl) (\<lambda>c.
     bindR (slice_get (clients cm) (toArrayIndex (clientKey c))) (\<lambda>cur.
       case cur of
         None \<Rightarrow> Inr (False, cm, m)
       | Some r \<Rightarrow>
           bindR (deref m (Some r)) (\<lambda>curClient.
             let (isDetached, c') = Detach curClient (clientId c) streamCtxId; m1 = setClient r c' m in
             if isDetached
             then bindR (slice_set (clients cm) (toArrayIndex (clientKey c)) None) (\<lambda>cs.
                    Inr (True, cm\<lparr>clientMap := AList.delete (clientId c) (clientMap cm), clients := cs,
                                  freeClientKeys := freeClientKeys cm @ [clientKey c]\<rparr>, m1))
             else Inr (False, cm, m1))))"

text \<open>\<open>Server.CleanupClient\<close>, called when the stream \<open>streamCtxId\<close> of a client has ended.\<close>

definition CleanupClient :: "Timeval \<Rightarrow> nat \<Rightarrow> string \<Rightarrow> ClientManager \<Rightarrow> 'a Mem_scheme
    \<Rightarrow> panic + (ClientManager \<times> 'a Mem_scheme)" where
  "CleanupClient tv cl streamCtxId cm m =
     bindR (DelClient (Some cl) streamCtxId cm m) (\<lambda>(deleted, cm1, m1).
       if deleted then bindR (Cleanup tv cl m1) (\<lambda>m2. Inr (cm1, m2)) else Inr (cm1, m1))"

section \<open>The key set\<close>

definition issued :: "ClientManager \<Rightarrow> u32 set" where
  "issued cm = {k \<in> key_range (maxClients cm). k \<le> clientIdx cm}"

definition usedClientKeys :: "ClientManager \<Rightarrow> u32 set" where
  "usedClientKeys cm = issued cm - set (freeClientKeys cm)"

definition pool_ok :: "ClientManager \<Rightarrow> bool" where
  "pool_ok cm \<longleftrightarrow> distinct (freeClientKeys cm) \<and> set (freeClientKeys cm) \<subseteq> issued cm"

text \<open>The cursor has not reached the end of the 32-bit range.\<close>

definition idx_room :: "ClientManager \<Rightarrow> bool" where
  "idx_room cm \<longleftrightarrow> clientIdx cm \<noteq> - 1"

definition freeClientKey :: "u32 \<Rightarrow> ClientManager \<Rightarrow> ClientManager" where
  "freeClientKey k cm = cm\<lparr>freeClientKeys := freeClientKeys cm @ [k]\<rparr>"

lemma succ_word:
  assumes "x \<noteq> (- 1 :: u32)"
  shows "uint (x + 1) = uint x + 1"
proof -
  have "uint x \<noteq> 4294967295"
  proof
    assume "uint x = 4294967295"
    then have "of_int (uint x) = (of_int 4294967295 :: u32)" by simp
    also have "(of_int 4294967295 :: u32) = - 1" by simp
    finally show False using assms by simp
  qed
  then have "uint x + 1 < 2 ^ LENGTH(32)" using uint_u32_le [of x] by simp
  then show ?thesis using uint_u32_bounds(1) [of x] by (simp add: uint_add_lem [THEN iffD1])
qed

lemma le_succ_word:
  assumes "x \<noteq> (- 1 :: u32)"
  shows "k \<le> x + 1 \<longleftrightarrow> k \<le> x \<or> k = x + 1" "x < x + 1"
  using succ_word [OF assms] by (auto simp: word_le_def word_less_def word_uint_eq_iff)

lemma nextClientKey_cases:
  assumes "pool_ok cm" "idx_room cm" "nextClientKey cm = (r, cm')"
  shows "pool_ok cm' \<and> maxClients cm' = maxClients cm \<and>
    cm' = cm\<lparr>freeClientKeys := freeClientKeys cm', clientIdx := clientIdx cm'\<rparr> \<and>
    (case r of
       Some k \<Rightarrow> k \<in> key_range (maxClients cm) \<and> k \<notin> usedClientKeys cm \<and>
         usedClientKeys cm' = insert k (usedClientKeys cm)
     | None \<Rightarrow> usedClientKeys cm = key_range (maxClients cm) \<and> usedClientKeys cm' = usedClientKeys cm)"
proof (cases "freeClientKeys cm")
  case (Cons k ks)
  then have r: "r = Some k" "cm' = cm\<lparr>freeClientKeys := ks\<rparr>" using assms(3) by (auto simp: nextClientKey_def)
  have "k \<in> issued cm" "k \<notin> set ks" "distinct ks" "set ks \<subseteq> issued cm"
    using assms(1) Cons by (auto simp: pool_ok_def)
  then show ?thesis using r Cons by (auto simp: pool_ok_def usedClientKeys_def issued_def)
next
  case Nil
  let ?next = "clientIdx cm + 1"
  have idx: "clientIdx cm \<noteq> - 1" using assms(2) by (simp add: idx_room_def)
  note le = le_succ_word [OF idx]
  have r: "(r, cm') = (if ?next > maxClients cm then (None, cm\<lparr>clientIdx := ?next\<rparr>)
      else (Some ?next, cm\<lparr>clientIdx := ?next\<rparr>))"
    using assms(3) Nil by (simp add: nextClientKey_def Let_def)
  show ?thesis
  proof (cases "?next > maxClients cm")
    case True
    then have all: "k \<le> clientIdx cm" if "k \<in> key_range (maxClients cm)" for k
      using that le(1) [of k] by (auto simp: key_range_def)
    then have "issued cm = key_range (maxClients cm)" by (auto simp: issued_def)
    moreover have "k \<le> ?next" if "k \<in> key_range (maxClients cm)" for k
      using all [OF that] le(1) by blast
    then have "issued (cm\<lparr>clientIdx := ?next\<rparr>) = key_range (maxClients cm)"
      by (auto simp: issued_def)
    ultimately show ?thesis using r True Nil by (simp add: pool_ok_def usedClientKeys_def)
  next
    case False
    have pos: "1 \<le> ?next" using succ_word [OF idx] uint_u32_bounds(1) [of "clientIdx cm"]
      by (simp add: word_le_def)
    then have k: "?next \<in> key_range (maxClients cm)" using False by (simp add: key_range_def not_less)
    have "issued (cm\<lparr>clientIdx := ?next\<rparr>) = insert ?next (issued cm)"
      using k le(1) by (auto simp: issued_def)
    moreover have "?next \<notin> issued cm" using le(2) by (auto simp: issued_def not_le)
    ultimately show ?thesis using r False Nil k by (simp add: pool_ok_def usedClientKeys_def)
  qed
qed

interpretation client_keys: key_pool nextClientKey freeClientKey usedClientKeys maxClients idx_room pool_ok
proof
  fix p p' k
  assume "pool_ok p" "idx_room p" "nextClientKey p = (Some k, p')"
  from nextClientKey_cases [OF this]
  show "k \<in> key_range (maxClients p) \<and> k \<notin> usedClientKeys p \<and>
      usedClientKeys p' = insert k (usedClientKeys p) \<and> pool_ok p' \<and> maxClients p' = maxClients p"
    by simp
next
  fix p p'
  assume "pool_ok p" "idx_room p" "nextClientKey p = (None, p')"
  from nextClientKey_cases [OF this]
  show "usedClientKeys p = key_range (maxClients p) \<and> usedClientKeys p' = usedClientKeys p \<and>
      pool_ok p' \<and> maxClients p' = maxClients p" by simp
next
  fix p k
  assume "pool_ok p" "k \<in> usedClientKeys p"
  then show "pool_ok (freeClientKey k p) \<and> usedClientKeys (freeClientKey k p) = usedClientKeys p - {k} \<and>
      maxClients (freeClientKey k p) = maxClients p"
    by (auto simp: pool_ok_def usedClientKeys_def freeClientKey_def issued_def)
next
  fix p assume "pool_ok p"
  then show "usedClientKeys p \<subseteq> key_range (maxClients p)" by (auto simp: usedClientKeys_def issued_def)
qed

section \<open>Invariant\<close>

text \<open>
  The map and the slice name the same clients, which are exactly those that are not detached.
\<close>

definition client_slot :: "ClientManager \<Rightarrow> client list \<Rightarrow> string \<Rightarrow> u32 \<Rightarrow> bool" where
  "client_slot cm h i k \<longleftrightarrow> k \<in> usedClientKeys cm \<and>
     (\<exists>r. at_key (clients cm) k = Some r \<and> r < length h \<and> clientKey (h ! r) = k \<and>
        clientId (h ! r) = i \<and> \<not> detached (h ! r))"

definition clients_table :: "ClientManager \<Rightarrow> client list \<Rightarrow> bool" where
  "clients_table cm h \<longleftrightarrow> pool_ok cm \<and> int (length (clients cm)) = uint (maxClients cm) \<and>
     wf_map (clientMap cm) \<and>
     (\<forall>i k. map_of (clientMap cm) i = Some k \<longrightarrow> client_slot cm h i k) \<and>
     (\<forall>k \<in> usedClientKeys cm. \<exists>i. map_of (clientMap cm) i = Some k) \<and>
     (\<forall>k \<in> key_range (maxClients cm) - usedClientKeys cm. at_key (clients cm) k = None) \<and>
     (\<forall>r < length h. clientKey (h ! r) \<in> key_range (maxClients cm) \<and> client_ok (h ! r) \<and>
        (\<not> detached (h ! r) \<longrightarrow> at_key (clients cm) (clientKey (h ! r)) = Some r))"

lemma clients_tableD:
  assumes "clients_table cm h"
  shows "pool_ok cm" "int (length (clients cm)) = uint (maxClients cm)" "wf_map (clientMap cm)"
    "map_of (clientMap cm) i = Some k \<Longrightarrow> client_slot cm h i k"
    "k \<in> usedClientKeys cm \<Longrightarrow> \<exists>i. map_of (clientMap cm) i = Some k"
    "k \<in> key_range (maxClients cm) \<Longrightarrow> k \<notin> usedClientKeys cm \<Longrightarrow> at_key (clients cm) k = None"
    "usedClientKeys cm \<subseteq> key_range (maxClients cm)"
    "r < length h \<Longrightarrow> clientKey (h ! r) \<in> key_range (maxClients cm)"
    "r < length h \<Longrightarrow> client_ok (h ! r)"
    "r < length h \<Longrightarrow> \<not> detached (h ! r) \<Longrightarrow> at_key (clients cm) (clientKey (h ! r)) = Some r"
  using assms client_keys.used_range unfolding clients_table_def by blast+

lemma NewClientManager_ok: "clients_table (NewClientManager n) []"
proof -
  have idx: "nat (toArrayIndex k) < unat n" if "k \<in> key_range n" for k
    using toArrayIndex_range [OF that] by (simp add: nat_less_iff)
  have "issued (NewClientManager n) = {}"
    by (auto simp: issued_def NewClientManager_def key_range_def)
  with idx show ?thesis
    by (auto simp: clients_table_def NewClientManager_def pool_ok_def usedClientKeys_def at_key_def)
qed

text \<open>The entry of a client id, and of a key in use.\<close>

lemma table_client:
  assumes "clients_table cm h" "k \<in> key_range (maxClients cm)" "at_key (clients cm) k = Some r"
  shows "r < length h \<and> clientKey (h ! r) = k \<and> \<not> detached (h ! r) \<and>
    map_of (clientMap cm) (clientId (h ! r)) = Some k"
proof -
  have "k \<in> usedClientKeys cm" using clients_tableD(6) [OF assms(1,2)] assms(3) by force
  then obtain i where i: "map_of (clientMap cm) i = Some k" using clients_tableD(5) [OF assms(1)] by blast
  show ?thesis using clients_tableD(4) [OF assms(1) i] assms(3) i by (auto simp: client_slot_def)
qed

text \<open>Changing a client in place, its identity and detached flag kept.\<close>

lemma clients_table_update:
  assumes table: "clients_table cm h" and r: "r < length h"
    and c: "clientKey c = clientKey (h ! r)" "clientId c = clientId (h ! r)"
      "detached c = detached (h ! r)" "client_ok c"
  shows "clients_table cm (h[r := c])"
proof -
  note D = clients_tableD [OF table]
  have same: "clientKey (h[r := c] ! j) = clientKey (h ! j)" "clientId (h[r := c] ! j) = clientId (h ! j)"
    "detached (h[r := c] ! j) = detached (h ! j)" for j
    using c r by (auto simp: nth_list_update)
  have "client_ok (h[r := c] ! j)" if "j < length h" for j
    using c(4) D(9) [OF that] r by (auto simp: nth_list_update)
  then show ?thesis
    using table unfolding clients_table_def client_slot_def same length_list_update by blast
qed

section \<open>Adding a client\<close>

lemma UpdateStreamContext_ok:
  assumes "r < length (clientObjs m)" "client_ok (clientObjs m ! r)" "\<not> detached (clientObjs m ! r)"
  shows "\<exists>c' es. UpdateStreamContext tv r (Some s) m =
      Inr (True, m\<lparr>clientObjs := (clientObjs m)[r := c'], eventLog := eventLog m @ es\<rparr>) \<and>
    streamContextId c' = ctxId s \<and> clientKey c' = clientKey (clientObjs m ! r) \<and>
    clientId c' = clientId (clientObjs m ! r) \<and> clientIP c' = clientIP (clientObjs m ! r) \<and>
    \<not> detached c' \<and> client_ok c'"
proof -
  obtain l u d c' where S: "setStreamContext (clientObjs m ! r) (Some s) = Inr ((l, u, d), c')"
    using setStreamContext_total [OF assms(2), of s] by blast
  note O = setStreamContext_ok [OF assms(2) S]
  define es where "es = (if u then [NewClientStreamUpdateEvent tv
     (case l of Some x \<Rightarrow> ctxId x | None \<Rightarrow> []) (ctxId s) c' ActionReplace] else [])"
  have "UpdateStreamContext tv r (Some s) m =
      Inr (True, m\<lparr>clientObjs := (clientObjs m)[r := c'], eventLog := eventLog m @ es\<rparr>)"
    using assms(1,3) S O(2) by (simp add: UpdateStreamContext_def setClient_def AddEventToLog_def es_def Let_def)
  with O assms(3) show ?thesis by (intro exI [of _ c'] exI [of _ es]) simp
qed

lemma AddClient_known:
  fixes m :: "'a Mem_scheme"
  assumes table: "clients_table cm (clientObjs m)" and k: "map_of (clientMap cm) clId = Some k"
  shows "\<exists>r c' es. AddClient tv clId ip (Some s) cm m = Inr ((ExecuteSuccess, Some r), cm,
      m\<lparr>clientObjs := (clientObjs m)[r := c'], eventLog := eventLog m @ es\<rparr>) \<and>
    at_key (clients cm) k = Some r \<and> r < length (clientObjs m) \<and> clientId c' = clId \<and> clientKey c' = k \<and>
    \<not> detached c' \<and> streamContextId c' = ctxId s \<and>
    same_clients (clientObjs m) ((clientObjs m)[r := c']) \<and>
    clients_table cm ((clientObjs m)[r := c'])"
proof -
  note D = clients_tableD [OF table]
  obtain r where r: "at_key (clients cm) k = Some r" "r < length (clientObjs m)" "k \<in> usedClientKeys cm"
    "clientKey (clientObjs m ! r) = k" "clientId (clientObjs m ! r) = clId" "\<not> detached (clientObjs m ! r)"
    using D(4) [OF k] by (auto simp: client_slot_def)
  have range: "k \<in> key_range (maxClients cm)" using D(7) r(3) by blast
  obtain c' es where U: "UpdateStreamContext tv r (Some s) m =
      Inr (True, m\<lparr>clientObjs := (clientObjs m)[r := c'], eventLog := eventLog m @ es\<rparr>)"
    "streamContextId c' = ctxId s" "clientKey c' = clientKey (clientObjs m ! r)"
    "clientId c' = clientId (clientObjs m ! r)" "clientIP c' = clientIP (clientObjs m ! r)"
    "\<not> detached c'" "client_ok c'"
    using UpdateStreamContext_ok [OF r(2) D(9) [OF r(2)] r(6)] by blast
  have "AddClient tv clId ip (Some s) cm m = Inr ((ExecuteSuccess, Some r), cm,
      m\<lparr>clientObjs := (clientObjs m)[r := c'], eventLog := eventLog m @ es\<rparr>)"
    using k r slice_get_key [OF range D(2)] U(1) by (simp add: AddClient_def)
  moreover have "same_clients (clientObjs m) ((clientObjs m)[r := c'])"
    using r(2) U by (intro same_clients_update) auto
  moreover have "clients_table cm ((clientObjs m)[r := c'])"
    using clients_table_update [OF table r(2)] U r(6) by simp
  ultimately show ?thesis using r U by (intro exI [of _ r] exI [of _ c'] exI [of _ es]) simp
qed

lemma clients_table_pool:
  assumes "clients_table cm h" "pool_ok cm'" "usedClientKeys cm' = usedClientKeys cm"
    and cm': "cm' = cm\<lparr>freeClientKeys := freeClientKeys cm', clientIdx := clientIdx cm'\<rparr>"
  shows "clients_table cm' h"
proof -
  have "clients cm' = clients cm" "clientMap cm' = clientMap cm" "maxClients cm' = maxClients cm"
    by (subst cm', simp)+
  then show ?thesis using assms(1-3) unfolding clients_table_def client_slot_def by presburger
qed

lemma AddClient_full:
  assumes "clients_table cm (clientObjs m)" "idx_room cm" "map_of (clientMap cm) clId = None"
    and "usedClientKeys cm = key_range (maxClients cm)"
  shows "\<exists>cm'. AddClient tv clId ip (Some s) cm m = Inr ((ExceedMaxClient, None), cm', m) \<and>
    cm' = cm\<lparr>freeClientKeys := freeClientKeys cm', clientIdx := clientIdx cm'\<rparr> \<and>
    usedClientKeys cm' = usedClientKeys cm \<and> clients_table cm' (clientObjs m)"
proof -
  obtain a cm' where a: "nextClientKey cm = (a, cm')" by (cases "nextClientKey cm")
  note N = nextClientKey_cases [OF clients_tableD(1) [OF assms(1)] assms(2) a]
  have "a = None" using N assms(4) by (cases a) auto
  with N a assms(3) have "AddClient tv clId ip (Some s) cm m = Inr ((ExceedMaxClient, None), cm', m)"
    "usedClientKeys cm' = usedClientKeys cm" "pool_ok cm'"
    "cm' = cm\<lparr>freeClientKeys := freeClientKeys cm', clientIdx := clientIdx cm'\<rparr>"
    by (auto simp: AddClient_def addNewClient_def)
  with clients_table_pool [OF assms(1)] show ?thesis by blast
qed

lemma clients_table_new:
  assumes table: "clients_table cm h" and none: "map_of (clientMap cm) i = None"
    and k: "k \<in> key_range (maxClients cm)" "k \<notin> usedClientKeys cm"
    and c: "clientKey c = k" "clientId c = i" "\<not> detached c" "client_ok c"
    and cm1: "pool_ok cm1" "usedClientKeys cm1 = insert k (usedClientKeys cm)"
      "cm1 = cm\<lparr>freeClientKeys := freeClientKeys cm1, clientIdx := clientIdx cm1\<rparr>"
  defines "cm' \<equiv> cm1\<lparr>clientMap := AList.update i k (clientMap cm1),
      clients := (clients cm1)[nat (toArrayIndex k) := Some (length h)]\<rparr>"
  shows "clients_table cm' (h @ [c])" "usedClientKeys cm' = insert k (usedClientKeys cm)"
proof -
  note D = clients_tableD [OF table]
  have same: "clients cm1 = clients cm" "clientMap cm1 = clientMap cm" "maxClients cm1 = maxClients cm"
    by (subst cm1(3), simp)+
  show used: "usedClientKeys cm' = insert k (usedClientKeys cm)"
    using cm1(2) by (simp add: cm'_def usedClientKeys_def issued_def)
  have map: "map_of (clientMap cm') j = (if j = i then Some k else map_of (clientMap cm) j)" for j
    by (simp add: cm'_def amap.get_put same)
  have at: "at_key (clients cm') j = (if j = k then Some (length h) else at_key (clients cm) j)"
    if "j \<in> key_range (maxClients cm)" for j
    using at_key_set [OF k(1) that D(2)] by (simp add: cm'_def same)
  have max: "maxClients cm' = maxClients cm" by (simp add: cm'_def same)
  show "clients_table cm' (h @ [c])"
    unfolding clients_table_def
  proof (intro conjI allI impI ballI)
    show "pool_ok cm'" using cm1(1) by (simp add: cm'_def pool_ok_def issued_def)
    show "int (length (clients cm')) = uint (maxClients cm')" using D(2) by (simp add: cm'_def same)
    show "wf_map (clientMap cm')" using D(3) by (simp add: cm'_def amap.ok_put same)
  next
    fix j kj assume jk: "map_of (clientMap cm') j = Some kj"
    show "client_slot cm' (h @ [c]) j kj"
    proof (cases "j = i")
      case True
      then have "kj = k" using jk map by simp
      then show ?thesis using True used at [OF k(1)] c by (simp add: client_slot_def)
    next
      case False
      then have "client_slot cm h j kj" using D(4) [of j kj] jk map by simp
      then obtain r where "kj \<in> usedClientKeys cm" "at_key (clients cm) kj = Some r" "r < length h"
        "clientKey (h ! r) = kj" "clientId (h ! r) = j" "\<not> detached (h ! r)" by (auto simp: client_slot_def)
      moreover from this have "kj \<noteq> k" "kj \<in> key_range (maxClients cm)" using k(2) D(7) by auto
      ultimately show ?thesis using used at [of kj] by (simp add: client_slot_def nth_append)
    qed
  next
    fix j assume "j \<in> usedClientKeys cm'"
    then show "\<exists>i. map_of (clientMap cm') i = Some j"
      using D(5) [of j] none unfolding used map by (metis insertE option.distinct(1))
  next
    fix j assume "j \<in> key_range (maxClients cm') - usedClientKeys cm'"
    then show "at_key (clients cm') j = None"
      using D(6) [of j] at [of j] unfolding used max by auto
  next
    fix r assume "r < length (h @ [c])"
    then consider "r < length h" | "r = length h" by force
    then have "clientKey ((h @ [c]) ! r) \<in> key_range (maxClients cm) \<and> client_ok ((h @ [c]) ! r) \<and>
      (\<not> detached ((h @ [c]) ! r) \<longrightarrow> at_key (clients cm') (clientKey ((h @ [c]) ! r)) = Some r)"
    proof cases
      case 1
      have "at_key (clients cm') (clientKey (h ! r)) = Some r" if "\<not> detached (h ! r)"
      proof -
        have a: "at_key (clients cm) (clientKey (h ! r)) = Some r" by (rule D(10) [OF 1 that])
        have "clientKey (h ! r) \<noteq> k" using D(6) [OF k] a by auto
        then show ?thesis using at [OF D(8) [OF 1]] a by simp
      qed
      then show ?thesis using 1 D(8,9) by (simp add: nth_append)
    next
      case 2
      then show ?thesis using c k(1) at [OF k(1)] by simp
    qed
    then show "clientKey ((h @ [c]) ! r) \<in> key_range (maxClients cm')" "client_ok ((h @ [c]) ! r)"
      "\<not> detached ((h @ [c]) ! r) \<Longrightarrow> at_key (clients cm') (clientKey ((h @ [c]) ! r)) = Some r"
      unfolding max by blast+
  qed
qed

lemma AddClient_new:
  fixes m :: "'a Mem_scheme"
  assumes table: "clients_table cm (clientObjs m)" and room: "idx_room cm"
    and none: "map_of (clientMap cm) clId = None" and free: "usedClientKeys cm \<noteq> key_range (maxClients cm)"
  shows "\<exists>k c es cm'. AddClient tv clId ip (Some s) cm m = Inr ((ExecuteSuccess, Some (length (clientObjs m))), cm',
      m\<lparr>clientObjs := clientObjs m @ [c], eventLog := eventLog m @ es\<rparr>) \<and>
    k \<in> key_range (maxClients cm) \<and> k \<notin> usedClientKeys cm \<and>
    usedClientKeys cm' = insert k (usedClientKeys cm) \<and> maxClients cm' = maxClients cm \<and>
    clientMap cm' = AList.update clId k (clientMap cm) \<and>
    c = \<lparr>clientKey = k, clientIP = ip, clientId = clId, streamCtx = Some s, detached = False\<rparr> \<and>
    clients_table cm' (clientObjs m @ [c])"
proof -
  note D = clients_tableD [OF table]
  obtain a cm1 where a: "nextClientKey cm = (a, cm1)" by (cases "nextClientKey cm")
  note N = nextClientKey_cases [OF D(1) room a]
  obtain k where k: "a = Some k" "k \<in> key_range (maxClients cm)" "k \<notin> usedClientKeys cm"
    "usedClientKeys cm1 = insert k (usedClientKeys cm)"
    using N free by (cases a) auto
  have cm1: "pool_ok cm1" "cm1 = cm\<lparr>freeClientKeys := freeClientKeys cm1, clientIdx := clientIdx cm1\<rparr>"
    using N by auto
  have same: "clients cm1 = clients cm" "clientMap cm1 = clientMap cm" "maxClients cm1 = maxClients cm"
    by (subst cm1(2), simp)+
  let ?c = "\<lparr>clientKey = k, clientIP = ip, clientId = clId, streamCtx = Some s, detached = False\<rparr>"
  let ?es = "[NewClientUpdateEvent tv clId ip ActionAdd, NewClientStreamUpdateEvent tv [] (ctxId s) ?c ActionAdd]"
  let ?cm' = "cm1\<lparr>clientMap := AList.update clId k (clientMap cm1),
      clients := (clients cm1)[nat (toArrayIndex k) := Some (length (clientObjs m))]\<rparr>"
  have set: "slice_set (clients cm1) (toArrayIndex k) x = Inr ((clients cm1)[nat (toArrayIndex k) := x])" for x
    using slice_set_key [OF k(2), of "clients cm1" x] D(2) same by simp
  have "AddClient tv clId ip (Some s) cm m = Inr ((ExecuteSuccess, Some (length (clientObjs m))), ?cm',
      m\<lparr>clientObjs := clientObjs m @ [?c], eventLog := eventLog m @ ?es\<rparr>)"
    using a k(1) none set
    by (simp add: AddClient_def addNewClient_def NewClient_def AddEventToLog_def Let_def)
  moreover have C: "clientKey ?c = k" "clientId ?c = clId" "\<not> detached ?c" "client_ok ?c"
    by (simp_all add: client_ok_def)
  have "clients_table ?cm' (clientObjs m @ [?c])" "usedClientKeys ?cm' = insert k (usedClientKeys cm)"
    by (rule clients_table_new [OF table none k(2,3) C cm1(1) k(4) cm1(2)])+
  ultimately show ?thesis using k same
    by (intro exI [of _ k] exI [of _ ?c] exI [of _ ?es] exI [of _ ?cm']) simp
qed

text \<open>The cursor that every refused client advances wraps around to key 0, which has no slot.\<close>

lemma AddClient_wrapped:
  assumes "clientIdx cm = - 1" "freeClientKeys cm = []" "map_of (clientMap cm) clId = None"
  shows "AddClient tv clId ip (Some s) cm m = Inl IndexRange"
  using assms
  by (simp add: AddClient_def addNewClient_def nextClientKey_def NewClient_def slice_set_def toArrayIndex_def Let_def)

section \<open>The end of a stream\<close>

lemma clients_table_del:
  assumes table: "clients_table cm h" and r: "r < length h" "at_key (clients cm) k = Some r"
    and k: "clientKey (h ! r) = k" and i: "clientId (h ! r) = i"
    and c: "clientKey c = k" "client_ok c" "detached c"
  defines "cm' \<equiv> cm\<lparr>clientMap := AList.delete i (clientMap cm),
      clients := (clients cm)[nat (toArrayIndex k) := None], freeClientKeys := freeClientKeys cm @ [k]\<rparr>"
  shows "clients_table cm' (h[r := c])" "usedClientKeys cm' = usedClientKeys cm - {k}"
proof -
  note D = clients_tableD [OF table]
  have range: "k \<in> key_range (maxClients cm)" using D(8) [OF r(1)] k by simp
  have T: "map_of (clientMap cm) i = Some k" using table_client [OF table range r(2)] i by simp
  then have k_used: "k \<in> usedClientKeys cm" using D(4) by (auto simp: client_slot_def)
  have F: "pool_ok (freeClientKey k cm) \<and> usedClientKeys (freeClientKey k cm) = usedClientKeys cm - {k} \<and>
      maxClients (freeClientKey k cm) = maxClients cm"
    using client_keys.free_key [OF D(1) k_used] .
  show used: "usedClientKeys cm' = usedClientKeys cm - {k}"
    using F by (simp add: cm'_def usedClientKeys_def issued_def freeClientKey_def)
  have map: "map_of (clientMap cm') j = (if j = i then None else map_of (clientMap cm) j)" for j
    by (simp add: cm'_def amap.get_del)
  have at: "at_key (clients cm') j = (if j = k then None else at_key (clients cm) j)"
    if "j \<in> key_range (maxClients cm)" for j
    using at_key_set [OF range that D(2)] by (simp add: cm'_def)
  have max: "maxClients cm' = maxClients cm" by (simp add: cm'_def)
  have uniq: "kj \<noteq> k" if "map_of (clientMap cm) j = Some kj" "j \<noteq> i" for j kj
  proof
    assume "kj = k"
    then have "client_slot cm h j k" using D(4) [OF that(1)] by simp
    with D(4) [OF T] that(2) show False unfolding client_slot_def by force
  qed
  show "clients_table cm' (h[r := c])"
    unfolding clients_table_def
  proof (intro conjI allI impI ballI)
    show "pool_ok cm'" using F by (simp add: cm'_def pool_ok_def issued_def freeClientKey_def)
    show "int (length (clients cm')) = uint (maxClients cm')" using D(2) by (simp add: cm'_def)
    show "wf_map (clientMap cm')" using D(3) by (simp add: cm'_def amap.ok_del)
  next
    fix j kj assume "map_of (clientMap cm') j = Some kj"
    then have j: "j \<noteq> i" "map_of (clientMap cm) j = Some kj" using map by (auto split: if_splits)
    have "kj \<noteq> k" by (rule uniq [OF j(2,1)])
    obtain q where q: "kj \<in> usedClientKeys cm" "at_key (clients cm) kj = Some q" "q < length h"
      "clientKey (h ! q) = kj" "clientId (h ! q) = j" "\<not> detached (h ! q)"
      using D(4) [OF j(2)] by (auto simp: client_slot_def)
    have "q \<noteq> r" using q(5) i j(1) by auto
    moreover have "kj \<in> key_range (maxClients cm)" using q(1) D(7) by blast
    ultimately show "client_slot cm' (h[r := c]) j kj"
      using q used at [of kj] \<open>kj \<noteq> k\<close> by (simp add: client_slot_def)
  next
    fix j assume j: "j \<in> usedClientKeys cm'"
    then obtain j' where j': "map_of (clientMap cm) j' = Some j" using D(5) [of j] used by auto
    have "j \<noteq> k" using j unfolding used by blast
    then have "j' \<noteq> i" using j' T by force
    then show "\<exists>i. map_of (clientMap cm') i = Some j" using j' map by auto
  next
    fix j assume "j \<in> key_range (maxClients cm') - usedClientKeys cm'"
    then show "at_key (clients cm') j = None" using D(6) [of j] at [of j] unfolding used max by auto
  next
    fix q assume "q < length (h[r := c])"
    then have q: "q < length h" by simp
    have key: "clientKey (h[r := c] ! q) = clientKey (h ! q)" using c(1) k r(1) by (auto simp: nth_list_update)
    have "at_key (clients cm') (clientKey (h ! q)) = Some q" if "\<not> detached (h[r := c] ! q)"
    proof -
      have qr: "q \<noteq> r" "\<not> detached (h ! q)" using that c(3) r(1) by (auto simp: nth_list_update split: if_splits)
      have a: "at_key (clients cm) (clientKey (h ! q)) = Some q" by (rule D(10) [OF q qr(2)])
      have "clientKey (h ! q) \<noteq> k" using a r(2) qr(1) by auto
      then show ?thesis using at [OF D(8) [OF q]] a by simp
    qed
    then show "clientKey (h[r := c] ! q) \<in> key_range (maxClients cm')" "client_ok (h[r := c] ! q)"
      "\<not> detached (h[r := c] ! q) \<Longrightarrow> at_key (clients cm') (clientKey (h[r := c] ! q)) = Some q"
      using D(8,9) [OF q] c(2) r(1) unfolding max key by (auto simp: nth_list_update)
  qed
qed

text \<open>The client that the end of a stream removes: the live one of that key, id and stream.\<close>

definition ends :: "ClientManager \<Rightarrow> client list \<Rightarrow> nat \<Rightarrow> string \<Rightarrow> nat \<Rightarrow> bool" where
  "ends cm h r sid q \<longleftrightarrow> at_key (clients cm) (clientKey (h ! r)) = Some q \<and>
     clientId (h ! q) = clientId (h ! r) \<and> streamContextId (h ! q) = sid"

lemma DelClient_no:
  assumes table: "clients_table cm (clientObjs m)" and r: "r < length (clientObjs m)"
    and no: "\<nexists>q. ends cm (clientObjs m) r sid q"
  shows "DelClient (Some r) sid cm m = Inr (False, cm, m)"
proof -
  let ?h = "clientObjs m"
  note D = clients_tableD [OF table]
  have range: "clientKey (?h ! r) \<in> key_range (maxClients cm)" by (rule D(8) [OF r])
  show ?thesis
  proof (cases "at_key (clients cm) (clientKey (?h ! r))")
    case None
    then show ?thesis using r slice_get_key [OF range D(2)] by (simp add: DelClient_def)
  next
    case (Some q)
    have q: "q < length ?h" "\<not> detached (?h ! q)" using table_client [OF table range Some] by auto
    have "\<not> fst (Detach (?h ! q) (clientId (?h ! r)) sid)"
      using no Some q(2) by (auto simp: ends_def Detach_iff)
    moreover from this have "snd (Detach (?h ! q) (clientId (?h ! r)) sid) = ?h ! q" by (rule Detach_not)
    ultimately show ?thesis using r slice_get_key [OF range D(2)] Some q
      by (simp add: DelClient_def setClient_def case_prod_beta)
  qed
qed

lemma DelClient_yes:
  fixes m :: "'a Mem_scheme"
  assumes table: "clients_table cm (clientObjs m)" and r: "r < length (clientObjs m)"
    and q: "ends cm (clientObjs m) r sid q"
  shows "\<exists>cm' c. DelClient (Some r) sid cm m = Inr (True, cm', m\<lparr>clientObjs := (clientObjs m)[q := c]\<rparr>) \<and>
    q < length (clientObjs m) \<and> c = (clientObjs m ! q)\<lparr>detached := True\<rparr> \<and>
    clientMap cm' = AList.delete (clientId (clientObjs m ! r)) (clientMap cm) \<and>
    usedClientKeys cm' = usedClientKeys cm - {clientKey (clientObjs m ! r)} \<and> maxClients cm' = maxClients cm \<and>
    clients_table cm' ((clientObjs m)[q := c])"
proof -
  let ?h = "clientObjs m" and ?k = "clientKey (clientObjs m ! r)" and ?i = "clientId (clientObjs m ! r)"
  note D = clients_tableD [OF table]
  have range: "?k \<in> key_range (maxClients cm)" by (rule D(8) [OF r])
  have at: "at_key (clients cm) ?k = Some q" "clientId (?h ! q) = ?i" "streamContextId (?h ! q) = sid"
    using q by (auto simp: ends_def)
  have T: "q < length ?h" "clientKey (?h ! q) = ?k" using table_client [OF table range at(1)] by auto
  let ?c = "(?h ! q)\<lparr>detached := True\<rparr>"
  have det: "Detach (?h ! q) ?i sid = (True, ?c)" using at(2,3) by (simp add: Detach_def Let_def)
  let ?cm' = "cm\<lparr>clientMap := AList.delete ?i (clientMap cm),
      clients := (clients cm)[nat (toArrayIndex ?k) := None], freeClientKeys := freeClientKeys cm @ [?k]\<rparr>"
  have "DelClient (Some r) sid cm m = Inr (True, ?cm', m\<lparr>clientObjs := ?h[q := ?c]\<rparr>)"
    using r slice_get_key [OF range D(2)] slice_set_key [OF range D(2)] at(1) T(1) det
    by (simp add: DelClient_def setClient_def)
  moreover have "clients_table ?cm' (?h[q := ?c])" "usedClientKeys ?cm' = usedClientKeys cm - {?k}"
    by (rule clients_table_del [OF table T(1) at(1) T(2) at(2), where c = ?c],
        use T in \<open>simp_all add: client_ok_def\<close>)+
  ultimately show ?thesis using T by (intro exI [of _ ?cm'] exI [of _ ?c]) simp
qed

lemma CleanupClient_ok:
  fixes m :: "'a Mem_scheme"
  assumes table: "clients_table cm (clientObjs m)" and r: "r < length (clientObjs m)"
  shows "\<exists>cm' h es. CleanupClient tv r sid cm m =
      Inr (cm', m\<lparr>clientObjs := h, eventLog := eventLog m @ es\<rparr>) \<and>
    clients_table cm' h \<and> same_clients (clientObjs m) h \<and> length h = length (clientObjs m) \<and>
    (if \<exists>q. ends cm (clientObjs m) r sid q
     then clientMap cm' = AList.delete (clientId (clientObjs m ! r)) (clientMap cm) \<and>
       usedClientKeys cm' = usedClientKeys cm - {clientKey (clientObjs m ! r)}
     else cm' = cm \<and> h = clientObjs m \<and> es = [])"
proof (cases "\<exists>q. ends cm (clientObjs m) r sid q")
  case False
  then have "CleanupClient tv r sid cm m = Inr (cm, m)"
    using DelClient_no [OF table r] by (simp add: CleanupClient_def)
  moreover have "m\<lparr>clientObjs := clientObjs m, eventLog := eventLog m @ []\<rparr> = m" by simp
  ultimately show ?thesis using False table
    by (intro exI [of _ cm] exI [of _ "clientObjs m"] exI [of _ "[]"]) simp
next
  case True
  let ?h = "clientObjs m"
  obtain q where q: "ends cm ?h r sid q" using True by blast
  obtain cm' c where D: "DelClient (Some r) sid cm m = Inr (True, cm', m\<lparr>clientObjs := ?h[q := c]\<rparr>)"
    "q < length ?h" "c = (?h ! q)\<lparr>detached := True\<rparr>"
    "clientMap cm' = AList.delete (clientId (?h ! r)) (clientMap cm)"
    "usedClientKeys cm' = usedClientKeys cm - {clientKey (?h ! r)}"
    "clients_table cm' (?h[q := c])"
    using DelClient_yes [OF table r q] by blast
  let ?h1 = "?h[q := c]" and ?c = "(?h[q := c] ! r)\<lparr>streamCtx := None\<rparr>"
  have det: "detached (?h1 ! r)"
  proof (cases "r = q")
    case True
    then show ?thesis using D(2,3) by simp
  next
    case False
    then have "at_key (clients cm) (clientKey (?h ! r)) \<noteq> Some r" using q by (auto simp: ends_def)
    then show ?thesis using clients_tableD(10) [OF table r] False by auto
  qed
  define es where "es = [NewClientStreamUpdateEvent tv
      (case streamCtx (?h1 ! r) of Some s \<Rightarrow> ctxId s | None \<Rightarrow> []) [] ?c ActionDelete,
      NewClientUpdateEvent tv (clientId ?c) (clientIP ?c) ActionDelete]"
  have C: "CleanupClient tv r sid cm m = Inr (cm', m\<lparr>clientObjs := ?h1[r := ?c], eventLog := eventLog m @ es\<rparr>)"
    using D(1) r
    by (simp add: CleanupClient_def Cleanup_def clearStreamContext_def setClient_def AddEventToLog_def Let_def es_def)
  have "clients_table cm' (?h1[r := ?c])"
    using r det by (intro clients_table_update [OF D(6)]) (simp_all add: client_ok_def)
  moreover have "same_clients ?h ?h1"
    using D(2,3) by (intro same_clients_update) auto
  moreover have "same_clients ?h1 (?h1[r := ?c])"
    using r by (intro same_clients_update) auto
  ultimately show ?thesis using C D(4,5) True same_clients_trans
    by (intro exI [of _ cm'] exI [of _ "?h1[r := ?c]"] exI [of _ es]) auto
qed

end
