(* ===== verification/Core_Server.thy ===== *)
theory Core_Server
  imports Counter_Table Client_Manager
begin

text \<open>
  \<open>ratelimitv2/core.go\<close> and \<open>ratelimitv2/server.go\<close>: the server object that ties the two
  managers together, and its four request operations. The server state holds the managers, the
  configuration and the memory of the shared objects. An operation reads the clock once; the
  source reads it several times, which only shifts the time stamps of its events.
\<close>

unbundle bit_operations_syntax

section \<open>State\<close>

record Server =
  counterMng :: CounterManagerV2
  clientMng :: ClientManager
  cfg :: Config
  mem :: SMem

datatype init_error = ConfigError config_error | PushError push_error

text \<open>
  \<open>initialize\<close>: the parsed configuration gives the sizes, but the number of push workers and the
  clean-up interval are read from the configuration as it was given. The ticker of the clean-up
  loop panics on an interval that is not positive.
\<close>

definition initialize :: "Config option \<Rightarrow> panic + (init_error + Server)" where
  "initialize given =
     (case ParseConfig given of
        Inl e \<Rightarrow> Inr (Inl (ConfigError e))
      | Inr newConfig \<Rightarrow>
          (case given of
             None \<Rightarrow> Inl NilPointer
           | Some c \<Rightarrow>
               (case NewPushManager (uint (PushWorker c)) 1000 of
                  Inl e \<Rightarrow> Inr (Inl (PushError e))
                | Inr pm \<Rightarrow>
                    if PurgeCounterInterval c \<le> 0 then Inl NonPositiveTicker
                    else Inr (Inr
                      \<lparr>counterMng = NewCounterManagerV2 (MaxCounter newConfig) (PurgeCounterInterval c),
                       clientMng = NewClientManager (MaxClient newConfig),
                       cfg = newConfig,
                       mem = \<lparr>clientObjs = [], eventLog = [], outbox = [], quotaLefts = [],
                              pushMgr = pm, apiCalls = [], counterObjs = []\<rparr>\<rparr>))))"

section \<open>Counter keys on the wire\<close>

definition boxCounterKey :: "Config \<Rightarrow> u32 \<Rightarrow> u32" where
  "boxCounterKey c key = push_bit 24 (ucast (Myid c)) OR key"

definition unboxCounterKey :: "Config \<Rightarrow> u32 \<Rightarrow> u32 \<times> u32" where
  "unboxCounterKey c key =
     (let myid = (ucast (drop_bit 24 key) :: u8) in
      if myid \<noteq> ucast (Myid c) then (InvalidCounterKey, 0)
      else let realKey = key AND 0x00FFFFFF in
           if realKey = 0 \<or> MaxCounter c < realKey then (InvalidCounterKey, 0)
           else (ExecuteSuccess, realKey))"

section \<open>Operations\<close>

definition setMem :: "SMem \<Rightarrow> Server \<Rightarrow> Server" where
  "setMem m sv = sv\<lparr>mem := m\<rparr>"

text \<open>
  \<open>InitializeClient\<close> and \<open>InitializeClientBatch\<close>: the response of a refusal, if any, and the
  client of the stream. A nil request is dereferenced on every path.
\<close>

definition InitializeClient :: "Timeval \<Rightarrow> RateLimitInitRequest option \<Rightarrow> nat option \<Rightarrow> IPAddress
    \<Rightarrow> StreamContext \<Rightarrow> Server \<Rightarrow> panic + ((RateLimitInitResponse option \<times> nat option) \<times> Server)" where
  "InitializeClient tv request cl ip sctx sv =
     (case request of
        None \<Rightarrow> Inl NilPointer
      | Some req \<Rightarrow>
          (case cl of
             Some r \<Rightarrow>
               bindR (deref (mem sv) cl) (\<lambda>c.
                 if clientId c \<noteq> Init_ClientId req
                 then Inr ((Some (NewRateLimitInitResponse tv ExceedMaxClientOneStream (Init_Target req)), cl), sv)
                 else Inr ((None, cl), sv))
           | None \<Rightarrow>
               bindR (AddClient tv (Init_ClientId req) ip (Some sctx) (clientMng sv) (mem sv))
                 (\<lambda>((code, newClient), cm, m).
                   let sv' = sv\<lparr>clientMng := cm, mem := m\<rparr> in
                   if code \<noteq> ExecuteSuccess
                   then Inr ((Some (NewRateLimitInitResponse tv code (Init_Target req)), None), sv')
                   else Inr ((None, newClient), sv'))))"

definition InitializeClientBatch :: "Timeval \<Rightarrow> RateLimitBatchInitRequest option \<Rightarrow> nat option \<Rightarrow> IPAddress
    \<Rightarrow> StreamContext \<Rightarrow> Server \<Rightarrow> panic + ((RateLimitBatchInitResponse option \<times> nat option) \<times> Server)" where
  "InitializeClientBatch tv request cl ip sctx sv =
     (case request of
        None \<Rightarrow> Inl NilPointer
      | Some req \<Rightarrow>
          (case cl of
             Some r \<Rightarrow>
               bindR (deref (mem sv) cl) (\<lambda>c.
                 if clientId c \<noteq> Batch_ClientId req
                 then Inr ((Some (NewRateLimitBatchInitResponse tv ExceedMaxClientOneStream), cl), sv)
                 else Inr ((None, cl), sv))
           | None \<Rightarrow>
               bindR (AddClient tv (Batch_ClientId req) ip (Some sctx) (clientMng sv) (mem sv))
                 (\<lambda>((code, newClient), cm, m).
                   let sv' = sv\<lparr>clientMng := cm, mem := m\<rparr> in
                   if code \<noteq> ExecuteSuccess
                   then Inr ((Some (NewRateLimitBatchInitResponse tv code), None), sv')
                   else Inr ((None, newClient), sv'))))"

text \<open>
  The loop over the rules of one request, from index \<open>idx\<close>: it stops at the first rule whose
  counter cannot be created. The last counter touched is returned for the send time.
\<close>

fun initCounters :: "Timeval \<Rightarrow> nat option \<Rightarrow> RateLimitInitRequest \<Rightarrow> int \<Rightarrow> nat \<Rightarrow> QuotaTotal list
    \<Rightarrow> nat option \<Rightarrow> Server \<Rightarrow> panic + ((u32 \<times> QuotaCounter list \<times> nat option) \<times> Server)" where
  "initCounters tv cl req expire idx [] cCounter sv = Inr ((ExecuteSuccess, [], cCounter), sv)"
| "initCounters tv cl req expire idx (rule # rules) cCounter sv =
     bindR (AddCounter tv req (int idx) cl expire (counterMng sv) (mem sv)) (\<lambda>((cCode, ref), cm, m).
       let sv1 = sv\<lparr>counterMng := cm, mem := m\<rparr> in
       if cCode \<noteq> ExecuteSuccess then Inr ((cCode, [], cCounter), sv1)
       else
         bindR (derefCounter m ref) (\<lambda>counter.
         bindR (SumQuota tv (the ref) cl (CurrentMillisecond tv) counter m) (\<lambda>(left, counter', m').
           let l = quotaLefts m' ! left;
               qc = \<lparr>QC_Duration = Total_Duration rule,
                     QC_CounterKey = boxCounterKey (cfg sv) (Left_CounterKey l),
                     QC_Left = Left_Left l, QC_Mode = Left_Mode l,
                     QC_ClientCount = clientCount (counterClients counter')\<rparr>;
               sv2 = sv1\<lparr>mem := setCounter (the ref) counter' m'\<rparr>
           in bindR (initCounters tv cl req expire (Suc idx) rules ref sv2) (\<lambda>((code, qcs, c), sv3).
                Inr ((code, qc # qcs, c), sv3)))))"

definition InitializeQuota :: "Timeval \<Rightarrow> nat option \<Rightarrow> RateLimitInitRequest \<Rightarrow> Server
    \<Rightarrow> panic + ((RateLimitInitResponse \<times> nat option) \<times> Server)" where
  "InitializeQuota tv cl request sv =
     (case CheckRateLimitInitRequest tv request (SlideCount (cfg sv)) of
        (Some resp, _, _) \<Rightarrow> Inr ((resp, None), sv)
      | (None, maxDur, req) \<Rightarrow>
          bindR (initCounters tv cl req (mul64 2 maxDur) 0 (Init_Totals req) None sv)
            (\<lambda>((code, qcs, cCounter), sv').
              let resp = NewRateLimitInitResponse tv code (Init_Target req) in
              if code \<noteq> ExecuteSuccess then Inr ((resp, cCounter), sv')
              else bindR (deref (mem sv') cl) (\<lambda>c.
                Inr ((resp\<lparr>InitResp_ClientKey := clientKey c, InitResp_Counters := qcs,
                          InitResp_SlideCount := Init_SlideCount req\<rparr>, cCounter), sv'))))"

text \<open>The loop over the labels of one batch entry; the code of the last failure is kept.\<close>

definition setLabels :: "string \<Rightarrow> RateLimitInitRequest \<Rightarrow> panic + RateLimitInitRequest" where
  "setLabels label req =
     (case Init_Target req of
        None \<Rightarrow> Inl NilPointer
      | Some t \<Rightarrow> Inr (req\<lparr>Init_Target := Some (t\<lparr>Target_Labels := label\<rparr>)\<rparr>))"

fun initLabels :: "Timeval \<Rightarrow> nat option \<Rightarrow> RateLimitInitRequest \<Rightarrow> int \<Rightarrow> string list \<Rightarrow> u32
    \<Rightarrow> nat option \<Rightarrow> Server \<Rightarrow> panic + ((u32 \<times> LabeledQuotaCounter list \<times> nat option) \<times> Server)" where
  "initLabels tv cl req expire [] code cCounter sv = Inr ((code, [], cCounter), sv)"
| "initLabels tv cl req expire (label # labels) code cCounter sv =
     bindR (setLabels label req) (\<lambda>req1.
     bindR (initCounters tv cl req1 expire 0 (Init_Totals req1) cCounter sv) (\<lambda>((cCode, qcs, c1), sv1).
       let code1 = (if cCode \<noteq> ExecuteSuccess then cCode else code) in
       bindR (initLabels tv cl req1 expire labels code1 c1 sv1) (\<lambda>((code2, lqcs, c2), sv2).
         Inr ((code2, \<lparr>LQC_Labels = label, LQC_Counters = qcs\<rparr> # lqcs, c2), sv2))))"

fun batchEntries :: "Timeval \<Rightarrow> nat option \<Rightarrow> RateLimitInitRequest list \<Rightarrow> nat option \<Rightarrow> Server
    \<Rightarrow> panic + ((BatchInitResult list \<times> nat option) \<times> Server)" where
  "batchEntries tv cl [] cCounter sv = Inr (([], cCounter), sv)"
| "batchEntries tv cl (initReq # reqs) cCounter sv =
     (case CheckRateLimitBatchInitRequest tv initReq (SlideCount (cfg sv)) of
        (Some resp, _, req') \<Rightarrow>
          bindR (batchEntries tv cl reqs cCounter sv) (\<lambda>((results, c), sv').
            Inr ((\<lparr>Result_Code = InitResp_Code resp, Result_SlideCount = Init_SlideCount initReq,
                   Result_Target = Init_Target req', Result_Counters = []\<rparr> # results, c), sv'))
      | (None, maxDur, req') \<Rightarrow>
          bindR (initLabels tv cl req' (mul64 2 maxDur) (GetLabelsList (Init_Target req'))
                   ExecuteSuccess cCounter sv) (\<lambda>((code, lqcs, c1), sv1).
          bindR (batchEntries tv cl reqs c1 sv1) (\<lambda>((results, c2), sv2).
            Inr ((\<lparr>Result_Code = code, Result_SlideCount = Init_SlideCount initReq,
                   Result_Target = Some \<lparr>Target_Namespace = GetNamespace (Init_Target req'),
                      Target_Service = GetService (Init_Target req'), Target_Labels = [],
                      Target_LabelsList = []\<rparr>,
                   Result_Counters = lqcs\<rparr> # results, c2), sv2))))"

definition BatchInitializeQuota :: "Timeval \<Rightarrow> nat option \<Rightarrow> RateLimitBatchInitRequest \<Rightarrow> Server
    \<Rightarrow> panic + ((RateLimitBatchInitResponse \<times> nat option) \<times> Server)" where
  "BatchInitializeQuota tv cl request sv =
     (if Batch_Request request = []
      then Inr ((NewRateLimitBatchInitResponse tv InvalidBatchInitReq, None), sv)
      else if Batch_ClientId request = []
      then Inr ((NewRateLimitBatchInitResponse tv InvalidClientId, None), sv)
      else
        bindR (deref (mem sv) cl) (\<lambda>c.
        bindR (batchEntries tv cl (Batch_Request request) None sv) (\<lambda>((results, cCounter), sv').
          Inr (((NewRateLimitBatchInitResponse tv ExecuteSuccess)
                  \<lparr>BatchResp_ClientKey := clientKey c, BatchResp_Result := results\<rparr>, cCounter), sv'))))"

text \<open>
  The loop over the reported usages. It stops at the first key that is not this server's or has
  no counter. The quota message is boxed in place after it may have been queued for a push.
\<close>

definition boxLeft :: "Config \<Rightarrow> nat \<Rightarrow> SMem \<Rightarrow> SMem" where
  "boxLeft c left m =
     m\<lparr>quotaLefts := (quotaLefts m)[left := (quotaLefts m ! left)
        \<lparr>Left_CounterKey := boxCounterKey c (Left_CounterKey (quotaLefts m ! left))\<rparr>]\<rparr>"

type_synonym collector = "(RateLimitStatKeyV2, StatLabelsV2) RateLimitStatCollector"

fun acquireUses :: "Timeval \<Rightarrow> nat option \<Rightarrow> int \<Rightarrow> int \<Rightarrow> QuotaSum list \<Rightarrow> nat option \<Rightarrow> Server \<Rightarrow> collector
    \<Rightarrow> panic + ((u32 \<times> nat list \<times> nat option) \<times> Server \<times> collector)" where
  "acquireUses tv cl ts start [] counter sv col = Inr ((ExecuteSuccess, [], counter), sv, col)"
| "acquireUses tv cl ts start (used # uses) counter sv col =
     (let (code, key) = unboxCounterKey (cfg sv) (Sum_CounterKey used) in
      if code \<noteq> ExecuteSuccess then Inr ((code, [], counter), sv, col)
      else
        bindR (GetCounter key (counterMng sv)) (\<lambda>(code1, ref).
          if code1 \<noteq> ExecuteSuccess then Inr ((code1, [], ref), sv, col)
          else
            bindR (derefCounter (mem sv) ref) (\<lambda>c.
            bindR (counter_AcquireQuota tv (the ref) cl used ts start (counter_Update tv c) (mem sv) col)
              (\<lambda>(left, c', m', col').
                let sv' = sv\<lparr>mem := boxLeft (cfg sv) left (setCounter (the ref) c' m')\<rparr> in
                bindR (acquireUses tv cl ts start uses ref sv' col') (\<lambda>((code2, lefts, c2), sv2, col2).
                  Inr ((code2, left # lefts, c2), sv2, col2))))))"

definition AcquireQuota :: "Timeval \<Rightarrow> nat option \<Rightarrow> int \<Rightarrow> RateLimitReportRequest option \<Rightarrow> Server \<Rightarrow> collector
    \<Rightarrow> panic + ((TimedRateLimitReportResponse \<times> nat option) \<times> Server \<times> collector)" where
  "AcquireQuota tv cl startTimeMicro request sv col =
     (case CheckRateLimitReportRequest tv request of
        Some resp \<Rightarrow> Inr ((resp, None), sv, col)
      | None \<Rightarrow>
          let ts = (case request of None \<Rightarrow> 0 | Some r \<Rightarrow> Report_Timestamp r);
              uses = (case request of None \<Rightarrow> [] | Some r \<Rightarrow> QuotaUses r) in
          bindR (acquireUses tv cl ts startTimeMicro uses None sv col)
            (\<lambda>((code, lefts, counter), sv', col').
              let resp = NewRateLimitReportResponse tv code;
                  resp' = resp\<lparr>Timed_Response := (Timed_Response resp)
                     \<lparr>ReportResp_QuotaLefts := map (\<lambda>i. quotaLefts (mem sv') ! i) lefts\<rparr>\<rparr>
              in Inr ((resp', counter), sv', col')))"

section \<open>Keys on the wire\<close>

text \<open>The server id is one byte and the keys fit the other three.\<close>

lemma small_bits:
  fixes x :: "'a :: len word"
  assumes "uint x < 2 ^ n" "bit x i"
  shows "i < n"
proof (rule ccontr)
  assume "\<not> i < n"
  then have "(2 :: int) ^ n \<le> 2 ^ i" by (simp add: power_increasing)
  with assms(1) have "uint x < 2 ^ i" by (rule order_less_le_trans)
  then have "uint x div 2 ^ i = 0" by (intro div_pos_pos_trivial) simp_all
  then have "\<not> bit (uint x) i" by (simp add: bit_iff_odd)
  then show False using assms(2) by (auto simp: bit_uint_iff dest: bit_imp_le_length)
qed

lemma box_high:
  fixes k b :: u32
  assumes "uint k < 2 ^ 24" "uint b < 2 ^ 8"
  shows "drop_bit 24 (push_bit 24 b OR k) = b"
proof (rule bit_word_eqI)
  fix n assume n: "n < LENGTH(32)"
  show "bit (drop_bit 24 (push_bit 24 b OR k)) n = bit b n"
    using small_bits [OF assms(1), of "24 + n"] small_bits [OF assms(2), of n]
    by (auto simp: bit_simps)
qed

lemma box_low:
  fixes k b :: u32
  assumes "uint k < 2 ^ 24"
  shows "(push_bit 24 b OR k) AND 0xFFFFFF = k"
proof -
  have m: "(0xFFFFFF :: u32) = mask 24" by (simp add: mask_numeral)
  show ?thesis
    unfolding m
  proof (rule bit_word_eqI)
    fix n assume n: "n < LENGTH(32)"
    then show "bit ((push_bit 24 b OR k) AND mask 24) n = bit k n"
      using small_bits [OF assms, of n] by (auto simp: bit_simps)
  qed
qed

lemma ucast_byte:
  fixes x :: u64
  assumes "x \<le> 255"
  shows "uint (ucast x :: u32) < 2 ^ 8"
proof -
  have "uint x \<le> 255" using assms by (simp add: word_le_def)
  moreover have "uint (ucast x :: u32) \<le> uint x"
    by (simp add: unsigned_ucast_eq take_bit_int_less_eq_self_iff)
  ultimately show ?thesis by simp
qed

lemma ucast_8: "(ucast (ucast (x :: u64) :: u32) :: u8) = ucast x"
    by (rule bit_word_eqI) (simp add: bit_simps)

lemma box_rebox:
  fixes k b :: u32
  shows "push_bit 24 b OR (push_bit 24 b OR k) = push_bit 24 b OR k"
  by (simp add: or.left_idem)

lemma unbox_rebuild:
  fixes k b :: u32
  shows "push_bit 24 (drop_bit 24 k) OR (k AND 0xFFFFFF) = k"
proof -
  have m: "(0xFFFFFF :: u32) = mask 24" by (simp add: mask_numeral)
  show ?thesis unfolding m
   by (rule bit_word_eqI) (auto simp: bit_simps)
qed

lemma high_ucast:
  fixes k b :: u32
  assumes "(ucast (drop_bit 24 k) :: u8) = ucast (x :: u64)" "x \<le> 255"
  shows "drop_bit 24 k = (ucast x :: u32)"
proof (rule bit_word_eqI)
  fix n assume n: "n < LENGTH(32)"
  have e: "bit (ucast (drop_bit 24 k) :: u8) n = bit (ucast x :: u8) n" using assms(1) by simp
  show "bit (drop_bit 24 k) n = bit (ucast x :: u32) n"
    using e small_bits [OF ucast_byte [OF assms(2)], of n] n
    by (cases "n < 8") (auto simp: bit_simps dest: bit_imp_le_length)
qed

lemma boxCounterKey_unbox:
  assumes "config_ok c" "k \<le> MaxCounter c"
  shows "drop_bit 24 (boxCounterKey c k) = ucast (Myid c)" "boxCounterKey c k AND 0x00FFFFFF = k"
proof -
  have "uint k \<le> uint (MaxCounter c)" "uint (MaxCounter c) \<le> 16777215"
    using assms by (simp_all add: config_ok_def word_le_def)
  then have k: "uint k < 2 ^ 24" by simp
  have my: "uint (ucast (Myid c) :: u32) < 2 ^ 8" using assms(1) by (intro ucast_byte) (simp add: config_ok_def)
  show "drop_bit 24 (boxCounterKey c k) = ucast (Myid c)"
    unfolding boxCounterKey_def by (rule box_high [OF k my])
  show "boxCounterKey c k AND 0x00FFFFFF = k"
    unfolding boxCounterKey_def by (rule box_low [OF k])
qed

lemma unbox_box:
  assumes "config_ok c" "1 \<le> k" "k \<le> MaxCounter c"
  shows "unboxCounterKey c (boxCounterKey c k) = (ExecuteSuccess, k)"
proof -
  have "k \<noteq> 0" using assms(2) by auto
  then show ?thesis
    using boxCounterKey_unbox [OF assms(1,3)] assms(3) by (simp add: unboxCounterKey_def ucast_8 Let_def not_less)
qed

text \<open>The only wire key of a counter key is the boxed one.\<close>

lemma unbox_iff:
  assumes "config_ok c"
  shows "unboxCounterKey c w = (ExecuteSuccess, k) \<longleftrightarrow> 1 \<le> k \<and> k \<le> MaxCounter c \<and> w = boxCounterKey c k"
proof
  assume u: "unboxCounterKey c w = (ExecuteSuccess, k)"
  then have U: "(ucast (drop_bit 24 w) :: u8) = ucast (Myid c)" "k = w AND 0x00FFFFFF" "k \<noteq> 0" "k \<le> MaxCounter c"
    by (auto simp: unboxCounterKey_def Let_def codes not_less split: if_splits)
  have "Myid c \<le> 255" using assms by (simp add: config_ok_def)
  from high_ucast [OF U(1) this] have "w = boxCounterKey c k"
    using unbox_rebuild [of w] by (simp add: boxCounterKey_def U(2))
  moreover have "1 \<le> k" using u32_pos [OF U(3)] by (simp add: word_le_def)
  ultimately show "1 \<le> k \<and> k \<le> MaxCounter c \<and> w = boxCounterKey c k" using U(4) by blast
qed (use unbox_box [OF assms] in blast)

lemma unbox_other:
  assumes "config_ok c" "\<not> (\<exists>k. 1 \<le> k \<and> k \<le> MaxCounter c \<and> w = boxCounterKey c k)"
  shows "unboxCounterKey c w = (InvalidCounterKey, 0)"
proof -
  obtain a k where "unboxCounterKey c w = (a, k)" by (cases "unboxCounterKey c w")
  then have "unboxCounterKey c w = (ExecuteSuccess, k) \<or> unboxCounterKey c w = (InvalidCounterKey, 0)"
    by (auto simp: unboxCounterKey_def Let_def split: if_splits)
  with unbox_iff [OF assms(1)] assms(2) show ?thesis by blast
qed

text \<open>Boxing twice is boxing once, so a queued message that is boxed late is still well formed.\<close>

lemma box_idem: "boxCounterKey c (boxCounterKey c k) = boxCounterKey c k"
  by (simp add: boxCounterKey_def box_rebox)

end
