(* ===== verification/Grpc_Service.thy ===== *)
theory Grpc_Service
  imports Core_Server
begin

text \<open>
  \<open>apiserver/grpc/api_v2.go\<close>: one bidirectional stream of a client. \<open>Service\<close> opens the stream,
  handles one request after the other and, when the transport fails or a report names an unknown
  counter key, ends it with \<open>postService\<close>. The clock is read at the start of a request, while it
  is handled and after the response is sent. The statistics plugin is seen through what is
  reported to it: the events, the call records, the processing times and the collectors of the
  streams that ended.
\<close>

section \<open>State\<close>

record RateLimitServiceV2 =
  coreServer :: Server
  processTimes :: "int list"
  droppedCollectors :: "collector list"

text \<open>A stream that is open: its context, the address, the client once it is initialised, the statistics.\<close>

record Conn =
  connCtx :: StreamContext
  connIP :: IPAddress
  connClient :: "nat option"
  connCollector :: collector

datatype outcome = Continue | Finished bool

text \<open>The three clock readings of one request.\<close>

record Clock =
  startTv :: Timeval
  workTv :: Timeval
  endTv :: Timeval

definition onMem :: "(SMem \<Rightarrow> SMem) \<Rightarrow> RateLimitServiceV2 \<Rightarrow> RateLimitServiceV2" where
  "onMem f s = s\<lparr>coreServer := (coreServer s)\<lparr>mem := f (mem (coreServer s))\<rparr>\<rparr>"

section \<open>Operations\<close>

definition openStream :: "Timeval \<Rightarrow> string \<Rightarrow> string \<Rightarrow> nat \<Rightarrow> IPAddress \<Rightarrow> RateLimitServiceV2
    \<Rightarrow> Conn \<times> RateLimitServiceV2" where
  "openStream tv uuid collectorUuid strm ip s =
     (let sctx = NewStreamContext uuid strm in
      (\<lparr>connCtx = sctx, connIP = ip, connClient = None,
        connCollector = NewRateLimitStatCollector collectorUuid\<rparr>,
       onMem (AddEventToLog (NewStreamUpdateEvent tv (ctxId sctx) ip ActionAdd)) s))"

definition postService :: "Timeval \<Rightarrow> Conn \<Rightarrow> RateLimitServiceV2 \<Rightarrow> panic + RateLimitServiceV2" where
  "postService tv conn s =
     (let s1 = s\<lparr>droppedCollectors := droppedCollectors s @ [connCollector conn]\<rparr>; sv = coreServer s1 in
      case connClient conn of
        None \<Rightarrow> Inr s1
      | Some cl \<Rightarrow>
          bindR (CleanupClient tv cl (ctxId (connCtx conn)) (clientMng sv) (mem sv)) (\<lambda>(cm, m).
            Inr (onMem (AddEventToLog (NewStreamUpdateEvent tv (ctxId (connCtx conn)) (connIP conn) ActionDelete))
              (s1\<lparr>coreServer := sv\<lparr>clientMng := cm, mem := m\<rparr>\<rparr>))))"

text \<open>The dispatch on the command: the response, the code that may end the stream and the counter.\<close>

definition emptyResponse :: "RateLimitCmd \<Rightarrow> RateLimitResponse" where
  "emptyResponse cmd = \<lparr>Resp_Cmd = cmd, Resp_Init = None, Resp_BatchInit = None, Resp_Report = None\<rparr>"

definition dispatch :: "Clock \<Rightarrow> RateLimitRequest \<Rightarrow> Conn \<Rightarrow> Server
    \<Rightarrow> panic + ((RateLimitResponse \<times> u32 \<times> nat option) \<times> Conn \<times> Server)" where
  "dispatch ck req conn sv =
     (let resp = emptyResponse (Req_Cmd req); tv = workTv ck in
      if Req_Cmd req = ACQUIRE \<or> Req_Cmd req = BATCH_ACQUIRE then
        bindR (AcquireQuota tv (connClient conn) (CurrentMicrosecond (startTv ck)) (Req_Report req) sv (connCollector conn))
          (\<lambda>((timed, counter), sv', col).
            Inr ((resp\<lparr>Resp_Report := Some (Timed_Response timed)\<rparr>, ReportResp_Code (Timed_Response timed), counter),
                 conn\<lparr>connCollector := col\<rparr>, sv'))
      else if Req_Cmd req = INIT then
        bindR (InitializeClient tv (Req_Init req) (connClient conn) (connIP conn) (connCtx conn) sv) (\<lambda>((r, cl), sv1).
          let conn1 = conn\<lparr>connClient := cl\<rparr> in
          case (r, Req_Init req) of
            (None, Some ireq) \<Rightarrow>
              bindR (InitializeQuota tv cl ireq sv1) (\<lambda>((ir, counter), sv2).
                Inr ((resp\<lparr>Resp_Init := Some ir\<rparr>, ExecuteSuccess, counter), conn1, sv2))
          | _ \<Rightarrow> Inr ((resp\<lparr>Resp_Init := r\<rparr>, ExecuteSuccess, None), conn1, sv1))
      else if Req_Cmd req = BATCH_INIT then
        bindR (InitializeClientBatch tv (Req_BatchInit req) (connClient conn) (connIP conn) (connCtx conn) sv) (\<lambda>((r, cl), sv1).
          let conn1 = conn\<lparr>connClient := cl\<rparr> in
          case (r, Req_BatchInit req) of
            (None, Some breq) \<Rightarrow>
              bindR (BatchInitializeQuota tv cl breq sv1) (\<lambda>((br, counter), sv2).
                Inr ((resp\<lparr>Resp_BatchInit := Some br\<rparr>, ExecuteSuccess, counter), conn1, sv2))
          | _ \<Rightarrow> Inr ((resp\<lparr>Resp_BatchInit := r\<rparr>, ExecuteSuccess, None), conn1, sv1))
      else Inr ((resp, ExecuteSuccess, None), conn, sv))"

text \<open>After the response is sent: the send time of the client at the counter that was used last.\<close>

definition noteSendTime :: "nat option \<Rightarrow> nat option \<Rightarrow> int \<Rightarrow> SMem \<Rightarrow> panic + SMem" where
  "noteSendTime cl counter endMicro m =
     (if cl = None \<or> counter = None then Inr m
      else bindR (derefCounter m counter) (\<lambda>c.
           bindR (UpdateClientSendTime cl endMicro c m) (\<lambda>c'. Inr (setCounter (the counter) c' m))))"

definition counterDuration :: "nat option \<Rightarrow> SMem \<Rightarrow> panic + int" where
  "counterDuration counter m =
     (case counter of None \<Rightarrow> Inr 0
      | Some _ \<Rightarrow> bindR (derefCounter m counter) (\<lambda>c. Inr (id_Duration (cIdentifier c))))"

definition handleRequest :: "(StreamContext \<Rightarrow> RateLimitResponse \<Rightarrow> bool) \<Rightarrow> Clock \<Rightarrow> RateLimitRequest \<Rightarrow> Conn
    \<Rightarrow> RateLimitServiceV2 \<Rightarrow> panic + (outcome \<times> Conn \<times> RateLimitServiceV2)" where
  "handleRequest fails ck req conn s =
     bindR (dispatch ck req conn (coreServer s)) (\<lambda>((resp, code, counter), conn', sv).
       let startTimeMicro = CurrentMicrosecond (startTv ck); endTimeMicro = CurrentMicrosecond (endTv ck) in
       bindR (Send fails (Some (connCtx conn')) resp (mem sv)) (\<lambda>(err, m1).
       bindR (noteSendTime (connClient conn') counter endTimeMicro m1) (\<lambda>m2.
       bindR (counterDuration counter m2) (\<lambda>dur.
         let call = NewAPICall \<lparr>ApiKey = GetAPIKey resp, ApiCode = GetErrorCode resp, ApiMsgType = MsgSync,
                      ApiDuration = dur\<rparr> (sub64 endTimeMicro startTimeMicro);
             s' = s\<lparr>coreServer := sv\<lparr>mem := AddAPICall call m2\<rparr>,
                    processTimes := processTimes s @ [sub64 endTimeMicro startTimeMicro]\<rparr>
         in Inr (if err \<or> code = InvalidCounterKey then Finished err else Continue, conn', s')))))"

text \<open>
  \<open>Service\<close> for the requests that arrive, until the handler or the transport ends it; the result
  is whether an error is returned to the transport.
\<close>

fun serveRequests :: "(StreamContext \<Rightarrow> RateLimitResponse \<Rightarrow> bool) \<Rightarrow> Timeval \<Rightarrow> bool \<Rightarrow> (Clock \<times> RateLimitRequest) list
    \<Rightarrow> Conn \<Rightarrow> RateLimitServiceV2 \<Rightarrow> panic + (bool \<times> RateLimitServiceV2)" where
  "serveRequests fails tv recvErr [] conn s = bindR (postService tv conn s) (\<lambda>s'. Inr (recvErr, s'))"
| "serveRequests fails tv recvErr ((ck, req) # reqs) conn s =
     bindR (handleRequest fails ck req conn s) (\<lambda>(out, conn', s').
       case out of
         Continue \<Rightarrow> serveRequests fails tv recvErr reqs conn' s'
       | Finished err \<Rightarrow> bindR (postService (endTv ck) conn' s') (\<lambda>s''. Inr (err, s'')))"

definition Service_stream :: "(StreamContext \<Rightarrow> RateLimitResponse \<Rightarrow> bool) \<Rightarrow> Timeval \<Rightarrow> Timeval \<Rightarrow> string \<Rightarrow> string
    \<Rightarrow> nat \<Rightarrow> IPAddress \<Rightarrow> bool \<Rightarrow> (Clock \<times> RateLimitRequest) list \<Rightarrow> RateLimitServiceV2
    \<Rightarrow> panic + (bool \<times> RateLimitServiceV2)" where
  "Service_stream fails tv tvEnd uuid collectorUuid strm ip recvErr reqs s =
     (let (conn, s1) = openStream tv uuid collectorUuid strm ip s
      in serveRequests fails tvEnd recvErr reqs conn s1)"

definition TimeAdjust :: "Timeval \<Rightarrow> int" where
  "TimeAdjust tv = CurrentMillisecond tv"

end
