(* ===== verification/Server_Correct.thy ===== *)
theory Server_Correct
  imports Core_Server
begin

text \<open>
  The server invariant and what the request operations do under it. The abstract state of a
  counter is its log; the specification of a report (\<open>acquire_spec\<close>) computes the answers from
  the logs alone, and \<open>AcquireQuota\<close> refines it.
\<close>

section \<open>Invariant\<close>

text \<open>The values queued for a push refer to counters and messages that exist.\<close>

definition push_refs :: "SMem \<Rightarrow> bool" where
  "push_refs m \<longleftrightarrow> (\<forall>ch \<in> set (pushChannels (pushMgr m)). \<forall>v \<in> set ch.
     Counter v < length (counterObjs m) \<and> (\<forall>l \<in> set (LeftRefs v). l < length (quotaLefts m)))"

definition server_ok :: "Server \<Rightarrow> logs \<Rightarrow> int \<Rightarrow> bool" where
  "server_ok sv logs T \<longleftrightarrow> config_ok (cfg sv) \<and> maxSize (counterMng sv) = MaxCounter (cfg sv) \<and>
     manager_ok (counterMng sv) (mem sv) logs T \<and>
     clients_table (clientMng sv) (clientObjs (mem sv)) \<and>
     push_ok (pushMgr (mem sv)) \<and> push_refs (mem sv)"

lemma server_okD:
  assumes "server_ok sv logs T"
  shows "config_ok (cfg sv)" "maxSize (counterMng sv) = MaxCounter (cfg sv)"
    "manager_ok (counterMng sv) (mem sv) logs T" "clients_table (clientMng sv) (clientObjs (mem sv))"
    "push_ok (pushMgr (mem sv))" "push_refs (mem sv)"
    "table_ok (counterMng sv) (counterObjs (mem sv))"
    "objs_ok (clientObjs (mem sv)) (counterObjs (mem sv)) logs T" "0 \<le> T"
  using assms by (auto simp: server_ok_def manager_ok_def)

lemma push_refs_mono:
  "push_refs m \<Longrightarrow> pushChannels (pushMgr m') = pushChannels (pushMgr m) \<Longrightarrow>
     length (counterObjs m) \<le> length (counterObjs m') \<Longrightarrow> length (quotaLefts m) \<le> length (quotaLefts m') \<Longrightarrow>
     push_refs m'"
  unfolding push_refs_def by (metis order_less_le_trans)

lemma in_appended:
  assumes "i < length chs" "ch \<in> set (chs[i := chs ! i @ [v]])" "w \<in> set ch"
  shows "w = v \<or> (\<exists>ch' \<in> set chs. w \<in> set ch')"
proof -
  have "ch = chs ! i @ [v] \<or> ch \<in> set chs"
    using set_update_subset_insert [of chs i "chs ! i @ [v]"] assms(2) by blast
  then show ?thesis using assms(1,3) nth_mem [OF assms(1)] by auto
qed

lemma push_refs_schedule:
  assumes "push_refs m" "push_ok (pushMgr m)" "Schedule key v (pushMgr m) = Inr pm"
    and "pushMgr m' = pm" "length (counterObjs m) \<le> length (counterObjs m')"
    and "length (quotaLefts m) \<le> length (quotaLefts m')"
    and "Counter v < length (counterObjs m')" "\<forall>l \<in> set (LeftRefs v). l < length (quotaLefts m')"
  shows "push_refs m'"
proof -
  have old: "\<forall>ch \<in> set (pushChannels (pushMgr m)). \<forall>w \<in> set ch.
      Counter w < length (counterObjs m') \<and> (\<forall>l \<in> set (LeftRefs w). l < length (quotaLefts m'))"
    using assms(1,5,6) unfolding push_refs_def by (meson order_less_le_trans)
  from Schedule_cases [OF assms(2), of key v] show ?thesis
  proof (elim disjE exE conjE)
    fix i assume i: "i < length (pushChannels (pushMgr m))"
      and S: "Schedule key v (pushMgr m) =
        Inr ((pushMgr m)\<lparr>pushChannels := (pushChannels (pushMgr m))[i := pushChannels (pushMgr m) ! i @ [v]]\<rparr>)"
    have pm: "pushChannels pm = (pushChannels (pushMgr m))[i := pushChannels (pushMgr m) ! i @ [v]]"
      using assms(3) S by auto
    show ?thesis
      unfolding push_refs_def
    proof (intro ballI)
      fix ch w assume ch: "ch \<in> set (pushChannels (pushMgr m'))" and w: "w \<in> set ch"
      have "w = v \<or> (\<exists>ch' \<in> set (pushChannels (pushMgr m)). w \<in> set ch')"
        by (rule in_appended [OF i _ w]) (use ch pm assms(4) in simp)
      then show "Counter w < length (counterObjs m') \<and> (\<forall>l \<in> set (LeftRefs w). l < length (quotaLefts m'))"
      proof
        assume "w = v"
        then show ?thesis using assms(7,8) by simp
      next
        assume "\<exists>ch' \<in> set (pushChannels (pushMgr m)). w \<in> set ch'"
        then show ?thesis using old by blast
      qed
    qed
  next
    assume "Schedule key v (pushMgr m) = Inr (pushMgr m)"
    then have "pm = pushMgr m" using assms(3) by simp
    then show ?thesis using old assms(4) by (simp add: push_refs_def)
  qed
qed

section \<open>One allocation\<close>

text \<open>What a report to a counter does to its log.\<close>

definition step_log :: "counterV2 \<Rightarrow> int \<Rightarrow> int \<Rightarrow> u32 \<Rightarrow> slide_log \<times> int \<Rightarrow> slide_log \<times> int" where
  "step_log c ts t amount Lc = (log_after c (fst Lc) ts t amount, t - t mod winlen_of c)"

definition left_of :: "counterV2 \<Rightarrow> slide_log \<times> int \<Rightarrow> int" where
  "left_of c Lc = uint (maxAmount c) - uint (used_after c (fst Lc) (snd Lc))"

text \<open>Two counters with the same quota and window geometry.\<close>

definition same_quota :: "counterV2 \<Rightarrow> counterV2 \<Rightarrow> bool" where
  "same_quota c c' \<longleftrightarrow> maxAmount c' = maxAmount c \<and> slides_of c' = slides_of c \<and> winlen_of c' = winlen_of c \<and>
     counterKey c' = counterKey c \<and> cIdentifier c' = cIdentifier c \<and>
     counterClients c' = counterClients c"

lemma same_quota_log:
  "same_quota c c' \<Longrightarrow> step_log c' ts t a Lc = step_log c ts t a Lc"
  "same_quota c c' \<Longrightarrow> left_of c' Lc = left_of c Lc"
  by (simp_all add: same_quota_def step_log_def left_of_def log_after_def used_after_def)

lemma same_quota_refl [simp]: "same_quota c c"
  by (simp add: same_quota_def)

lemma same_quota_trans: "same_quota a b \<Longrightarrow> same_quota b c \<Longrightarrow> same_quota a c"
  by (simp add: same_quota_def)

lemma window_start_le: "1 \<le> w \<Longrightarrow> 0 \<le> (t :: int) \<Longrightarrow> t - t mod w \<le> t"
  by simp

lemma counter_ok_winlen: "counter_ok h c L cur \<Longrightarrow> 1 \<le> winlen_of c \<and> 0 \<le> cur"
  using sliding.rel_length sliding.rel_cur
  by (auto simp: counter_ok_def allocator_ok_def winlen_of_def)

text \<open>
  An allocation by the counter \<open>ref\<close>, of which \<open>c\<close> is the stored object or a refreshed copy.
  The quota message may afterwards be rewritten at its reference (\<open>left'\<close>).
\<close>

lemma allocation:
  fixes q :: QuotaSum and ts :: int
  assumes ok: "server_ok sv logs T" and ref: "ref < length (counterObjs (mem sv))"
    and c: "counter_ok (clientObjs (mem sv)) c (fst (logs ref)) (snd (logs ref))"
      "same_quota (counterObjs (mem sv) ! ref) c"
    and t: "T \<le> t" "t < 2 ^ 62" "i64 (start sdiv 1000) = t"
    and cl: "idle q \<or> (\<exists>r. cl = Some r \<and> r < length (clientObjs (mem sv)))"
  defines "logs' \<equiv> logs(ref := step_log c ts t (Sum_Used q) (logs ref))"
    and "n \<equiv> length (quotaLefts (mem sv))"
  shows "\<exists>c' m'. Allocate tv ref cl q ts start c (mem sv) = Inr (n, c', m') \<and>
    same_quota c c' \<and>
    quotaLefts m' = quotaLefts (mem sv) @ [\<lparr>Left_CounterKey = Sum_CounterKey q, Left_Mode = BATCH_OCCUPY,
        Left_Left = left_of c (logs' ref), Left_ClientCount = clientCount (counterClients c)\<rparr>] \<and>
    clientObjs m' = clientObjs (mem sv) \<and> counterObjs m' = counterObjs (mem sv) \<and>
    outbox m' = outbox (mem sv) \<and>
    (\<forall>left'. server_ok (sv\<lparr>mem := (setCounter ref c' m')\<lparr>quotaLefts := (quotaLefts m')[n := left']\<rparr>\<rparr>) logs' t) \<and>
    server_ok (sv\<lparr>mem := setCounter ref c' m'\<rparr>) logs' t"
proof -
  let ?m = "mem sv" and ?ws = "t - t mod winlen_of c"
  note S = server_okD [OF ok]
  have cur: "snd (logs ref) \<le> t" using objs_okD [OF S(8) ref] t(1) by simp
  let ?L' = "log_after c (fst (logs ref)) ts t (Sum_Used q)"
  let ?left = "\<lparr>Left_CounterKey = Sum_CounterKey q, Left_Mode = BATCH_OCCUPY,
          Left_Left = left_of c (logs' ref), Left_ClientCount = clientCount (counterClients c)\<rparr>"
  have ref': "logs' ref = (?L', ?ws)" by (simp add: logs'_def step_log_def)
  have left: "left_of c (logs' ref) = uint (maxAmount c) - uint (used_after c ?L' ?ws)"
    by (simp add: left_of_def ref')
  from Allocate_ok [OF c(1) cur t(2,3) S(5) cl, of tv ref ts, folded left n_def]
  obtain c' pm where A: "Allocate tv ref cl q ts start c ?m = Inr (n, c',
      ?m\<lparr>quotaLefts := quotaLefts ?m @ [?left], pushMgr := pm\<rparr>)"
    "counter_ok (clientObjs ?m) c' ?L' ?ws" "c' = c\<lparr>allocator := allocator c'\<rparr>"
    "slides_of c' = slides_of c" "winlen_of c' = winlen_of c" "push_ok pm"
    and B: "if \<not> idle q \<and> left_of c (logs' ref) \<le> 0 \<and> off_of c = 0
     then \<exists>v. Schedule (counterKey c) v (pushMgr ?m) = Inr pm \<and> Counter v = ref \<and>
            LeftRefs v = [n] \<and> ExcludeClient v = clientId (clientObjs ?m ! the cl)
     else pm = pushMgr ?m"
    by blast
  from B have A7: "(\<exists>v. Schedule (counterKey c) v (pushMgr ?m) = Inr pm \<and> Counter v = ref \<and> LeftRefs v = [n]) \<or> pm = pushMgr ?m"
    by (auto split: if_splits)
  let ?m' = "?m\<lparr>quotaLefts := quotaLefts ?m @ [?left], pushMgr := pm\<rparr>"
  have f: "maxAmount c' = maxAmount c" "counterKey c' = counterKey c" "cIdentifier c' = cIdentifier c"
    "counterClients c' = counterClients c"
    by (subst A(3), simp)+
  then have quota: "same_quota c c'" using A(4,5) by (simp add: same_quota_def)
  have key: "counterKey c' = counterKey (counterObjs ?m ! ref)" "cIdentifier c' = cIdentifier (counterObjs ?m ! ref)"
    using c(2) f by (simp_all add: same_quota_def)
  have T: "0 \<le> t" using S(9) t(1) by simp
  have ws: "?ws \<le> t" using counter_ok_winlen [OF c(1)] T window_start_le by blast
  have objs: "objs_ok (clientObjs ?m) ((counterObjs ?m)[ref := c']) logs' t"
    by (rule objs_ok_update [OF objs_ok_mono [OF S(8) same_clients_refl t(1)] A(2) ws])
      (simp add: logs'_def step_log_def)
  have refs: "push_refs m2" if "pushMgr m2 = pm" "length (counterObjs m2) = length (counterObjs ?m)"
    "length (quotaLefts m2) = Suc n" for m2
    using A7
  proof (elim disjE exE conjE)
    fix v assume "Schedule (counterKey c) v (pushMgr ?m) = Inr pm" "Counter v = ref" "LeftRefs v = [n]"
    then show ?thesis
      using push_refs_schedule [OF S(6,5), of "counterKey c" v pm m2] ref that by (simp add: n_def)
  next
    assume "pm = pushMgr ?m"
    then show ?thesis using push_refs_mono [OF S(6), of m2] that by (simp add: n_def)
  qed
  have final: "server_ok (sv\<lparr>mem := m2\<rparr>) logs' t" if "pushMgr m2 = pm" "clientObjs m2 = clientObjs ?m"
    "counterObjs m2 = (counterObjs ?m)[ref := c']" "length (quotaLefts m2) = Suc n" for m2
    using S(1,2,4) A(6) refs [OF that(1) _ that(4)] that objs table_ok_update [OF S(7) key] T
    by (simp add: server_ok_def manager_ok_def)
  show ?thesis
    using A(1) quota final
    by (intro exI [of _ c'] exI [of _ ?m']) (simp add: setCounter_def n_def)
qed

end
