(* ===== verification/Server_Requests.thy ===== *)
theory Server_Requests
  imports Server_Correct
begin

text \<open>
  The request operations of the server under its invariant: initialisation creates or refreshes
  one counter per rule, and a report is answered as the specification \<open>acquire_spec\<close> computes it
  from the logs of the counters alone.
\<close>

section \<open>Adding the counter of a rule\<close>

lemma server_ok_time: "server_ok sv logs T \<Longrightarrow> T \<le> T' \<Longrightarrow> server_ok sv logs T'"
  unfolding server_ok_def manager_ok_def by (auto intro: objs_ok_mono [OF _ same_clients_refl])

lemma server_ok_counters:
  assumes "server_ok sv logs T" "manager_ok cm m logs' T" "maxSize cm = maxSize (counterMng sv)"
    and "clientObjs m = clientObjs (mem sv)" "pushMgr m = pushMgr (mem sv)" "quotaLefts m = quotaLefts (mem sv)"
    and "length (counterObjs (mem sv)) \<le> length (counterObjs m)"
  shows "server_ok (sv\<lparr>counterMng := cm, mem := m\<rparr>) logs' T"
  using server_okD [OF assms(1)] assms(2-) push_refs_mono [of "mem sv" m]
  by (simp add: server_ok_def)

text \<open>What one call of \<open>AddCounter\<close> gives a valid request: the counter of the rule, or a full table.\<close>

definition added :: "Server \<Rightarrow> logs \<Rightarrow> CounterIdentifier \<Rightarrow> Server \<Rightarrow> logs \<Rightarrow> nat \<Rightarrow> u32 \<Rightarrow> bool" where
  "added sv logs ident sv' logs' ref k \<longleftrightarrow>
     ref < length (counterObjs (mem sv')) \<and> at_key (counters (counterMng sv')) k = Some ref \<and>
     k \<in> key_range (MaxCounter (cfg sv)) \<and> counterKey (counterObjs (mem sv') ! ref) = k \<and>
     map_of (counterMap (counterMng sv')) ident = Some k \<and>
     (\<forall>i j. map_of (counterMap (counterMng sv)) i = Some j \<longrightarrow> map_of (counterMap (counterMng sv')) i = Some j) \<and>
     length (counterObjs (mem sv)) \<le> length (counterObjs (mem sv')) \<and>
     (\<forall>q < length (counterObjs (mem sv)). logs' q = logs q)"

lemma addCounter_ok:
  assumes ok: "server_ok sv logs T" and rules: "rules_ok req" and i: "i < length (Init_Totals req)"
    and r: "r < length (clientObjs (mem sv))"
  shows "(AddCounter tv req (int i) (Some r) expire (counterMng sv) (mem sv) =
        Inr ((ExceedMaxCounter, None), counterMng sv, mem sv) \<and>
      usedKeys (counterMng sv) = key_range (MaxCounter (cfg sv)) \<and>
      map_of (counterMap (counterMng sv)) (ident_of req i) = None) \<or>
    (\<exists>ref cm m logs' k. AddCounter tv req (int i) (Some r) expire (counterMng sv) (mem sv) =
        Inr ((ExecuteSuccess, Some ref), cm, m) \<and>
      server_ok (sv\<lparr>counterMng := cm, mem := m\<rparr>) logs' T \<and> clientObjs m = clientObjs (mem sv) \<and>
      added sv logs (ident_of req i) (sv\<lparr>counterMng := cm, mem := m\<rparr>) logs' ref k)"
proof -
  note S = server_okD [OF ok]
  note D = table_okD [OF S(7)]
  show ?thesis
  proof (cases "map_of (counterMap (counterMng sv)) (ident_of req i)")
    case (Some k)
    obtain ref c' es where R: "AddCounter tv req (int i) (Some r) expire (counterMng sv) (mem sv) =
        Inr ((ExecuteSuccess, Some ref), counterMng sv,
          mem sv\<lparr>eventLog := eventLog (mem sv) @ es, counterObjs := (counterObjs (mem sv))[ref := c']\<rparr>)"
      "at_key (counters (counterMng sv)) k = Some ref" "ref < length (counterObjs (mem sv))" "counterKey c' = k"
      "manager_ok (counterMng sv)
        (mem sv\<lparr>eventLog := eventLog (mem sv) @ es, counterObjs := (counterObjs (mem sv))[ref := c']\<rparr>) logs T"
      using AddCounter_existing [OF S(3) i r Some, of tv expire] by blast
    have k: "k \<in> key_range (MaxCounter (cfg sv))"
      using D(4) [OF Some] D(7) S(2) by (auto simp: slot_ok_def)
    show ?thesis
      using R k Some server_ok_counters [OF ok R(5) refl]
      by (intro disjI2 exI [of _ ref] exI [of _ "counterMng sv"]
          exI [of _ "mem sv\<lparr>eventLog := eventLog (mem sv) @ es, counterObjs := (counterObjs (mem sv))[ref := c']\<rparr>"]
          exI [of _ logs] exI [of _ k]) (simp add: added_def)
  next
    case None
    show ?thesis
    proof (cases "usedKeys (counterMng sv) = key_range (maxSize (counterMng sv))")
      case True
      then show ?thesis using AddCounter_full [OF S(7) i None True] None S(2) by simp
    next
      case False
      obtain c cm es k where R: "AddCounter tv req (int i) (Some r) expire (counterMng sv) (mem sv) =
          Inr ((ExecuteSuccess, Some (length (counterObjs (mem sv)))), cm,
            mem sv\<lparr>eventLog := eventLog (mem sv) @ es, counterObjs := counterObjs (mem sv) @ [c]\<rparr>)"
        "k \<in> key_range (maxSize (counterMng sv))" "maxSize cm = maxSize (counterMng sv)"
        "at_key (counters cm) k = Some (length (counterObjs (mem sv)))"
        "counterMap cm = AList.update (ident_of req i) k (counterMap (counterMng sv))" "counterKey c = k"
        "manager_ok cm (mem sv\<lparr>eventLog := eventLog (mem sv) @ es, counterObjs := counterObjs (mem sv) @ [c]\<rparr>)
          (logs(length (counterObjs (mem sv)) := ([], 0))) T"
        using AddCounter_new [OF S(3) rules i r None False, of tv expire] by blast
      let ?m = "mem sv\<lparr>eventLog := eventLog (mem sv) @ es, counterObjs := counterObjs (mem sv) @ [c]\<rparr>"
      have map: "map_of (counterMap cm) j = (if j = ident_of req i then Some k else map_of (counterMap (counterMng sv)) j)" for j
        by (simp add: R(5) amap.get_put)
      show ?thesis
        using R server_ok_counters [OF ok R(7,3)] S(2) None map
        by (intro disjI2 exI [of _ "length (counterObjs (mem sv))"] exI [of _ cm] exI [of _ ?m]
          exI [of _ "logs(length (counterObjs (mem sv)) := ([], 0))"] exI [of _ k]) (simp add: added_def)
    qed
  qed
qed

section \<open>Initialisation\<close>

lemma clock_scaled:
  assumes "clock_ok tv"
  shows "i64 (mul64 (CurrentMillisecond tv) 1000 sdiv 1000) = CurrentMillisecond tv"
    "CurrentMillisecond tv < 2 ^ 62"
proof -
  note B = clock_bounds(1,2) [OF assms]
  have "in64 (CurrentMillisecond tv * 1000)" using B by (simp add: in64_def)
  moreover have "CurrentMillisecond tv * 1000 sdiv 1000 = CurrentMillisecond tv"
    using B by (cases "CurrentMillisecond tv = 0") (simp_all add: signed_divide_int_def)
  ultimately show "i64 (mul64 (CurrentMillisecond tv) 1000 sdiv 1000) = CurrentMillisecond tv"
    using B by (simp add: mul64_id in64_def)
  show "CurrentMillisecond tv < 2 ^ 62" using B by simp
qed

text \<open>The parts of the server that an operation on counters leaves alone.\<close>

definition same_frame :: "Server \<Rightarrow> Server \<Rightarrow> bool" where
  "same_frame sv sv' \<longleftrightarrow> cfg sv' = cfg sv \<and> clientMng sv' = clientMng sv \<and>
     clientObjs (mem sv') = clientObjs (mem sv) \<and>
     length (counterObjs (mem sv)) \<le> length (counterObjs (mem sv')) \<and>
     (\<forall>i k. map_of (counterMap (counterMng sv)) i = Some k \<longrightarrow> map_of (counterMap (counterMng sv')) i = Some k)"

lemma same_frame_refl [simp]: "same_frame sv sv"
  by (simp add: same_frame_def)

lemma same_frame_trans: "same_frame a b \<Longrightarrow> same_frame b c \<Longrightarrow> same_frame a c"
  unfolding same_frame_def by (metis order_trans)

text \<open>One round of the loop over the rules that finds room.\<close>

lemma initCounters_round:
  assumes ok: "server_ok sv logs T" and rules: "rules_ok req" and i: "i < length (Init_Totals req)"
    and r: "r < length (clientObjs (mem sv))" and tv: "clock_ok tv" "T \<le> CurrentMillisecond tv"
  shows "((\<forall>rule rs cC. initCounters tv (Some r) req expire i (rule # rs) cC sv = Inr ((ExceedMaxCounter, [], cC), sv)) \<and>
      usedKeys (counterMng sv) = key_range (MaxCounter (cfg sv))) \<or>
    (\<exists>ref k sv2 logs2 left cnt. server_ok sv2 logs2 (CurrentMillisecond tv) \<and> same_frame sv sv2 \<and>
      ref < length (counterObjs (mem sv2)) \<and> k \<in> key_range (MaxCounter (cfg sv)) \<and>
      map_of (counterMap (counterMng sv2)) (ident_of req i) = Some k \<and>
      (\<forall>rule rs cC. initCounters tv (Some r) req expire i (rule # rs) cC sv =
        bindR (initCounters tv (Some r) req expire (Suc i) rs (Some ref) sv2) (\<lambda>((code, qcs, c), sv3).
          Inr ((code, \<lparr>QC_Duration = Total_Duration rule, QC_CounterKey = boxCounterKey (cfg sv) k,
            QC_Left = left, QC_Mode = BATCH_OCCUPY, QC_ClientCount = cnt\<rparr> # qcs, c), sv3))))"
proof -
  note S = server_okD [OF ok]
  from addCounter_ok [OF ok rules i r, of tv expire] show ?thesis
  proof (elim disjE exE conjE)
    assume "AddCounter tv req (int i) (Some r) expire (counterMng sv) (mem sv) =
        Inr ((ExceedMaxCounter, None), counterMng sv, mem sv)"
      and "usedKeys (counterMng sv) = key_range (MaxCounter (cfg sv))"
    then show ?thesis by (simp add: codes)
  next
    fix ref cm m logs' k
    assume A: "AddCounter tv req (int i) (Some r) expire (counterMng sv) (mem sv) = Inr ((ExecuteSuccess, Some ref), cm, m)"
      and ok1: "server_ok (sv\<lparr>counterMng := cm, mem := m\<rparr>) logs' T" and h: "clientObjs m = clientObjs (mem sv)"
      and added: "added sv logs (ident_of req i) (sv\<lparr>counterMng := cm, mem := m\<rparr>) logs' ref k"
    let ?sv1 = "sv\<lparr>counterMng := cm, mem := m\<rparr>" and ?c = "counterObjs m ! ref" and ?t = "CurrentMillisecond tv"
    note D = added [unfolded added_def, simplified]
    let ?q = "\<lparr>Sum_CounterKey = counterKey ?c, Sum_Used = 0, Sum_Limited = 0\<rparr>"
    have c: "counter_ok (clientObjs m) ?c (fst (logs' ref)) (snd (logs' ref))"
      using objs_okD [OF server_okD(8) [OF ok1], of ref] D by simp
    obtain c' m' where Al: "Allocate tv ref (Some r) ?q ?t (mul64 ?t 1000) ?c m = Inr (length (quotaLefts m), c', m')"
      "same_quota ?c c'"
      "quotaLefts m' = quotaLefts m @ [\<lparr>Left_CounterKey = counterKey ?c, Left_Mode = BATCH_OCCUPY,
         Left_Left = left_of ?c (step_log ?c ?t ?t 0 (logs' ref)), Left_ClientCount = clientCount (counterClients ?c)\<rparr>]"
      "clientObjs m' = clientObjs m" "counterObjs m' = counterObjs m"
      "server_ok (?sv1\<lparr>mem := setCounter ref c' m'\<rparr>) (logs'(ref := step_log ?c ?t ?t 0 (logs' ref))) ?t"
      using allocation [OF ok1 _ _ _ tv(2) clock_scaled(2,1) [OF tv(1)],
        where ref = ref and c = ?c and q = ?q and cl = "Some r" and ts = ?t and tv = tv] D c
      by (auto simp: idle_def)
    have step: "initCounters tv (Some r) req expire i (rule # rs) cC sv =
        bindR (initCounters tv (Some r) req expire (Suc i) rs (Some ref) (?sv1\<lparr>mem := setCounter ref c' m'\<rparr>))
          (\<lambda>((code, qcs, c), sv3).
          Inr ((code, \<lparr>QC_Duration = Total_Duration rule, QC_CounterKey = boxCounterKey (cfg sv) k,
            QC_Left = left_of ?c (step_log ?c ?t ?t 0 (logs' ref)), QC_Mode = BATCH_OCCUPY,
            QC_ClientCount = clientCount (counterClients c')\<rparr> # qcs, c), sv3))" for rule rs cC
      using A D Al(1,3) by (simp add: SumQuota_def)
    have frame: "same_frame sv (?sv1\<lparr>mem := setCounter ref c' m'\<rparr>)"
      using D h Al(4,5) by (simp add: same_frame_def setCounter_def)
    show ?thesis
      using step frame Al(5,6) D
      by (intro disjI2 exI [of _ ref] exI [of _ k] exI [of _ "?sv1\<lparr>mem := setCounter ref c' m'\<rparr>"]
          exI [of _ "logs'(ref := step_log ?c ?t ?t 0 (logs' ref))"]
          exI [of _ "left_of ?c (step_log ?c ?t ?t 0 (logs' ref))"]
          exI [of _ "clientCount (counterClients c')"]) (simp add: setCounter_def)
  qed
qed

text \<open>
  The whole loop: it never panics, keeps the invariant and answers one counter per rule, or, when
  the table is full, a prefix of them. Every key it answers is the key under which the counter
  of the rule can be found.
\<close>

definition rule_keys :: "Server \<Rightarrow> RateLimitInitRequest \<Rightarrow> nat \<Rightarrow> QuotaCounter list \<Rightarrow> bool" where
  "rule_keys sv req idx qcs \<longleftrightarrow> idx + length qcs \<le> length (Init_Totals req) \<and>
     (\<forall>j < length qcs. QC_Duration (qcs ! j) = Total_Duration (Init_Totals req ! (idx + j)) \<and>
        (\<exists>k. unboxCounterKey (cfg sv) (QC_CounterKey (qcs ! j)) = (ExecuteSuccess, k) \<and>
           map_of (counterMap (counterMng sv)) (ident_of req (idx + j)) = Some k))"

lemma rule_keys_Cons:
  assumes "rule_keys sv req (Suc idx) qcs" "QC_Duration qc = Total_Duration (Init_Totals req ! idx)"
    and "unboxCounterKey (cfg sv) (QC_CounterKey qc) = (ExecuteSuccess, k)"
    and "map_of (counterMap (counterMng sv)) (ident_of req idx) = Some k"
  shows "rule_keys sv req idx (qc # qcs)"
  unfolding rule_keys_def
proof (intro conjI allI impI)
  show "idx + length (qc # qcs) \<le> length (Init_Totals req)" using assms(1) by (simp add: rule_keys_def)
  fix j assume j: "j < length (qc # qcs)"
  show "QC_Duration ((qc # qcs) ! j) = Total_Duration (Init_Totals req ! (idx + j))"
    using assms(1,2) j by (cases j) (auto simp: rule_keys_def)
  show "\<exists>k. unboxCounterKey (cfg sv) (QC_CounterKey ((qc # qcs) ! j)) = (ExecuteSuccess, k) \<and>
      map_of (counterMap (counterMng sv)) (ident_of req (idx + j)) = Some k"
    using assms(1,3,4) j by (cases j) (auto simp: rule_keys_def)
qed

lemma unbox_range:
  "config_ok c \<Longrightarrow> k \<in> key_range (MaxCounter c) \<Longrightarrow> unboxCounterKey c (boxCounterKey c k) = (ExecuteSuccess, k)"
  by (intro unbox_box) (auto simp: key_range_def)

lemma initCounters_ok:
  assumes "server_ok sv logs T" "rules_ok req" "rules = drop idx (Init_Totals req)" "idx \<le> length (Init_Totals req)"
    and "r < length (clientObjs (mem sv))" "clock_ok tv" "T \<le> CurrentMillisecond tv"
    and "cC = None \<or> (\<exists>q. cC = Some q \<and> q < length (counterObjs (mem sv)))"
  shows "\<exists>code qcs cC' sv' logs'. initCounters tv (Some r) req expire idx rules cC sv = Inr ((code, qcs, cC'), sv') \<and>
    server_ok sv' logs' (CurrentMillisecond tv) \<and> same_frame sv sv' \<and> rule_keys sv' req idx qcs \<and>
    (code = ExecuteSuccess \<and> length qcs = length rules \<or>
     code = ExceedMaxCounter \<and> length qcs < length rules \<and> usedKeys (counterMng sv') = key_range (MaxCounter (cfg sv'))) \<and>
    (cC' = None \<or> (\<exists>q. cC' = Some q \<and> q < length (counterObjs (mem sv'))))"
  using assms
proof (induction rules arbitrary: idx cC sv logs T)
  case Nil
  have "server_ok sv logs (CurrentMillisecond tv)" using server_ok_time Nil.prems(1,7) .
  moreover have "rule_keys sv req idx []" using Nil.prems(4) by (simp add: rule_keys_def)
  ultimately show ?case using Nil.prems(8) by auto
next
  case (Cons rule rules)
  have idx: "idx < length (Init_Totals req)" using Cons.prems(3) by (metis drop_eq_Nil linorder_not_le list.distinct(1))
  have rule: "rule = Init_Totals req ! idx" "rules = drop (Suc idx) (Init_Totals req)"
    using Cons.prems(3) idx by (metis Cons_nth_drop_Suc list.inject)+
  note S = server_okD [OF Cons.prems(1)]
  from initCounters_round [OF Cons.prems(1,2) idx Cons.prems(5,6,7), of expire]
  show ?case
  proof (elim disjE exE conjE)
    assume "\<forall>rule rs cC. initCounters tv (Some r) req expire idx (rule # rs) cC sv = Inr ((ExceedMaxCounter, [], cC), sv)"
      "usedKeys (counterMng sv) = key_range (MaxCounter (cfg sv))"
    moreover have "server_ok sv logs (CurrentMillisecond tv)" using server_ok_time Cons.prems(1,7) .
    ultimately show ?thesis using Cons.prems(8) idx
      by (auto simp: rule_keys_def simp del: initCounters.simps)
  next
    fix ref k sv2 logs2 left cnt
    assume ok2: "server_ok sv2 logs2 (CurrentMillisecond tv)" and fr: "same_frame sv sv2"
      and ref: "ref < length (counterObjs (mem sv2))" and k: "k \<in> key_range (MaxCounter (cfg sv))"
      and map: "map_of (counterMap (counterMng sv2)) (ident_of req idx) = Some k"
      and step: "\<forall>rule rs cC. initCounters tv (Some r) req expire idx (rule # rs) cC sv =
        bindR (initCounters tv (Some r) req expire (Suc idx) rs (Some ref) sv2) (\<lambda>((code, qcs, c), sv3).
          Inr ((code, \<lparr>QC_Duration = Total_Duration rule, QC_CounterKey = boxCounterKey (cfg sv) k,
            QC_Left = left, QC_Mode = BATCH_OCCUPY, QC_ClientCount = cnt\<rparr> # qcs, c), sv3))"
    have F: "cfg sv2 = cfg sv" "clientObjs (mem sv2) = clientObjs (mem sv)" using fr by (simp_all add: same_frame_def)
    have "\<exists>code qcs cC' sv' logs'. initCounters tv (Some r) req expire (Suc idx) rules (Some ref) sv2 = Inr ((code, qcs, cC'), sv') \<and>
      server_ok sv' logs' (CurrentMillisecond tv) \<and> same_frame sv2 sv' \<and> rule_keys sv' req (Suc idx) qcs \<and>
      (code = ExecuteSuccess \<and> length qcs = length rules \<or>
       code = ExceedMaxCounter \<and> length qcs < length rules \<and> usedKeys (counterMng sv') = key_range (MaxCounter (cfg sv'))) \<and>
      (cC' = None \<or> (\<exists>q. cC' = Some q \<and> q < length (counterObjs (mem sv'))))"
      by (rule Cons.IH [OF ok2 Cons.prems(2) rule(2) _ _ Cons.prems(6)]) (use Cons.prems(5) idx F ref in simp_all)
    then obtain code qcs cC' sv' logs' where I: "initCounters tv (Some r) req expire (Suc idx) rules (Some ref) sv2 = Inr ((code, qcs, cC'), sv')"
      "server_ok sv' logs' (CurrentMillisecond tv)" "same_frame sv2 sv'" "rule_keys sv' req (Suc idx) qcs"
      "code = ExecuteSuccess \<and> length qcs = length rules \<or>
       code = ExceedMaxCounter \<and> length qcs < length rules \<and> usedKeys (counterMng sv') = key_range (MaxCounter (cfg sv'))"
      "cC' = None \<or> (\<exists>q. cC' = Some q \<and> q < length (counterObjs (mem sv')))" by blast
    have F': "cfg sv' = cfg sv" "map_of (counterMap (counterMng sv')) (ident_of req idx) = Some k"
      using I(3) F map by (auto simp: same_frame_def)
    let ?qc = "\<lparr>QC_Duration = Total_Duration rule, QC_CounterKey = boxCounterKey (cfg sv) k,
            QC_Left = left, QC_Mode = BATCH_OCCUPY, QC_ClientCount = cnt\<rparr>"
    have "rule_keys sv' req idx (?qc # qcs)"
      by (rule rule_keys_Cons [OF I(4) _ _ F'(2)]) (use rule(1) F'(1) unbox_range [OF S(1) k] in simp_all)
    moreover have "same_frame sv sv'" using same_frame_trans fr I(3) .
    ultimately show ?thesis using step I by (auto simp del: initCounters.simps)
  qed
qed

section \<open>Reports\<close>

text \<open>
  The specification of a report, over the keys that have a counter, the counters as they were
  when the report came and their logs: each usage is answered with what is left of its counter
  after it, up to the first key that is not this server's or has no counter.
\<close>

fun acquire_spec :: "Config \<Rightarrow> (u32 \<Rightarrow> nat option) \<Rightarrow> (nat \<Rightarrow> counterV2) \<Rightarrow> int \<Rightarrow> int \<Rightarrow> logs \<Rightarrow> QuotaSum list
    \<Rightarrow> (u32 \<times> (u32 \<times> int) list) \<times> logs" where
  "acquire_spec c look obj ts t L [] = ((ExecuteSuccess, []), L)"
| "acquire_spec c look obj ts t L (q # qs) =
     (let (code, k) = unboxCounterKey c (Sum_CounterKey q) in
      if code \<noteq> ExecuteSuccess then ((code, []), L)
      else (case look k of
              None \<Rightarrow> ((NotFoundLimiter, []), L)
            | Some ref \<Rightarrow>
                let L1 = L(ref := step_log (obj ref) ts t (Sum_Used q) (L ref));
                    ((code', ls), L2) = acquire_spec c look obj ts t L1 qs
                in ((code', (Sum_CounterKey q, left_of (obj ref) (L1 ref)) # ls), L2)))"

definition looked :: "Server \<Rightarrow> u32 \<Rightarrow> nat option" where
  "looked sv k = at_key (counters (counterMng sv)) k"

definition stored :: "Server \<Rightarrow> nat \<Rightarrow> counterV2" where
  "stored sv ref = counterObjs (mem sv) ! ref"

lemma acquire_spec_cong:
  assumes "\<forall>k ref. k \<in> key_range (MaxCounter c) \<longrightarrow> look k = Some ref \<longrightarrow> same_quota (obj ref) (obj' ref)"
    and "config_ok c"
  shows "acquire_spec c look obj' ts t L qs = acquire_spec c look obj ts t L qs"
proof (induction qs arbitrary: L)
  case (Cons q qs)
  obtain code k where u: "unboxCounterKey c (Sum_CounterKey q) = (code, k)" by (cases "unboxCounterKey c (Sum_CounterKey q)")
  show ?case
  proof (cases "code = ExecuteSuccess")
    case True
    then have "k \<in> key_range (MaxCounter c)" using u unbox_iff [OF assms(2)] by (auto simp: key_range_def)
    then have sq: "same_quota (obj ref) (obj' ref)" if "look k = Some ref" for ref using assms(1) that by blast
    show ?thesis
    proof (cases "look k")
      case (Some ref)
      then show ?thesis using u Cons.IH same_quota_log [OF sq [OF Some]] by simp
    qed (simp add: u)
  qed (simp add: u)
qed simp

text \<open>The invariant of the loop over the usages.\<close>

definition acquire_frame :: "Server \<Rightarrow> Server \<Rightarrow> bool" where
  "acquire_frame sv sv' \<longleftrightarrow> cfg sv' = cfg sv \<and> clientMng sv' = clientMng sv \<and> counterMng sv' = counterMng sv \<and>
     clientObjs (mem sv') = clientObjs (mem sv) \<and> outbox (mem sv') = outbox (mem sv) \<and>
     length (counterObjs (mem sv')) = length (counterObjs (mem sv)) \<and>
     (\<forall>ref < length (counterObjs (mem sv)). same_quota (stored sv ref) (stored sv' ref)) \<and>
     (\<exists>ls. quotaLefts (mem sv') = quotaLefts (mem sv) @ ls)"

lemma acquire_frame_refl [simp]: "acquire_frame sv sv"
  by (simp add: acquire_frame_def)

lemma acquire_frame_trans:
  assumes "acquire_frame a b" "acquire_frame b c"
  shows "acquire_frame a c"
  using assms same_quota_trans unfolding acquire_frame_def by (metis append.assoc)

lemma doQuotaStatReport_ok:
  assumes "cl = Some r" "r < length (clientObjs m)"
  shows "\<exists>col'. doQuotaStatReport start p l cl c m col = Inr col'"
  using assms by (simp add: doQuotaStatReport_def Let_def)

lemma counter_Update_same:
  "counter_ok h c L cur \<Longrightarrow> counter_ok h (counter_Update tv c) L cur" "same_quota c (counter_Update tv c)"
  by (simp_all add: counter_ok_def counter_Update_def effectiveMax_def same_quota_def slides_of_def winlen_of_def)

text \<open>One usage whose counter is found.\<close>

lemma acquire_round:
  fixes ts :: int
  assumes ok: "server_ok sv logs T" and u: "unboxCounterKey (cfg sv) (Sum_CounterKey q) = (ExecuteSuccess, k)"
    and look: "looked sv k = Some ref" and cl: "cl = Some r" "r < length (clientObjs (mem sv))"
    and t: "T \<le> t" "t < 2 ^ 62" "i64 (start sdiv 1000) = t"
  defines "logs' \<equiv> logs(ref := step_log (stored sv ref) ts t (Sum_Used q) (logs ref))"
  shows "\<exists>n sv' col'. n = length (quotaLefts (mem sv)) \<and> ref < length (counterObjs (mem sv)) \<and>
    server_ok sv' logs' t \<and> acquire_frame sv sv' \<and>
    quotaLefts (mem sv') = quotaLefts (mem sv) @ [\<lparr>Left_CounterKey = Sum_CounterKey q, Left_Mode = BATCH_OCCUPY,
        Left_Left = left_of (stored sv ref) (logs' ref), Left_ClientCount = clientCount (counterClients (stored sv ref))\<rparr>] \<and>
    (\<forall>qs c0. acquireUses tv cl ts start (q # qs) c0 sv col =
       bindR (acquireUses tv cl ts start qs (Some ref) sv' col') (\<lambda>((code2, lefts, c2), sv2, col2).
         Inr ((code2, n # lefts, c2), sv2, col2)))"
proof -
  note S = server_okD [OF ok]
  have k: "k \<in> key_range (maxSize (counterMng sv))" and box: "boxCounterKey (cfg sv) (Sum_CounterKey q) = Sum_CounterKey q"
    using u unbox_iff [OF S(1)] box_idem S(2) by (auto simp: key_range_def)
  have k0: "k \<noteq> 0" using k by (auto simp: key_range_iff)
  have used: "k \<in> usedKeys (counterMng sv)"
    using table_okD(6) [OF S(7) k] look by (auto simp: looked_def)
  have get: "GetCounter k (counterMng sv) = Inr (ExecuteSuccess, Some ref)"
    and ref: "ref < length (counterObjs (mem sv))"
    using GetCounter_ok [OF S(7) k0] used look by (auto simp: looked_def)
  let ?c = "counter_Update tv (stored sv ref)" and ?n = "length (quotaLefts (mem sv))"
  have c: "counter_ok (clientObjs (mem sv)) ?c (fst (logs ref)) (snd (logs ref))"
    using objs_okD [OF S(8) ref] counter_Update_same(1) by (simp add: stored_def)
  have sq: "same_quota (stored sv ref) ?c" by (rule counter_Update_same(2))
  obtain c' m' where A: "Allocate tv ref cl q ts start ?c (mem sv) = Inr (?n, c', m')"
    "same_quota ?c c'"
    "quotaLefts m' = quotaLefts (mem sv) @ [\<lparr>Left_CounterKey = Sum_CounterKey q, Left_Mode = BATCH_OCCUPY,
        Left_Left = left_of (stored sv ref) (logs' ref), Left_ClientCount = clientCount (counterClients ?c)\<rparr>]"
    "clientObjs m' = clientObjs (mem sv)" "counterObjs m' = counterObjs (mem sv)"
    "\<forall>left'. server_ok (sv\<lparr>mem := (setCounter ref c' m')\<lparr>quotaLefts := (quotaLefts m')[?n := left']\<rparr>\<rparr>) logs' t"
    "outbox m' = outbox (mem sv)"
    using allocation [OF ok ref c _ t, where q = q and cl = cl and ts = ts and tv = tv] sq cl
    unfolding logs'_def same_quota_log [OF sq] by (auto simp: stored_def)
  obtain col' where col: "doQuotaStatReport start (Sum_Used q) (Sum_Limited q) cl ?c (mem sv) col = Inr col'"
    using doQuotaStatReport_ok [OF cl] by blast
  let ?sv' = "sv\<lparr>mem := boxLeft (cfg sv) ?n (setCounter ref c' m')\<rparr>"
  have box': "boxLeft (cfg sv) ?n (setCounter ref c' m') =
      (setCounter ref c' m')\<lparr>quotaLefts := (quotaLefts m')[?n := quotaLefts m' ! ?n]\<rparr>"
    using A(3) box by (simp add: boxLeft_def setCounter_def)
  have ql: "quotaLefts (mem ?sv') = quotaLefts m'"
    using A(3) box by (simp add: boxLeft_def setCounter_def)
  have cc: "clientCount (counterClients ?c) = clientCount (counterClients (stored sv ref))"
    by (simp add: counter_Update_def)
  have "server_ok ?sv' logs' t" unfolding box' using A(6) by blast
  moreover have "acquire_frame sv ?sv'"
    using A(3-5,7) same_quota_trans [OF sq A(2)] ref
    by (auto simp: acquire_frame_def stored_def boxLeft_def setCounter_def nth_list_update)
  moreover have "acquireUses tv cl ts start (q # qs) c0 sv col =
       bindR (acquireUses tv cl ts start qs (Some ref) ?sv' col') (\<lambda>((code2, lefts, c2), sv2, col2).
         Inr ((code2, ?n # lefts, c2), sv2, col2))" for qs c0
    using u get ref A(1) col by (simp add: derefCounter_def counter_AcquireQuota_def stored_def)
  ultimately show ?thesis using A(3) ref ql cc by auto
qed


text \<open>The loop refines the specification.\<close>

definition answers :: "Server \<Rightarrow> nat list \<Rightarrow> (u32 \<times> int) list" where
  "answers sv lefts = map (\<lambda>i. (Left_CounterKey (quotaLefts (mem sv) ! i), Left_Left (quotaLefts (mem sv) ! i))) lefts"

lemma answers_frame:
  assumes "acquire_frame sv sv'" "\<forall>i \<in> set lefts. i < length (quotaLefts (mem sv))"
  shows "answers sv' lefts = answers sv lefts"
  using assms by (auto simp: answers_def acquire_frame_def nth_append)

lemma acquireUses_ok:
  fixes ts :: int
  assumes "server_ok sv logs T" "T \<le> t" "t < 2 ^ 62" "i64 (start sdiv 1000) = t"
    and "cl = Some r" "r < length (clientObjs (mem sv))"
    and "c0 = None \<or> (\<exists>q. c0 = Some q \<and> q < length (counterObjs (mem sv)))"
  shows "\<exists>code lefts c1 sv' col' logs'. acquireUses tv cl ts start uses c0 sv col = Inr ((code, lefts, c1), sv', col') \<and>
    server_ok sv' logs' t \<and> acquire_frame sv sv' \<and>
    acquire_spec (cfg sv) (looked sv) (stored sv) ts t logs uses = ((code, answers sv' lefts), logs') \<and>
    (\<forall>i \<in> set lefts. i < length (quotaLefts (mem sv'))) \<and>
    (c1 = None \<or> (\<exists>q. c1 = Some q \<and> q < length (counterObjs (mem sv'))))"
  using assms(1,2,6,7)
proof (induction uses arbitrary: sv logs T c0 col)
  case Nil
  have "server_ok sv logs t" using server_ok_time Nil.prems(1,2) .
  then show ?case using Nil.prems(4) by (simp add: answers_def)
next
  case (Cons q uses)
  have same: "server_ok sv logs t" using server_ok_time Cons.prems(1,2) .
  note S = server_okD [OF Cons.prems(1)]
  obtain code k where u: "unboxCounterKey (cfg sv) (Sum_CounterKey q) = (code, k)"
    by (cases "unboxCounterKey (cfg sv) (Sum_CounterKey q)")
  show ?case
  proof (cases "code = ExecuteSuccess")
    case False
    then show ?thesis using u same Cons.prems(4) by (simp add: answers_def)
  next
    case True
    then have k: "k \<in> key_range (maxSize (counterMng sv))" "k \<noteq> 0"
      using u unbox_iff [OF S(1)] S(2) by (auto simp: key_range_def)
    show ?thesis
    proof (cases "looked sv k")
      case None
      then have "k \<notin> usedKeys (counterMng sv)"
        using GetCounter_ok(2) [OF S(7) k(2)] by (auto simp: looked_def)
      then have "GetCounter k (counterMng sv) = Inr (NotFoundLimiter, None)"
        using GetCounter_ok(1) [OF S(7) k(2)] by simp
      then show ?thesis using u True None same by (simp add: answers_def codes)
    next
      case (Some ref)
      let ?L = "logs(ref := step_log (stored sv ref) ts t (Sum_Used q) (logs ref))"
      obtain n sv1 col1 where R: "n = length (quotaLefts (mem sv))" "ref < length (counterObjs (mem sv))"
        "server_ok sv1 ?L t" "acquire_frame sv sv1"
        "quotaLefts (mem sv1) = quotaLefts (mem sv) @ [\<lparr>Left_CounterKey = Sum_CounterKey q, Left_Mode = BATCH_OCCUPY,
          Left_Left = left_of (stored sv ref) (?L ref), Left_ClientCount = clientCount (counterClients (stored sv ref))\<rparr>]"
        "\<forall>qs c0. acquireUses tv cl ts start (q # qs) c0 sv col =
          bindR (acquireUses tv cl ts start qs (Some ref) sv1 col1) (\<lambda>((code2, lefts, c2), sv2, col2).
            Inr ((code2, n # lefts, c2), sv2, col2))"
        using acquire_round [OF Cons.prems(1) u [unfolded True] Some assms(5) Cons.prems(3,2) assms(3,4), of ts tv col] by blast
      have F: "cfg sv1 = cfg sv" "looked sv1 = looked sv" "clientObjs (mem sv1) = clientObjs (mem sv)"
        "length (counterObjs (mem sv1)) = length (counterObjs (mem sv))"
        using R(4) by (auto simp: acquire_frame_def looked_def)
      have "\<exists>code lefts c1 sv' col' logs'. acquireUses tv cl ts start uses (Some ref) sv1 col1 = Inr ((code, lefts, c1), sv', col') \<and>
        server_ok sv' logs' t \<and> acquire_frame sv1 sv' \<and>
        acquire_spec (cfg sv1) (looked sv1) (stored sv1) ts t ?L uses = ((code, answers sv' lefts), logs') \<and>
        (\<forall>i \<in> set lefts. i < length (quotaLefts (mem sv'))) \<and>
        (c1 = None \<or> (\<exists>q. c1 = Some q \<and> q < length (counterObjs (mem sv'))))"
        by (rule Cons.IH [OF R(3)]) (use Cons.prems(3) F R(2) in simp_all)
      then obtain code' lefts c1 sv' col' logs' where I:
        "acquireUses tv cl ts start uses (Some ref) sv1 col1 = Inr ((code', lefts, c1), sv', col')"
        "server_ok sv' logs' t" "acquire_frame sv1 sv'"
        "acquire_spec (cfg sv1) (looked sv1) (stored sv1) ts t ?L uses = ((code', answers sv' lefts), logs')"
        "\<forall>i \<in> set lefts. i < length (quotaLefts (mem sv'))"
        "c1 = None \<or> (\<exists>q. c1 = Some q \<and> q < length (counterObjs (mem sv')))" by blast
      have sq: "\<forall>k ref. k \<in> key_range (MaxCounter (cfg sv)) \<longrightarrow> looked sv k = Some ref \<longrightarrow> same_quota (stored sv ref) (stored sv1 ref)"
      proof (intro allI impI)
        fix j q assume "j \<in> key_range (MaxCounter (cfg sv))" and l: "looked sv j = Some q"
        then have j: "j \<in> key_range (maxSize (counterMng sv))" "j \<noteq> 0" using S(2) by (auto simp: key_range_iff)
        then have "j \<in> usedKeys (counterMng sv)" using table_okD(6) [OF S(7) j(1)] l by (auto simp: looked_def)
        from GetCounter_ok(2) [OF S(7) j(2) this] l have "q < length (counterObjs (mem sv))" by (auto simp: looked_def)
        then show "same_quota (stored sv q) (stored sv1 q)" using R(4) by (simp add: acquire_frame_def)
      qed
      have spec: "acquire_spec (cfg sv) (looked sv) (stored sv) ts t ?L uses = ((code', answers sv' lefts), logs')"
        using I(4) acquire_spec_cong [OF sq S(1)] F by simp
      have n: "quotaLefts (mem sv') ! n = quotaLefts (mem sv1) ! n" "n < length (quotaLefts (mem sv'))"
        using I(3) R(1,5) by (auto simp: acquire_frame_def nth_append)
      have "answers sv' (n # lefts) = (Sum_CounterKey q, left_of (stored sv ref) (?L ref)) # answers sv' lefts"
        using n(1) R(1,5) by (simp add: answers_def)
      then have "acquire_spec (cfg sv) (looked sv) (stored sv) ts t logs (q # uses) = ((code', answers sv' (n # lefts)), logs')"
        using u True Some spec by simp
      moreover have "acquire_frame sv sv'" using acquire_frame_trans R(4) I(3) .
      moreover have "acquireUses tv cl ts start (q # uses) c0 sv col = Inr ((code', n # lefts, c1), sv', col')"
        using R(6) I(1) by (simp del: acquireUses.simps)
      ultimately show ?thesis using I n(2) by (simp del: acquireUses.simps acquire_spec.simps)
    qed
  qed
qed

section \<open>The client of a stream\<close>

lemma AddClient_idx:
  "AddClient tv i ip s cm m = Inr (x, cm', m') \<Longrightarrow> clientIdx cm' = clientIdx cm \<or> clientIdx cm' = clientIdx cm + 1"
  by (auto simp: AddClient_def addNewClient_def nextClientKey_def Let_def bindR_eq_Inr_iff
      split: option.splits list.splits if_splits)

lemma server_ok_clients:
  assumes "server_ok sv logs T" "clients_table cm (clientObjs m)" "same_clients (clientObjs (mem sv)) (clientObjs m)"
    and "counterObjs m = counterObjs (mem sv)" "pushMgr m = pushMgr (mem sv)" "quotaLefts m = quotaLefts (mem sv)"
  shows "server_ok (sv\<lparr>clientMng := cm, mem := m\<rparr>) logs T"
  using server_okD [OF assms(1)] assms(2-) push_refs_mono [of "mem sv" m] objs_ok_mono [OF _ assms(3)]
  by (auto simp: server_ok_def manager_ok_def)

text \<open>A stream gets the known client of its id, a new one, or none when the table is full.\<close>

definition client_frame :: "Server \<Rightarrow> Server \<Rightarrow> bool" where
  "client_frame sv sv' \<longleftrightarrow> cfg sv' = cfg sv \<and> counterMng sv' = counterMng sv \<and>
     counterObjs (mem sv') = counterObjs (mem sv) \<and> outbox (mem sv') = outbox (mem sv) \<and>
     same_clients (clientObjs (mem sv)) (clientObjs (mem sv')) \<and>
     (clientIdx (clientMng sv') = clientIdx (clientMng sv) \<or>
      clientIdx (clientMng sv') = clientIdx (clientMng sv) + 1)"

lemma addClient_ok:
  assumes ok: "server_ok sv logs T" and room: "idx_room (clientMng sv)"
  shows "\<exists>code cl cm m. AddClient tv i ip (Some s) (clientMng sv) (mem sv) = Inr ((code, cl), cm, m) \<and>
    server_ok (sv\<lparr>clientMng := cm, mem := m\<rparr>) logs T \<and> client_frame sv (sv\<lparr>clientMng := cm, mem := m\<rparr>) \<and>
    (code = ExecuteSuccess \<and> (\<exists>r. cl = Some r \<and> r < length (clientObjs m) \<and> clientId (clientObjs m ! r) = i) \<or>
     code = ExceedMaxClient \<and> cl = None)"
proof -
  note S = server_okD [OF ok]
  have fin: ?thesis if "AddClient tv i ip (Some s) (clientMng sv) (mem sv) = Inr ((code, cl), cm, m)"
    "clients_table cm (clientObjs m)" "same_clients (clientObjs (mem sv)) (clientObjs m)"
    "counterObjs m = counterObjs (mem sv)" "pushMgr m = pushMgr (mem sv)" "quotaLefts m = quotaLefts (mem sv)"
    "outbox m = outbox (mem sv)"
    "code = ExecuteSuccess \<and> (\<exists>r. cl = Some r \<and> r < length (clientObjs m) \<and> clientId (clientObjs m ! r) = i) \<or>
     code = ExceedMaxClient \<and> cl = None" for code cl cm m
    using that server_ok_clients [OF ok that(2-6)] AddClient_idx [OF that(1)]
    by (intro exI [of _ code] exI [of _ cl] exI [of _ cm] exI [of _ m]) (simp add: client_frame_def)
  show ?thesis
  proof (cases "map_of (clientMap (clientMng sv)) i")
    case (Some k)
    obtain r c' es where A: "AddClient tv i ip (Some s) (clientMng sv) (mem sv) = Inr ((ExecuteSuccess, Some r), clientMng sv,
        mem sv\<lparr>clientObjs := (clientObjs (mem sv))[r := c'], eventLog := eventLog (mem sv) @ es\<rparr>)"
      "r < length (clientObjs (mem sv))" "clientId c' = i"
      "same_clients (clientObjs (mem sv)) ((clientObjs (mem sv))[r := c'])"
      "clients_table (clientMng sv) ((clientObjs (mem sv))[r := c'])"
      using AddClient_known [OF S(4) Some, of tv ip s] by blast
    show ?thesis by (rule fin [OF A(1)]) (use A in simp_all)
  next
    case None
    show ?thesis
    proof (cases "usedClientKeys (clientMng sv) = key_range (maxClients (clientMng sv))")
      case True
      obtain cm' where A: "AddClient tv i ip (Some s) (clientMng sv) (mem sv) = Inr ((ExceedMaxClient, None), cm', mem sv)"
        "clients_table cm' (clientObjs (mem sv))"
        using AddClient_full [OF S(4) room None True] by blast
      show ?thesis by (rule fin [OF A(1)]) (use A in simp_all)
    next
      case False
      obtain k c es cm' where A: "AddClient tv i ip (Some s) (clientMng sv) (mem sv) =
          Inr ((ExecuteSuccess, Some (length (clientObjs (mem sv)))), cm',
            mem sv\<lparr>clientObjs := clientObjs (mem sv) @ [c], eventLog := eventLog (mem sv) @ es\<rparr>)"
        "c = \<lparr>clientKey = k, clientIP = ip, clientId = i, streamCtx = Some s, detached = False\<rparr>"
        "clients_table cm' (clientObjs (mem sv) @ [c])"
        using AddClient_new [OF S(4) room None False, of tv ip s] by blast
      show ?thesis by (rule fin [OF A(1)]) (use A in simp_all)
    qed
  qed
qed

lemma InitializeClient_ok:
  assumes ok: "server_ok sv logs T" and room: "idx_room (clientMng sv)"
    and cl: "cl = None \<or> (\<exists>r. cl = Some r \<and> r < length (clientObjs (mem sv)))"
  shows "\<exists>resp cl' sv'. InitializeClient tv (Some req) cl ip s sv = Inr ((resp, cl'), sv') \<and>
    server_ok sv' logs T \<and> client_frame sv sv' \<and> (cl \<noteq> None \<longrightarrow> sv' = sv \<and> cl' = cl) \<and>
    (case resp of
       None \<Rightarrow> \<exists>r. cl' = Some r \<and> r < length (clientObjs (mem sv')) \<and> clientId (clientObjs (mem sv') ! r) = Init_ClientId req
     | Some x \<Rightarrow> if cl = None then cl' = None \<and> InitResp_Code x = ExceedMaxClient
                 else InitResp_Code x = ExceedMaxClientOneStream)"
proof (cases cl)
  case None
  from addClient_ok [OF ok room, of tv "Init_ClientId req" ip s] obtain code cl' cm m where A:
    "AddClient tv (Init_ClientId req) ip (Some s) (clientMng sv) (mem sv) = Inr ((code, cl'), cm, m)"
    "server_ok (sv\<lparr>clientMng := cm, mem := m\<rparr>) logs T" "client_frame sv (sv\<lparr>clientMng := cm, mem := m\<rparr>)"
    "code = ExecuteSuccess \<and> (\<exists>r. cl' = Some r \<and> r < length (clientObjs m) \<and> clientId (clientObjs m ! r) = Init_ClientId req) \<or>
     code = ExceedMaxClient \<and> cl' = None" by blast
  show ?thesis
    using A(4)
  proof (elim disjE exE conjE)
    fix r assume "code = ExecuteSuccess" "cl' = Some r" "r < length (clientObjs m)" "clientId (clientObjs m ! r) = Init_ClientId req"
    then show ?thesis using A(1-3) None by (simp add: InitializeClient_def Let_def)
  next
    assume "code = ExceedMaxClient" "cl' = None"
    then show ?thesis using A(1-3) None
      by (simp add: InitializeClient_def Let_def codes NewRateLimitInitResponse_def)
  qed
next
  case (Some r)
  then show ?thesis using cl ok
    by (simp add: InitializeClient_def client_frame_def NewRateLimitInitResponse_def)
qed

lemma InitializeClientBatch_ok:
  assumes ok: "server_ok sv logs T" and room: "idx_room (clientMng sv)"
    and cl: "cl = None \<or> (\<exists>r. cl = Some r \<and> r < length (clientObjs (mem sv)))"
  shows "\<exists>resp cl' sv'. InitializeClientBatch tv (Some req) cl ip s sv = Inr ((resp, cl'), sv') \<and>
    server_ok sv' logs T \<and> client_frame sv sv' \<and> (cl \<noteq> None \<longrightarrow> sv' = sv \<and> cl' = cl) \<and>
    (case resp of
       None \<Rightarrow> \<exists>r. cl' = Some r \<and> r < length (clientObjs (mem sv')) \<and> clientId (clientObjs (mem sv') ! r) = Batch_ClientId req
     | Some x \<Rightarrow> if cl = None then cl' = None \<and> BatchResp_Code x = ExceedMaxClient
                 else BatchResp_Code x = ExceedMaxClientOneStream)"
proof (cases cl)
  case None
  from addClient_ok [OF ok room, of tv "Batch_ClientId req" ip s] obtain code cl' cm m where A:
    "AddClient tv (Batch_ClientId req) ip (Some s) (clientMng sv) (mem sv) = Inr ((code, cl'), cm, m)"
    "server_ok (sv\<lparr>clientMng := cm, mem := m\<rparr>) logs T" "client_frame sv (sv\<lparr>clientMng := cm, mem := m\<rparr>)"
    "code = ExecuteSuccess \<and> (\<exists>r. cl' = Some r \<and> r < length (clientObjs m) \<and> clientId (clientObjs m ! r) = Batch_ClientId req) \<or>
     code = ExceedMaxClient \<and> cl' = None" by blast
  show ?thesis
    using A(4)
  proof (elim disjE exE conjE)
    fix r assume "code = ExecuteSuccess" "cl' = Some r" "r < length (clientObjs m)" "clientId (clientObjs m ! r) = Batch_ClientId req"
    then show ?thesis using A(1-3) None by (simp add: InitializeClientBatch_def Let_def)
  next
    assume "code = ExceedMaxClient" "cl' = None"
    then show ?thesis using A(1-3) None
      by (simp add: InitializeClientBatch_def Let_def codes NewRateLimitBatchInitResponse_def)
  qed
next
  case (Some r)
  then show ?thesis using cl ok
    by (simp add: InitializeClientBatch_def client_frame_def NewRateLimitBatchInitResponse_def)
qed

section \<open>The initialisation requests\<close>

lemma rejected_init:
  assumes "checkInitRequest tv req ds = (Some resp, m, req')"
  shows "InitResp_Code resp \<noteq> ExecuteSuccess" "InitResp_Counters resp = []" "InitResp_Target resp = Init_Target req"
  using assms
  by (auto simp: checkInitRequest_def NewRateLimitInitResponse_def codes Let_def split: if_splits option.splits)

lemma rejected_request:
  "CheckRateLimitInitRequest tv req ds = (Some resp, m, req') \<Longrightarrow>
     InitResp_Code resp \<noteq> ExecuteSuccess \<and> InitResp_Counters resp = []"
  "CheckRateLimitBatchInitRequest tv req ds = (Some resp, m, req') \<Longrightarrow>
     InitResp_Code resp \<noteq> ExecuteSuccess"
  using rejected_init
  by (auto simp: CheckRateLimitInitRequest_def CheckRateLimitBatchInitRequest_def NewRateLimitInitResponse_def codes
      split: if_splits)

lemma accepted_request:
  assumes "CheckRateLimitInitRequest tv req ds = (None, m, req') \<or> CheckRateLimitBatchInitRequest tv req ds = (None, m, req')"
    and "1 \<le> ds" "ds \<le> 10"
  shows "rules_ok req'" "Init_Totals req' = Init_Totals req" "Init_Target req' = Init_Target req"
    "Init_ClientId req' = Init_ClientId req"
proof -
  have c: "checkInitRequest tv req ds = (None, m, req')"
    using assms(1) by (auto simp: CheckRateLimitInitRequest_def CheckRateLimitBatchInitRequest_def split: if_splits)
  from checkInitRequest_ok [OF c assms(2,3)] show "rules_ok req'" "Init_Totals req' = Init_Totals req"
    "Init_Target req' = Init_Target req" "Init_ClientId req' = Init_ClientId req" by auto
qed

lemma rule_keys_same:
  assumes "Init_Totals req' = Init_Totals req" "Init_Target req' = Init_Target req"
  shows "rule_keys sv req' idx qcs = rule_keys sv req idx qcs"
  using assms by (simp add: rule_keys_def ident_of_def)

lemma rule_keys_mono:
  assumes "rule_keys sv req idx qcs" "same_frame sv sv'"
  shows "rule_keys sv' req idx qcs"
  using assms unfolding rule_keys_def same_frame_def by metis

definition counter_ref_ok :: "Server \<Rightarrow> nat option \<Rightarrow> bool" where
  "counter_ref_ok sv c \<longleftrightarrow> (\<forall>q. c = Some q \<longrightarrow> q < length (counterObjs (mem sv)))"

lemma counter_ref_ok_iff: "counter_ref_ok sv c \<longleftrightarrow> c = None \<or> (\<exists>q. c = Some q \<and> q < length (counterObjs (mem sv)))"
  by (cases c) (auto simp: counter_ref_ok_def)

lemma config_slide: "server_ok sv logs T \<Longrightarrow> 1 \<le> SlideCount (cfg sv) \<and> SlideCount (cfg sv) \<le> 10"
  by (drule server_okD(1)) (simp add: config_ok_def)

lemma InitializeQuota_ok:
  assumes ok: "server_ok sv logs T" and r: "r < length (clientObjs (mem sv))"
    and tv: "clock_ok tv" "T \<le> CurrentMillisecond tv"
  shows "\<exists>resp cC sv' logs'. InitializeQuota tv (Some r) req sv = Inr ((resp, cC), sv') \<and>
    server_ok sv' logs' (CurrentMillisecond tv) \<and> same_frame sv sv' \<and> counter_ref_ok sv' cC \<and>
    (if InitResp_Code resp = ExecuteSuccess
     then InitResp_ClientKey resp = clientKey (clientObjs (mem sv) ! r) \<and>
       length (InitResp_Counters resp) = length (Init_Totals req) \<and> rule_keys sv' req 0 (InitResp_Counters resp)
     else InitResp_Counters resp = [])"
proof (cases "CheckRateLimitInitRequest tv req (SlideCount (cfg sv))")
  case (fields e m req')
  show ?thesis
  proof (cases e)
    case (Some resp)
    then show ?thesis
      using fields rejected_request(1) [of tv req "SlideCount (cfg sv)" resp m req'] server_ok_time [OF ok tv(2)]
      by (auto simp: InitializeQuota_def counter_ref_ok_def)
  next
    case None
    note A = accepted_request [OF disjI1 [OF fields [unfolded None]] conjunct1 [OF config_slide [OF ok]]
        conjunct2 [OF config_slide [OF ok]]]
    obtain code qcs cC sv' logs' where I:
      "initCounters tv (Some r) req' (mul64 2 m) 0 (Init_Totals req') None sv = Inr ((code, qcs, cC), sv')"
      "server_ok sv' logs' (CurrentMillisecond tv)" "same_frame sv sv'" "rule_keys sv' req' 0 qcs"
      "code = ExecuteSuccess \<and> length qcs = length (Init_Totals req') \<or> code = ExceedMaxCounter"
      "counter_ref_ok sv' cC"
      using initCounters_ok [OF ok A(1) _ _ r tv, of "Init_Totals req'" 0 None "mul64 2 m"]
      unfolding counter_ref_ok_iff by auto
    have r': "r < length (clientObjs (mem sv'))" "clientObjs (mem sv') = clientObjs (mem sv)"
      using I(3) r by (simp_all add: same_frame_def)
    have keys: "rule_keys sv' req 0 qcs" using I(4) rule_keys_same [OF A(2,3)] by simp
    show ?thesis
      using I(5)
    proof
      assume "code = ExecuteSuccess \<and> length qcs = length (Init_Totals req')"
      then show ?thesis using fields None I r' keys A(2)
        by (auto simp: InitializeQuota_def Let_def NewRateLimitInitResponse_def)
    next
      assume "code = ExceedMaxCounter"
      then show ?thesis using fields None I
        by (auto simp: InitializeQuota_def Let_def NewRateLimitInitResponse_def codes)
    qed
  qed
qed

text \<open>The labels of one entry of a batch.\<close>

definition with_label :: "string \<Rightarrow> RateLimitInitRequest \<Rightarrow> RateLimitInitRequest" where
  "with_label l req = req\<lparr>Init_Target := map_option (\<lambda>t. t\<lparr>Target_Labels := l\<rparr>) (Init_Target req)\<rparr>"

lemma with_label_simps [simp]:
  "Init_Totals (with_label l req) = Init_Totals req"
  "with_label l (with_label l' req) = with_label l req"
  by (cases "Init_Target req"; simp add: with_label_def)+

lemma rules_ok_label: "rules_ok (with_label l req) \<longleftrightarrow> rules_ok req"
  by (cases "Init_Target req") (simp_all add: with_label_def rules_ok_def GetService_def GetNamespace_def)

lemma setLabels_ok: "rules_ok req \<Longrightarrow> setLabels l req = Inr (with_label l req)"
  by (cases "Init_Target req") (simp_all add: setLabels_def with_label_def rules_ok_def)

lemma ident_of_label: "Init_Target req \<noteq> None \<Longrightarrow> id_Labels (ident_of (with_label l req) i) = l"
  by (cases "Init_Target req") (simp_all add: ident_of_def with_label_def GetLabels_def)

definition label_keys :: "Server \<Rightarrow> RateLimitInitRequest \<Rightarrow> string list \<Rightarrow> LabeledQuotaCounter list \<Rightarrow> bool" where
  "label_keys sv req labels lqcs \<longleftrightarrow>
     list_all2 (\<lambda>l q. LQC_Labels q = l \<and> rule_keys sv (with_label l req) 0 (LQC_Counters q)) labels lqcs"

lemma label_keys_mono: "label_keys sv req labels lqcs \<Longrightarrow> same_frame sv sv' \<Longrightarrow> label_keys sv' req labels lqcs"
  unfolding label_keys_def by (erule list_all2_mono) (auto intro: rule_keys_mono)

definition all_rules :: "RateLimitInitRequest \<Rightarrow> LabeledQuotaCounter list \<Rightarrow> bool" where
  "all_rules req lqcs \<longleftrightarrow> (\<forall>q \<in> set lqcs. length (LQC_Counters q) = length (Init_Totals req))"

lemma initLabels_ok:
  assumes "server_ok sv logs T" "rules_ok req" "r < length (clientObjs (mem sv))"
    and "clock_ok tv" "T \<le> CurrentMillisecond tv" "counter_ref_ok sv cC"
  shows "\<exists>code lqcs cC' sv' logs'. initLabels tv (Some r) req expire labels code0 cC sv = Inr ((code, lqcs, cC'), sv') \<and>
    server_ok sv' logs' (CurrentMillisecond tv) \<and> same_frame sv sv' \<and> label_keys sv' req labels lqcs \<and>
    (code = code0 \<and> all_rules req lqcs \<or> code = ExceedMaxCounter) \<and> counter_ref_ok sv' cC'"
  using assms
proof (induction labels arbitrary: req code0 cC sv logs T)
  case Nil
  have "server_ok sv logs (CurrentMillisecond tv)" using server_ok_time Nil.prems(1,5) .
  then show ?case using Nil.prems(6) by (auto simp: label_keys_def all_rules_def)
next
  case (Cons l labels)
  let ?req = "with_label l req" and ?t = "CurrentMillisecond tv"
  have ok1: "rules_ok ?req" using Cons.prems(2) by (simp add: rules_ok_label)
  obtain code qcs c1 sv1 logs1 where I:
    "initCounters tv (Some r) ?req expire 0 (Init_Totals ?req) cC sv = Inr ((code, qcs, c1), sv1)"
    "server_ok sv1 logs1 ?t" "same_frame sv sv1" "rule_keys sv1 ?req 0 qcs"
    "code = ExecuteSuccess \<and> length qcs = length (Init_Totals ?req) \<or> code = ExceedMaxCounter"
    "counter_ref_ok sv1 c1"
    using initCounters_ok [OF Cons.prems(1) ok1 _ _ Cons.prems(3-5), of "Init_Totals ?req" 0 cC expire] Cons.prems(6)
    unfolding counter_ref_ok_iff by auto
  let ?code1 = "if code \<noteq> ExecuteSuccess then code else code0"
  have r1: "r < length (clientObjs (mem sv1))" using I(3) Cons.prems(3) by (simp add: same_frame_def)
  obtain code2 lqcs c2 sv2 logs2 where J:
    "initLabels tv (Some r) ?req expire labels ?code1 c1 sv1 = Inr ((code2, lqcs, c2), sv2)"
    "server_ok sv2 logs2 ?t" "same_frame sv1 sv2" "label_keys sv2 ?req labels lqcs"
    "code2 = ?code1 \<and> all_rules ?req lqcs \<or> code2 = ExceedMaxCounter" "counter_ref_ok sv2 c2"
    using Cons.IH [OF I(2) ok1 r1 Cons.prems(4) order_refl I(6), of ?code1] by blast
  have "label_keys sv2 req (l # labels) (\<lparr>LQC_Labels = l, LQC_Counters = qcs\<rparr> # lqcs)"
    using J(4) rule_keys_mono [OF I(4) J(3)] by (simp add: label_keys_def)
  moreover have "same_frame sv sv2" using same_frame_trans I(3) J(3) .
  moreover have "code2 = code0 \<and> all_rules req (\<lparr>LQC_Labels = l, LQC_Counters = qcs\<rparr> # lqcs) \<or> code2 = ExceedMaxCounter"
    using J(5) I(5) by (auto simp: all_rules_def codes split: if_splits)
  moreover have "initLabels tv (Some r) req expire (l # labels) code0 cC sv =
      Inr ((code2, \<lparr>LQC_Labels = l, LQC_Counters = qcs\<rparr> # lqcs, c2), sv2)"
    using setLabels_ok [OF Cons.prems(2)] I(1) J(1) by (simp add: Let_def)
  ultimately show ?case using J(2,6) by blast
qed

text \<open>The entries of a batch.\<close>

definition entry_ok :: "Server \<Rightarrow> RateLimitInitRequest \<Rightarrow> BatchInitResult \<Rightarrow> bool" where
  "entry_ok sv q res \<longleftrightarrow> (Result_Code res = ExecuteSuccess \<longrightarrow>
     label_keys sv q (GetLabelsList (Init_Target q)) (Result_Counters res) \<and> all_rules q (Result_Counters res))"

lemma entry_ok_mono: "entry_ok sv q res \<Longrightarrow> same_frame sv sv' \<Longrightarrow> entry_ok sv' q res"
  by (auto simp: entry_ok_def intro: label_keys_mono)

lemma entry_ok_same:
  assumes "Init_Totals req' = Init_Totals req" "Init_Target req' = Init_Target req"
  shows "label_keys sv req' ls lqcs = label_keys sv req ls lqcs" "all_rules req' lqcs = all_rules req lqcs"
proof -
  have t: "Init_Target (with_label l req') = Init_Target (with_label l req)" for l by (simp add: with_label_def assms(2))
  have "rule_keys sv (with_label l req') 0 q = rule_keys sv (with_label l req) 0 q" for l q
    by (rule rule_keys_same) (simp_all add: t assms(1))
  then show "label_keys sv req' ls lqcs = label_keys sv req ls lqcs" by (simp add: label_keys_def)
  show "all_rules req' lqcs = all_rules req lqcs" by (simp add: all_rules_def assms(1))
qed

lemma batchEntries_ok:
  assumes "server_ok sv logs T" "r < length (clientObjs (mem sv))"
    and "clock_ok tv" "T \<le> CurrentMillisecond tv" "counter_ref_ok sv cC"
  shows "\<exists>results cC' sv' logs'. batchEntries tv (Some r) reqs cC sv = Inr ((results, cC'), sv') \<and>
    server_ok sv' logs' (CurrentMillisecond tv) \<and> same_frame sv sv' \<and> list_all2 (entry_ok sv') reqs results \<and>
    counter_ref_ok sv' cC'"
  using assms
proof (induction reqs arbitrary: cC sv logs T)
  case Nil
  have "server_ok sv logs (CurrentMillisecond tv)" using server_ok_time Nil.prems(1,4) .
  then show ?case using Nil.prems(5) by auto
next
  case (Cons q reqs)
  let ?t = "CurrentMillisecond tv"
  obtain e m q' where chk: "CheckRateLimitBatchInitRequest tv q (SlideCount (cfg sv)) = (e, m, q')"
    by (cases "CheckRateLimitBatchInitRequest tv q (SlideCount (cfg sv))")
  have cons: ?case if "batchEntries tv (Some r) (q # reqs) cC sv =
      bindR (batchEntries tv (Some r) reqs c1 sv1) (\<lambda>((results, c), sv'). Inr ((res # results, c), sv'))"
    "server_ok sv1 logs1 ?t" "same_frame sv sv1" "counter_ref_ok sv1 c1" "entry_ok sv1 q res" for c1 sv1 logs1 res
  proof -
    have r1: "r < length (clientObjs (mem sv1))" using that(3) Cons.prems(2) by (simp add: same_frame_def)
    from Cons.IH [OF that(2) r1 Cons.prems(3) order_refl that(4)] obtain results cC' sv' logs' where
      "batchEntries tv (Some r) reqs c1 sv1 = Inr ((results, cC'), sv')" "server_ok sv' logs' ?t"
      "same_frame sv1 sv'" "list_all2 (entry_ok sv') reqs results" "counter_ref_ok sv' cC'" by blast
    then show ?thesis
      using that(1) same_frame_trans [OF that(3)] entry_ok_mono [OF that(5)]
      by (auto simp del: batchEntries.simps)
  qed
  show ?case
  proof (cases e)
    case (Some resp)
    have "InitResp_Code resp \<noteq> ExecuteSuccess"
      using rejected_request(2) [OF chk [unfolded Some]] .
    then have "entry_ok sv q \<lparr>Result_Code = InitResp_Code resp, Result_SlideCount = Init_SlideCount q,
        Result_Target = Init_Target q', Result_Counters = []\<rparr>" by (simp add: entry_ok_def)
    then show ?thesis
      using cons [of cC sv _ logs] chk Some server_ok_time [OF Cons.prems(1,4)] Cons.prems(5) by simp
  next
    case None
    note A = accepted_request [OF disjI2 [OF chk [unfolded None]] conjunct1 [OF config_slide [OF Cons.prems(1)]]
        conjunct2 [OF config_slide [OF Cons.prems(1)]]]
    obtain code lqcs c1 sv1 logs1 where I:
      "initLabels tv (Some r) q' (mul64 2 m) (GetLabelsList (Init_Target q')) ExecuteSuccess cC sv = Inr ((code, lqcs, c1), sv1)"
      "server_ok sv1 logs1 ?t" "same_frame sv sv1" "label_keys sv1 q' (GetLabelsList (Init_Target q')) lqcs"
      "code = ExecuteSuccess \<and> all_rules q' lqcs \<or> code = ExceedMaxCounter" "counter_ref_ok sv1 c1"
      using initLabels_ok [OF Cons.prems(1) A(1) Cons.prems(2-5), of "mul64 2 m" "GetLabelsList (Init_Target q')" ExecuteSuccess]
      by blast
    let ?res = "\<lparr>Result_Code = code, Result_SlideCount = Init_SlideCount q,
        Result_Target = Some \<lparr>Target_Namespace = GetNamespace (Init_Target q'),
           Target_Service = GetService (Init_Target q'), Target_Labels = [], Target_LabelsList = []\<rparr>,
        Result_Counters = lqcs\<rparr>"
    have "entry_ok sv1 q ?res"
      using I(4,5) entry_ok_same [OF A(2,3)] A(3) by (auto simp: entry_ok_def codes)
    then show ?thesis using cons [of c1 sv1 ?res logs1] chk None I by simp
  qed
qed

lemma BatchInitializeQuota_ok:
  assumes ok: "server_ok sv logs T" and r: "r < length (clientObjs (mem sv))"
    and tv: "clock_ok tv" "T \<le> CurrentMillisecond tv"
  shows "\<exists>resp cC sv' logs'. BatchInitializeQuota tv (Some r) req sv = Inr ((resp, cC), sv') \<and>
    server_ok sv' logs' (CurrentMillisecond tv) \<and> same_frame sv sv' \<and> counter_ref_ok sv' cC \<and>
    (BatchResp_Code resp = ExecuteSuccess \<longrightarrow> BatchResp_ClientKey resp = clientKey (clientObjs (mem sv) ! r) \<and>
       list_all2 (entry_ok sv') (Batch_Request req) (BatchResp_Result resp))"
proof (cases "Batch_Request req = [] \<or> Batch_ClientId req = []")
  case True
  then show ?thesis using server_ok_time [OF ok tv(2)]
    by (auto simp: BatchInitializeQuota_def NewRateLimitBatchInitResponse_def codes counter_ref_ok_def)
next
  case False
  have "counter_ref_ok sv None" by (simp add: counter_ref_ok_def)
  from batchEntries_ok [OF ok r tv this, of "Batch_Request req"] False r show ?thesis
    by (auto simp: BatchInitializeQuota_def NewRateLimitBatchInitResponse_def)
qed

section \<open>The report request\<close>

lemma AcquireQuota_ok:
  fixes ts :: int
  assumes ok: "server_ok sv logs T" and t: "T \<le> t" "t < 2 ^ 62" "i64 (start sdiv 1000) = t"
    and cl: "cl = Some r" "r < length (clientObjs (mem sv))"
  shows "\<exists>resp c sv' col' logs'. AcquireQuota tv cl start req sv col = Inr ((resp, c), sv', col') \<and>
    server_ok sv' logs' t \<and> acquire_frame sv sv' \<and> counter_ref_ok sv' c \<and>
    (case CheckRateLimitReportRequest tv req of
       Some e \<Rightarrow> resp = e \<and> sv' = sv
     | None \<Rightarrow> acquire_spec (cfg sv) (looked sv) (stored sv) (Report_Timestamp (the req)) t logs (QuotaUses (the req)) =
         ((ReportResp_Code (Timed_Response resp),
           map (\<lambda>l. (Left_CounterKey l, Left_Left l)) (ReportResp_QuotaLefts (Timed_Response resp))), logs'))"
proof (cases "CheckRateLimitReportRequest tv req")
  case (Some e)
  then show ?thesis using server_ok_time [OF ok t(1)] by (auto simp: AcquireQuota_def counter_ref_ok_def)
next
  case None
  then obtain q where q: "req = Some q" by (auto simp: CheckRateLimitReportRequest_None)
  obtain code lefts c1 sv' col' logs' where A:
    "acquireUses tv cl (Report_Timestamp q) start (QuotaUses q) None sv col = Inr ((code, lefts, c1), sv', col')"
    "server_ok sv' logs' t" "acquire_frame sv sv'"
    "acquire_spec (cfg sv) (looked sv) (stored sv) (Report_Timestamp q) t logs (QuotaUses q) = ((code, answers sv' lefts), logs')"
    "counter_ref_ok sv' c1"
    using acquireUses_ok [OF ok t cl, of None tv "Report_Timestamp q" "QuotaUses q" col]
    unfolding counter_ref_ok_iff by blast
  then show ?thesis using None q
    by (auto simp: AcquireQuota_def NewRateLimitReportResponse_def Let_def answers_def o_def)
qed

end
