(* ===== verification/Service_Correct.thy ===== *)
theory Service_Correct
  imports Grpc_Service Server_Requests
begin

text \<open>
  The stream handler under the server invariant: a well-formed request on an open stream is
  handled without a panic and leaves the invariant, the other streams and the store of clients
  intact. A request is well formed when the message of its command is present and a report comes
  after an initialisation; the theorems of \<open>System\<close> show what happens otherwise.
\<close>

section \<open>Frames\<close>

lemma server_ok_mem:
  assumes "server_ok sv logs T" "clientObjs m = clientObjs (mem sv)" "counterObjs m = counterObjs (mem sv)"
    and "pushMgr m = pushMgr (mem sv)" "quotaLefts m = quotaLefts (mem sv)"
  shows "server_ok (sv\<lparr>mem := m\<rparr>) logs T"
  using assms by (simp add: server_ok_def manager_ok_def push_refs_def)

lemma server_ok_counter:
  assumes "server_ok sv logs T" "ref < length (counterObjs (mem sv))"
    and "counter_ok (clientObjs (mem sv)) c (fst (logs ref)) (snd (logs ref))"
    and "counterKey c = counterKey (counterObjs (mem sv) ! ref)" "cIdentifier c = cIdentifier (counterObjs (mem sv) ! ref)"
    and m: "clientObjs m = clientObjs (mem sv)" "counterObjs m = (counterObjs (mem sv))[ref := c]"
      "push_ok (pushMgr m)" "push_refs m"
  shows "server_ok (sv\<lparr>mem := m\<rparr>) logs T"
proof -
  note S = server_okD [OF assms(1)]
  show ?thesis
    using S(1,2,4,9) m table_ok_update [OF S(7) assms(4,5)] objs_ok_same_log [OF S(8) assms(3,2)]
    by (simp add: server_ok_def manager_ok_def)
qed

text \<open>A client that was valid stays valid, under the same id.\<close>

definition conn_ok :: "Server \<Rightarrow> Conn \<Rightarrow> bool" where
  "conn_ok sv conn \<longleftrightarrow> (\<forall>r. connClient conn = Some r \<longrightarrow> r < length (clientObjs (mem sv)))"

definition sv_frame :: "Server \<Rightarrow> Server \<Rightarrow> bool" where
  "sv_frame sv sv' \<longleftrightarrow> cfg sv' = cfg sv \<and> same_clients (clientObjs (mem sv)) (clientObjs (mem sv')) \<and>
     (clientIdx (clientMng sv') = clientIdx (clientMng sv) \<or> clientIdx (clientMng sv') = clientIdx (clientMng sv) + 1)"

lemma sv_frame_refl [simp]: "sv_frame sv sv"
  by (simp add: sv_frame_def)

lemma conn_ok_mono: "conn_ok sv conn \<Longrightarrow> sv_frame sv sv' \<Longrightarrow> conn_ok sv' conn"
  by (auto simp: conn_ok_def sv_frame_def same_clients_def)

lemma sv_frame_of:
  "same_frame sv sv' \<Longrightarrow> sv_frame sv sv'" "acquire_frame sv sv' \<Longrightarrow> sv_frame sv sv'"
  "client_frame sv sv' \<Longrightarrow> sv_frame sv sv'"
  by (simp_all add: sv_frame_def same_frame_def acquire_frame_def client_frame_def)

lemma client_then_same:
  "client_frame a b \<Longrightarrow> same_frame b c \<Longrightarrow> sv_frame a c"
  by (auto simp: sv_frame_def same_frame_def client_frame_def)

section \<open>Dispatch\<close>

definition req_ok :: "Conn \<Rightarrow> RateLimitRequest \<Rightarrow> bool" where
  "req_ok conn req \<longleftrightarrow>
     (Req_Cmd req = INIT \<longrightarrow> Req_Init req \<noteq> None) \<and> (Req_Cmd req = BATCH_INIT \<longrightarrow> Req_BatchInit req \<noteq> None) \<and>
     (Req_Cmd req = ACQUIRE \<or> Req_Cmd req = BATCH_ACQUIRE \<longrightarrow> connClient conn \<noteq> None)"

definition clock_from :: "int \<Rightarrow> Clock \<Rightarrow> bool" where
  "clock_from T ck \<longleftrightarrow> clock_ok (startTv ck) \<and> clock_ok (workTv ck) \<and> clock_ok (endTv ck) \<and>
     T \<le> CurrentMillisecond (startTv ck) \<and> CurrentMillisecond (startTv ck) \<le> CurrentMillisecond (workTv ck) \<and>
     CurrentMillisecond (workTv ck) \<le> CurrentMillisecond (endTv ck)"

lemma start_milli:
  assumes "clock_ok tv"
  shows "i64 (CurrentMicrosecond tv sdiv 1000) = CurrentMillisecond tv"
proof -
  have "CurrentMicrosecond tv sdiv 1000 = CurrentMicrosecond tv div 1000"
    using clock_bounds(3) [OF assms] by (cases "CurrentMicrosecond tv = 0") (simp_all add: signed_divide_int_def)
  then show ?thesis
    using CurrentMillisecond_div [OF assms] clock_bounds(1,2) [OF assms] by (simp add: in64_def)
qed

lemma dispatch_ok:
  assumes ok: "server_ok sv logs T" and room: "idx_room (clientMng sv)" and conn: "conn_ok sv conn"
    and req: "req_ok conn req" and ck: "clock_from T ck"
  shows "\<exists>resp code counter conn' sv' logs'. dispatch ck req conn sv = Inr ((resp, code, counter), conn', sv') \<and>
    server_ok sv' logs' (CurrentMillisecond (workTv ck)) \<and> sv_frame sv sv' \<and> counter_ref_ok sv' counter \<and>
    conn_ok sv' conn' \<and> connCtx conn' = connCtx conn"
proof -
  let ?t = "CurrentMillisecond (startTv ck)" and ?w = "CurrentMillisecond (workTv ck)"
  have C: "clock_ok (startTv ck)" "clock_ok (workTv ck)" "T \<le> ?t" "?t \<le> ?w" "T \<le> ?w"
    using ck by (auto simp: clock_from_def)
  have cl: "connClient conn = None \<or> (\<exists>r. connClient conn = Some r \<and> r < length (clientObjs (mem sv)))"
    using conn by (cases "connClient conn") (auto simp: conn_ok_def)
  consider (acquire) "Req_Cmd req = ACQUIRE \<or> Req_Cmd req = BATCH_ACQUIRE" | (init) i where "Req_Cmd req = INIT" "Req_Init req = Some i"
    | (batch) b where "Req_Cmd req = BATCH_INIT" "Req_BatchInit req = Some b"
    | (other) "Req_Cmd req \<noteq> ACQUIRE" "Req_Cmd req \<noteq> BATCH_ACQUIRE" "Req_Cmd req \<noteq> INIT" "Req_Cmd req \<noteq> BATCH_INIT"
    using req by (cases "Req_Cmd req") (auto simp: req_ok_def)
  then show ?thesis
  proof cases
    case acquire
    then obtain r where r: "connClient conn = Some r" "r < length (clientObjs (mem sv))"
      using req conn by (auto simp: req_ok_def conn_ok_def)
    obtain timed c sv' col' logs' where A: "AcquireQuota (workTv ck) (connClient conn) (CurrentMicrosecond (startTv ck)) (Req_Report req)
        sv (connCollector conn) = Inr ((timed, c), sv', col')"
      "server_ok sv' logs' ?t" "acquire_frame sv sv'" "counter_ref_ok sv' c"
      using AcquireQuota_ok [OF ok C(3) clock_scaled(2) [OF C(1)] start_milli [OF C(1)] r, of "workTv ck" "Req_Report req" "connCollector conn"]
      by blast
    have "conn_ok sv' (conn\<lparr>connCollector := col'\<rparr>)"
      using conn_ok_mono [OF conn sv_frame_of(2) [OF A(3)]] by (simp add: conn_ok_def)
    then show ?thesis
      using A(1,4) acquire server_ok_time [OF A(2) C(4)] sv_frame_of(2) [OF A(3)]
      by (auto simp: dispatch_def Let_def)
  next
    case init
    obtain r cl' sv1 where A: "InitializeClient (workTv ck) (Some i) (connClient conn) (connIP conn) (connCtx conn) sv = Inr ((r, cl'), sv1)"
      "server_ok sv1 logs T" "client_frame sv sv1" "connClient conn \<noteq> None \<longrightarrow> sv1 = sv \<and> cl' = connClient conn"
      "case r of None \<Rightarrow> \<exists>q. cl' = Some q \<and> q < length (clientObjs (mem sv1)) \<and> clientId (clientObjs (mem sv1) ! q) = Init_ClientId i
       | Some x \<Rightarrow> if connClient conn = None then cl' = None \<and> InitResp_Code x = ExceedMaxClient
                 else InitResp_Code x = ExceedMaxClientOneStream"
      using InitializeClient_ok [OF ok room cl, of "workTv ck" i "connIP conn" "connCtx conn"] by blast
    show ?thesis
    proof (cases r)
      case None
      then obtain q where q: "cl' = Some q" "q < length (clientObjs (mem sv1))" using A(5) by auto
      obtain ir c sv2 logs2 where B: "InitializeQuota (workTv ck) (Some q) i sv1 = Inr ((ir, c), sv2)"
        "server_ok sv2 logs2 ?w" "same_frame sv1 sv2" "counter_ref_ok sv2 c"
        using InitializeQuota_ok [OF A(2) q(2) C(2,5), of i] by blast
      have "conn_ok sv2 (conn\<lparr>connClient := Some q\<rparr>)" using q(2) B(3) by (simp add: conn_ok_def same_frame_def)
      then show ?thesis
        using A(1) B init None q(1) client_then_same [OF A(3) B(3)] by (auto simp: dispatch_def Let_def)
    next
      case (Some x)
      have "conn_ok sv1 (conn\<lparr>connClient := cl'\<rparr>)"
        using A(4,5) Some cl by (cases "connClient conn") (auto simp: conn_ok_def)
      then show ?thesis
        using A(1) init Some server_ok_time [OF A(2) C(5)] sv_frame_of(3) [OF A(3)]
        by (auto simp: dispatch_def Let_def counter_ref_ok_def)
    qed
  next
    case batch
    obtain r cl' sv1 where A: "InitializeClientBatch (workTv ck) (Some b) (connClient conn) (connIP conn) (connCtx conn) sv = Inr ((r, cl'), sv1)"
      "server_ok sv1 logs T" "client_frame sv sv1" "connClient conn \<noteq> None \<longrightarrow> sv1 = sv \<and> cl' = connClient conn"
      "case r of None \<Rightarrow> \<exists>q. cl' = Some q \<and> q < length (clientObjs (mem sv1)) \<and> clientId (clientObjs (mem sv1) ! q) = Batch_ClientId b
       | Some x \<Rightarrow> if connClient conn = None then cl' = None \<and> BatchResp_Code x = ExceedMaxClient
                 else BatchResp_Code x = ExceedMaxClientOneStream"
      using InitializeClientBatch_ok [OF ok room cl, of "workTv ck" b "connIP conn" "connCtx conn"] by blast
    show ?thesis
    proof (cases r)
      case None
      then obtain q where q: "cl' = Some q" "q < length (clientObjs (mem sv1))" using A(5) by auto
      obtain ir c sv2 logs2 where B: "BatchInitializeQuota (workTv ck) (Some q) b sv1 = Inr ((ir, c), sv2)"
        "server_ok sv2 logs2 ?w" "same_frame sv1 sv2" "counter_ref_ok sv2 c"
        using BatchInitializeQuota_ok [OF A(2) q(2) C(2,5), of b] by blast
      have "conn_ok sv2 (conn\<lparr>connClient := Some q\<rparr>)" using q(2) B(3) by (simp add: conn_ok_def same_frame_def)
      then show ?thesis
        using A(1) B batch None q(1) client_then_same [OF A(3) B(3)] by (auto simp: dispatch_def Let_def)
    next
      case (Some x)
      have "conn_ok sv1 (conn\<lparr>connClient := cl'\<rparr>)"
        using A(4,5) Some cl by (cases "connClient conn") (auto simp: conn_ok_def)
      then show ?thesis
        using A(1) batch Some server_ok_time [OF A(2) C(5)] sv_frame_of(3) [OF A(3)]
        by (auto simp: dispatch_def Let_def counter_ref_ok_def)
    qed
  next
    case other
    then show ?thesis using server_ok_time [OF ok C(5)] conn
      by (auto simp: dispatch_def Let_def counter_ref_ok_def)
  qed
qed

section \<open>After the response\<close>

lemma UpdateClientSendTime_ok:
  assumes "counter_ok (clientObjs m) c L cur" "cl = Some r" "r < length (clientObjs m)"
  shows "\<exists>c'. UpdateClientSendTime cl t c m = Inr c' \<and> counter_ok (clientObjs m) c' L cur \<and>
    counterKey c' = counterKey c \<and> cIdentifier c' = cIdentifier c"
proof (cases "map_of (clientSenders (counterClients c)) (clientKey (clientObjs m ! r))")
  case None
  then show ?thesis using assms by (simp add: UpdateClientSendTime_def Let_def)
next
  case (Some st)
  let ?cc = "counterClients c" and ?k = "clientKey (clientObjs m ! r)"
  let ?st = "snd (UpdateLastSendTime st t)"
  have cc: "clients_ok (clientObjs m) ?cc" using assms(1) by (simp add: counter_ok_def)
  have "(?k, st) \<in> set (clientSenders ?cc)" using Some by (rule map_of_SomeD)
  then have "sender_ok (clientObjs m) (?k, st)" using cc unfolding clients_ok_def by blast
  then have "sender_ok (clientObjs m) (?k, ?st)" by (simp add: sender_ok_def UpdateLastSendTime_max)
  from clients_ok_senders [OF cc refl this]
  have "clients_ok (clientObjs m) (?cc\<lparr>clientSenders := AList.update ?k ?st (clientSenders ?cc)\<rparr>)"
    using cc by (simp add: clients_ok_def)
  then show ?thesis
    using assms Some by (auto simp: UpdateClientSendTime_def Let_def counter_ok_def effectiveMax_def)
qed

lemma noteSendTime_ok:
  assumes ok: "server_ok sv logs T" and cl: "\<forall>r. cl = Some r \<longrightarrow> r < length (clientObjs (mem sv))"
    and c: "counter_ref_ok sv counter"
  shows "\<exists>m'. noteSendTime cl counter t (mem sv) = Inr m' \<and> server_ok (sv\<lparr>mem := m'\<rparr>) logs T \<and>
    clientObjs m' = clientObjs (mem sv) \<and> length (counterObjs m') = length (counterObjs (mem sv)) \<and> outbox m' = outbox (mem sv)"
proof (cases "cl = None \<or> counter = None")
  case True
  then show ?thesis using ok by (simp add: noteSendTime_def)
next
  case False
  then obtain r ref where r: "cl = Some r" "counter = Some ref" by auto
  then have len: "r < length (clientObjs (mem sv))" "ref < length (counterObjs (mem sv))"
    using cl c by (simp_all add: counter_ref_ok_def)
  note S = server_okD [OF ok]
  have cok: "counter_ok (clientObjs (mem sv)) (counterObjs (mem sv) ! ref) (fst (logs ref)) (snd (logs ref))"
    using objs_okD [OF S(8) len(2)] by simp
  obtain c' where U: "UpdateClientSendTime cl t (counterObjs (mem sv) ! ref) (mem sv) = Inr c'"
    "counter_ok (clientObjs (mem sv)) c' (fst (logs ref)) (snd (logs ref))"
    "counterKey c' = counterKey (counterObjs (mem sv) ! ref)" "cIdentifier c' = cIdentifier (counterObjs (mem sv) ! ref)"
    using UpdateClientSendTime_ok [OF cok r(1) len(1)] by blast
  have "server_ok (sv\<lparr>mem := setCounter ref c' (mem sv)\<rparr>) logs T"
    by (rule server_ok_counter [OF ok len(2) U(2-4)])
      (use S(5,6) push_refs_mono [OF S(6), of "setCounter ref c' (mem sv)"] in \<open>simp_all add: setCounter_def\<close>)
  then show ?thesis using U(1) r len by (simp add: noteSendTime_def setCounter_def)
qed

lemma handleRequest_ok:
  assumes ok: "server_ok (coreServer s) logs T" and room: "idx_room (clientMng (coreServer s))"
    and conn: "conn_ok (coreServer s) conn" and req: "req_ok conn req" and ck: "clock_from T ck"
  shows "\<exists>out conn' s' logs'. handleRequest fails ck req conn s = Inr (out, conn', s') \<and>
    server_ok (coreServer s') logs' (CurrentMillisecond (endTv ck)) \<and> sv_frame (coreServer s) (coreServer s') \<and>
    conn_ok (coreServer s') conn' \<and> connCtx conn' = connCtx conn"
proof -
  obtain resp code counter conn' sv' logs' where D: "dispatch ck req conn (coreServer s) = Inr ((resp, code, counter), conn', sv')"
    "server_ok sv' logs' (CurrentMillisecond (workTv ck))" "sv_frame (coreServer s) sv'" "counter_ref_ok sv' counter"
    "conn_ok sv' conn'" "connCtx conn' = connCtx conn"
    using dispatch_ok [OF ok room conn req ck] by blast
  let ?m1 = "(mem sv')\<lparr>outbox := outbox (mem sv') @ [(connCtx conn, resp)]\<rparr>"
  let ?sv1 = "sv'\<lparr>mem := ?m1\<rparr>"
  have ok1: "server_ok ?sv1 logs' (CurrentMillisecond (endTv ck))"
    by (rule server_ok_time [OF server_ok_mem [OF D(2)]]) (use ck in \<open>auto simp: clock_from_def\<close>)
  have "\<forall>r. connClient conn' = Some r \<longrightarrow> r < length (clientObjs (mem ?sv1))" using D(5) by (simp add: conn_ok_def)
  from noteSendTime_ok [OF ok1 this, of counter "CurrentMicrosecond (endTv ck)"] D(4)
  obtain m2 where N: "noteSendTime (connClient conn') counter (CurrentMicrosecond (endTv ck)) ?m1 = Inr m2"
    "server_ok (?sv1\<lparr>mem := m2\<rparr>) logs' (CurrentMillisecond (endTv ck))" "clientObjs m2 = clientObjs (mem sv')"
    "length (counterObjs m2) = length (counterObjs (mem sv'))"
    by (auto simp: counter_ref_ok_def)
  obtain dur where dur: "counterDuration counter m2 = Inr dur"
    using D(4) N(4) by (cases counter) (simp_all add: counterDuration_def counter_ref_ok_def)
  have ok2: "server_ok (sv'\<lparr>mem := AddAPICall call m2\<rparr>) logs' (CurrentMillisecond (endTv ck))" for call
    using server_ok_mem [OF N(2), of "AddAPICall call m2"] by (simp add: AddAPICall_def)
  have frame: "sv_frame (coreServer s) (sv'\<lparr>mem := AddAPICall call m2\<rparr>)" for call
    using D(3) N(3) by (simp add: sv_frame_def AddAPICall_def)
  have conn2: "conn_ok (sv'\<lparr>mem := AddAPICall call m2\<rparr>) conn'" for call
    using D(5) N(3) by (simp add: conn_ok_def AddAPICall_def)
  show ?thesis
    using D(1,6) N(1) dur ok2 frame conn2
    by (simp add: handleRequest_def Send_def Let_def) blast
qed

lemma CleanupClient_idx:
  "CleanupClient tv r sid cm m = Inr (cm', m') \<Longrightarrow> clientIdx cm' = clientIdx cm"
  by (auto simp: CleanupClient_def DelClient_def bindR_eq_Inr_iff Let_def case_prod_beta
      split: option.splits if_splits)

lemma postService_ok:
  assumes ok: "server_ok (coreServer s) logs T" and conn: "conn_ok (coreServer s) conn"
  shows "\<exists>s'. postService tv conn s = Inr s' \<and> server_ok (coreServer s') logs T \<and> sv_frame (coreServer s) (coreServer s') \<and>
    clientIdx (clientMng (coreServer s')) = clientIdx (clientMng (coreServer s))"
proof (cases "connClient conn")
  case None
  then show ?thesis using ok by (simp add: postService_def)
next
  case (Some r)
  let ?sv = "coreServer s"
  have r: "r < length (clientObjs (mem ?sv))" using Some conn by (simp add: conn_ok_def)
  note S = server_okD [OF ok]
  obtain cm h es where C: "CleanupClient tv r (ctxId (connCtx conn)) (clientMng ?sv) (mem ?sv) =
      Inr (cm, (mem ?sv)\<lparr>clientObjs := h, eventLog := eventLog (mem ?sv) @ es\<rparr>)"
    "clients_table cm h" "same_clients (clientObjs (mem ?sv)) h" "length h = length (clientObjs (mem ?sv))"
    using CleanupClient_ok [OF S(4) r, of tv "ctxId (connCtx conn)"] by blast
  let ?m = "(mem ?sv)\<lparr>clientObjs := h, eventLog := eventLog (mem ?sv) @ es\<rparr>"
  have ok1: "server_ok (?sv\<lparr>clientMng := cm, mem := ?m\<rparr>) logs T"
    by (rule server_ok_clients [OF ok]) (use C(2,3) in simp_all)
  have ok2: "server_ok (?sv\<lparr>clientMng := cm, mem := AddEventToLog e ?m\<rparr>) logs T" for e
    using server_ok_mem [OF ok1, of "AddEventToLog e ?m"] by (simp add: AddEventToLog_def)
  have idx: "clientIdx cm = clientIdx (clientMng ?sv)"
    using CleanupClient_idx [OF C(1)] .
  show ?thesis
    using Some C(1,3,4) ok2 idx by (simp add: postService_def onMem_def sv_frame_def Let_def)
qed

end
