(* ===== verification/System.thy ===== *)
theory System
  imports Service_Correct
begin

text \<open>
  The running server: the streams that are open, the clean-up ticker and the push workers take
  turns, one request, tick or push at a time. A run is a sequence of such steps whose clock does
  not go back. The invariant holds in every reachable state, and no step that starts from one
  panics, provided every request is well formed.
\<close>

section \<open>Steps\<close>

record Sys =
  svc :: RateLimitServiceV2
  conns :: "(nat \<times> Conn) list"

datatype Ev = Connect Timeval string string nat IPAddress | Request nat Clock RateLimitRequest
  | Disconnect Timeval nat | PurgeTick Timeval | PushRound Timeval nat

type_synonym transport = "StreamContext \<Rightarrow> RateLimitResponse \<Rightarrow> bool"

definition endStream :: "Timeval \<Rightarrow> nat \<Rightarrow> Conn \<Rightarrow> RateLimitServiceV2 \<Rightarrow> Sys \<Rightarrow> panic + Sys" where
  "endStream tv strm conn s y =
     bindR (postService tv conn s) (\<lambda>s'. Inr (y\<lparr>svc := s', conns := AList.delete strm (conns y)\<rparr>))"

text \<open>One round of a push worker: it takes a value from its channel and sends it.\<close>

definition pushRound :: "transport \<Rightarrow> Timeval \<Rightarrow> nat \<Rightarrow> SMem \<Rightarrow> panic + SMem" where
  "pushRound fails tv idx m =
     (if length (pushChannels (pushMgr m)) \<le> idx then Inr m
      else case receive idx (pushMgr m) of
             None \<Rightarrow> Inr m
           | Some (v, pm) \<Rightarrow>
               bindR (derefCounter m (Some (Counter v))) (\<lambda>c.
               bindR (PushMessage tv fails v c (m\<lparr>pushMgr := pm\<rparr>)) (\<lambda>(c', m').
                 Inr (setCounter (Counter v) c' m'))))"

definition exec :: "transport \<Rightarrow> Ev \<Rightarrow> Sys \<Rightarrow> panic + Sys" where
  "exec fails e y = (let s = svc y; sv = coreServer s in
     case e of
       Connect tv uuid cuuid strm ip \<Rightarrow>
         let (conn, s') = openStream tv uuid cuuid strm ip s
         in Inr (y\<lparr>svc := s', conns := AList.update strm conn (conns y)\<rparr>)
     | Request strm ck req \<Rightarrow>
         (case map_of (conns y) strm of
            None \<Rightarrow> Inr y
          | Some conn \<Rightarrow>
              bindR (handleRequest fails ck req conn s) (\<lambda>(out, conn', s').
                case out of
                  Continue \<Rightarrow> Inr (y\<lparr>svc := s', conns := AList.update strm conn' (conns y)\<rparr>)
                | Finished _ \<Rightarrow> endStream (endTv ck) strm conn' s' y))
     | Disconnect tv strm \<Rightarrow>
         (case map_of (conns y) strm of None \<Rightarrow> Inr y | Some conn \<Rightarrow> endStream tv strm conn s y)
     | PurgeTick tv \<Rightarrow>
         bindR (Tick tv (counterMng sv) (mem sv)) (\<lambda>(_, cm, m).
           Inr (y\<lparr>svc := s\<lparr>coreServer := sv\<lparr>counterMng := cm, mem := m\<rparr>\<rparr>\<rparr>))
     | PushRound tv idx \<Rightarrow>
         bindR (pushRound fails tv idx (mem sv)) (\<lambda>m. Inr (y\<lparr>svc := s\<lparr>coreServer := sv\<lparr>mem := m\<rparr>\<rparr>\<rparr>)))"

text \<open>The time at which a step ends, and the steps that can follow time \<open>T\<close>.\<close>

fun ev_time :: "Ev \<Rightarrow> int" where
  "ev_time (Connect tv _ _ _ _) = CurrentMillisecond tv"
| "ev_time (Request _ ck _) = CurrentMillisecond (endTv ck)"
| "ev_time (Disconnect tv _) = CurrentMillisecond tv"
| "ev_time (PurgeTick tv) = CurrentMillisecond tv"
| "ev_time (PushRound tv _) = CurrentMillisecond tv"

fun ev_ok :: "int \<Rightarrow> Ev \<Rightarrow> Sys \<Rightarrow> bool" where
  "ev_ok T (Connect tv _ _ _ _) y = (clock_ok tv \<and> T \<le> CurrentMillisecond tv)"
| "ev_ok T (Request strm ck req) y = (clock_from T ck \<and>
     (case map_of (conns y) strm of None \<Rightarrow> True | Some conn \<Rightarrow> req_ok conn req))"
| "ev_ok T (Disconnect tv _) y = (clock_ok tv \<and> T \<le> CurrentMillisecond tv)"
| "ev_ok T (PurgeTick tv) y = (clock_ok tv \<and> T \<le> CurrentMillisecond tv)"
| "ev_ok T (PushRound tv _) y = (clock_ok tv \<and> T \<le> CurrentMillisecond tv)"

definition booted :: "Server \<Rightarrow> Sys" where
  "booted sv = \<lparr>svc = \<lparr>coreServer = sv, processTimes = [], droppedCollectors = []\<rparr>, conns = []\<rparr>"

text \<open>The states reachable in \<open>n\<close> steps, the last of which ended at time \<open>T\<close>.\<close>

inductive reach :: "transport \<Rightarrow> int \<Rightarrow> nat \<Rightarrow> Sys \<Rightarrow> bool" for fails where
  boot: "initialize (Some c) = Inr (Inr sv) \<Longrightarrow> reach fails 0 0 (booted sv)"
| step: "reach fails T n y \<Longrightarrow> ev_ok T e y \<Longrightarrow> exec fails e y = Inr y' \<Longrightarrow> reach fails (ev_time e) (Suc n) y'"

inductive_cases reach_Suc: "reach fails T (Suc n) y"
inductive_cases reach_0: "reach fails T 0 y"

section \<open>The invariant\<close>

definition sys_ok :: "int \<Rightarrow> nat \<Rightarrow> Sys \<Rightarrow> bool" where
  "sys_ok T n y \<longleftrightarrow> (\<exists>logs. server_ok (coreServer (svc y)) logs T) \<and>
     (\<forall>strm conn. map_of (conns y) strm = Some conn \<longrightarrow> conn_ok (coreServer (svc y)) conn) \<and>
     uint (clientIdx (clientMng (coreServer (svc y)))) \<le> int n"

lemma initialize_ok:
  assumes "initialize (Some c) = Inr (Inr sv)"
  shows "server_ok sv logs 0" "clientIdx (clientMng sv) = 0" "clientObjs (mem sv) = []"
proof -
  obtain d pm where d: "ParseConfig (Some c) = Inr d" and pm: "NewPushManager (uint (PushWorker c)) 1000 = Inr pm"
    and sv: "sv = \<lparr>counterMng = NewCounterManagerV2 (MaxCounter d) (PurgeCounterInterval c),
        clientMng = NewClientManager (MaxClient d), cfg = d,
        mem = \<lparr>clientObjs = [], eventLog = [], outbox = [], quotaLefts = [], pushMgr = pm, apiCalls = [],
               counterObjs = []\<rparr>\<rparr>"
    using assms by (auto simp: initialize_def split: sum.splits if_splits)
  have cfg: "config_ok d" using ParseConfig_ok [OF d] .
  then have max: "0 < MaxCounter d" by (auto simp: config_ok_def word_pos_ge_1)
  have "uint (PushWorker c) \<noteq> 0" using pm by (auto simp: NewPushManager_def split: if_splits)
  then have "0 < uint (PushWorker c)" using uint_u32_bounds(1) [of "PushWorker c"] by linarith
  from NewPushManager_ok [OF this uint_u32_bounds(2), of 1000] pm have push: "push_ok pm" "queued pm = 0" by auto
  then have "push_refs (mem sv)" using sv by (auto simp: push_refs_def queued_def)
  then show "server_ok sv logs 0"
    using cfg push sv NewCounterManagerV2_ok [OF max order_refl] NewClientManager_ok
    by (simp add: server_ok_def manager_ok_def objs_ok_def NewCounterManagerV2_def)
  show "clientIdx (clientMng sv) = 0" "clientObjs (mem sv) = []" using sv by (simp_all add: NewClientManager_def)
qed

lemma idx_step:
  assumes "uint i \<le> int n" "n < 4294967295" "j = i \<or> j = i + (1 :: u32)"
  shows "uint j \<le> int (Suc n)" "i \<noteq> - 1"
proof -
  have "uint i < 4294967295" using assms(1,2) by linarith
  moreover have "(- 1 :: u32) = 4294967295" by simp
  moreover have "uint (4294967295 :: u32) = 4294967295" by simp
  ultimately show i: "i \<noteq> - 1" by (metis order_less_irrefl)
  have "uint (i + 1) = uint i + 1" by (rule succ_word [OF i])
  then show "uint j \<le> int (Suc n)" using assms(1,3) by auto
qed

text \<open>A step that keeps the server invariant and the clients keeps the whole invariant.\<close>

lemma sys_ok_set:
  assumes "sys_ok T n y" "server_ok (coreServer s') logs' T'"
    and "same_clients (clientObjs (mem (coreServer (svc y)))) (clientObjs (mem (coreServer s')))"
    and "uint (clientIdx (clientMng (coreServer s'))) \<le> int (Suc n)"
    and cs: "\<And>strm conn. map_of cs strm = Some conn \<Longrightarrow> map_of (conns y) strm = Some conn \<or> conn_ok (coreServer s') conn"
  shows "sys_ok T' (Suc n) (y\<lparr>svc := s', conns := cs\<rparr>)"
proof -
  have len: "length (clientObjs (mem (coreServer (svc y)))) \<le> length (clientObjs (mem (coreServer s')))"
    using assms(3) by (simp add: same_clients_def)
  have old: "conn_ok (coreServer s') conn" if "map_of (conns y) strm = Some conn" for strm conn
  proof -
    have "conn_ok (coreServer (svc y)) conn" using that assms(1) unfolding sys_ok_def by blast
    then show ?thesis using len unfolding conn_ok_def by (meson order_less_le_trans)
  qed
  have "conn_ok (coreServer s') conn" if "map_of cs strm = Some conn" for strm conn
    using cs [OF that] old by blast
  then show ?thesis using assms(2,4) unfolding sys_ok_def by auto
qed

section \<open>Each step\<close>

lemma endStream_ok:
  assumes "sys_ok T n y" "server_ok (coreServer s) logs T'"
    and "same_clients (clientObjs (mem (coreServer (svc y)))) (clientObjs (mem (coreServer s)))"
    and "uint (clientIdx (clientMng (coreServer s))) \<le> int (Suc n)" "conn_ok (coreServer s) conn"
  shows "\<exists>y'. endStream tv strm conn s y = Inr y' \<and> sys_ok T' (Suc n) y'"
proof -
  obtain s' where P: "postService tv conn s = Inr s'" "server_ok (coreServer s') logs T'"
    "sv_frame (coreServer s) (coreServer s')"
    "clientIdx (clientMng (coreServer s')) = clientIdx (clientMng (coreServer s))"
    using postService_ok [OF assms(2,5)] by blast
  have "same_clients (clientObjs (mem (coreServer (svc y)))) (clientObjs (mem (coreServer s')))"
    using same_clients_trans [OF assms(3)] P(3) by (simp add: sv_frame_def)
  then have "sys_ok T' (Suc n) (y\<lparr>svc := s', conns := AList.delete strm (conns y)\<rparr>)"
    by (rule sys_ok_set [OF assms(1) P(2)]) (use assms(4) P(4) in \<open>simp_all add: amap.get_del split: if_splits\<close>)
  then show ?thesis using P(1) by (simp add: endStream_def)
qed

lemma pushRound_ok:
  assumes ok: "server_ok sv logs T"
  shows "\<exists>m. pushRound fails tv idx (mem sv) = Inr m \<and> server_ok (sv\<lparr>mem := m\<rparr>) logs T \<and>
    clientObjs m = clientObjs (mem sv)"
proof (cases "length (pushChannels (pushMgr (mem sv))) \<le> idx \<or> receive idx (pushMgr (mem sv)) = None")
  case True
  then show ?thesis using ok by (auto simp: pushRound_def)
next
  case False
  then have idx: "idx < length (pushChannels (pushMgr (mem sv)))" by simp
  from False obtain v pm where R: "receive idx (pushMgr (mem sv)) = Some (v, pm)" by auto
  note S = server_okD [OF ok]
  have pm: "push_ok pm" "pushChannels (pushMgr (mem sv)) ! idx = v # pushChannels pm ! idx"
    using receive_ok [OF S(5) R idx] .
  have chans: "pushChannels pm = (pushChannels (pushMgr (mem sv)))[idx := pushChannels pm ! idx]"
    using R idx by (auto simp: receive_def split: list.splits)
  have mem_ch: "pushChannels (pushMgr (mem sv)) ! idx \<in> set (pushChannels (pushMgr (mem sv)))" using idx by simp
  then have v: "Counter v < length (counterObjs (mem sv))" using S(6) pm(2) by (auto simp: push_refs_def)
  have sub: "w \<in> set ch \<Longrightarrow> ch \<in> set (pushChannels pm) \<Longrightarrow> \<exists>ch' \<in> set (pushChannels (pushMgr (mem sv))). w \<in> set ch'" for w ch
    using set_update_subset_insert [of "pushChannels (pushMgr (mem sv))" idx "pushChannels pm ! idx"] chans mem_ch pm(2)
    by (metis insertE list.set_intros(2) subsetD)
  let ?c = "counterObjs (mem sv) ! Counter v" and ?m = "(mem sv)\<lparr>pushMgr := pm\<rparr>"
  have cok: "counter_ok (clientObjs (mem sv)) ?c (fst (logs (Counter v))) (snd (logs (Counter v)))"
    using objs_okD [OF S(8) v] by simp
  then have cc: "clients_ok (clientObjs ?m) (counterClients ?c)" by (simp add: counter_ok_def)
  let ?cc = "(counterClients ?c)\<lparr>clientSenders := map (after_push (clientObjs (mem sv)) v) (clientSenders (counterClients ?c))\<rparr>"
  let ?c' = "?c\<lparr>counterClients := ?cc\<rparr>"
  have "\<forall>e \<in> set (clientSenders (counterClients ?c)). sender_ok (clientObjs ?m) e"
    using cc by (simp add: clients_ok_def)
  from pushSenders_result [OF this, of tv fails v "id_Duration (cIdentifier ?c)"]
  obtain m' where P: "PushMessage tv fails v ?c ?m = Inr (?c', m')" "clientObjs m' = clientObjs (mem sv)"
    "quotaLefts m' = quotaLefts (mem sv)" "pushMgr m' = pm" "counterObjs m' = counterObjs (mem sv)"
    by (auto simp: PushMessage_def)
  have cok': "counter_ok (clientObjs (mem sv)) ?c' (fst (logs (Counter v))) (snd (logs (Counter v)))"
    using cok clients_ok_push [OF cc [simplified], of v] by (simp add: counter_ok_def effectiveMax_def)
  have refs: "push_refs (setCounter (Counter v) ?c' m')"
    using S(6) sub P by (fastforce simp: push_refs_def setCounter_def)
  have "server_ok (sv\<lparr>mem := setCounter (Counter v) ?c' m'\<rparr>) logs T"
    by (rule server_ok_counter [OF ok v cok']) (use P pm(1) refs in \<open>simp_all add: setCounter_def\<close>)
  then show ?thesis
    using R P v idx False by (simp add: pushRound_def setCounter_def derefCounter_def)
qed


lemma exec_ok:
  assumes ok: "sys_ok T n y" and n: "n < 4294967295" and ev: "ev_ok T e y"
  shows "\<exists>y'. exec fails e y = Inr y' \<and> sys_ok (ev_time e) (Suc n) y'"
proof -
  let ?s = "svc y" and ?sv = "coreServer (svc y)"
  obtain logs where S: "server_ok ?sv logs T" using ok unfolding sys_ok_def by blast
  have I: "uint (clientIdx (clientMng ?sv)) \<le> int n" using ok unfolding sys_ok_def by blast
  have conn: "conn_ok ?sv conn" if "map_of (conns y) strm = Some conn" for strm conn
    using ok that unfolding sys_ok_def by blast
  have idle: "sys_ok (ev_time e) (Suc n) y" if "T \<le> ev_time e"
    using ok server_ok_time [OF S that] unfolding sys_ok_def by auto
  have room: "idx_room (clientMng ?sv)" using idx_step(2) [OF I n disjI1 [OF refl]] by (simp add: idx_room_def)
  show ?thesis
  proof (cases e)
    case (Connect tv uuid cuuid strm ip)
    let ?e = "NewStreamUpdateEvent tv (ctxId (NewStreamContext uuid strm)) ip ActionAdd"
    let ?m = "AddEventToLog ?e (mem ?sv)"
    let ?s' = "?s\<lparr>coreServer := ?sv\<lparr>mem := ?m\<rparr>\<rparr>"
    let ?conn = "\<lparr>connCtx = NewStreamContext uuid strm, connIP = ip, connClient = None,
        connCollector = NewRateLimitStatCollector cuuid\<rparr>"
    have S': "server_ok (coreServer ?s') logs (ev_time e)"
      using server_ok_time [OF server_ok_mem [OF S, of ?m]] ev Connect by (simp add: AddEventToLog_def)
    have "sys_ok (ev_time e) (Suc n) (y\<lparr>svc := ?s', conns := AList.update strm ?conn (conns y)\<rparr>)"
      by (rule sys_ok_set [OF ok S']) (use I in \<open>auto simp: amap.get_put conn_ok_def split: if_splits\<close>)
    then show ?thesis using Connect by (simp add: exec_def openStream_def onMem_def Let_def)
  next
    case (Request strm ck req)
    show ?thesis
    proof (cases "map_of (conns y) strm")
      case None
      have "T \<le> ev_time e" using ev Request by (auto simp: clock_from_def)
      then show ?thesis using idle Request None by (simp add: exec_def)
    next
      case (Some c)
      have ck: "clock_from T ck" and req: "req_ok c req" using ev Request Some by auto
      obtain out c' s' logs' where H: "handleRequest fails ck req c ?s = Inr (out, c', s')"
        "server_ok (coreServer s') logs' (ev_time e)" "sv_frame ?sv (coreServer s')" "conn_ok (coreServer s') c'"
        using handleRequest_ok [OF S room conn [OF Some] req ck, of fails] Request by auto
      have f: "same_clients (clientObjs (mem ?sv)) (clientObjs (mem (coreServer s')))"
        using H(3) by (simp add: sv_frame_def)
      have "clientIdx (clientMng (coreServer s')) = clientIdx (clientMng ?sv) \<or>
          clientIdx (clientMng (coreServer s')) = clientIdx (clientMng ?sv) + 1" using H(3) by (simp add: sv_frame_def)
      then have i: "uint (clientIdx (clientMng (coreServer s'))) \<le> int (Suc n)" by (rule idx_step(1) [OF I n])
      show ?thesis
      proof (cases out)
        case Continue
        have "sys_ok (ev_time e) (Suc n) (y\<lparr>svc := s', conns := AList.update strm c' (conns y)\<rparr>)"
          by (rule sys_ok_set [OF ok H(2) f i]) (use H(4) in \<open>auto simp: amap.get_put split: if_splits\<close>)
        then show ?thesis using Request Some H(1) Continue by (simp add: exec_def)
      next
        case (Finished err)
        from endStream_ok [OF ok H(2) f i H(4), of "endTv ck" strm]
        show ?thesis using Request Some H(1) Finished by (auto simp: exec_def)
      qed
    qed
  next
    case (Disconnect tv strm)
    have t: "T \<le> ev_time e" using ev Disconnect by simp
    show ?thesis
    proof (cases "map_of (conns y) strm")
      case None
      then show ?thesis using idle [OF t] Disconnect by (simp add: exec_def)
    next
      case (Some c)
      from endStream_ok [OF ok server_ok_time [OF S t] same_clients_refl _ conn [OF Some], of tv strm] I
      show ?thesis using Disconnect Some by (simp add: exec_def)
    qed
  next
    case (PurgeTick tv)
    have t: "T \<le> ev_time e" using ev PurgeTick by simp
    obtain k cm m where P: "Tick tv (counterMng ?sv) (mem ?sv) = Inr (k, cm, m)" "manager_ok cm m logs T"
      "clientObjs m = clientObjs (mem ?sv)" "length (counterObjs m) = length (counterObjs (mem ?sv))"
      "quotaLefts m = quotaLefts (mem ?sv)" "pushMgr m = pushMgr (mem ?sv)" "maxSize cm = maxSize (counterMng ?sv)"
      using Tick_ok [OF server_okD(3) [OF S], of tv] by blast
    let ?s' = "?s\<lparr>coreServer := ?sv\<lparr>counterMng := cm, mem := m\<rparr>\<rparr>"
    have S': "server_ok (coreServer ?s') logs (ev_time e)"
      using server_ok_time [OF server_ok_counters [OF S P(2,7,3,6,5)] t] P(4) by simp
    have "sys_ok (ev_time e) (Suc n) (y\<lparr>svc := ?s', conns := conns y\<rparr>)"
      by (rule sys_ok_set [OF ok S']) (use I P(3) in simp_all)
    then show ?thesis using PurgeTick P(1) by (simp add: exec_def Let_def)
  next
    case (PushRound tv idx)
    have t: "T \<le> ev_time e" using ev PushRound by simp
    obtain m where P: "pushRound fails tv idx (mem ?sv) = Inr m" "server_ok (?sv\<lparr>mem := m\<rparr>) logs T"
      "clientObjs m = clientObjs (mem ?sv)"
      using pushRound_ok [OF S, of fails tv idx] by blast
    let ?s' = "?s\<lparr>coreServer := ?sv\<lparr>mem := m\<rparr>\<rparr>"
    have S': "server_ok (coreServer ?s') logs (ev_time e)" using server_ok_time [OF P(2) t] by simp
    have "sys_ok (ev_time e) (Suc n) (y\<lparr>svc := ?s', conns := conns y\<rparr>)"
      by (rule sys_ok_set [OF ok S']) (use I P(3) in simp_all)
    then show ?thesis using PushRound P(1) by (simp add: exec_def Let_def)
  qed
qed

lemma sys_ok_boot: "initialize (Some c) = Inr (Inr sv) \<Longrightarrow> sys_ok 0 0 (booted sv)"
  using initialize_ok [of c sv] by (auto simp: sys_ok_def booted_def)

lemma reach_ok: "reach fails T n y \<Longrightarrow> n \<le> 4294967295 \<Longrightarrow> sys_ok T n y"
proof (induction rule: reach.induct)
  case (boot c sv)
  then show ?case by (simp add: sys_ok_boot)
next
  case (step T n y e y')
  then have ok: "sys_ok T n y" and n: "n < 4294967295" by simp_all
  from exec_ok [OF ok n step.hyps(2), of fails] step.hyps(3) show ?case by auto
qed

end
