(* ===== verification/Sample_Run.thy ===== *)
theory Sample_Run
  imports System
begin

text \<open>
  A concrete run of the server, evaluated: it supplies the states at which the theorems of
  \<open>Server_Properties\<close> are applied. A checked run executes a list of steps and tests before each
  of them that it may follow; a run that passes is a reachable state.
\<close>

fun checked_run :: "transport \<Rightarrow> Ev list \<Rightarrow> int \<Rightarrow> nat \<Rightarrow> Sys \<Rightarrow> (int \<times> nat \<times> Sys) option" where
  "checked_run fails [] T n y = Some (T, n, y)"
| "checked_run fails (e # es) T n y =
     (if ev_ok T e y
      then (case exec fails e y of Inl p \<Rightarrow> None | Inr y' \<Rightarrow> checked_run fails es (ev_time e) (Suc n) y')
      else None)"

lemma checked_run_reach:
  "reach fails T n y \<Longrightarrow> checked_run fails es T n y = Some (T', n', y') \<Longrightarrow> reach fails T' n' y' \<and> n' = n + length es"
proof (induction es arbitrary: T n y)
  case (Cons e es)
  then obtain z where z: "ev_ok T e y" "exec fails e y = Inr z"
    "checked_run fails es (ev_time e) (Suc n) z = Some (T', n', y')"
    using Cons.prems(2) by (auto split: if_splits sum.splits)
  from Cons.IH [OF reach.step [OF Cons.prems(1) z(1,2)] z(3)] show ?case by auto
qed simp

section \<open>The sample\<close>

definition sample_config :: Config where
  "sample_config = DefaultConfig\<lparr>Myid := 1, MaxCounter := 2, MaxClient := 2, PushWorker := 1\<rparr>"

definition at_ms :: "int \<Rightarrow> Timeval" where
  "at_ms ms = \<lparr>Sec = ms div 1000, Usec = ms mod 1000 * 1000\<rparr>"

definition clock_at :: "int \<Rightarrow> Clock" where
  "clock_at ms = \<lparr>startTv = at_ms ms, workTv = at_ms ms, endTv = at_ms ms\<rparr>"

definition sample_ip :: "u64 \<Rightarrow> IPAddress" where
  "sample_ip n = \<lparr>LowValue = n, HighValue = 0\<rparr>"

definition sample_request :: "string \<Rightarrow> RateLimitInitRequest" where
  "sample_request i =
     \<lparr>Init_Target = Some \<lparr>Target_Namespace = ''n'', Target_Service = ''s'', Target_Labels = ''l'', Target_LabelsList = []\<rparr>,
      Init_ClientId = i, Init_Totals = [\<lparr>Total_MaxAmount = 10, Total_Duration = 1, Total_Mode = WHOLE\<rparr>],
      Init_SlideCount = 0, Init_Mode = ADAPTIVE\<rparr>"

definition init_message :: "string \<Rightarrow> RateLimitRequest" where
  "init_message i = \<lparr>Req_Cmd = INIT, Req_Init = Some (sample_request i), Req_BatchInit = None, Req_Report = None\<rparr>"

definition report_of :: "u32 \<Rightarrow> u32 \<Rightarrow> int \<Rightarrow> RateLimitReportRequest" where
  "report_of key n ts = \<lparr>Report_ClientKey = 1,
     QuotaUses = [\<lparr>Sum_CounterKey = key, Sum_Used = n, Sum_Limited = 0\<rparr>], Report_Timestamp = ts\<rparr>"

definition report_message :: "u32 \<Rightarrow> u32 \<Rightarrow> int \<Rightarrow> RateLimitRequest" where
  "report_message key n ts = \<lparr>Req_Cmd = ACQUIRE, Req_Init = None, Req_BatchInit = None, Req_Report = Some (report_of key n ts)\<rparr>"

text \<open>Two streams connect and initialise; the first reports 7 of 10, then 5, which schedules a push.\<close>

definition sample_events :: "Ev list" where
  "sample_events =
     [Connect (at_ms 100000) ''u1'' ''k1'' 1 (sample_ip 1), Request 1 (clock_at 100010) (init_message ''a''),
      Connect (at_ms 100020) ''u2'' ''k2'' 2 (sample_ip 2), Request 2 (clock_at 100030) (init_message ''b''),
      Request 1 (clock_at 100040) (report_message 0x1000001 7 100040),
      Request 1 (clock_at 100050) (report_message 0x1000001 5 100050)]"

definition never_fails :: transport where
  "never_fails s r = False"

definition sample_server :: Server where
  "sample_server = \<lparr>counterMng = \<lparr>counters = [None, None], allocatedKeys = [], counterMap = [], maxSize = 2,
       counterIdx = 0, cleanupInterval = 60000000000\<rparr>,
     clientMng = \<lparr>freeClientKeys = [], clients = [None, None], clientMap = [], maxClients = 2, clientIdx = 0\<rparr>,
     cfg = sample_config,
     mem = \<lparr>clientObjs = [], eventLog = [], outbox = [], quotaLefts = [],
            pushMgr = \<lparr>workerCount = 1, chanSize = 1000, pushChannels = [[]]\<rparr>, apiCalls = [], counterObjs = []\<rparr>\<rparr>"

definition run_sample :: "nat \<Rightarrow> (int \<times> nat \<times> Sys) option" where
  "run_sample n = checked_run never_fails (take n sample_events) 0 0 (booted sample_server)"

lemma sample_boot: "initialize (Some sample_config) = Inr (Inr sample_server)"
  by code_simp

lemma sample_reach:
  assumes "run_sample k = Some (T, n, y)"
  shows "reach never_fails T n y"
  using checked_run_reach [OF reach.boot [OF sample_boot] assms [unfolded run_sample_def]] by auto

end
