(* ===== verification/Text_Format.thy ===== *)
theory Text_Format
  imports Limiter_Prelude
begin

text \<open>
  The text that the statistics and the registration print: decimal numbers, durations and
  addresses, as \<open>fmt\<close>, \<open>time\<close> and \<open>net\<close> of the Go library write them. Strings are byte strings, so the
  micro sign of a duration is its two UTF-8 bytes.
\<close>

section \<open>Decimal numbers\<close>

definition digit_char :: "int \<Rightarrow> char" where
  "digit_char d = ''0123456789'' ! nat d"

function digits_acc :: "int \<Rightarrow> string \<Rightarrow> string" where
  "digits_acc n acc =
     (if n < 10 then digit_char n # acc else digits_acc (n div 10) (digit_char (n mod 10) # acc))"
  by pat_completeness auto
termination by (relation "measure (\<lambda>(n, acc). nat n)") auto

declare digits_acc.simps [simp del]

text \<open>A number that is not negative, and any number.\<close>

definition dec_pos :: "int \<Rightarrow> string" where
  "dec_pos n = digits_acc n []"

definition dec_int :: "int \<Rightarrow> string" where
  "dec_int i = (if i < 0 then CHR ''-'' # dec_pos (- i) else dec_pos i)"

text \<open>Reading a decimal back, the left inverse of printing.\<close>

definition digit_val :: "char \<Rightarrow> int" where
  "digit_val c = of_char c - 48"

definition read_pos :: "string \<Rightarrow> int" where
  "read_pos s = foldl (\<lambda>n c. 10 * n + digit_val c) 0 s"

lemma small_digit: "0 \<le> d \<Longrightarrow> d < (10 :: int) \<Longrightarrow> nat d < 10"
  by simp

lemma digit_val_char: "0 \<le> d \<Longrightarrow> d < 10 \<Longrightarrow> digit_val (digit_char d) = d"
proof -
  assume "0 \<le> d" "d < 10"
  then have "d = 0 \<or> d = 1 \<or> d = 2 \<or> d = 3 \<or> d = 4 \<or> d = 5 \<or> d = 6 \<or> d = 7 \<or> d = 8 \<or> d = 9" by presburger
  then show ?thesis by (auto simp: digit_val_def digit_char_def)
qed

lemma read_digits_acc:
  "0 \<le> n \<Longrightarrow>
    foldl (\<lambda>n c. 10 * n + digit_val c) 0 (digits_acc n acc) = foldl (\<lambda>n c. 10 * n + digit_val c) n acc"
proof (induction n acc rule: digits_acc.induct)
  case (1 n acc)
  show ?case
  proof (cases "n < 10")
    case True
    then show ?thesis using 1 by (simp add: digits_acc.simps [of n] digit_val_char)
  next
    case False
    then have "foldl (\<lambda>n c. 10 * n + digit_val c) 0 (digits_acc n acc) =
        foldl (\<lambda>n c. 10 * n + digit_val c) (n div 10) (digit_char (n mod 10) # acc)"
      using 1 by (simp add: digits_acc.simps [of n])
    then show ?thesis by (simp add: digit_val_char)
  qed
qed

lemma read_dec_pos: "0 \<le> n \<Longrightarrow> read_pos (dec_pos n) = n"
  by (simp add: read_pos_def dec_pos_def read_digits_acc)

lemma dec_pos_inj: "0 \<le> a \<Longrightarrow> 0 \<le> b \<Longrightarrow> dec_pos a = dec_pos b \<longleftrightarrow> a = b"
  by (metis read_dec_pos)

lemma digit_char_range: "0 \<le> d \<Longrightarrow> d < 10 \<Longrightarrow> digit_char d \<in> set ''0123456789''"
  unfolding digit_char_def by (rule nth_mem) simp

lemma digits_acc_set: "0 \<le> n \<Longrightarrow> c \<in> set (digits_acc n acc) \<Longrightarrow> c \<in> set ''0123456789'' \<or> c \<in> set acc"
proof (induction n acc rule: digits_acc.induct)
  case (1 n acc)
  show ?case
  proof (cases "n < 10")
    case True
    then show ?thesis using 1 digit_char_range [of n] by (auto simp: digits_acc.simps [of n])
  next
    case False
    with 1 have "c \<in> set ''0123456789'' \<or> c \<in> set (digit_char (n mod 10) # acc)"
      by (simp add: digits_acc.simps [of n])
    then show ?thesis using digit_char_range [of "n mod 10"] by auto
  qed
qed

lemma dec_pos_digits: "0 \<le> n \<Longrightarrow> set (dec_pos n) \<subseteq> set ''0123456789''"
  using digits_acc_set [of n _ "[]"] unfolding dec_pos_def by auto

lemma minus_dec_pos: "0 \<le> n \<Longrightarrow> CHR ''-'' # s \<noteq> dec_pos n" "0 \<le> n \<Longrightarrow> dec_pos n \<noteq> CHR ''-'' # s"
proof -
  have "0 \<le> n \<Longrightarrow> dec_pos n = CHR ''-'' # s \<Longrightarrow> False"
    using dec_pos_digits [of n] by simp
  then show "0 \<le> n \<Longrightarrow> CHR ''-'' # s \<noteq> dec_pos n" "0 \<le> n \<Longrightarrow> dec_pos n \<noteq> CHR ''-'' # s" by metis+
qed

lemma dec_int_inj: "dec_int a = dec_int b \<longleftrightarrow> a = b"
  by (auto simp: dec_int_def dec_pos_inj minus_dec_pos)

section \<open>Durations\<close>

text \<open>\<open>time.Duration.String\<close>: the fraction with its trailing zeros dropped, then the units.\<close>

fun frac_digits :: "nat \<Rightarrow> int \<Rightarrow> bool \<Rightarrow> string \<Rightarrow> string" where
  "frac_digits 0 v printing acc = (if printing then CHR ''.'' # acc else acc)"
| "frac_digits (Suc prec) v printing acc =
     (let d = v mod 10; p = printing \<or> d \<noteq> 0
      in frac_digits prec (v div 10) p (if p then digit_char d # acc else acc))"

definition with_frac :: "nat \<Rightarrow> int \<Rightarrow> string \<Rightarrow> string" where
  "with_frac prec v unit_name = dec_pos (v div 10 ^ prec) @ frac_digits prec v False unit_name"

definition micro_sign :: string where
  "micro_sign = [CHR 0xC2, CHR 0xB5]"

definition duration_abs :: "int \<Rightarrow> string" where
  "duration_abs u =
     (if u < 1000 then dec_pos u @ ''ns''
      else if u < 1000000 then with_frac 3 u (micro_sign @ ''s'')
      else if u < 1000000000 then with_frac 6 u ''ms''
      else let w = u div 1000000000;
               secs = dec_pos (w mod 60) @ frac_digits 9 u False ''s'';
               m = w div 60; h = m div 60
           in (if h > 0 then dec_pos h @ ''h'' else []) @
              (if m > 0 then dec_pos (m mod 60) @ ''m'' else []) @ secs)"

definition duration_String :: "int \<Rightarrow> string" where
  "duration_String d =
     (if d = 0 then ''0s'' else if d < 0 then CHR ''-'' # duration_abs (- d) else duration_abs d)"

text \<open>\<open>Duration.Milliseconds\<close> truncates towards zero.\<close>

definition duration_Milliseconds :: "int \<Rightarrow> int" where
  "duration_Milliseconds d = d sdiv 1000000"

section \<open>Addresses\<close>

text \<open>
  \<open>net.IP.String\<close> of sixteen bytes: dotted for an embedded IPv4 address, otherwise groups of
  hexadecimal digits with the longest run of zero groups, at least two, written as \<open>::\<close>.
\<close>

definition hex_digit :: "int \<Rightarrow> char" where
  "hex_digit d = ''0123456789abcdef'' ! nat d"

function hex_acc :: "int \<Rightarrow> string \<Rightarrow> string" where
  "hex_acc n acc = (if n < 16 then hex_digit n # acc else hex_acc (n div 16) (hex_digit (n mod 16) # acc))"
  by pat_completeness auto
termination by (relation "measure (\<lambda>(n, acc). nat n)") auto

declare hex_acc.simps [simp del]

definition hex_pos :: "int \<Rightarrow> string" where "hex_pos n = hex_acc n []"

definition byte_at :: "u64 \<Rightarrow> nat \<Rightarrow> int" where
  "byte_at w i = uint (drop_bit (8 * (7 - i)) w) mod 256"

definition ip_bytes :: "u64 \<Rightarrow> u64 \<Rightarrow> int list" where
  "ip_bytes high low = map (byte_at high) [0..<8] @ map (byte_at low) [0..<8]"

definition is_ipv4 :: "int list \<Rightarrow> bool" where
  "is_ipv4 bs \<longleftrightarrow> take 12 bs = replicate 10 0 @ [255, 255]"

fun join_with :: "string \<Rightarrow> string list \<Rightarrow> string" where
  "join_with sep [] = []"
| "join_with sep [s] = s"
| "join_with sep (s # ss) = s @ sep @ join_with sep ss"

fun groups16 :: "int list \<Rightarrow> int list" where
  "groups16 (a # b # bs) = (256 * a + b) # groups16 bs"
| "groups16 _ = []"

definition zero_run :: "int list \<Rightarrow> nat \<Rightarrow> nat" where
  "zero_run gs i = length (takeWhile (\<lambda>g. g = 0) (drop i gs))"

text \<open>The first of the longest runs of zero groups, as its start and length.\<close>

definition longest_run :: "int list \<Rightarrow> nat \<times> nat" where
  "longest_run gs = foldl (\<lambda>(s, n) i. if n < zero_run gs i then (i, zero_run gs i) else (s, n)) (0, 0) [0..<length gs]"

definition ip_String :: "int list \<Rightarrow> string" where
  "ip_String bs =
     (if is_ipv4 bs then join_with ''.'' (map dec_pos (drop 12 bs))
      else let gs = groups16 bs; (s, n) = longest_run gs
           in if n < 2 then join_with '':'' (map hex_pos gs)
              else join_with '':'' (map hex_pos (take s gs)) @ ''::'' @ join_with '':'' (map hex_pos (drop (s + n) gs)))"

end
