(* ===== verification/Endpoints.thy ===== *)
theory Endpoints
  imports Grpc_Service Text_Format
begin

text \<open>
  What stands around the server: the once-only start of \<open>ratelimitv2/server.go\<close>, the maintenance
  queries of \<open>apiserver/http/maintain.go\<close>, the interceptors and the request context of
  \<open>apiserver/grpc/interceptor.go\<close>, and the address of a client of \<open>pkg/utils/network.go\<close>.
\<close>

section \<open>Addresses\<close>

text \<open>
  \<open>net.ParseIP\<close>: a dotted IPv4 address, or up to eight groups of hexadecimal digits with one \<open>::\<close> for
  at least one group, the last two of which can be written as a dotted address. The result is the
  sixteen bytes.
\<close>

definition octet :: "string \<Rightarrow> int option" where
  "octet s =
     (if s \<noteq> [] \<and> length s \<le> 3 \<and> list_all (\<lambda>c. c \<in> set ''0123456789'') s \<and>
         \<not> (1 < length s \<and> hd s = CHR ''0'') \<and> read_pos s < 256
      then Some (read_pos s) else None)"

fun all_some :: "'a option list \<Rightarrow> 'a list option" where
  "all_some [] = Some []"
| "all_some (None # xs) = None"
| "all_some (Some x # xs) = map_option ((#) x) (all_some xs)"

definition parseIPv4 :: "string \<Rightarrow> int list option" where
  "parseIPv4 s =
     (let fields = strings_split (CHR ''.'') s
      in if length fields = 4 then all_some (map octet fields) else None)"

definition hex_val :: "char \<Rightarrow> int option" where
  "hex_val c =
     (let n = of_char c :: int in
      if 48 \<le> n \<and> n \<le> 57 then Some (n - 48)
      else if 97 \<le> n \<and> n \<le> 102 then Some (n - 87)
      else if 65 \<le> n \<and> n \<le> 70 then Some (n - 55) else None)"

definition hex_group :: "string \<Rightarrow> int list option" where
  "hex_group s =
     (if s \<noteq> [] \<and> length s \<le> 4
      then (case all_some (map hex_val s) of
              None \<Rightarrow> None
            | Some ds \<Rightarrow> let v = foldl (\<lambda>n d. 16 * n + d) 0 ds in Some [v div 256, v mod 256])
      else None)"

text \<open>The groups of one side of \<open>::\<close>; a dotted address may be the last of them.\<close>

definition ipv6_side :: "bool \<Rightarrow> string \<Rightarrow> int list option" where
  "ipv6_side dotted s =
     (if s = [] then Some []
      else let fields = strings_split (CHR '':'') s;
               groups = map hex_group (butlast fields);
               final = (if dotted \<and> CHR ''.'' \<in> set (last fields) then parseIPv4 (last fields) else hex_group (last fields))
           in map_option concat (all_some (groups @ [final])))"

fun cut_ellipsis :: "string \<Rightarrow> (string \<times> string) option" where
  "cut_ellipsis (a # b # cs) =
     (if a = CHR '':'' \<and> b = CHR '':'' then Some ([], cs)
      else map_option (\<lambda>(l, r). (a # l, r)) (cut_ellipsis (b # cs)))"
| "cut_ellipsis _ = None"

definition parseIPv6 :: "string \<Rightarrow> int list option" where
  "parseIPv6 s =
     (case cut_ellipsis s of
        None \<Rightarrow> (case ipv6_side True s of
                   Some bs \<Rightarrow> if length bs = 16 then Some bs else None
                 | None \<Rightarrow> None)
      | Some (l, r) \<Rightarrow>
          (case (ipv6_side False l, ipv6_side True r) of
             (Some bl, Some br) \<Rightarrow>
               if length bl + length br < 16 then Some (bl @ replicate (16 - length bl - length br) 0 @ br) else None
           | _ \<Rightarrow> None))"

definition ParseIP :: "string \<Rightarrow> int list option" where
  "ParseIP s =
     (if CHR '':'' \<in> set s then parseIPv6 s
      else map_option (\<lambda>bs. replicate 10 0 @ [255, 255] @ bs) (parseIPv4 s))"

definition big_endian :: "int list \<Rightarrow> u64" where
  "big_endian bs = foldl (\<lambda>n b. 256 * n + word_of_int b) 0 bs"

definition NewIPAddress :: "string \<Rightarrow> IPAddress" where
  "NewIPAddress addr =
     (case ParseIP addr of
        None \<Rightarrow> \<lparr>LowValue = 0, HighValue = 0\<rparr>
      | Some ip \<Rightarrow> \<lparr>LowValue = big_endian (drop 8 ip), HighValue = big_endian (take 8 ip)\<rparr>)"

definition IPAddress_String :: "IPAddress \<Rightarrow> string" where
  "IPAddress_String a = ip_String (ip_bytes (HighValue a) (LowValue a))"

section \<open>The request context\<close>

record RequestContext =
  rc_requestID :: string
  rc_userAgent :: string
  rc_clientAddr :: "string option"
  rc_clientIP :: string
  rc_structIP :: IPAddress

definition first_of :: "(string \<times> string list) list \<Rightarrow> string \<Rightarrow> string" where
  "first_of meta key = (case map_of meta key of Some (v # vs) \<Rightarrow> v | _ \<Rightarrow> [])"

text \<open>\<open>parseContext\<close>, over the metadata of the stream and the text of the peer address.\<close>

definition parseContext :: "(string \<times> string list) list option \<Rightarrow> string option \<Rightarrow> RequestContext" where
  "parseContext metadata peer_addr =
     (let meta = (case metadata of None \<Rightarrow> [] | Some m \<Rightarrow> m);
          userAgent = first_of meta ''user-agent''; requestID = first_of meta ''request-id'';
          headerIP = first_of meta ''client-ip'';
          clientIP = (case peer_addr of
                        None \<Rightarrow> headerIP
                      | Some address \<Rightarrow>
                          if length headerIP = 0
                          then (let addrSlice = strings_split (CHR '':'') address
                                in if length addrSlice = 2 then addrSlice ! 0 else headerIP)
                          else headerIP)
      in \<lparr>rc_requestID = requestID, rc_userAgent = userAgent, rc_clientAddr = peer_addr, rc_clientIP = clientIP,
          rc_structIP = NewIPAddress clientIP\<rparr>)"

section \<open>Interceptors\<close>

text \<open>The kinds of response an interceptor sees: the stream's, one with a code of its own, any other.\<close>

datatype rsp = V2Response RateLimitResponse | CodedResponse u32 "int option" | PlainResponse

record interceptor =
  i_startTime :: "int option"
  i_fullMethod :: string
  i_ctx :: RequestContext

definition newInterceptor :: "RequestContext \<Rightarrow> string \<Rightarrow> interceptor" where
  "newInterceptor c fullMethod = \<lparr>i_startTime = None, i_fullMethod = fullMethod, i_ctx = c\<rparr>"

definition preProcess :: "int \<Rightarrow> interceptor \<Rightarrow> interceptor" where
  "preProcess now i = i\<lparr>i_startTime := Some now\<rparr>"

definition GetV2ResponseCode :: "rsp \<Rightarrow> u32 \<times> bool" where
  "GetV2ResponseCode r = (case r of V2Response resp \<Rightarrow> (GetErrorCode resp, True) | _ \<Rightarrow> (0, False))"

datatype interceptor_log = InvalidResponse | SendErrorResp u32 int

definition interceptor_postProcess :: "rsp \<Rightarrow> interceptor_log option" where
  "interceptor_postProcess r =
     (case (case r of CodedResponse c _ \<Rightarrow> Some c
                    | _ \<Rightarrow> let (c, matched) = GetV2ResponseCode r in if matched then Some c else None) of
        None \<Rightarrow> Some InvalidResponse
      | Some rspCode \<Rightarrow>
          if IsSuccess rspCode then None
          else Some (SendErrorResp rspCode (case r of CodedResponse _ (Some msgId) \<Rightarrow> msgId | _ \<Rightarrow> 0)))"

text \<open>The time of a unary call in microseconds, if it was started; the division truncates.\<close>

definition reportProcessTime :: "int \<Rightarrow> interceptor \<Rightarrow> int option" where
  "reportProcessTime now i =
     (case i_startTime i of
        None \<Rightarrow> None
      | Some start \<Rightarrow> let elapsed = (now - start) sdiv 1000 in if 0 \<le> elapsed then Some elapsed else None)"

definition unaryMethodsNoInterceptor :: "string list" where
  "unaryMethodsNoInterceptor = [''/polaris.metric.v2.RateLimitGRPCV2/TimeAdjust'']"

text \<open>A unary call, its handler as a function: the response, the reported time and the log.\<close>

definition unaryInterceptor :: "int \<Rightarrow> int \<Rightarrow> RequestContext \<Rightarrow> string \<Rightarrow> (unit \<Rightarrow> rsp) \<Rightarrow> rsp \<times> int option \<times> interceptor_log option" where
  "unaryInterceptor started ended c fullMethod handler =
     (if fullMethod \<in> set unaryMethodsNoInterceptor then (handler (), None, None)
      else let tor = preProcess started (newInterceptor c fullMethod); r = handler ()
           in (r, reportProcessTime ended tor, interceptor_postProcess r))"

text \<open>The wrapped stream: a request that arrives starts the clock, a response that leaves is logged.\<close>

definition RecvMsg :: "int \<Rightarrow> bool \<Rightarrow> interceptor \<Rightarrow> bool \<times> interceptor" where
  "RecvMsg now fails i = (if fails then (True, i) else (False, preProcess now i))"

definition SendMsg :: "rsp \<Rightarrow> bool \<Rightarrow> bool \<times> interceptor_log option" where
  "SendMsg r fails = (fails, interceptor_postProcess r)"

section \<open>The start of the process\<close>

text \<open>
  The package variables: whether the once-only start has run, whether it counts as finished, and the
  server, which has no managers until a start has succeeded.
\<close>

record Process =
  onceDone :: bool
  finishInit :: bool
  theServer :: "Server option"

definition NewProcess :: Process where
  "NewProcess = \<lparr>onceDone = False, finishInit = False, theServer = None\<rparr>"

definition Initialize :: "Config option \<Rightarrow> Process \<Rightarrow> panic + (init_error option \<times> Process)" where
  "Initialize given p =
     (if onceDone p then Inr (None, p\<lparr>finishInit := True\<rparr>)
      else bindR (initialize given) (\<lambda>r.
        case r of
          Inl e \<Rightarrow> Inr (Some e, p\<lparr>onceDone := True\<rparr>)
        | Inr sv \<Rightarrow> Inr (None, p\<lparr>onceDone := True, theServer := Some sv, finishInit := True\<rparr>)))"

text \<open>\<open>GetRateLimitServer\<close>: an error, or the server, whose managers may be nil.\<close>

definition GetRateLimitServer :: "Process \<Rightarrow> Server option option" where
  "GetRateLimitServer p = (if \<not> finishInit p then None else Some (theServer p))"

section \<open>Maintenance queries\<close>

text \<open>\<open>strconv.Atoi\<close> and \<open>strconv.ParseUint(s, 10, 32)\<close>: none for an error.\<close>

definition all_digits :: "string \<Rightarrow> bool" where
  "all_digits s \<longleftrightarrow> s \<noteq> [] \<and> list_all (\<lambda>c. c \<in> set ''0123456789'') s"

definition Atoi :: "string \<Rightarrow> int option" where
  "Atoi s =
     (let (neg, ds) = (case s of
            c # cs \<Rightarrow> if c = CHR ''-'' then (True, cs) else if c = CHR ''+'' then (False, cs) else (False, s)
          | [] \<Rightarrow> (False, []));
          v = (if neg then - read_pos ds else read_pos ds)
      in if all_digits ds \<and> in64 v then Some v else None)"

definition ParseUint32 :: "string \<Rightarrow> u32 option" where
  "ParseUint32 s = (if all_digits s \<and> read_pos s < 2 ^ 32 then Some (word_of_int (read_pos s)) else None)"

text \<open>A query parameter that is absent is the empty string.\<close>

definition page_number :: "string \<Rightarrow> int option" where
  "page_number v = (if v = [] then Some 0 else case Atoi v of None \<Rightarrow> None | Some n \<Rightarrow> if n < 0 then None else Some n)"

definition parsePagination :: "string \<Rightarrow> string \<Rightarrow> (int \<times> int) option" where
  "parsePagination offset limit =
     (case page_number offset of
        None \<Rightarrow> None
      | Some o' \<Rightarrow> (case page_number limit of None \<Rightarrow> None | Some l \<Rightarrow> Some (o', l)))"

record counterKeyInfo =
  ck_Key :: u32
  ck_Namespace :: string
  ck_Service :: string
  ck_Labels :: string
  ck_Duration :: string

record counterStat =
  cs_Namespace :: string
  cs_Service :: string
  cs_Labels :: string
  cs_Duration :: string
  cs_MaxAmount :: u32
  cs_ClientCount :: u32
  cs_LastUpdateTime :: int

record clientKeyInfo =
  cli_Key :: u32
  cli_ID :: string
  cli_IP :: string

datatype 'a answer = Json 'a | HttpError int

text \<open>The server of a query: 503 before the start has finished, a panic when it has no managers.\<close>

definition with_server :: "Process \<Rightarrow> (Server \<Rightarrow> panic + 'a answer) \<Rightarrow> panic + 'a answer" where
  "with_server p f =
     (case GetRateLimitServer p of
        None \<Rightarrow> Inr (HttpError 503)
      | Some None \<Rightarrow> Inl NilPointer
      | Some (Some sv) \<Rightarrow> f sv)"

definition GetCountersTotal :: "Process \<Rightarrow> panic + nat answer" where
  "GetCountersTotal p = with_server p (\<lambda>sv. Inr (Json (CounterCount (counterMng sv))))"

definition ListCountersKeys :: "string \<Rightarrow> string \<Rightarrow> Process \<Rightarrow> panic + counterKeyInfo list answer" where
  "ListCountersKeys offset limit p =
     (case parsePagination offset limit of
        None \<Rightarrow> Inr (HttpError 400)
      | Some (o', l) \<Rightarrow> with_server p (\<lambda>sv.
          bindR (ListCounterIdentifiers (counterMng sv) o' l) (\<lambda>ids.
            Inr (Json (map (\<lambda>(i, key). \<lparr>ck_Key = key, ck_Namespace = id_Namespace i, ck_Service = id_Service i,
              ck_Labels = id_Labels i, ck_Duration = duration_String (id_Duration i)\<rparr>) ids)))))"

definition GetCounterStat :: "string \<Rightarrow> Process \<Rightarrow> panic + counterStat answer" where
  "GetCounterStat keyStr p =
     (case ParseUint32 keyStr of
        None \<Rightarrow> Inr (HttpError 400)
      | Some key \<Rightarrow> with_server p (\<lambda>sv.
          bindR (GetCounter key (counterMng sv)) (\<lambda>(code, ref).
            if code \<noteq> ExecuteSuccess then Inr (HttpError 404)
            else bindR (derefCounter (mem sv) ref) (\<lambda>c. let i = cIdentifier c in
              Inr (Json \<lparr>cs_Namespace = id_Namespace i, cs_Service = id_Service i, cs_Labels = id_Labels i,
                cs_Duration = duration_String (id_Duration i), cs_MaxAmount = maxAmount c,
                cs_ClientCount = clientCount (counterClients c), cs_LastUpdateTime = lastMTimeMilli c\<rparr>)))))"

definition GetClientsTotal :: "Process \<Rightarrow> panic + nat answer" where
  "GetClientsTotal p = with_server p (\<lambda>sv. Inr (Json (ClientManager_ClientCount (clientMng sv))))"

text \<open>\<open>ListClients\<close>: the client objects in the order of the map, then one page of them.\<close>

fun client_slots :: "ClientManager \<Rightarrow> u32 list \<Rightarrow> panic + nat option list" where
  "client_slots cm [] = Inr []"
| "client_slots cm (key # keys) =
     bindR (slice_get (clients cm) (toArrayIndex key)) (\<lambda>ref.
     bindR (client_slots cm keys) (\<lambda>refs. Inr (ref # refs)))"

definition ListClients :: "ClientManager \<Rightarrow> int \<Rightarrow> int \<Rightarrow> panic + nat option list" where
  "ListClients cm offset limit = bindR (client_slots cm (map snd (clientMap cm))) (\<lambda>refs. paginate refs offset limit)"

definition client_info :: "Server \<Rightarrow> nat option \<Rightarrow> panic + clientKeyInfo" where
  "client_info sv ref = bindR (deref (mem sv) ref) (\<lambda>c.
     Inr \<lparr>cli_Key = clientKey c, cli_ID = clientId c, cli_IP = IPAddress_String (clientIP c)\<rparr>)"

fun client_infos :: "Server \<Rightarrow> nat option list \<Rightarrow> panic + clientKeyInfo list" where
  "client_infos sv [] = Inr []"
| "client_infos sv (ref # refs) = bindR (client_info sv ref) (\<lambda>i. bindR (client_infos sv refs) (\<lambda>is. Inr (i # is)))"

definition ListClientsKeys :: "string \<Rightarrow> string \<Rightarrow> Process \<Rightarrow> panic + clientKeyInfo list answer" where
  "ListClientsKeys offset limit p =
     (case parsePagination offset limit of
        None \<Rightarrow> Inr (HttpError 400)
      | Some (o', l) \<Rightarrow> with_server p (\<lambda>sv.
          bindR (ListClients (clientMng sv) o' l) (\<lambda>refs.
          bindR (client_infos sv refs) (\<lambda>is. Inr (Json is)))))"

definition GetClientStat :: "string \<Rightarrow> Process \<Rightarrow> panic + clientKeyInfo answer" where
  "GetClientStat keyStr p =
     (case ParseUint32 keyStr of
        None \<Rightarrow> Inr (HttpError 400)
      | Some key \<Rightarrow> with_server p (\<lambda>sv.
          bindR (GetClient key (clientMng sv)) (\<lambda>(code, ref).
            if code \<noteq> ExecuteSuccess then Inr (HttpError 404)
            else bindR (client_info sv ref) (\<lambda>i. Inr (Json i)))))"

end
