(* ===== verification/Stat_Values.thy ===== *)
theory Stat_Values
  imports Stat_Collector Api_Call Text_Format
begin

text \<open>
  The interfaces \<open>RateLimitStatValue\<close> and \<open>RateLimitStatCollector\<close> of
  \<open>plugin/statis_api_obj_limit.go\<close>, through which the reporters read what the streams have counted:
  the accessors of the two versions and the calls that choose between them. An atomic load or
  store of a field is a read or an update of it.
\<close>

section \<open>Accessors\<close>

definition GetPassed :: "rateLimitData \<Rightarrow> int" where "GetPassed r = Passed r"

definition GetLimited :: "rateLimitData \<Rightarrow> int" where "GetLimited r = Limited r"

definition GetLastFetchTime :: "rateLimitData \<Rightarrow> int" where "GetLastFetchTime r = LastFetchTime r"

text \<open>Both versions, for the fields that they share.\<close>

definition ClientIPStrV2 :: "RateLimitStatValueV2 \<Rightarrow> string" where
  "ClientIPStrV2 r = ip_String (ip_bytes (HighValue (ClientIPV2 (StatKey r))) (LowValue (ClientIPV2 (StatKey r))))"

definition Namespace_ofV2 :: "RateLimitStatValueV2 \<Rightarrow> string" where "Namespace_ofV2 r = stat_Namespace (StatLabels r)"

definition Service_ofV2 :: "RateLimitStatValueV2 \<Rightarrow> string" where "Service_ofV2 r = stat_Service (StatLabels r)"

definition Method_ofV2 :: "RateLimitStatValueV2 \<Rightarrow> string" where "Method_ofV2 r = stat_Method (StatLabels r)"

definition AppId_ofV2 :: "RateLimitStatValueV2 \<Rightarrow> string" where "AppId_ofV2 r = stat_AppId (StatLabels r)"

definition Uin_ofV2 :: "RateLimitStatValueV2 \<Rightarrow> string" where "Uin_ofV2 r = stat_Uin (StatLabels r)"

definition Labels_ofV2 :: "RateLimitStatValueV2 \<Rightarrow> string" where "Labels_ofV2 r = stat_Labels (StatLabels r)"

definition Duration_ofV2 :: "RateLimitStatValueV2 \<Rightarrow> int" where "Duration_ofV2 r = stat_Duration (StatLabels r)"

definition GetTotalV2 :: "RateLimitStatValueV2 \<Rightarrow> int" where "GetTotalV2 r = Total r"

definition GetCurveDataV2 :: "RateLimitStatValueV2 \<Rightarrow> rateLimitData" where "GetCurveDataV2 r = CurveData r"

definition GetPrecisionDataV2 :: "RateLimitStatValueV2 \<Rightarrow> rateLimitData" where "GetPrecisionDataV2 r = PrecisionData r"

definition GetExpireDurationV2 :: "RateLimitStatValueV2 \<Rightarrow> int" where "GetExpireDurationV2 r = ExpireDuration r"

definition GetLastUpdateTimeV2 :: "RateLimitStatValueV2 \<Rightarrow> int" where "GetLastUpdateTimeV2 r = LastUpdateTime r"

definition SetExpireDurationV2 :: "int \<Rightarrow> RateLimitStatValueV2 \<Rightarrow> RateLimitStatValueV2" where "SetExpireDurationV2 x r = r\<lparr>ExpireDuration := x\<rparr>"

definition SetLastUpdateTimeV2 :: "int \<Rightarrow> RateLimitStatValueV2 \<Rightarrow> RateLimitStatValueV2" where "SetLastUpdateTimeV2 x r = r\<lparr>LastUpdateTime := x\<rparr>"

definition cloneV2 :: "RateLimitStatValueV2 \<Rightarrow> RateLimitStatValueV2" where "cloneV2 r = r"

definition ClientIPStrV1 :: "RateLimitStatValueV1 \<Rightarrow> string" where
  "ClientIPStrV1 r = ip_String (ip_bytes (HighValue (ClientIPV1 (StatKey r))) (LowValue (ClientIPV1 (StatKey r))))"

definition Namespace_ofV1 :: "RateLimitStatValueV1 \<Rightarrow> string" where "Namespace_ofV1 r = stat_Namespace (CounterKeyV1 (StatKey r))"

definition Service_ofV1 :: "RateLimitStatValueV1 \<Rightarrow> string" where "Service_ofV1 r = stat_Service (CounterKeyV1 (StatKey r))"

definition Method_ofV1 :: "RateLimitStatValueV1 \<Rightarrow> string" where "Method_ofV1 r = stat_Method (CounterKeyV1 (StatKey r))"

definition AppId_ofV1 :: "RateLimitStatValueV1 \<Rightarrow> string" where "AppId_ofV1 r = stat_AppId (CounterKeyV1 (StatKey r))"

definition Uin_ofV1 :: "RateLimitStatValueV1 \<Rightarrow> string" where "Uin_ofV1 r = stat_Uin (CounterKeyV1 (StatKey r))"

definition Labels_ofV1 :: "RateLimitStatValueV1 \<Rightarrow> string" where "Labels_ofV1 r = stat_Labels (CounterKeyV1 (StatKey r))"

definition Duration_ofV1 :: "RateLimitStatValueV1 \<Rightarrow> int" where "Duration_ofV1 r = stat_Duration (CounterKeyV1 (StatKey r))"

definition GetTotalV1 :: "RateLimitStatValueV1 \<Rightarrow> int" where "GetTotalV1 r = Total r"

definition GetCurveDataV1 :: "RateLimitStatValueV1 \<Rightarrow> rateLimitData" where "GetCurveDataV1 r = CurveData r"

definition GetPrecisionDataV1 :: "RateLimitStatValueV1 \<Rightarrow> rateLimitData" where "GetPrecisionDataV1 r = PrecisionData r"

definition GetExpireDurationV1 :: "RateLimitStatValueV1 \<Rightarrow> int" where "GetExpireDurationV1 r = ExpireDuration r"

definition GetLastUpdateTimeV1 :: "RateLimitStatValueV1 \<Rightarrow> int" where "GetLastUpdateTimeV1 r = LastUpdateTime r"

definition SetExpireDurationV1 :: "int \<Rightarrow> RateLimitStatValueV1 \<Rightarrow> RateLimitStatValueV1" where "SetExpireDurationV1 x r = r\<lparr>ExpireDuration := x\<rparr>"

definition SetLastUpdateTimeV1 :: "int \<Rightarrow> RateLimitStatValueV1 \<Rightarrow> RateLimitStatValueV1" where "SetLastUpdateTimeV1 x r = r\<lparr>LastUpdateTime := x\<rparr>"

definition cloneV1 :: "RateLimitStatValueV1 \<Rightarrow> RateLimitStatValueV1" where "cloneV1 r = r"

lemmas accessor_defs = GetPassed_def GetLimited_def GetLastFetchTime_def
  ClientIPStrV2_def Namespace_ofV2_def Service_ofV2_def Method_ofV2_def AppId_ofV2_def Uin_ofV2_def Labels_ofV2_def
  Duration_ofV2_def GetTotalV2_def GetCurveDataV2_def GetPrecisionDataV2_def cloneV2_def
  GetExpireDurationV2_def GetLastUpdateTimeV2_def SetExpireDurationV2_def SetLastUpdateTimeV2_def
  ClientIPStrV1_def Namespace_ofV1_def Service_ofV1_def Method_ofV1_def AppId_ofV1_def Uin_ofV1_def Labels_ofV1_def
  Duration_ofV1_def GetTotalV1_def GetCurveDataV1_def GetPrecisionDataV1_def cloneV1_def
  GetExpireDurationV1_def GetLastUpdateTimeV1_def SetExpireDurationV1_def SetLastUpdateTimeV1_def

section \<open>The collectors of the two versions\<close>

type_synonym collectorV2 = "(RateLimitStatKeyV2, StatLabelsV2) RateLimitStatCollector"
type_synonym collectorV1 = "(RateLimitStatKeyV1, unit) RateLimitStatCollector"

definition NewRateLimitStatCollectorV1 :: "string \<Rightarrow> collectorV1" where
  "NewRateLimitStatCollectorV1 uuid = NewRateLimitStatCollector uuid"

text \<open>
  Version 1 written out: like version 2, a value that is new is stored as it is and nothing is
  added to it, because the zero value of the failed look-up is what \<open>createStatValueV1\<close> returns.
\<close>

definition createStatValueV1 :: "collectorV1 \<Rightarrow> RateLimitStatValueV1 \<Rightarrow> RateLimitStatValueV1 option \<times> collectorV1" where
  "createStatValueV1 r v =
     (let existValue = map_of (statValues r) (StatKey v) in
      (existValue,
       if existValue = None then r\<lparr>statValues := AList.update (StatKey v) (cloneV1 v) (statValues r)\<rparr> else r))"

definition AddStatValueV1 :: "collectorV1 \<Rightarrow> RateLimitStatValueV1 \<Rightarrow> collectorV1" where
  "AddStatValueV1 r v =
     (let (existValue, r') = (case map_of (statValues r) (StatKey v) of
            Some e \<Rightarrow> (Some e, r) | None \<Rightarrow> createStatValueV1 r v)
      in case existValue of
           None \<Rightarrow> r'
         | Some e \<Rightarrow>
             r'\<lparr>statValues := AList.update (StatKey v)
               (SetLastUpdateTimeV1 (GetLastUpdateTimeV1 v) (SetExpireDurationV1 (GetExpireDurationV1 v)
                 (e\<lparr>PrecisionData := AddValues (GetPrecisionDataV1 v) (GetPrecisionDataV1 e),
                    CurveData := AddValues (GetCurveDataV1 v) (GetCurveDataV1 e)\<rparr>))) (statValues r')\<rparr>)"

definition DumpAndExpireV1 :: "Timeval \<Rightarrow> RateLimitStatValueV1 list \<Rightarrow> bool \<Rightarrow> collectorV1
    \<Rightarrow> (RateLimitStatValueV1 list \<times> nat) \<times> collectorV1" where
  "DumpAndExpireV1 tv valueSlice enableExpire r = DumpAndExpire tv valueSlice enableExpire r"

lemma AddStatValueV1_eq: "AddStatValueV1 r v = AddStatValue r v"
  by (simp add: AddStatValueV1_def AddStatValue_def createStatValueV1_def createStatValue_def addToExisting_def
      accessor_defs split: option.splits)

section \<open>The interfaces\<close>

datatype StatValue = ValueV2 RateLimitStatValueV2 | ValueV1 RateLimitStatValueV1

text \<open>The keys of the reporters' maps: an interface value that is one of four key types.\<close>

datatype AnyKey = CounterOnlyV2 u32 | FullV2 RateLimitStatKeyV2 | CounterOnlyV1 StatLabelsV2 | FullV1 RateLimitStatKeyV1

fun GetStatKey :: "bool \<Rightarrow> StatValue \<Rightarrow> AnyKey" where
  "GetStatKey counterOnly (ValueV2 v) = (case GetStatKeyV2 counterOnly v of Inl k \<Rightarrow> CounterOnlyV2 k | Inr k \<Rightarrow> FullV2 k)"
| "GetStatKey counterOnly (ValueV1 v) = (case GetStatKeyV1 counterOnly v of Inl k \<Rightarrow> CounterOnlyV1 k | Inr k \<Rightarrow> FullV1 k)"

text \<open>What the reporters print of a value.\<close>

record StatTags =
  tag_Namespace :: string
  tag_Service :: string
  tag_Method :: string
  tag_AppId :: string
  tag_Uin :: string
  tag_Labels :: string
  tag_ClientIP :: string
  tag_Duration :: int

fun tags_of :: "StatValue \<Rightarrow> StatTags" where
  "tags_of (ValueV2 v) =
     \<lparr>tag_Namespace = Namespace_ofV2 v, tag_Service = Service_ofV2 v, tag_Method = Method_ofV2 v, tag_AppId = AppId_ofV2 v,
      tag_Uin = Uin_ofV2 v, tag_Labels = Labels_ofV2 v, tag_ClientIP = ClientIPStrV2 v, tag_Duration = Duration_ofV2 v\<rparr>"
| "tags_of (ValueV1 v) =
     \<lparr>tag_Namespace = Namespace_ofV1 v, tag_Service = Service_ofV1 v, tag_Method = Method_ofV1 v, tag_AppId = AppId_ofV1 v,
      tag_Uin = Uin_ofV1 v, tag_Labels = Labels_ofV1 v, tag_ClientIP = ClientIPStrV1 v, tag_Duration = Duration_ofV1 v\<rparr>"

fun curve_of :: "StatValue \<Rightarrow> rateLimitData" where
  "curve_of (ValueV2 v) = GetCurveDataV2 v"
| "curve_of (ValueV1 v) = GetCurveDataV1 v"

fun precision_of :: "StatValue \<Rightarrow> rateLimitData" where
  "precision_of (ValueV2 v) = GetPrecisionDataV2 v"
| "precision_of (ValueV1 v) = GetPrecisionDataV1 v"

fun total_of :: "StatValue \<Rightarrow> int" where
  "total_of (ValueV2 v) = GetTotalV2 v"
| "total_of (ValueV1 v) = GetTotalV1 v"

text \<open>A write through the pointer that \<open>GetCurveData\<close> or \<open>GetPrecisionData\<close> returns.\<close>

fun set_curve :: "rateLimitData \<Rightarrow> StatValue \<Rightarrow> StatValue" where
  "set_curve d (ValueV2 v) = ValueV2 (v\<lparr>CurveData := d\<rparr>)"
| "set_curve d (ValueV1 v) = ValueV1 (v\<lparr>CurveData := d\<rparr>)"

fun set_precision :: "rateLimitData \<Rightarrow> StatValue \<Rightarrow> StatValue" where
  "set_precision d (ValueV2 v) = ValueV2 (v\<lparr>PrecisionData := d\<rparr>)"
| "set_precision d (ValueV1 v) = ValueV1 (v\<lparr>PrecisionData := d\<rparr>)"

fun expired_value :: "int \<Rightarrow> StatValue \<Rightarrow> bool" where
  "expired_value now (ValueV2 v) = isExpiredValue now v"
| "expired_value now (ValueV1 v) = isExpiredValue now v"

text \<open>
  A collector behind the interface. The values are pointers: what a reporter changes in a value
  of the dumped slice is changed in the collector, so the dump is modelled as the entries that
  were there and the collector is rebuilt from the entries after they have been processed.
\<close>

datatype Collector = CollV2 collectorV2 | CollV1 collectorV1

fun coll_ID :: "Collector \<Rightarrow> string" where
  "coll_ID (CollV2 c) = collectorId c"
| "coll_ID (CollV1 c) = collectorId c"

fun coll_values :: "Collector \<Rightarrow> StatValue list" where
  "coll_values (CollV2 c) = map (ValueV2 \<circ> snd) (statValues c)"
| "coll_values (CollV1 c) = map (ValueV1 \<circ> snd) (statValues c)"

definition put_back :: "('k, 'l) RateLimitStatValue list \<Rightarrow> ('k \<times> ('k, 'l) RateLimitStatValue) list
    \<Rightarrow> ('k \<times> ('k, 'l) RateLimitStatValue) list" where
  "put_back vs entries = zip (map fst entries) vs"

fun unV2 :: "StatValue \<Rightarrow> RateLimitStatValueV2" where "unV2 (ValueV2 v) = v"
fun unV1 :: "StatValue \<Rightarrow> RateLimitStatValueV1" where "unV1 (ValueV1 v) = v"

text \<open>
  \<open>DumpAndExpire\<close> followed by \<open>f\<close> on the dumped values: the entries that expired are dropped, the
  others hold the processed values.
\<close>

definition expire_entries :: "int \<Rightarrow> bool \<Rightarrow> ('k \<times> ('k, 'l) RateLimitStatValue) list
    \<Rightarrow> ('k \<times> ('k, 'l) RateLimitStatValue) list \<Rightarrow> ('k \<times> ('k, 'l) RateLimitStatValue) list" where
  "expire_entries now en old new =
     map snd (filter (\<lambda>(old_entry, _). \<not> (en \<and> isExpiredValue now (snd old_entry))) (zip old new))"

fun rebuild :: "Timeval \<Rightarrow> bool \<Rightarrow> StatValue list \<Rightarrow> Collector \<Rightarrow> Collector" where
  "rebuild tv en vs (CollV2 c) =
     CollV2 (c\<lparr>statValues := expire_entries (CurrentMillisecond tv) en (statValues c) (put_back (map unV2 vs) (statValues c))\<rparr>)"
| "rebuild tv en vs (CollV1 c) =
     CollV1 (c\<lparr>statValues := expire_entries (CurrentMillisecond tv) en (statValues c) (put_back (map unV1 vs) (statValues c))\<rparr>)"

text \<open>The rebuilt collector without changes is the collector after \<open>DumpAndExpire\<close>.\<close>

lemma expire_entries_same:
  "expire_entries now en old old = filter (\<lambda>(k, v). \<not> (en \<and> isExpiredValue now v)) old"
proof -
  have "map snd (filter (\<lambda>(a, b). P a) (zip old old)) = filter P old" for P :: "'a \<times> ('a, 'b) RateLimitStatValue \<Rightarrow> bool"
    by (induction old) auto
  then show ?thesis by (simp add: expire_entries_def case_prod_unfold)
qed

lemma delete_keys: "fold AList.delete ks m = filter (\<lambda>(k, v). k \<notin> set ks) m"
  by (induction ks arbitrary: m) (auto simp: AList.delete_eq intro!: filter_cong)

lemma rebuild_dump:
  assumes "wf_map (statValues c)"
  shows "expire_entries (CurrentMillisecond tv) en (statValues c) (put_back (map snd (statValues c)) (statValues c)) =
    statValues (snd (DumpAndExpire tv sl en c))"
proof -
  have same: "put_back (map snd (statValues c)) (statValues c) = statValues c"
    by (simp add: put_back_def zip_map_fst_snd)
  have exp: "k \<in> fst ` {(k, v) \<in> set (statValues c). P v} \<longleftrightarrow> P v" if "(k, v) \<in> set (statValues c)" for k v P
    using that assms by (auto simp: image_iff dest: eq_key_imp_eq_value)
  show ?thesis
    unfolding same expire_entries_same
    by (auto simp: DumpAndExpire_def Let_def delete_keys case_prod_beta image_iff
        intro!: filter_cong dest: eq_key_imp_eq_value [OF assms])
qed

end
