(* ===== verification/Curve_Report.thy ===== *)
theory Curve_Report
  imports Stat_Values
begin

text \<open>
  \<open>plugin/statis/file/ratelimit_curve.go\<close> and \<open>log_stat.go\<close>: the reporter that merges what the
  collectors of all streams hold, once per report for the curves and once per second for the
  precision log. The collectors are held by value; between two operations of the reporter a
  stream may add to its collector. A merge reads the clock once; the source reads it per value.
\<close>

section \<open>State\<close>

record RateLimitCurveReporter =
  appName :: string
  collectors :: "(string \<times> Collector) list"
  dropped :: "(string \<times> Collector) list"
  sharedCollector :: bool

record ReportItem =
  TagStr :: string
  ValueStr :: string

record ReportRecord =
  AppName :: string
  Tags :: "ReportItem list"

definition HasTags :: "ReportRecord \<Rightarrow> bool" where
  "HasTags r \<longleftrightarrow> 0 < length (Tags r)"

definition NewRateLimitCurveReporter :: "string \<Rightarrow> RateLimitCurveReporter" where
  "NewRateLimitCurveReporter rateLimitAppName =
     \<lparr>appName = rateLimitAppName, collectors = [], dropped = [], sharedCollector = False\<rparr>"

definition CreateCollectorV2 :: "string \<Rightarrow> RateLimitCurveReporter \<Rightarrow> collectorV2 \<times> RateLimitCurveReporter" where
  "CreateCollectorV2 uuid s =
     (let c = NewRateLimitStatCollector uuid in
      (c, s\<lparr>collectors := AList.update (coll_ID (CollV2 c)) (CollV2 c) (collectors s)\<rparr>))"

definition CreateCollectorV1 :: "string \<Rightarrow> RateLimitCurveReporter \<Rightarrow> collectorV1 \<times> RateLimitCurveReporter" where
  "CreateCollectorV1 uuid s =
     (let c = NewRateLimitStatCollectorV1 uuid in
      (c, s\<lparr>collectors := AList.update (coll_ID (CollV1 c)) (CollV1 c) (collectors s)\<rparr>))"

definition DropCollector :: "Collector \<Rightarrow> RateLimitCurveReporter \<Rightarrow> RateLimitCurveReporter" where
  "DropCollector c s =
     s\<lparr>collectors := AList.delete (coll_ID c) (collectors s), dropped := AList.update (coll_ID c) c (dropped s)\<rparr>"

section \<open>Merging\<close>

definition fetchRateLimitData :: "StatValue \<Rightarrow> bool \<Rightarrow> rateLimitData" where
  "fetchRateLimitData v isCurve = (if isCurve then curve_of v else precision_of v)"

definition storeRateLimitData :: "bool \<Rightarrow> rateLimitData \<Rightarrow> StatValue \<Rightarrow> StatValue" where
  "storeRateLimitData isCurve d v = (if isCurve then set_curve d v else set_precision d v)"

definition needProcess :: "bool \<Rightarrow> rateLimitData \<Rightarrow> int \<Rightarrow> int \<Rightarrow> bool" where
  "needProcess isCurve d curTimeMs duration \<longleftrightarrow>
     isCurve \<or> duration_Milliseconds duration \<le> sub64 curTimeMs (GetLastFetchTime d)"

definition clear_data :: "int \<Rightarrow> int \<Rightarrow> rateLimitData \<Rightarrow> rateLimitData" where
  "clear_data passed limited d = AddLimited (sub64 0 limited) (AddPassed (sub64 0 passed) d)"

text \<open>One value of a collector: the merged values and the value afterwards.\<close>

definition processValue :: "bool \<Rightarrow> bool \<Rightarrow> int \<Rightarrow> (AnyKey \<times> StatValue) list \<Rightarrow> StatValue
    \<Rightarrow> (AnyKey \<times> StatValue) list \<times> StatValue" where
  "processValue isCurve clearCurve curTimeMs merged v =
     (let d = fetchRateLimitData v isCurve in
      if \<not> needProcess isCurve d curTimeMs (tag_Duration (tags_of v)) then (merged, v)
      else
        let statKey = GetStatKey (\<not> isCurve) v;
            d1 = SetLastFetchTime curTimeMs d;
            passed = GetPassed d1; limited = GetLimited d1;
            d2 = (if clearCurve then clear_data passed limited d1 else d1);
            v1 = storeRateLimitData isCurve d1 v
        in (case map_of merged statKey of
              Some e \<Rightarrow>
                AList.update statKey (storeRateLimitData isCurve
                  (AddLimited limited (AddPassed passed (fetchRateLimitData e isCurve))) e) merged
            | None \<Rightarrow> AList.update statKey v1 merged,
            storeRateLimitData isCurve d2 v))"

fun processValues :: "bool \<Rightarrow> bool \<Rightarrow> int \<Rightarrow> (AnyKey \<times> StatValue) list \<Rightarrow> StatValue list
    \<Rightarrow> (AnyKey \<times> StatValue) list \<times> StatValue list" where
  "processValues isCurve clearCurve curTimeMs merged [] = (merged, [])"
| "processValues isCurve clearCurve curTimeMs merged (v # vs) =
     (let (merged1, v') = processValue isCurve clearCurve curTimeMs merged v;
          (merged2, vs') = processValues isCurve clearCurve curTimeMs merged1 vs
      in (merged2, v' # vs'))"

definition processCollector :: "Timeval \<Rightarrow> bool \<Rightarrow> bool \<Rightarrow> (AnyKey \<times> StatValue) list \<Rightarrow> Collector
    \<Rightarrow> (AnyKey \<times> StatValue) list \<times> Collector" where
  "processCollector tv shared isCurve merged c =
     (let clearCurve = (\<not> shared \<or> \<not> isCurve);
          (merged', vs') = processValues isCurve clearCurve (CurrentMillisecond tv) merged (coll_values c)
      in (merged', rebuild tv (isCurve \<and> \<not> shared) vs' c))"

fun processCollectors :: "Timeval \<Rightarrow> bool \<Rightarrow> bool \<Rightarrow> (AnyKey \<times> StatValue) list \<Rightarrow> (string \<times> Collector) list
    \<Rightarrow> (AnyKey \<times> StatValue) list \<times> (string \<times> Collector) list" where
  "processCollectors tv shared isCurve merged [] = (merged, [])"
| "processCollectors tv shared isCurve merged ((uuid, c) # cs) =
     (let (merged1, c') = processCollector tv shared isCurve merged c;
          (merged2, cs') = processCollectors tv shared isCurve merged1 cs
      in (merged2, (uuid, c') # cs'))"

definition MergeAllStatValues :: "Timeval \<Rightarrow> bool \<Rightarrow> RateLimitCurveReporter
    \<Rightarrow> (AnyKey \<times> StatValue) list \<times> RateLimitCurveReporter" where
  "MergeAllStatValues tv isCurve s =
     (let (merged1, cs) = processCollectors tv (sharedCollector s) isCurve [] (collectors s);
          (merged2, ds) = processCollectors tv (sharedCollector s) isCurve merged1 (dropped s)
      in (merged2, s\<lparr>collectors := cs, dropped := (if isCurve \<or> sharedCollector s then [] else ds)\<rparr>))"

section \<open>Records\<close>

text \<open>The service name is a variable of the process, set from the configuration.\<close>

definition rateLimitTag :: "string \<Rightarrow> StatValue \<Rightarrow> string" where
  "rateLimitTag limitService v = (let t = tags_of v in
     ''namespace='' @ tag_Namespace t @ ''&service='' @ tag_Service t @ ''&method='' @ tag_Method t @
     ''&appid='' @ tag_AppId t @ ''&uin='' @ tag_Uin t @ ''&labels='' @ tag_Labels t @
     ''&client_ip='' @ tag_ClientIP t @ ''&duration='' @ duration_String (tag_Duration t) @
     ''&limit_service='' @ limitService)"

definition buildValueStr :: "int \<Rightarrow> int \<Rightarrow> string" where
  "buildValueStr limited passed = ''limit_count='' @ dec_int limited @ ''&quota_count='' @ dec_int passed"

definition GetValueStr :: "StatValue \<Rightarrow> string \<times> StatValue" where
  "GetValueStr v =
     (let reportLimitedValue = GetLimited (curve_of v); v1 = set_curve (AddLimited (sub64 0 reportLimitedValue) (curve_of v)) v;
          reportPassedValue = GetPassed (curve_of v1); v2 = set_curve (AddPassed (sub64 0 reportPassedValue) (curve_of v1)) v1
      in (buildValueStr reportLimitedValue reportPassedValue, v2))"

definition BuildReportRecord :: "string \<Rightarrow> Timeval \<Rightarrow> RateLimitCurveReporter \<Rightarrow> ReportRecord \<times> RateLimitCurveReporter" where
  "BuildReportRecord limitService tv s =
     (let (merged, s') = MergeAllStatValues tv True s in
      (\<lparr>AppName = appName s,
        Tags = map (\<lambda>(k, v). \<lparr>TagStr = rateLimitTag limitService v, ValueStr = fst (GetValueStr v)\<rparr>) merged\<rparr>, s'))"

text \<open>The records of the curve increments that another plugin has taken out of the collectors.\<close>

record CurveDelta =
  StatValue_of :: "StatValue option"
  delta_Passed :: int
  delta_Limited :: int

record delta_sum =
  sample :: StatValue
  sum_passed :: int
  sum_limited :: int

definition add_delta :: "(AnyKey \<times> delta_sum) list \<Rightarrow> CurveDelta \<Rightarrow> (AnyKey \<times> delta_sum) list" where
  "add_delta merged d =
     (case StatValue_of d of
        None \<Rightarrow> merged
      | Some v \<Rightarrow>
          if delta_Passed d = 0 \<and> delta_Limited d = 0 then merged
          else let key = GetStatKey False v;
                   a = (case map_of merged key of Some a \<Rightarrow> a | None \<Rightarrow> \<lparr>sample = v, sum_passed = 0, sum_limited = 0\<rparr>);
                   a' = a\<lparr>sum_passed := add64 (sum_passed a) (delta_Passed d), sum_limited := add64 (sum_limited a) (delta_Limited d)\<rparr>
               in AList.update key a' merged)"

definition BuildRecordFromDeltas :: "string \<Rightarrow> CurveDelta list \<Rightarrow> RateLimitCurveReporter \<Rightarrow> ReportRecord" where
  "BuildRecordFromDeltas limitService deltas s =
     \<lparr>AppName = appName s,
      Tags = map (\<lambda>(k, a). \<lparr>TagStr = rateLimitTag limitService (sample a),
                            ValueStr = buildValueStr (sum_limited a) (sum_passed a)\<rparr>)
        (foldl add_delta [] deltas)\<rparr>"

section \<open>The precision log\<close>

text \<open>
  One line of the precision log. Its text form is JSON of the library, and its time is written
  in the local time zone; the formatted time is a parameter.
\<close>

record LogStatValue =
  ls_Namespace :: string
  ls_Service :: string
  ls_Method :: string
  ls_AppId :: string
  ls_Uin :: string
  ls_Labels :: string
  ls_Duration :: int
  ls_Passed :: int
  ls_Total :: int
  ls_Limited :: int
  ls_TimeNumber :: int
  ls_TimeStr :: string

text \<open>\<open>TimestampMsToUtcIso8601\<close> of \<open>pkg/utils/now.go\<close>, over the text that the library formats.\<close>

definition TimestampMsToUtcIso8601 :: "(int \<Rightarrow> string) \<Rightarrow> int \<Rightarrow> string" where
  "TimestampMsToUtcIso8601 rfc3339 timestamp =
     (let s = rfc3339 (add64 (mul64 timestamp 1000000) 1) in
      if length s \<noteq> 35 then ''1970-01-01T00:00:00.000+0800''
      else take 23 s @ take 3 (drop 29 s) @ drop 33 s)"

definition logStatValue :: "(int \<Rightarrow> string) \<Rightarrow> StatValue \<Rightarrow> LogStatValue" where
  "logStatValue rfc3339 v = (let t = tags_of v; d = precision_of v in
     \<lparr>ls_Namespace = tag_Namespace t, ls_Service = tag_Service t, ls_Method = tag_Method t, ls_AppId = tag_AppId t,
      ls_Uin = tag_Uin t, ls_Labels = tag_Labels t, ls_Duration = duration_Milliseconds (tag_Duration t),
      ls_Passed = GetPassed d, ls_Total = total_of v, ls_Limited = GetLimited d, ls_TimeNumber = GetLastFetchTime d,
      ls_TimeStr = TimestampMsToUtcIso8601 rfc3339 (GetLastFetchTime d)\<rparr>)"

text \<open>\<open>LogPrecisionRecord\<close>: the lines that are written, and how many.\<close>

definition LogPrecisionRecord :: "(int \<Rightarrow> string) \<Rightarrow> (AnyKey \<times> StatValue) list \<Rightarrow> LogStatValue list \<times> nat" where
  "LogPrecisionRecord rfc3339 merged =
     (let out = map (logStatValue rfc3339) (filter (\<lambda>v. GetLimited (precision_of v) \<noteq> 0) (map snd merged))
      in (out, length out))"

section \<open>Amounts\<close>

text \<open>What is stored under a key, in the merged values and in a list of values.\<close>

definition amount :: "(rateLimitData \<Rightarrow> int) \<Rightarrow> bool \<Rightarrow> StatValue \<Rightarrow> int" where
  "amount f isCurve v = f (fetchRateLimitData v isCurve)"

definition held :: "(rateLimitData \<Rightarrow> int) \<Rightarrow> bool \<Rightarrow> (AnyKey \<times> StatValue) list \<Rightarrow> AnyKey \<Rightarrow> int" where
  "held f isCurve merged K = (case map_of merged K of None \<Rightarrow> 0 | Some e \<Rightarrow> amount f isCurve e)"

definition counted :: "(rateLimitData \<Rightarrow> int) \<Rightarrow> bool \<Rightarrow> StatValue list \<Rightarrow> AnyKey \<Rightarrow> int" where
  "counted f isCurve vs K = sum_list (map (\<lambda>v. if GetStatKey (\<not> isCurve) v = K then amount f isCurve v else 0) vs)"

abbreviation a_count :: "(rateLimitData \<Rightarrow> int) \<Rightarrow> bool" where
  "a_count f \<equiv> f = Passed \<or> f = Limited"

definition all_values :: "(string \<times> Collector) list \<Rightarrow> StatValue list" where
  "all_values cs = concat (map (coll_values \<circ> snd) cs)"

lemma counted_simps [simp]:
  "counted f isCurve [] K = 0"
  "counted f isCurve (v # vs) K = (if GetStatKey (\<not> isCurve) v = K then amount f isCurve v else 0) + counted f isCurve vs K"
  "counted f isCurve (vs @ ws) K = counted f isCurve vs K + counted f isCurve ws K"
  by (simp_all add: counted_def)

lemma fetch_store [simp]: "fetchRateLimitData (storeRateLimitData isCurve d v) isCurve = d"
  by (cases v) (simp_all add: fetchRateLimitData_def storeRateLimitData_def accessor_defs)

lemma key_store [simp]: "GetStatKey b (storeRateLimitData isCurve d v) = GetStatKey b v"
  by (cases v) (simp_all add: storeRateLimitData_def GetStatKeyV1_def GetStatKeyV2_def)

lemma tags_store [simp]: "tags_of (storeRateLimitData isCurve d v) = tags_of v"
  by (cases v) (simp_all add: storeRateLimitData_def accessor_defs)

lemma i64_add_right: "i64 (a + i64 b) = i64 (a + b)"
  using i64_add [of b a] by (simp add: add.commute)

lemma i64_cong_add: "i64 a = i64 b \<Longrightarrow> i64 (a + c) = i64 (b + c)"
  by (metis i64_add)

lemma add_minus [simp]: "add64 x (sub64 0 x) = 0"
proof -
  have "add64 x (sub64 0 x) = i64 (x + (0 - x))" unfolding add64_def sub64_def by (rule i64_add_right)
  then show ?thesis by (simp add: i64_def)
qed

lemma clear_zero: "clear_data (Passed d) (Limited d) (SetLastFetchTime now d) = \<lparr>Passed = 0, Limited = 0, LastFetchTime = now\<rparr>"
  by (simp add: clear_data_def AddPassed_def AddLimited_def SetLastFetchTime_def)

lemma processValue_conserves:
  assumes "a_count f" "processValue isCurve True now merged v = (merged', v')"
  shows "i64 (held f isCurve merged' K + counted f isCurve [v'] K) = i64 (held f isCurve merged K + counted f isCurve [v] K)"
proof (cases "needProcess isCurve (fetchRateLimitData v isCurve) now (tag_Duration (tags_of v))")
  case False
  then show ?thesis using assms(2) by (auto simp: processValue_def Let_def)
next
  case True
  let ?d = "fetchRateLimitData v isCurve" and ?key = "GetStatKey (\<not> isCurve) v"
  have add: "f (AddLimited (Limited ?d) (AddPassed (Passed ?d) d)) = i64 (f d + f ?d)" for d
    using assms(1) by (auto simp: AddPassed_def AddLimited_def add64_def)
  have zero: "f (clear_data (Passed ?d) (Limited ?d) (SetLastFetchTime now ?d)) = 0"
    unfolding clear_zero using assms(1) by auto
  have same: "f (SetLastFetchTime now ?d) = f ?d" using assms(1) by (auto simp: SetLastFetchTime_def)
  have v': "v' = storeRateLimitData isCurve (clear_data (Passed ?d) (Limited ?d) (SetLastFetchTime now ?d)) v"
    and m': "merged' = (case map_of merged ?key of
       Some e \<Rightarrow> AList.update ?key (storeRateLimitData isCurve
                  (AddLimited (Limited ?d) (AddPassed (Passed ?d) (fetchRateLimitData e isCurve))) e) merged
     | None \<Rightarrow> AList.update ?key (storeRateLimitData isCurve (SetLastFetchTime now ?d) v) merged)"
    using True assms(2) by (auto simp: processValue_def Let_def GetPassed_def GetLimited_def SetLastFetchTime_def split: option.splits)
  show ?thesis
    by (auto simp: m' v' held_def amount_def amap.get_put zero add same i64_add split: option.splits)
qed

lemma processValues_conserves:
  assumes "a_count f" "processValues isCurve True now merged vs = (merged', vs')"
  shows "i64 (held f isCurve merged' K + counted f isCurve vs' K) = i64 (held f isCurve merged K + counted f isCurve vs K)"
  using assms(2)
proof (induction vs arbitrary: merged merged' vs')
  case (Cons v vs)
  obtain m1 v1 where P: "processValue isCurve True now merged v = (m1, v1)" by fastforce
  obtain vs1 where R: "processValues isCurve True now m1 vs = (merged', vs1)" "vs' = v1 # vs1"
    using Cons.prems P by (auto split: prod.splits)
  have "i64 (held f isCurve merged' K + counted f isCurve vs' K) =
      i64 (held f isCurve m1 K + counted f isCurve vs K + counted f isCurve [v1] K)"
    using i64_cong_add [OF Cons.IH [OF R(1)], of "counted f isCurve [v1] K"] R(2) by (simp add: algebra_simps)
  also have "\<dots> = i64 (held f isCurve merged K + counted f isCurve [v] K + counted f isCurve vs K)"
    using i64_cong_add [OF processValue_conserves [OF assms(1) P], of K "counted f isCurve vs K"]
    by (simp add: algebra_simps)
  finally show ?case by (simp add: algebra_simps)
qed simp

text \<open>Processing keeps the version and the key of every value.\<close>

fun same_version :: "StatValue \<Rightarrow> StatValue \<Rightarrow> bool" where
  "same_version (ValueV2 v) (ValueV2 w) \<longleftrightarrow> True"
| "same_version (ValueV1 v) (ValueV1 w) \<longleftrightarrow> True"
| "same_version _ _ \<longleftrightarrow> False"

lemma same_version_store: "same_version v (storeRateLimitData isCurve d v)"
  by (cases v) (simp_all add: storeRateLimitData_def)

lemma same_version_refl: "same_version v v"
  by (cases v) simp_all

lemma processValue_version: "same_version v (snd (processValue isCurve clr now merged v))"
  by (simp add: processValue_def Let_def same_version_store same_version_refl)

lemma processValues_version: "list_all2 same_version vs (snd (processValues isCurve clr now merged vs))"
proof (induction vs arbitrary: merged)
  case (Cons v vs)
  then show ?case using processValue_version [of v isCurve clr now merged]
    by (simp add: case_prod_beta Let_def)
qed simp

lemma expire_values:
  assumes "length old = length ws"
  shows "map snd (expire_entries now False old (put_back ws old)) = ws"
    "snd ` set (expire_entries now en old (put_back ws old)) \<subseteq> set ws"
proof -
  have "map snd (filter (\<lambda>(a, b). True) (zip xs ys)) = ys" if "length xs = length ys" for xs :: "'c list" and ys :: "'d list"
    using that by (induction xs ys rule: list_induct2) auto
  then show "map snd (expire_entries now False old (put_back ws old)) = ws"
    using assms by (simp add: expire_entries_def put_back_def)
  have "set (expire_entries now en old (put_back ws old)) \<subseteq> set (put_back ws old)"
    by (auto simp: expire_entries_def dest: set_zip_rightD)
  then show "snd ` set (expire_entries now en old (put_back ws old)) \<subseteq> set ws"
    by (auto simp: put_back_def dest!: subsetD set_zip_rightD)
qed

lemma unV_same:
  "list_all2 same_version (map (ValueV2 \<circ> g) xs) vs \<Longrightarrow> map ValueV2 (map unV2 vs) = vs"
  "list_all2 same_version (map (ValueV1 \<circ> h) ys) vs \<Longrightarrow> map ValueV1 (map unV1 vs) = vs"
proof -
  have "same_version (ValueV2 a) v \<Longrightarrow> ValueV2 (unV2 v) = v" for a v by (cases v) auto
  then show "list_all2 same_version (map (ValueV2 \<circ> g) xs) vs \<Longrightarrow> map ValueV2 (map unV2 vs) = vs"
    by (induction vs arbitrary: xs) (auto simp: list_all2_Cons2)
  have "same_version (ValueV1 a) v \<Longrightarrow> ValueV1 (unV1 v) = v" for a v by (cases v) auto
  then show "list_all2 same_version (map (ValueV1 \<circ> h) ys) vs \<Longrightarrow> map ValueV1 (map unV1 vs) = vs"
    by (induction vs arbitrary: ys) (auto simp: list_all2_Cons2)
qed

text \<open>Without expiry a rebuilt collector holds the processed values; with expiry some of them.\<close>

lemma rebuild_values:
  assumes "list_all2 same_version (coll_values c) vs"
  shows "coll_values (rebuild tv False vs c) = vs" "set (coll_values (rebuild tv en vs c)) \<subseteq> set vs"
proof -
  have len: "length (coll_values c) = length vs" using assms by (rule list_all2_lengthD)
  show "coll_values (rebuild tv False vs c) = vs" "set (coll_values (rebuild tv en vs c)) \<subseteq> set vs"
  proof (atomize (full), cases c)
    case (CollV2 a)
    have e: "map ValueV2 (map unV2 vs) = vs" by (rule unV_same(1)) (use assms CollV2 in simp)
    have l: "length (statValues a) = length (map unV2 vs)" using len CollV2 by simp
    have "map ValueV2 (map snd (expire_entries (CurrentMillisecond tv) False (statValues a) (put_back (map unV2 vs) (statValues a)))) = vs"
      unfolding expire_values(1) [OF l] by (rule e)
    moreover have "ValueV2 ` snd ` set (expire_entries (CurrentMillisecond tv) en (statValues a) (put_back (map unV2 vs) (statValues a)))
        \<subseteq> set (map ValueV2 (map unV2 vs))"
      using image_mono [OF expire_values(2) [OF l, of "CurrentMillisecond tv" en], of ValueV2] by (simp only: set_map)
    ultimately show "coll_values (rebuild tv False vs c) = vs \<and> set (coll_values (rebuild tv en vs c)) \<subseteq> set vs"
      unfolding e using CollV2 by (simp add: image_comp comp_def)
  next
    case (CollV1 a)
    have e: "map ValueV1 (map unV1 vs) = vs" by (rule unV_same(2)) (use assms CollV1 in simp)
    have l: "length (statValues a) = length (map unV1 vs)" using len CollV1 by simp
    have "map ValueV1 (map snd (expire_entries (CurrentMillisecond tv) False (statValues a) (put_back (map unV1 vs) (statValues a)))) = vs"
      unfolding expire_values(1) [OF l] by (rule e)
    moreover have "ValueV1 ` snd ` set (expire_entries (CurrentMillisecond tv) en (statValues a) (put_back (map unV1 vs) (statValues a)))
        \<subseteq> set (map ValueV1 (map unV1 vs))"
      using image_mono [OF expire_values(2) [OF l, of "CurrentMillisecond tv" en], of ValueV1] by (simp only: set_map)
    ultimately show "coll_values (rebuild tv False vs c) = vs \<and> set (coll_values (rebuild tv en vs c)) \<subseteq> set vs"
      unfolding e using CollV1 by (simp add: image_comp comp_def)
  qed
qed

text \<open>After a curve pass that clears, no processed value holds anything.\<close>

lemma processValues_cleared:
  assumes "a_count f" "w \<in> set (snd (processValues True True now merged vs))"
  shows "amount f True w = 0"
  using assms(2)
proof (induction vs arbitrary: merged)
  case (Cons v vs)
  have "amount f True (snd (processValue True True now merged v)) = 0" for merged
    using assms(1) by (auto simp: processValue_def needProcess_def Let_def amount_def GetPassed_def GetLimited_def
        clear_data_def AddPassed_def AddLimited_def SetLastFetchTime_def)
  then show ?case using Cons by (auto simp: case_prod_beta Let_def)
qed simp

lemma counted_zero: "\<forall>v \<in> set vs. amount f isCurve v = 0 \<Longrightarrow> counted f isCurve vs K = 0"
  by (induction vs) auto

lemma processCollector_conserves:
  assumes "a_count f" "processCollector tv shared isCurve merged c = (merged', c')" "\<not> shared \<or> \<not> isCurve"
  shows "i64 (held f isCurve merged' K + counted f isCurve (coll_values c') K) =
      i64 (held f isCurve merged K + counted f isCurve (coll_values c) K)"
    "isCurve \<Longrightarrow> \<forall>w \<in> set (coll_values c'). amount f True w = 0"
proof -
  obtain vs' where P: "processValues isCurve True (CurrentMillisecond tv) merged (coll_values c) = (merged', vs')"
    and c': "c' = rebuild tv (isCurve \<and> \<not> shared) vs' c"
    using assms(2,3) by (auto simp: processCollector_def Let_def split: prod.splits)
  have v: "list_all2 same_version (coll_values c) vs'"
    using processValues_version [of "coll_values c" isCurve True "CurrentMillisecond tv" merged] P by simp
  have zero: "\<forall>w \<in> set vs'. amount f True w = 0" if isCurve
    using processValues_cleared [OF assms(1), of _ "CurrentMillisecond tv" merged "coll_values c"] P that by auto
  then show clr: "isCurve \<Longrightarrow> \<forall>w \<in> set (coll_values c'). amount f True w = 0"
    using rebuild_values(2) [OF v] c' by blast
  have "counted f isCurve (coll_values c') K = counted f isCurve vs' K"
  proof (cases isCurve)
    case True
    then have "counted f True (coll_values c') K = 0" "counted f True vs' K = 0"
      by (intro counted_zero; use clr zero in blast)+
    then show ?thesis using True by simp
  qed (simp add: c' rebuild_values(1) [OF v])
  then show "i64 (held f isCurve merged' K + counted f isCurve (coll_values c') K) =
      i64 (held f isCurve merged K + counted f isCurve (coll_values c) K)"
    using processValues_conserves [OF assms(1) P] by simp
qed

lemma all_values_Cons [simp]:
  "all_values [] = []" "all_values ((i, c) # cs) = coll_values c @ all_values cs"
  by (simp_all add: all_values_def)

lemma processCollectors_conserves:
  assumes "a_count f" "processCollectors tv shared isCurve merged cs = (merged', cs')" "\<not> shared \<or> \<not> isCurve"
  shows "i64 (held f isCurve merged' K + counted f isCurve (all_values cs') K) =
      i64 (held f isCurve merged K + counted f isCurve (all_values cs) K)"
    "isCurve \<Longrightarrow> \<forall>w \<in> set (all_values cs'). amount f True w = 0"
    "map fst cs' = map fst cs"
  using assms(2)
proof (atomize (full), induction cs arbitrary: merged merged' cs')
  case (Cons ic cs)
  obtain i c where ic: "ic = (i, c)" by fastforce
  obtain m1 c1 where P: "processCollector tv shared isCurve merged c = (m1, c1)" by fastforce
  obtain cs1 where R: "processCollectors tv shared isCurve m1 cs = (merged', cs1)" "cs' = (i, c1) # cs1"
    using Cons.prems P ic by (auto split: prod.splits)
  note IH = Cons.IH [OF R(1)] and C = processCollector_conserves [OF assms(1) P assms(3)]
  have "i64 (held f isCurve merged' K + counted f isCurve (all_values cs1) K + counted f isCurve (coll_values c1) K) =
      i64 (held f isCurve m1 K + counted f isCurve (all_values cs) K + counted f isCurve (coll_values c1) K)"
    using IH by (intro i64_cong_add) blast
  also have "\<dots> = i64 (held f isCurve m1 K + counted f isCurve (coll_values c1) K + counted f isCurve (all_values cs) K)"
    by (simp add: algebra_simps)
  also have "\<dots> = i64 (held f isCurve merged K + counted f isCurve (coll_values c) K + counted f isCurve (all_values cs) K)"
    by (intro i64_cong_add C(1))
  finally show ?case using IH C(2) R(2) ic by (auto simp: algebra_simps)
qed simp

text \<open>The increments of another plugin, per key.\<close>

definition delta_key :: "CurveDelta \<Rightarrow> AnyKey option" where
  "delta_key d = (case StatValue_of d of None \<Rightarrow> None
     | Some v \<Rightarrow> if delta_Passed d = 0 \<and> delta_Limited d = 0 then None else Some (GetStatKey False v))"

definition delta_total :: "(CurveDelta \<Rightarrow> int) \<Rightarrow> CurveDelta list \<Rightarrow> AnyKey \<Rightarrow> int" where
  "delta_total g ds K = sum_list (map (\<lambda>d. if delta_key d = Some K then g d else 0) ds)"

definition summed :: "(delta_sum \<Rightarrow> int) \<Rightarrow> (AnyKey \<times> delta_sum) list \<Rightarrow> AnyKey \<Rightarrow> int" where
  "summed g merged K = (case map_of merged K of None \<Rightarrow> 0 | Some a \<Rightarrow> g a)"

lemma add_delta_step:
  "summed sum_passed (add_delta merged d) K =
    (if delta_key d = Some K then add64 (summed sum_passed merged K) (delta_Passed d) else summed sum_passed merged K)"
  "summed sum_limited (add_delta merged d) K =
    (if delta_key d = Some K then add64 (summed sum_limited merged K) (delta_Limited d) else summed sum_limited merged K)"
  "K \<in> fst ` set (add_delta merged d) \<longleftrightarrow> K \<in> fst ` set merged \<or> delta_key d = Some K"
  by (auto simp: add_delta_def delta_key_def summed_def Let_def amap.get_put dom_update split: option.splits)

lemma add_delta_wf: "wf_map merged \<Longrightarrow> wf_map (add_delta merged d)"
  by (auto simp: add_delta_def Let_def amap.ok_put split: option.splits)

lemma add_deltas_passed:
  "i64 (summed sum_passed (foldl add_delta merged ds) K) = i64 (summed sum_passed merged K + delta_total delta_Passed ds K)"
  by (induction ds arbitrary: merged) (auto simp: add_delta_step delta_total_def add64_def i64_add add.assoc)

lemma add_deltas_limited:
  "i64 (summed sum_limited (foldl add_delta merged ds) K) = i64 (summed sum_limited merged K + delta_total delta_Limited ds K)"
  by (induction ds arbitrary: merged) (auto simp: add_delta_step delta_total_def add64_def i64_add add.assoc)

lemma add_deltas_keys:
  "K \<in> fst ` set (foldl add_delta merged ds) \<longleftrightarrow> K \<in> fst ` set merged \<or> Some K \<in> delta_key ` set ds"
  by (induction ds arbitrary: merged) (auto simp: add_delta_step eq_commute [of "Some K"])

lemmas add_deltas = add_deltas_passed add_deltas_limited add_deltas_keys

section \<open>Properties\<close>

text \<open>C15: a curve report of the file plugin contains, per key, everything that the collectors of open
  and of closed streams hold, modulo the 64-bit wrap-around; afterwards no collector holds any of it
  and the closed streams are forgotten, so nothing is lost and nothing is reported twice.\<close>
theorem curve_report_complete:
  assumes "\<not> sharedCollector s" "MergeAllStatValues tv True s = (merged, s')"
  shows "i64 (held Passed True merged K) = i64 (counted Passed True (all_values (collectors s) @ all_values (dropped s)) K) \<and>
    i64 (held Limited True merged K) = i64 (counted Limited True (all_values (collectors s) @ all_values (dropped s)) K) \<and>
    (w \<in> set (all_values (collectors s')) \<longrightarrow>
      Passed (curve_of w) = 0 \<and> Limited (curve_of w) = 0) \<and>
    dropped s' = [] \<and>
    map fst (collectors s') = map fst (collectors s)"
proof -
  obtain m1 cs where P: "processCollectors tv False True [] (collectors s) = (m1, cs)" by fastforce
  obtain ds where Q: "processCollectors tv False True m1 (dropped s) = (merged, ds)" "s' = s\<lparr>collectors := cs, dropped := []\<rparr>"
    using assms P by (auto simp: MergeAllStatValues_def split: prod.splits)
  have total: "i64 (held f True merged K) = i64 (counted f True (all_values (collectors s) @ all_values (dropped s)) K)"
    and zero: "\<forall>w \<in> set (all_values cs). amount f True w = 0" if f: "a_count f" for f
  proof -
    have PC: "i64 (held f True m1 K + counted f True (all_values cs) K) = i64 (held f True [] K + counted f True (all_values (collectors s)) K)"
      "\<forall>w \<in> set (all_values cs). amount f True w = 0"
      using processCollectors_conserves(1) [OF f P, of K] processCollectors_conserves(2) [OF f P] by auto
    have QC: "i64 (held f True merged K + counted f True (all_values ds) K) = i64 (held f True m1 K + counted f True (all_values (dropped s)) K)"
      "\<forall>w \<in> set (all_values ds). amount f True w = 0"
      using processCollectors_conserves(1) [OF f Q(1), of K] processCollectors_conserves(2) [OF f Q(1)] by auto
    have "i64 (held f True merged K) = i64 (held f True m1 K + counted f True (all_values (dropped s)) K)"
      using QC by (simp add: counted_zero)
    also have "\<dots> = i64 (counted f True (all_values (collectors s)) K + counted f True (all_values (dropped s)) K)"
      using PC by (intro i64_cong_add) (simp add: counted_zero held_def)
    finally show "i64 (held f True merged K) = i64 (counted f True (all_values (collectors s) @ all_values (dropped s)) K)" by simp
    show "\<forall>w \<in> set (all_values cs). amount f True w = 0" by (fact PC(2))
  qed
  have c1: "i64 (held Passed True merged K) = i64 (counted Passed True (all_values (collectors s) @ all_values (dropped s)) K)"
    "i64 (held Limited True merged K) = i64 (counted Limited True (all_values (collectors s) @ all_values (dropped s)) K)"
    by (rule total; simp)+
  have c2: "w \<in> set (all_values (collectors s')) \<Longrightarrow> Passed (curve_of w) = 0 \<and> Limited (curve_of w) = 0"
    using zero [of Passed] zero [of Limited] Q(2) by (simp add: amount_def fetchRateLimitData_def)
  have c3: "dropped s' = []" "map fst (collectors s') = map fst (collectors s)"
    using Q(2) processCollectors_conserves(3) [of Passed, OF _ P] by simp_all
  show ?thesis using c1 c2 c3 by blast
qed

text \<open>C16: a precision pass of the file plugin keeps, per counter, the sum of what is merged and of
  what stays in the collectors: a value whose period has not passed stays where it is.\<close>
theorem precision_pass_conserves:
  assumes "\<not> sharedCollector s" "MergeAllStatValues tv False s = (merged, s')"
  shows "i64 (held Passed False merged K + counted Passed False (all_values (collectors s') @ all_values (dropped s')) K) =
      i64 (counted Passed False (all_values (collectors s) @ all_values (dropped s)) K) \<and>
    i64 (held Limited False merged K + counted Limited False (all_values (collectors s') @ all_values (dropped s')) K) =
      i64 (counted Limited False (all_values (collectors s) @ all_values (dropped s)) K)"
proof -
  obtain m1 cs where P: "processCollectors tv False False [] (collectors s) = (m1, cs)" by fastforce
  obtain ds where Q: "processCollectors tv False False m1 (dropped s) = (merged, ds)" "s' = s\<lparr>collectors := cs, dropped := ds\<rparr>"
    using assms P by (auto simp: MergeAllStatValues_def split: prod.splits)
  have total: "i64 (held f False merged K + counted f False (all_values cs @ all_values ds) K) =
      i64 (counted f False (all_values (collectors s) @ all_values (dropped s)) K)" if f: "a_count f" for f
  proof -
    have "i64 (held f False merged K + counted f False (all_values ds) K + counted f False (all_values cs) K) =
        i64 (held f False m1 K + counted f False (all_values (dropped s)) K + counted f False (all_values cs) K)"
      using processCollectors_conserves(1) [OF f Q(1), of K] by (intro i64_cong_add) simp
    also have "\<dots> = i64 (held f False m1 K + counted f False (all_values cs) K + counted f False (all_values (dropped s)) K)"
      by (simp add: algebra_simps)
    also have "\<dots> = i64 (counted f False (all_values (collectors s)) K + counted f False (all_values (dropped s)) K)"
      using processCollectors_conserves(1) [OF f P, of K] by (intro i64_cong_add) (simp add: held_def)
    finally show ?thesis by (simp add: algebra_simps)
  qed
  have c1: "i64 (held Passed False merged K + counted Passed False (all_values (collectors s') @ all_values (dropped s')) K) =
      i64 (counted Passed False (all_values (collectors s) @ all_values (dropped s)) K)"
    "i64 (held Limited False merged K + counted Limited False (all_values (collectors s') @ all_values (dropped s')) K) =
      i64 (counted Limited False (all_values (collectors s) @ all_values (dropped s)) K)"
    using total [of Passed] total [of Limited] Q(2) by simp_all
  show ?thesis using c1 by blast
qed

definition one_value :: "int \<Rightarrow> RateLimitStatValueV2" where
  "one_value fetched =
     \<lparr>StatKey = \<lparr>CounterKeyV2 = 7, ClientIPV2 = \<lparr>LowValue = 1, HighValue = 0\<rparr>\<rparr>, Total = 10,
      CurveData = \<lparr>Passed = 3, Limited = 2, LastFetchTime = fetched\<rparr>,
      PrecisionData = \<lparr>Passed = 3, Limited = 2, LastFetchTime = fetched\<rparr>,
      StatLabels = \<lparr>stat_Namespace = ''n'', stat_Service = ''s'', stat_Method = [], stat_AppId = [], stat_Uin = [],
        stat_Labels = [], stat_Duration = 1000000000\<rparr>,
      ExpireDuration = 1000, LastUpdateTime = 5000\<rparr>"

definition one_collector :: "int \<Rightarrow> Collector" where
  "one_collector fetched = CollV2 \<lparr>collectorId = ''c'', statValues = [(StatKey (one_value fetched), one_value fetched)]\<rparr>"

definition two_streams :: "bool \<Rightarrow> RateLimitCurveReporter" where
  "two_streams shared = \<lparr>appName = ''a'', collectors = [(''c'', one_collector 0)], dropped = [(''d'', one_collector 5000)],
     sharedCollector = shared\<rparr>"

lemmas two_streams_defs = two_streams_def one_collector_def one_value_def

theorem curve_report_complete_witness:
  "\<exists>merged s'. MergeAllStatValues \<lparr>Sec = 9, Usec = 0\<rparr> True (two_streams False) = (merged, s') \<and>
     i64 (held Passed True merged (FullV2 (StatKey (one_value 0)))) = 6 \<and> dropped s' = []"
proof -
  obtain merged s' where M: "MergeAllStatValues \<lparr>Sec = 9, Usec = 0\<rparr> True (two_streams False) = (merged, s')" by fastforce
  have "\<not> sharedCollector (two_streams False)" by (simp add: two_streams_def)
  from curve_report_complete [OF this M]
  have "i64 (held Passed True merged (FullV2 (StatKey (one_value 0)))) = i64 6" "dropped s' = []"
    by (simp_all add: two_streams_defs amount_def fetchRateLimitData_def GetStatKeyV2_def accessor_defs)
  then show ?thesis using M by (simp add: i64_def)
qed

theorem precision_pass_conserves_witness:
  "\<exists>merged s'. MergeAllStatValues \<lparr>Sec = 5, Usec = 500000\<rparr> False (two_streams False) = (merged, s') \<and>
     i64 (held Limited False merged (CounterOnlyV2 7) +
       counted Limited False (all_values (collectors s') @ all_values (dropped s')) (CounterOnlyV2 7)) = 4"
proof -
  obtain merged s' where M: "MergeAllStatValues \<lparr>Sec = 5, Usec = 500000\<rparr> False (two_streams False) = (merged, s')" by fastforce
  have "\<not> sharedCollector (two_streams False)" by (simp add: two_streams_def)
  from precision_pass_conserves [OF this M, of "CounterOnlyV2 7"]
  have "i64 (held Limited False merged (CounterOnlyV2 7) +
      counted Limited False (all_values (collectors s') @ all_values (dropped s')) (CounterOnlyV2 7)) = i64 4"
    by (simp add: two_streams_defs amount_def fetchRateLimitData_def GetStatKeyV2_def accessor_defs)
  then show ?thesis using M by (simp add: i64_def)
qed

text \<open>When the collectors are shared with the metrics plugin, a precision pass forgets the closed
  streams even if it was too early to log their values: what they hold is then in no merged value.\<close>
theorem shared_precision_pass_loses:
  assumes "sharedCollector s" "MergeAllStatValues tv False s = (merged, s')"
    and "\<And>v. v \<in> set (all_values (dropped s)) \<Longrightarrow>
      \<not> needProcess False (precision_of v) (CurrentMillisecond tv) (tag_Duration (tags_of v))"
  shows "dropped s' = [] \<and>
    merged = fst (processCollectors tv True False [] (collectors s))"
proof -
  have vs: "processValues False True (CurrentMillisecond tv) m ws = (m, ws)"
    if "\<forall>v \<in> set ws. \<not> needProcess False (precision_of v) (CurrentMillisecond tv) (tag_Duration (tags_of v))" for m ws
    using that by (induction ws) (auto simp: processValue_def fetchRateLimitData_def Let_def)
  have cs: "fst (processCollectors tv True False m ds) = m"
    if "\<forall>v \<in> set (all_values ds). \<not> needProcess False (precision_of v) (CurrentMillisecond tv) (tag_Duration (tags_of v))" for m ds
    using that by (induction ds) (auto simp: processCollector_def Let_def vs split: prod.splits)
  have c1: "dropped s' = []" "merged = fst (processCollectors tv True False [] (collectors s))"
    using assms(1,2) cs [of "dropped s"] assms(3) by (auto simp: MergeAllStatValues_def split: prod.splits) (metis fst_conv)
  show ?thesis using c1 by blast
qed

theorem shared_precision_pass_loses_witness:
  "\<exists>merged s'. MergeAllStatValues \<lparr>Sec = 5, Usec = 500000\<rparr> False ((two_streams True)\<lparr>collectors := []\<rparr>) = (merged, s') \<and>
     dropped s' = [] \<and> merged = [] \<and>
     counted Limited False (all_values (dropped (two_streams True))) (CounterOnlyV2 7) = 2"
proof -
  let ?s = "(two_streams True)\<lparr>collectors := []\<rparr>"
  obtain merged s' where M: "MergeAllStatValues \<lparr>Sec = 5, Usec = 500000\<rparr> False ?s = (merged, s')" by fastforce
  have early: "\<not> needProcess False (precision_of v) (CurrentMillisecond \<lparr>Sec = 5, Usec = 500000\<rparr>) (tag_Duration (tags_of v))"
    if "v \<in> set (all_values (dropped ?s))" for v
    using that by (auto simp: two_streams_defs needProcess_def CurrentMillisecond_def duration_Milliseconds_def accessor_defs
        add64_def mul64_def sub64_def i64_def signed_divide_int_def)
  have "sharedCollector ?s" by (simp add: two_streams_def)
  from shared_precision_pass_loses [OF this M early] M show ?thesis
    by (simp add: two_streams_defs amount_def fetchRateLimitData_def GetStatKeyV2_def accessor_defs)
qed

text \<open>The curve record built from increments has, for every key with a non-zero increment, one
  line whose amounts are the sums of the increments of that key, modulo the 64-bit wrap-around.\<close>
theorem deltas_are_summed:
  shows "length (Tags (BuildRecordFromDeltas svcName ds s)) = card ({K. Some K \<in> delta_key ` set ds}) \<and>
    i64 (summed sum_passed (foldl add_delta [] ds) K) = i64 (delta_total delta_Passed ds K) \<and>
    i64 (summed sum_limited (foldl add_delta [] ds) K) = i64 (delta_total delta_Limited ds K)"
proof -
  have wf: "wf_map (foldl add_delta m ds)" if "wf_map m" for m
    using that by (induction ds arbitrary: m) (auto simp: add_delta_wf)
  have "card (fst ` set (foldl add_delta [] ds)) = length (foldl add_delta [] ds)"
    using distinct_card [OF wf [of "[]"]] by simp
  moreover have "fst ` set (foldl add_delta [] ds) = {K. Some K \<in> delta_key ` set ds}"
    using add_deltas(3) [of _ "[]" ds] by auto
  ultimately have "length (Tags (BuildRecordFromDeltas svcName ds s)) = card ({K. Some K \<in> delta_key ` set ds})"
    by (simp add: BuildRecordFromDeltas_def)
  then show ?thesis using add_deltas(1,2) [of "[]" ds K] by (simp add: summed_def)
qed

end
