(* ===== verification/Server_Report.thy ===== *)
theory Server_Report
  imports Curve_Report "HOL-Library.Multiset"
begin

text \<open>
  The rest of the file plugin: \<open>server_curve.go\<close> (the calls that were served), \<open>event_log.go\<close> (the
  events by type), \<open>config.go\<close>, and the two tasks of \<open>file.go\<close> and \<open>file_logger.go\<close>. The log files are
  seen through what is written to them.
\<close>

section \<open>Configuration\<close>

record ReportConfig =
  RateLimitAppName :: string
  RateLimitReportLogPath :: string
  RateLimitPrecisionLogPath :: string
  RateLimitEventLogPath :: string
  ServerAppName :: string
  ServerReportLogPath :: string
  PrecisionLogInterval :: int
  LogInterval :: int
  LogSize :: int
  LogBackups :: int
  LogMaxAge :: int

datatype report_error = RateLimitAppNameEmpty | ServerAppNameEmpty | LogIntervalSmall | PrecisionLogIntervalSmall
  | ReportLogPathEmpty | PrecisionLogPathEmpty | EventLogPathEmpty | ServerReportLogPathEmpty

definition Validate :: "ReportConfig \<Rightarrow> report_error + ReportConfig" where
  "Validate r =
     (if length (RateLimitAppName r) = 0 then Inl RateLimitAppNameEmpty
      else if length (ServerAppName r) = 0 then Inl ServerAppNameEmpty
      else if LogInterval r < 1 then Inl LogIntervalSmall
      else if PrecisionLogInterval r < 1 then Inl PrecisionLogIntervalSmall
      else if length (RateLimitReportLogPath r) = 0 then Inl ReportLogPathEmpty
      else if length (RateLimitPrecisionLogPath r) = 0 then Inl PrecisionLogPathEmpty
      else if length (RateLimitEventLogPath r) = 0 then Inl EventLogPathEmpty
      else if length (ServerReportLogPath r) = 0 then Inl ServerReportLogPathEmpty
      else Inr (r\<lparr>LogSize := (if LogSize r = 0 then 100 else LogSize r),
                  LogBackups := (if LogBackups r = 0 then 20 else LogBackups r),
                  LogMaxAge := (if LogMaxAge r = 0 then 10 else LogMaxAge r)\<rparr>))"

section \<open>The calls that were served\<close>

record ServerCurveReporter =
  collections :: "(APICallStatKey \<times> APICallStatValueImpl) list"
  reportInterval :: int
  serverAppName :: string

definition NewServerCurveReporter :: "ReportConfig \<Rightarrow> ServerCurveReporter" where
  "NewServerCurveReporter c =
     \<lparr>collections = [], reportInterval = mul64 (LogInterval c) 1000000000, serverAppName = ServerAppName c\<rparr>"

text \<open>Under the lock: the stored value, or the stored copy of the new one, and whether it was there.\<close>

definition getAndCreateStoreValue :: "APICallStatValueImpl \<Rightarrow> ServerCurveReporter
    \<Rightarrow> (APICallStatValueImpl \<times> bool) \<times> ServerCurveReporter" where
  "getAndCreateStoreValue curValue s =
     (case map_of (collections s) (ApiStatKey curValue) of
        Some stored \<Rightarrow> ((stored, True), s)
      | None \<Rightarrow> (let saved = ApiClone curValue in
          ((saved, False), s\<lparr>collections := AList.update (ApiStatKey saved) saved (collections s)\<rparr>)))"

definition AddIncrement :: "int \<Rightarrow> APICallStatValueImpl \<Rightarrow> ServerCurveReporter \<Rightarrow> ServerCurveReporter" where
  "AddIncrement now v s =
     (let ((storeValue, exists), s1) =
            (case map_of (collections s) (ApiStatKey v) of
               Some stored \<Rightarrow> ((stored, True), s)
             | None \<Rightarrow> getAndCreateStoreValue v s);
          added = (if exists then CasMaxLatency (Latency v) (AddLatency (Latency v) (AddReqCount 1 storeValue)) else storeValue)
      in s1\<lparr>collections := AList.update (ApiStatKey v) (SetLastUpdateTime now added) (collections s1)\<rparr>)"

text \<open>The numbers of one line, and the value afterwards. The counts are printed as \<open>int32\<close>.\<close>

record server_line =
  line_max :: int
  line_avg :: int
  line_network :: int
  line_system :: int
  line_user :: int
  line_success :: int
  line_total :: int

definition takeValue :: "APICallStatValueImpl \<Rightarrow> panic + (server_line \<times> APICallStatValueImpl)" where
  "takeValue v =
     (let reqCount = ReqCount v; v1 = AddReqCount (0 - reqCount) v;
          latencyTotal = Latency v1; v2 = AddLatency (sub64 0 latencyTotal) v1;
          maxLatency = MaxLatency v2; v3 = ResetMaxLatency maxLatency v2;
          n = sint reqCount; code = ApiCode (ApiStatKey v) in
      bindR (quot64 latencyTotal n) (\<lambda>avg.
        Inr (\<lparr>line_max = maxLatency, line_avg = avg, line_network = 0,
              line_system = (if \<not> IsSuccess code \<and> IsSysErr code then n else 0),
              line_user = (if \<not> IsSuccess code \<and> \<not> IsSysErr code \<and> IsUserErr code then n else 0),
              line_success = (if IsSuccess code then n else 0), line_total = n\<rparr>, v3)))"

definition lineStr :: "server_line \<Rightarrow> string" where
  "lineStr l =
     ''latency.max.interface='' @ dec_int (line_max l) @ ''&latency.avg.interface='' @ dec_int (line_avg l) @
     ''&count.network_err='' @ dec_int (line_network l) @ ''&count.system_err='' @ dec_int (line_system l) @
     ''&count.user_err='' @ dec_int (line_user l) @ ''&count.success='' @ dec_int (line_success l) @
     ''&count.total='' @ dec_int (line_total l)"

definition serverTag :: "string \<Rightarrow> APICallStatValueImpl \<Rightarrow> string" where
  "serverTag limitService v = (let k = ApiStatKey v in
     ''inf='' @ GetAPIKeyPresent (ApiKey k) @ ''&err_code='' @ dec_int (uint (ApiCode k)) @
     ''&duration='' @ duration_String (ApiDuration k) @ ''&msg_type='' @ MsgType_String (ApiMsgType k) @
     ''&limit_service='' @ limitService)"

text \<open>
  \<open>BuildReportRecord\<close>: a value without calls is dropped once it has been idle for two intervals, any
  other is printed and reset. The lines are kept beside the record they are printed into.
\<close>

fun reportEntries :: "int \<Rightarrow> int \<Rightarrow> (APICallStatKey \<times> APICallStatValueImpl) list
    \<Rightarrow> panic + ((APICallStatKey \<times> server_line) list \<times> (APICallStatKey \<times> APICallStatValueImpl) list)" where
  "reportEntries now interval [] = Inr ([], [])"
| "reportEntries now interval ((k, v) # rest) =
     (if ReqCount v = 0
      then bindR (reportEntries now interval rest) (\<lambda>(ls, vs).
             Inr (ls, if mul64 2 interval \<le> sub64 now (ApiLastUpdateTime v) then vs else (k, v) # vs))
      else bindR (takeValue v) (\<lambda>(l, v').
           bindR (reportEntries now interval rest) (\<lambda>(ls, vs). Inr ((k, l) # ls, (k, v') # vs))))"

definition server_BuildReportRecord :: "string \<Rightarrow> int \<Rightarrow> ServerCurveReporter
    \<Rightarrow> panic + ((ReportRecord \<times> (APICallStatKey \<times> server_line) list) \<times> ServerCurveReporter)" where
  "server_BuildReportRecord limitService now s =
     bindR (reportEntries now (reportInterval s) (collections s)) (\<lambda>(ls, vs).
       Inr ((\<lparr>AppName = serverAppName s,
              Tags = map (\<lambda>(k, l). \<lparr>TagStr = serverTag limitService (the (map_of (collections s) k)), ValueStr = lineStr l\<rparr>) ls\<rparr>, ls),
            s\<lparr>collections := vs\<rparr>))"

section \<open>Events\<close>

type_synonym EventLogReporter = "(string \<times> Event list) list"

definition AddEvent :: "Event \<Rightarrow> EventLogReporter \<Rightarrow> EventLogReporter" where
  "AddEvent e r =
     AList.update (GetEventType e) ((case map_of r (GetEventType e) of None \<Rightarrow> [] | Some q \<Rightarrow> q) @ [e]) r"

text \<open>\<open>LogAllEvents\<close>: the events that are written, how many, and the emptied queues.\<close>

definition LogAllEvents :: "EventLogReporter \<Rightarrow> (Event list \<times> nat) \<times> EventLogReporter" where
  "LogAllEvents r =
     (let eventToLogs = filter (\<lambda>(t, q). q \<noteq> []) r; out = concat (map snd eventToLogs)
      in ((out, length out), map (\<lambda>(t, q). (t, [])) r))"

section \<open>The tasks\<close>

text \<open>
  The plugin as a whole. \<open>file.go\<close> runs it with its own collectors; \<open>file_logger.go\<close> runs it for the
  metrics plugin, which shares its collectors and sends the curve increments itself.
\<close>

record FilePlugin =
  curveReporter :: RateLimitCurveReporter
  serverReporter :: ServerCurveReporter
  eventReporter :: EventLogReporter
  reportLog :: "ReportRecord list"
  precisionLog :: "LogStatValue list"
  eventLines :: "Event list"

definition NewFileLogger :: "bool \<Rightarrow> ReportConfig \<Rightarrow> report_error + FilePlugin" where
  "NewFileLogger shared cfg =
     bindR (Validate cfg) (\<lambda>c.
       Inr \<lparr>curveReporter = (NewRateLimitCurveReporter (RateLimitAppName c))\<lparr>sharedCollector := shared\<rparr>,
            serverReporter = NewServerCurveReporter c, eventReporter = [],
            reportLog = [], precisionLog = [], eventLines = []\<rparr>)"

definition Report :: "ReportRecord \<Rightarrow> FilePlugin \<Rightarrow> FilePlugin" where
  "Report rec p = (if HasTags rec then p\<lparr>reportLog := reportLog p @ [rec]\<rparr> else p)"

definition precisionTick :: "(int \<Rightarrow> string) \<Rightarrow> Timeval \<Rightarrow> FilePlugin \<Rightarrow> FilePlugin" where
  "precisionTick rfc3339 tv p =
     (let (merged, r) = MergeAllStatValues tv False (curveReporter p); (out, total) = LogPrecisionRecord rfc3339 merged
      in p\<lparr>curveReporter := r, precisionLog := precisionLog p @ out\<rparr>)"

definition reportTick :: "string \<Rightarrow> Timeval \<Rightarrow> int \<Rightarrow> FilePlugin \<Rightarrow> panic + FilePlugin" where
  "reportTick limitService tv now p =
     bindR (server_BuildReportRecord limitService now (serverReporter p)) (\<lambda>((srvRecord, _), sr).
       let p1 = Report srvRecord (p\<lparr>serverReporter := sr\<rparr>);
           p2 = (if sharedCollector (curveReporter p1) then p1
                 else let (rateLimitRecord, r) = BuildReportRecord limitService tv (curveReporter p1)
                      in Report rateLimitRecord (p1\<lparr>curveReporter := r\<rparr>));
           ((out, total), er) = LogAllEvents (eventReporter p2)
       in Inr (p2\<lparr>eventReporter := er, eventLines := eventLines p2 @ out\<rparr>))"

definition RegisterCollector :: "Collector \<Rightarrow> FilePlugin \<Rightarrow> FilePlugin" where
  "RegisterCollector c p =
     p\<lparr>curveReporter := (curveReporter p)\<lparr>collectors := AList.update (coll_ID c) c (collectors (curveReporter p))\<rparr>\<rparr>"

definition file_DropCollector :: "Collector option \<Rightarrow> FilePlugin \<Rightarrow> FilePlugin" where
  "file_DropCollector c p = (case c of None \<Rightarrow> p | Some c \<Rightarrow> p\<lparr>curveReporter := DropCollector c (curveReporter p)\<rparr>)"

definition file_AddEventToLog :: "Event \<Rightarrow> FilePlugin \<Rightarrow> FilePlugin" where
  "file_AddEventToLog e p = p\<lparr>eventReporter := AddEvent e (eventReporter p)\<rparr>"

definition file_AddAPICall :: "int \<Rightarrow> APICallStatValueImpl \<Rightarrow> FilePlugin \<Rightarrow> FilePlugin" where
  "file_AddAPICall now v p = p\<lparr>serverReporter := AddIncrement now v (serverReporter p)\<rparr>"

definition ReportCurveDeltas :: "string \<Rightarrow> CurveDelta list \<Rightarrow> FilePlugin \<Rightarrow> FilePlugin" where
  "ReportCurveDeltas limitService deltas p =
     (if deltas = [] then p else Report (BuildRecordFromDeltas limitService deltas (curveReporter p)) p)"

section \<open>What a reporter holds\<close>

text \<open>
  The latencies per key that were added since the last report. A value with no call since then
  may be held, or dropped.
\<close>

definition tracked :: "APICallStatKey \<Rightarrow> int list \<Rightarrow> APICallStatValueImpl \<Rightarrow> bool" where
  "tracked k ls v \<longleftrightarrow> ApiStatKey v = k \<and> ReqCount v = of_nat (length ls) \<and> Latency v = i64 (sum_list ls) \<and>
     MaxLatency v = foldl max 0 ls"

definition tracks :: "(APICallStatKey \<Rightarrow> int list) \<Rightarrow> (APICallStatKey \<times> APICallStatValueImpl) list \<Rightarrow> bool" where
  "tracks L m \<longleftrightarrow> wf_map m \<and> (\<forall>k. case map_of m k of None \<Rightarrow> L k = [] | Some v \<Rightarrow> tracked k (L k) v)"

definition call_ok :: "APICallStatValueImpl \<Rightarrow> bool" where
  "call_ok v \<longleftrightarrow> ReqCount v = 1 \<and> 0 \<le> Latency v \<and> in64 (Latency v)"

lemma tracks_put:
  assumes "tracks L m" "tracked k ls v"
  shows "tracks (L(k := ls)) (AList.update k v m)"
proof -
  have old: "case map_of m k' of None \<Rightarrow> L k' = [] | Some v \<Rightarrow> tracked k' (L k') v" for k'
    using assms(1) unfolding tracks_def by blast
  have "case map_of (AList.update k v m) k' of None \<Rightarrow> (L(k := ls)) k' = []
      | Some v \<Rightarrow> tracked k' ((L(k := ls)) k') v" for k'
    using assms(2) old [of k'] by (auto simp: amap.get_put split: option.splits)
  moreover have "wf_map (AList.update k v m)" using assms(1) by (simp add: tracks_def amap.ok_put)
  ultimately show ?thesis unfolding tracks_def by blast
qed

lemma AddIncrement_tracks:
  assumes "tracks L (collections s)" "call_ok v"
  shows "tracks (L(ApiStatKey v := L (ApiStatKey v) @ [Latency v])) (collections (AddIncrement now v s))"
    "reportInterval (AddIncrement now v s) = reportInterval s"
proof -
  let ?k = "ApiStatKey v"
  have "tracks (L(?k := L ?k @ [Latency v])) (collections (AddIncrement now v s)) \<and>
    reportInterval (AddIncrement now v s) = reportInterval s"
  proof (cases "map_of (collections s) ?k")
    case None
    then have "L ?k = []" using assms(1) unfolding tracks_def by (metis option.case(1))
    then have T: "tracked ?k (L ?k @ [Latency v]) (SetLastUpdateTime now (ApiClone v))"
      using assms(2) by (simp add: tracked_def call_ok_def ApiClone_def SetLastUpdateTime_def)
    have A: "collections (AddIncrement now v s) = AList.update ?k (SetLastUpdateTime now (ApiClone v)) (collections s)"
      "reportInterval (AddIncrement now v s) = reportInterval s"
      using None by (simp_all add: AddIncrement_def getAndCreateStoreValue_def ApiClone_def Let_def)
    show ?thesis using tracks_put [OF assms(1) T] unfolding A by blast
  next
    case (Some w)
    let ?w = "SetLastUpdateTime now (CasMaxLatency (Latency v) (AddLatency (Latency v) (AddReqCount 1 w)))"
    have W: "tracked ?k (L ?k) w" using assms(1) Some unfolding tracks_def by (metis option.case(2))
    have T: "tracked ?k (L ?k @ [Latency v]) ?w"
      using W by (simp add: tracked_def SetLastUpdateTime_def CasMaxLatency_def AddLatency_def AddReqCount_def add64_def i64_add max_def)
    have A: "collections (AddIncrement now v s) = AList.update ?k ?w (collections s)"
      "reportInterval (AddIncrement now v s) = reportInterval s"
      using Some by (simp_all add: AddIncrement_def)
    show ?thesis using tracks_put [OF assms(1) T] unfolding A by blast
  qed
  then show "tracks (L(?k := L ?k @ [Latency v])) (collections (AddIncrement now v s))"
    "reportInterval (AddIncrement now v s) = reportInterval s" by blast+
qed

text \<open>The line of a key whose calls had these latencies.\<close>

definition line_of :: "APICallStatKey \<Rightarrow> int list \<Rightarrow> server_line" where
  "line_of k ls = (let n = int (length ls); code = ApiCode k in
     \<lparr>line_max = foldl max 0 ls, line_avg = sum_list ls div n, line_network = 0,
      line_system = (if IsSysErr code then n else 0), line_user = (if IsUserErr code then n else 0),
      line_success = (if IsSuccess code then n else 0), line_total = n\<rparr>)"

definition small_calls :: "int list \<Rightarrow> bool" where
  "small_calls ls \<longleftrightarrow> int (length ls) < 2 ^ 31 \<and> (\<forall>l \<in> set ls. 0 \<le> l) \<and> sum_list ls < 2 ^ 63"

lemma sint_of_length: "int n < 2 ^ 31 \<Longrightarrow> sint (of_nat n :: 32 word) = int n"
  by (simp add: signed_of_nat signed_take_bit_int_eq_self)

lemma class_exclusive: "IsSuccess c \<Longrightarrow> \<not> IsSysErr c \<and> \<not> IsUserErr c" "IsSysErr c \<Longrightarrow> \<not> IsUserErr c"
  by (simp_all add: IsSuccess_def IsSysErr_def IsUserErr_def)

lemma takeValue_result:
  assumes "tracked k ls v" "ls \<noteq> []" "small_calls ls"
  shows "\<exists>v'. takeValue v = Inr (line_of k ls, v') \<and> tracked k [] v'"
proof -
  have n: "sint (ReqCount v) = int (length ls)" "ApiStatKey v = k"
    using assms by (simp_all add: tracked_def small_calls_def sint_of_length)
  have s: "0 \<le> sum_list ls" "in64 (sum_list ls)"
    using assms(3) sum_list_nonneg [of ls] by (auto simp: small_calls_def in64_def)
  then have l: "Latency v = sum_list ls" using assms(1) by (simp add: tracked_def)
  have q: "quot64 (sum_list ls) (int (length ls)) = Inr (sum_list ls div int (length ls))"
    using assms(2) s by (intro quot64_pos) auto
  show ?thesis
    using q n l assms(1) class_exclusive [of "ApiCode k"]
    by (auto simp: takeValue_def Let_def AddReqCount_def AddLatency_def ResetMaxLatency_def line_of_def tracked_def i64_def)
qed

lemma req_zero:
  assumes "tracked k ls v" "small_calls ls"
  shows "ReqCount v = 0 \<longleftrightarrow> ls = []"
proof -
  have "sint (ReqCount v) = int (length ls)" using assms by (simp add: tracked_def small_calls_def sint_of_length)
  then show ?thesis using assms(1) by (auto simp: tracked_def)
qed

lemma reportEntries_result:
  assumes "\<forall>(k, v) \<in> set m. tracked k (L k) v \<and> small_calls (L k)" "wf_map m"
  shows "\<exists>ls m'. reportEntries now interval m = Inr (ls, m') \<and>
    ls = map (\<lambda>(k, v). (k, line_of k (L k))) (filter (\<lambda>(k, v). L k \<noteq> []) m) \<and>
    (\<forall>(k, v) \<in> set m'. tracked k [] v \<and> k \<in> fst ` set m) \<and> wf_map m'"
  using assms
proof (induction m)
  case (Cons kv m)
  obtain k v where kv: "kv = (k, v)" by fastforce
  have T: "tracked k (L k) v" "small_calls (L k)" "k \<notin> fst ` set m" using Cons.prems kv by auto
  obtain ls m' where R: "reportEntries now interval m = Inr (ls, m')"
    "ls = map (\<lambda>(k, v). (k, line_of k (L k))) (filter (\<lambda>(k, v). L k \<noteq> []) m)"
    "\<forall>(k, v) \<in> set m'. tracked k [] v \<and> k \<in> fst ` set m" "wf_map m'"
    using Cons.IH Cons.prems by auto
  have fresh: "k \<notin> fst ` set m'" using R(3) T(3) by fastforce
  show ?case
  proof (cases "L k = []")
    case True
    then have "tracked k [] v" "ReqCount v = 0" using T req_zero [OF T(1,2)] by auto
    then show ?thesis using R fresh kv True by (auto 4 3)
  next
    case False
    obtain v' where V: "takeValue v = Inr (line_of k (L k), v')" "tracked k [] v'"
      using takeValue_result [OF T(1) False T(2)] by blast
    have "ReqCount v \<noteq> 0" using req_zero [OF T(1,2)] False by simp
    then show ?thesis using R V fresh kv False by (auto 4 3)
  qed
qed simp

lemma wf_lines:
  assumes "wf_map m"
  shows "map_of (map (\<lambda>(k, v). (k, g k)) (filter (\<lambda>(k, v). P k) m)) k = (if P k \<and> map_of m k \<noteq> None then Some (g k) else None)"
  using assms by (induction m) (auto split: if_splits)

text \<open>A report prints, per key, exactly the calls since the last one, and starts again from none.\<close>

lemma report_tracks:
  assumes "tracks L (collections s)" "\<And>k. small_calls (L k)"
  shows "\<exists>rec ls s'. server_BuildReportRecord svcName now s = Inr ((rec, ls), s') \<and>
    (\<forall>k. map_of ls k = (if L k = [] then None else Some (line_of k (L k)))) \<and> wf_map ls \<and>
    length (Tags rec) = length ls \<and> tracks (\<lambda>_. []) (collections s')"
proof -
  have wf: "wf_map (collections s)" using assms(1) by (simp add: tracks_def)
  have "\<forall>(k, v) \<in> set (collections s). tracked k (L k) v \<and> small_calls (L k)"
  proof (clarify, intro conjI)
    fix k v assume "(k, v) \<in> set (collections s)"
    then have "map_of (collections s) k = Some v" using wf by simp
    then show "tracked k (L k) v" using assms(1) unfolding tracks_def by (metis option.case(2))
  qed (rule assms(2))
  from reportEntries_result [OF this wf, of now "reportInterval s"] obtain ls m' where
    R: "reportEntries now (reportInterval s) (collections s) = Inr (ls, m')"
    "ls = map (\<lambda>(k, v). (k, line_of k (L k))) (filter (\<lambda>(k, v). L k \<noteq> []) (collections s))"
    "\<forall>(k, v) \<in> set m'. tracked k [] v" "wf_map m'" by (auto simp: case_prod_beta)
  have lines: "map_of ls k = (if L k = [] then None else Some (line_of k (L k)))" for k
  proof -
    have "L k \<noteq> [] \<Longrightarrow> map_of (collections s) k \<noteq> None"
      using assms(1) unfolding tracks_def by (metis option.case(1))
    then show ?thesis unfolding R(2) wf_lines [OF wf] by auto
  qed
  have "map fst ls = map fst (filter (\<lambda>(k, v). L k \<noteq> []) (collections s))" using R(2) by (simp add: case_prod_beta comp_def)
  then have "wf_map ls" using wf by (simp add: distinct_map_filter)
  moreover have "tracks (\<lambda>_. []) m'"
    unfolding tracks_def using R(3,4) by (fastforce split: option.splits dest: map_of_SomeD)
  ultimately show ?thesis using R(1) lines by (simp add: server_BuildReportRecord_def)
qed





definition printed :: "APICallStatKey \<Rightarrow> (APICallStatKey \<times> server_line) list \<Rightarrow> int" where
  "printed k ls = sum_list (map (\<lambda>(k', l). if k' = k then line_total l else 0) ls)"

lemma printed_append [simp]: "printed k (xs @ ys) = printed k xs + printed k ys"
  by (simp add: printed_def)





section \<open>Events\<close>

definition queue :: "EventLogReporter \<Rightarrow> string \<Rightarrow> Event list" where
  "queue r t = (case map_of r t of None \<Rightarrow> [] | Some q \<Rightarrow> q)"

lemma AddEvent_queue:
  "queue (AddEvent e r) t = (if t = GetEventType e then queue r t @ [e] else queue r t)"
  "wf_map r \<Longrightarrow> wf_map (AddEvent e r)"
  by (auto simp: queue_def AddEvent_def amap.get_put amap.ok_put)

lemma AddEvents_queue:
  "queue (foldl (\<lambda>r e. AddEvent e r) r es) t = queue r t @ filter (\<lambda>e. GetEventType e = t) es"
  "wf_map r \<Longrightarrow> wf_map (foldl (\<lambda>r e. AddEvent e r) r es)"
  by (induction es arbitrary: r) (auto simp: AddEvent_queue)

lemma LogAllEvents_queue:
  assumes "wf_map r" "\<And>t. \<forall>e \<in> set (queue r t). GetEventType e = t" "LogAllEvents r = ((out, n), r')"
  shows "filter (\<lambda>e. GetEventType e = t) out = queue r t" "n = length out" "queue r' t = []"
proof -
  have out: "out = concat (map snd (filter (\<lambda>(t, q). q \<noteq> []) r))" and r': "r' = map (\<lambda>(t, q). (t, [])) r"
    and n: "n = length out" using assms(3) by (auto simp: LogAllEvents_def Let_def)
  have q: "q = queue r s" if "(s, q) \<in> set r" for s q using that assms(1) by (simp add: queue_def)
  have "filter (\<lambda>e. GetEventType e = t) (concat (map snd (filter (\<lambda>(t, q). q \<noteq> []) m))) =
      (case map_of m t of None \<Rightarrow> [] | Some q \<Rightarrow> q)"
    if "wf_map m" "\<forall>(s, q) \<in> set m. \<forall>e \<in> set q. GetEventType e = s" for m
    using that
  proof (induction m)
    case (Cons sq m)
    obtain s q where sq: "sq = (s, q)" by fastforce
    have none: "t \<notin> fst ` set m \<Longrightarrow> map_of m t = None" by (simp add: map_of_eq_None_iff)
    have "filter (\<lambda>e. GetEventType e = t) q = (if s = t then q else [])"
      using Cons.prems(2) sq by (auto simp: filter_id_conv filter_empty_conv)
    then show ?case using Cons sq none by (auto simp: filter_empty_conv split: option.splits)
  qed simp
  moreover have "\<forall>(s, q) \<in> set r. \<forall>e \<in> set q. GetEventType e = s" using q assms(2) by blast
  ultimately show "filter (\<lambda>e. GetEventType e = t) out = queue r t" using assms(1) out by (simp add: queue_def)
  show "n = length out" by (fact n)
  have "map_of (map (\<lambda>(t, q). (t, [])) m) t = (case map_of m t of None \<Rightarrow> None | Some _ \<Rightarrow> Some ([] :: Event list))" for m :: EventLogReporter
    by (induction m) auto
  then show "queue r' t = []" by (simp add: r' queue_def split: option.splits)
qed

section \<open>Properties\<close>


definition one_call :: "u32 \<Rightarrow> int \<Rightarrow> APICallStatValueImpl" where
  "one_call code latency = NewAPICall \<lparr>ApiKey = AcquireQuotaV2, ApiCode = code, ApiMsgType = MsgSync, ApiDuration = 0\<rparr> latency"

definition idle_reporter :: ServerCurveReporter where
  "idle_reporter = \<lparr>collections = [], reportInterval = 60000000000, serverAppName = ''srv''\<rparr>"



text \<open>A report prints, for every key with a call since the last report, the number of the calls, their
  maximal and average latency and the class of the code, and nothing for the other keys; the next
  report without a call in between prints nothing.\<close>
theorem report_prints_the_calls:
  assumes "collections s = []" "\<forall>(t, v) \<in> set calls. call_ok v"
    and "\<And>k. small_calls (map (\<lambda>(t, v). Latency v) (filter (\<lambda>(t, v). ApiStatKey v = k) calls))"
  shows "\<exists>rec ls s'. server_BuildReportRecord svcName now (foldl (\<lambda>s (t, v). AddIncrement t v s) s calls) = Inr ((rec, ls), s') \<and>
    (\<forall>k. map_of ls k = (let lat = map (\<lambda>(t, v). Latency v) (filter (\<lambda>(t, v). ApiStatKey v = k) calls)
                        in if lat = [] then None else Some (line_of k lat))) \<and>
    length (Tags rec) = length ls \<and>
    (\<exists>rec2 s2. server_BuildReportRecord svcName now2 s' = Inr ((rec2, []), s2))"
proof -
  have "tracks (\<lambda>k. L k @ map (\<lambda>(t, v). Latency v) (filter (\<lambda>(t, v). ApiStatKey v = k) cs))
      (collections (foldl (\<lambda>s (t, v). AddIncrement t v s) u cs))"
    if "tracks L (collections u)" "\<forall>(t, v) \<in> set cs. call_ok v" for L u cs
    using that
  proof (induction cs arbitrary: L u)
    case (Cons c cs)
    obtain t v where c: "c = (t, v)" by fastforce
    have "tracks (L(ApiStatKey v := L (ApiStatKey v) @ [Latency v])) (collections (AddIncrement t v u))"
      by (rule AddIncrement_tracks) (use Cons.prems c in auto)
    from Cons.IH [OF this] Cons.prems(2) have "tracks (\<lambda>k. (L(ApiStatKey v := L (ApiStatKey v) @ [Latency v])) k @
        map (\<lambda>(t, v). Latency v) (filter (\<lambda>(t, v). ApiStatKey v = k) cs))
      (collections (foldl (\<lambda>s (t, v). AddIncrement t v s) (AddIncrement t v u) cs))" by simp
    moreover have "(\<lambda>k. (L(ApiStatKey v := L (ApiStatKey v) @ [Latency v])) k @
        map (\<lambda>(t, v). Latency v) (filter (\<lambda>(t, v). ApiStatKey v = k) cs)) =
      (\<lambda>k. L k @ map (\<lambda>(t, v). Latency v) (filter (\<lambda>(t, v). ApiStatKey v = k) (c # cs)))"
      using c by auto
    ultimately show ?case using c by simp
  qed simp
  from this [of "\<lambda>_. []" s calls] assms(1,2)
  have T: "tracks (\<lambda>k. map (\<lambda>(t, v). Latency v) (filter (\<lambda>(t, v). ApiStatKey v = k) calls))
      (collections (foldl (\<lambda>s (t, v). AddIncrement t v s) s calls))" by (simp add: tracks_def)
  obtain rec ls s' where R: "server_BuildReportRecord svcName now (foldl (\<lambda>s (t, v). AddIncrement t v s) s calls) = Inr ((rec, ls), s')"
    "\<forall>k. map_of ls k = (if map (\<lambda>(t, v). Latency v) (filter (\<lambda>(t, v). ApiStatKey v = k) calls) = [] then None
        else Some (line_of k (map (\<lambda>(t, v). Latency v) (filter (\<lambda>(t, v). ApiStatKey v = k) calls))))"
    "length (Tags rec) = length ls" "tracks (\<lambda>_. []) (collections s')"
    using report_tracks [OF T assms(3), of svcName now] by blast
  have "small_calls []" by (simp add: small_calls_def)
  then obtain rec2 ls2 s2 where Q: "server_BuildReportRecord svcName now2 s' = Inr ((rec2, ls2), s2)" "\<forall>k. map_of ls2 k = None"
    using report_tracks [OF R(4), of svcName now2] by auto
  then have "ls2 = []" by (metis empty_iff list.set_cases map_of_eq_None_iff image_is_empty set_empty ex_in_conv)
  then show ?thesis using R Q(1) by (auto simp: Let_def)
qed

theorem report_prints_the_calls_witness:
  "\<exists>rec ls s'. server_BuildReportRecord ''svc'' 9 (foldl (\<lambda>s (t, v). AddIncrement t v s) idle_reporter
       [(1, one_call 200000 3), (2, one_call 200000 8)]) = Inr ((rec, ls), s') \<and>
     map_of ls (ApiStatKey (one_call 200000 0)) =
       Some \<lparr>line_max = 8, line_avg = 5, line_network = 0, line_system = 0, line_user = 0, line_success = 2, line_total = 2\<rparr>"
proof -
  have small: "small_calls (map (\<lambda>(t, v). Latency v) (filter (\<lambda>(t, v). ApiStatKey v = k) [(1, one_call 200000 3), (2, one_call 200000 8)]))" for k
    by (simp add: small_calls_def one_call_def NewAPICall_def)
  have "collections idle_reporter = []" "\<forall>(t, v) \<in> set [(1, one_call 200000 3), (2 :: int, one_call 200000 8)]. call_ok v"
    by (simp_all add: idle_reporter_def call_ok_def one_call_def NewAPICall_def in64_def)
  from report_prints_the_calls [OF this small, of "''svc''" 9 0] show ?thesis
    by (auto simp: line_of_def one_call_def NewAPICall_def Let_def IsSuccess_def IsSysErr_def IsUserErr_def code2CommonCode_def)
qed

text \<open>Every event that was added is logged exactly once by the next round, the events of one type
  in the order in which they were added, and the round after that logs none of them again.\<close>
theorem events_are_logged_once:
  assumes "LogAllEvents (foldl (\<lambda>r e. AddEvent e r) [] es) = ((out, n), r')"
  shows "filter (\<lambda>e. GetEventType e = t) out = filter (\<lambda>e. GetEventType e = t) es \<and>
    mset out = mset es \<and>
    n = length es \<and>
    fst (fst (LogAllEvents r')) = []"
proof -
  let ?r = "foldl (\<lambda>r e. AddEvent e r) [] es"
  have q: "queue ?r t = filter (\<lambda>e. GetEventType e = t) es" for t
    using AddEvents_queue(1) [of "[]" es t] by (simp add: queue_def)
  have wf: "wf_map ?r" by (rule AddEvents_queue(2)) simp
  have typed: "\<forall>e \<in> set (queue ?r t). GetEventType e = t" for t by (simp add: q)
  note L = LogAllEvents_queue [OF wf typed assms]
  have f: "filter (\<lambda>e. GetEventType e = t) out = filter (\<lambda>e. GetEventType e = t) es" for t using L(1) [of t] q by simp
  have m: "mset out = mset es"
  proof (rule multiset_eqI)
    fix e
    have "count (mset (filter (\<lambda>x. GetEventType x = GetEventType e) xs)) e = count (mset xs) e" for xs by (induction xs) auto
    then show "count (mset out) e = count (mset es) e" using f [of "GetEventType e"] by metis
  qed
  have c1: "n = length es" using L(2) m by (metis mset_eq_length)
  have "\<forall>(t, q) \<in> set r'. q = []" using assms by (auto simp: LogAllEvents_def Let_def)
  then have "filter (\<lambda>(t, q). q \<noteq> []) r' = []" by (auto simp: filter_empty_conv)
  then have c2: "fst (fst (LogAllEvents r')) = []" by (simp add: LogAllEvents_def Let_def)
  show ?thesis using f m c1 c2 by blast
qed

definition three_events :: "Event list" where
  "three_events = [NewStreamUpdateEvent \<lparr>Sec = 1, Usec = 0\<rparr> ''s1'' \<lparr>LowValue = 1, HighValue = 0\<rparr> ActionAdd,
     NewClientUpdateEvent \<lparr>Sec = 2, Usec = 0\<rparr> ''c'' \<lparr>LowValue = 1, HighValue = 0\<rparr> ActionAdd,
     NewStreamUpdateEvent \<lparr>Sec = 3, Usec = 0\<rparr> ''s1'' \<lparr>LowValue = 1, HighValue = 0\<rparr> ActionDelete]"

theorem events_are_logged_once_witness:
  "\<exists>out r'. LogAllEvents (foldl (\<lambda>r e. AddEvent e r) [] three_events) = ((out, 3), r') \<and>
     filter (\<lambda>e. GetEventType e = ''streamUpdate'') out = [three_events ! 0, three_events ! 2]"
proof -
  obtain out n r' where L: "LogAllEvents (foldl (\<lambda>r e. AddEvent e r) [] three_events) = ((out, n), r')" by (metis prod.exhaust)
  from events_are_logged_once [OF L] L show ?thesis
    by (simp add: three_events_def NewStreamUpdateEvent_def NewClientUpdateEvent_def)
qed

end
