(* ===== verification/Metrics.thy ===== *)
theory Metrics
  imports Server_Report
begin

text \<open>
  \<open>plugin/statis/prometheus/statis.go\<close>: the metrics plugin. Once a minute it takes the increments out
  of the collectors and adds them to counters per rule; it can run the file plugin's logs on the same
  collectors. The metrics library is not part of the repository and is seen through the calls that
  are made to it, in their order. A collector is one object that both plugins hold under its unique
  id: what one of them changes is written to the entry of the other.
\<close>

section \<open>State\<close>

record dimensionKey =
  dim_Namespace :: string
  dim_Service :: string
  dim_Method :: string
  dim_AppId :: string
  dim_Uin :: string
  dim_Labels :: string
  dim_Duration :: string

record dimensionStats =
  dim_Passed :: int
  dim_Limited :: int

text \<open>The calls to the metrics library. An average is the quotient of two numbers, or zero.\<close>

datatype metric_op = AddTotal dimensionKey int | AddPass dimensionKey int | AddLimit dimensionKey int
  | DeleteSeries dimensionKey | SetProcessAvg "(int \<times> int) option" | SetProcessMax int
  | SetActiveStreams nat | SetCounterCount int

record StaticsWorker =
  processTotal :: int
  processMax :: int
  processCount :: int
  workerCollectors :: "(string \<times> Collector) list"
  workerDropped :: "(string \<times> Collector) list"
  fileLogger :: "FilePlugin option"
  flushCycle :: int
  lastSeen :: "(dimensionKey \<times> int) list"
  metricOps :: "metric_op list"

definition staleFlushCycles :: int where "staleFlushCycles = 30"

definition NewStaticsWorker :: StaticsWorker where
  "NewStaticsWorker = \<lparr>processTotal = 0, processMax = 0, processCount = 0, workerCollectors = [], workerDropped = [],
     fileLogger = None, flushCycle = 0, lastSeen = [], metricOps = []\<rparr>"

definition dimension :: "StatValue \<Rightarrow> dimensionKey" where
  "dimension v = (let t = tags_of v in
     \<lparr>dim_Namespace = tag_Namespace t, dim_Service = tag_Service t, dim_Method = tag_Method t, dim_AppId = tag_AppId t,
      dim_Uin = tag_Uin t, dim_Labels = tag_Labels t, dim_Duration = duration_String (tag_Duration t)\<rparr>)"

definition toLabels :: "dimensionKey \<Rightarrow> (string \<times> string) list" where
  "toLabels k = [(''namespace'', dim_Namespace k), (''service'', dim_Service k), (''method'', dim_Method k),
     (''appid'', dim_AppId k), (''uin'', dim_Uin k), (''labels'', dim_Labels k), (''duration'', dim_Duration k)]"

section \<open>Configuration\<close>

text \<open>What the YAML library can return, and the normal form that the JSON library accepts.\<close>

datatype yaml = YamlMap "(yaml \<times> yaml) list" | StringMap "(string \<times> yaml) list" | YamlList "yaml list" | Text string | Scalar int

lemma size_snd_less: "kv \<in> set m \<Longrightarrow> size (snd kv) < Suc (size_list (size_prod f size) m)"
  by (induction m) (auto simp: less_Suc_eq_le prod.size_gen split: prod.splits intro: trans_le_add1)

function normalizeYAMLMap :: "yaml \<Rightarrow> yaml" where
  "normalizeYAMLMap (YamlMap m) =
     StringMap (concat (map (\<lambda>kv. case fst kv of Text s \<Rightarrow> [(s, normalizeYAMLMap (snd kv))] | _ \<Rightarrow> []) m))"
| "normalizeYAMLMap (StringMap m) = StringMap (map (\<lambda>kv. (fst kv, normalizeYAMLMap (snd kv))) m)"
| "normalizeYAMLMap (YamlList ys) = YamlList (map normalizeYAMLMap ys)"
| "normalizeYAMLMap (Text s) = Text s"
| "normalizeYAMLMap (Scalar i) = Scalar i"
  by pat_completeness auto

termination
  by (relation "measure size") (auto simp: less_Suc_eq_le dest!: size_snd_less intro: size_list_estimation')

section \<open>Operations\<close>

definition addCollector :: "Collector \<Rightarrow> StaticsWorker \<Rightarrow> StaticsWorker" where
  "addCollector c s = s\<lparr>workerCollectors := AList.update (coll_ID c) c (workerCollectors s)\<rparr>"

definition CreateRateLimitStatCollector :: "Collector \<Rightarrow> StaticsWorker \<Rightarrow> StaticsWorker" where
  "CreateRateLimitStatCollector c s =
     (let s1 = addCollector c s in s1\<lparr>fileLogger := map_option (RegisterCollector c) (fileLogger s1)\<rparr>)"

definition DropRateLimitStatCollector :: "Collector option \<Rightarrow> StaticsWorker \<Rightarrow> StaticsWorker" where
  "DropRateLimitStatCollector c s =
     (case c of
        None \<Rightarrow> s
      | Some c \<Rightarrow> s\<lparr>workerCollectors := AList.delete (coll_ID c) (workerCollectors s),
                    workerDropped := AList.update (coll_ID c) c (workerDropped s),
                    fileLogger := map_option (file_DropCollector (Some c)) (fileLogger s)\<rparr>)"

definition metrics_AddAPICall :: "int \<Rightarrow> APICallStatValueImpl \<Rightarrow> StaticsWorker \<Rightarrow> StaticsWorker" where
  "metrics_AddAPICall now v s = s\<lparr>fileLogger := map_option (file_AddAPICall now v) (fileLogger s)\<rparr>"

definition metrics_AddEventToLog :: "Event \<Rightarrow> StaticsWorker \<Rightarrow> StaticsWorker" where
  "metrics_AddEventToLog e s = s\<lparr>fileLogger := map_option (file_AddEventToLog e) (fileLogger s)\<rparr>"

text \<open>\<open>AddProcessTime\<close> as one update; \<open>Cas_Max\<close> runs the loads and swaps of the maximum apart.\<close>

definition AddProcessTime :: "int \<Rightarrow> StaticsWorker \<Rightarrow> StaticsWorker" where
  "AddProcessTime us s =
     (if us < 0 then s
      else let s1 = s\<lparr>processTotal := add64 (processTotal s) us, processCount := add64 (processCount s) 1\<rparr>
           in if us \<le> processMax s1 then s1 else s1\<lparr>processMax := us\<rparr>)"

definition resetProcessStats :: "StaticsWorker \<Rightarrow> (int \<times> int \<times> int) \<times> StaticsWorker" where
  "resetProcessStats s = ((processTotal s, processMax s, processCount s), s\<lparr>processTotal := 0, processMax := 0, processCount := 0\<rparr>)"

text \<open>One dumped value: it is cleared, and its increment goes to its rule and to the file plugin.\<close>

definition takeCurve :: "StatValue \<Rightarrow> (int \<times> int) \<times> StatValue" where
  "takeCurve v =
     (let curve = curve_of v; passed = GetPassed curve; limited = GetLimited curve;
          c1 = (if passed \<noteq> 0 then AddPassed (sub64 0 passed) curve else curve);
          c2 = (if limited \<noteq> 0 then AddLimited (sub64 0 limited) c1 else c1)
      in ((passed, limited), set_curve c2 v))"

definition addStats :: "dimensionKey \<Rightarrow> int \<Rightarrow> int \<Rightarrow> (dimensionKey \<times> dimensionStats) list \<Rightarrow> (dimensionKey \<times> dimensionStats) list" where
  "addStats key passed limited agg =
     (let st = (case map_of agg key of Some st \<Rightarrow> st | None \<Rightarrow> \<lparr>dim_Passed = 0, dim_Limited = 0\<rparr>)
      in AList.update key (st\<lparr>dim_Passed := add64 (dim_Passed st) passed, dim_Limited := add64 (dim_Limited st) limited\<rparr>) agg)"

fun flushValues :: "(dimensionKey \<times> dimensionStats) list \<Rightarrow> StatValue list
    \<Rightarrow> (dimensionKey \<times> dimensionStats) list \<times> CurveDelta list \<times> StatValue list" where
  "flushValues agg [] = (agg, [], [])"
| "flushValues agg (v # vs) =
     (let ((passed, limited), v') = takeCurve v in
      if passed = 0 \<and> limited = 0
      then (let (agg2, ds, vs') = flushValues agg vs in (agg2, ds, v' # vs'))
      else (let (agg2, ds, vs') = flushValues (addStats (dimension v) passed limited agg) vs
            in (agg2, \<lparr>StatValue_of = Some v, delta_Passed = passed, delta_Limited = limited\<rparr> # ds, v' # vs')))"

fun flushCollectors :: "Timeval \<Rightarrow> (dimensionKey \<times> dimensionStats) list \<Rightarrow> (string \<times> Collector) list
    \<Rightarrow> (dimensionKey \<times> dimensionStats) list \<times> CurveDelta list \<times> (string \<times> Collector) list" where
  "flushCollectors tv agg [] = (agg, [], [])"
| "flushCollectors tv agg ((uuid, c) # cs) =
     (let (agg1, ds1, vs') = flushValues agg (coll_values c); (agg2, ds2, cs') = flushCollectors tv agg1 cs
      in (agg2, ds1 @ ds2, (uuid, rebuild tv True vs' c) # cs'))"

definition statOps :: "dimensionKey \<times> dimensionStats \<Rightarrow> metric_op list" where
  "statOps ks = (case ks of (k, st) \<Rightarrow> let total = add64 (dim_Passed st) (dim_Limited st) in
     (if 0 < dim_Passed st then [AddPass k (dim_Passed st)] else []) @
     (if 0 < dim_Limited st then [AddLimit k (dim_Limited st)] else []) @
     (if 0 < total then [AddTotal k total] else []))"

definition stale :: "int \<Rightarrow> dimensionKey \<times> int \<Rightarrow> bool" where
  "stale cycle ks = (\<not> sub64 cycle (snd ks) < staleFlushCycles)"

definition evictStaleSeries :: "StaticsWorker \<Rightarrow> StaticsWorker" where
  "evictStaleSeries s =
     s\<lparr>metricOps := metricOps s @ map (DeleteSeries \<circ> fst) (filter (stale (flushCycle s)) (lastSeen s)),
       lastSeen := filter (\<lambda>ks. \<not> stale (flushCycle s) ks) (lastSeen s)\<rparr>"

text \<open>Writing changed collectors to the entries of the other plugin.\<close>

definition shareOut :: "(string \<times> Collector) list \<Rightarrow> (string \<times> Collector) list \<Rightarrow> (string \<times> Collector) list" where
  "shareOut changed held_by = map (\<lambda>(uuid, c). (uuid, case map_of changed uuid of Some c' \<Rightarrow> c' | None \<Rightarrow> c)) held_by"

definition shareWithFile :: "(string \<times> Collector) list \<Rightarrow> FilePlugin \<Rightarrow> FilePlugin" where
  "shareWithFile changed p =
     p\<lparr>curveReporter := (curveReporter p)\<lparr>collectors := shareOut changed (collectors (curveReporter p)),
                                          dropped := shareOut changed (dropped (curveReporter p))\<rparr>\<rparr>"

text \<open>\<open>flushOnce\<close>; the number of counters comes from the server. It never panics.\<close>

definition flushOnce :: "string \<Rightarrow> Timeval \<Rightarrow> int \<Rightarrow> StaticsWorker \<Rightarrow> StaticsWorker" where
  "flushOnce limitService tv counterNum s =
     (let cycle = add64 (flushCycle s) 1;
          (agg1, ds1, cs) = flushCollectors tv [] (workerCollectors s);
          (agg, ds2, dropped_cs) = flushCollectors tv agg1 (workerDropped s);
          s1 = s\<lparr>flushCycle := cycle, workerCollectors := cs, workerDropped := [],
                 fileLogger := map_option (shareWithFile (cs @ dropped_cs)) (fileLogger s),
                 metricOps := metricOps s @ concat (map statOps agg),
                 lastSeen := foldl (\<lambda>m (k, _). AList.update k cycle m) (lastSeen s) agg\<rparr>;
          s2 = evictStaleSeries s1;
          s3 = s2\<lparr>fileLogger := map_option (ReportCurveDeltas limitService (ds1 @ ds2)) (fileLogger s2)\<rparr>;
          ((total, mx, count), s4) = resetProcessStats s3
      in s4\<lparr>metricOps := metricOps s4 @
              (if 0 < count then [SetProcessAvg (Some (total, count)), SetProcessMax mx] else [SetProcessAvg None, SetProcessMax 0]) @
              [SetActiveStreams (length (workerCollectors s4)), SetCounterCount counterNum]\<rparr>)"

text \<open>A precision pass of the file plugin on the shared collectors.\<close>

definition metrics_precisionTick :: "(int \<Rightarrow> string) \<Rightarrow> Timeval \<Rightarrow> StaticsWorker \<Rightarrow> StaticsWorker" where
  "metrics_precisionTick rfc3339 tv s =
     (case fileLogger s of
        None \<Rightarrow> s
      | Some p \<Rightarrow>
          (let r = curveReporter p;
               (m1, cs) = processCollectors tv (sharedCollector r) False [] (collectors r);
               (m2, ds) = processCollectors tv (sharedCollector r) False m1 (dropped r)
           in s\<lparr>fileLogger := Some (precisionTick rfc3339 tv p),
                workerCollectors := shareOut (cs @ ds) (workerCollectors s),
                workerDropped := shareOut (cs @ ds) (workerDropped s)\<rparr>))"

section \<open>Increments\<close>

definition stat_at :: "(dimensionStats \<Rightarrow> int) \<Rightarrow> (dimensionKey \<times> dimensionStats) list \<Rightarrow> dimensionKey \<Rightarrow> int" where
  "stat_at f agg k = (case map_of agg k of None \<Rightarrow> 0 | Some st \<Rightarrow> f st)"

text \<open>What a list of values holds for a rule.\<close>

definition of_rule :: "(rateLimitData \<Rightarrow> int) \<Rightarrow> StatValue list \<Rightarrow> dimensionKey \<Rightarrow> int" where
  "of_rule g vs k = sum_list (map (\<lambda>v. if dimension v = k then g (curve_of v) else 0) vs)"

lemma of_rule_simps [simp]:
  "of_rule g [] k = 0"
  "of_rule g (v # vs) k = (if dimension v = k then g (curve_of v) else 0) + of_rule g vs k"
  "of_rule g (vs @ ws) k = of_rule g vs k + of_rule g ws k"
  by (simp_all add: of_rule_def)

lemma curve_set [simp]: "curve_of (set_curve d v) = d"
  by (cases v) (simp_all add: accessor_defs)

lemma same_version_set: "same_version v (set_curve d v)"
  by (cases v) simp_all

lemma takeCurve_result:
  "takeCurve v = ((Passed (curve_of v), Limited (curve_of v)), set_curve ((curve_of v)\<lparr>Passed := 0, Limited := 0\<rparr>) v)"
  by (cases "curve_of v") (auto simp: takeCurve_def Let_def GetPassed_def GetLimited_def AddPassed_def AddLimited_def)

lemma addStats_at:
  "stat_at dim_Passed (addStats key p l agg) k = (if k = key then add64 (stat_at dim_Passed agg k) p else stat_at dim_Passed agg k)"
  "stat_at dim_Limited (addStats key p l agg) k = (if k = key then add64 (stat_at dim_Limited agg k) l else stat_at dim_Limited agg k)"
  "fst ` set (addStats key p l agg) = insert key (fst ` set agg)"
  "wf_map agg \<Longrightarrow> wf_map (addStats key p l agg)"
  by (auto simp: addStats_def stat_at_def amap.get_put amap.ok_put dom_update Let_def split: option.splits)

definition active :: "StatValue \<Rightarrow> bool" where
  "active v \<longleftrightarrow> Passed (curve_of v) \<noteq> 0 \<or> Limited (curve_of v) \<noteq> 0"

lemma flushValues_result:
  assumes "flushValues agg vs = (agg', ds, vs')"
  shows "i64 (stat_at dim_Passed agg' k) = i64 (stat_at dim_Passed agg k + of_rule Passed vs k)"
    "i64 (stat_at dim_Limited agg' k) = i64 (stat_at dim_Limited agg k + of_rule Limited vs k)"
    "fst ` set agg' = fst ` set agg \<union> dimension ` {v \<in> set vs. active v}"
    "wf_map agg \<Longrightarrow> wf_map agg'"
    "vs' = map (\<lambda>v. set_curve ((curve_of v)\<lparr>Passed := 0, Limited := 0\<rparr>) v) vs"
  using assms
proof (atomize (full), induction vs arbitrary: agg agg' ds vs')
  case (Cons v vs)
  show ?case
  proof (cases "active v")
    case False
    obtain ds1 vs1 where F: "flushValues agg vs = (agg', ds1, vs1)" "vs' = set_curve ((curve_of v)\<lparr>Passed := 0, Limited := 0\<rparr>) v # vs1"
      using Cons.prems False by (auto simp: takeCurve_result active_def split: prod.splits)
    from Cons.IH [OF F(1)] False F(2) show ?thesis by (auto simp: active_def)
  next
    case True
    let ?p = "Passed (curve_of v)" and ?l = "Limited (curve_of v)"
    obtain ds1 vs1 where F: "flushValues (addStats (dimension v) ?p ?l agg) vs = (agg', ds1, vs1)"
      "vs' = set_curve ((curve_of v)\<lparr>Passed := 0, Limited := 0\<rparr>) v # vs1"
      using Cons.prems True by (auto simp: takeCurve_result active_def split: prod.splits if_splits)
    from Cons.IH [OF F(1)] True F(2) show ?thesis
      by (auto simp: addStats_at add64_def i64_add add.assoc)
  qed
qed simp

lemma flushValues_version: "list_all2 same_version vs (map (\<lambda>v. set_curve (g v) v) vs)"
  by (induction vs) (auto simp: same_version_set)

lemma flushCollectors_result:
  assumes "flushCollectors tv agg cs = (agg', ds, cs')"
  shows "i64 (stat_at dim_Passed agg' k) = i64 (stat_at dim_Passed agg k + of_rule Passed (all_values cs) k)"
    "i64 (stat_at dim_Limited agg' k) = i64 (stat_at dim_Limited agg k + of_rule Limited (all_values cs) k)"
    "fst ` set agg' = fst ` set agg \<union> dimension ` {v \<in> set (all_values cs). active v}"
    "wf_map agg \<Longrightarrow> wf_map agg'"
    "\<forall>w \<in> set (all_values cs'). \<not> active w" "map fst cs' = map fst cs"
  using assms
proof (atomize (full), induction cs arbitrary: agg agg' ds cs')
  case (Cons ic cs)
  obtain i c where ic: "ic = (i, c)" by fastforce
  obtain agg1 ds1 vs1 where V: "flushValues agg (coll_values c) = (agg1, ds1, vs1)" by (metis prod.exhaust)
  obtain ds2 cs1 where R: "flushCollectors tv agg1 cs = (agg', ds2, cs1)" "cs' = (i, rebuild tv True vs1 c) # cs1"
    using Cons.prems V ic by (auto split: prod.splits)
  note F = flushValues_result [OF V]
  have "list_all2 same_version (coll_values c) vs1" unfolding F(5) by (rule flushValues_version)
  from rebuild_values(2) [OF this, of tv True] have "\<forall>w \<in> set (coll_values (rebuild tv True vs1 c)). \<not> active w"
    unfolding F(5) by (auto simp: active_def)
  moreover note Cons.IH [OF R(1)]
  moreover have "i64 (stat_at dim_Passed agg1 k + x) = i64 (stat_at dim_Passed agg k + of_rule Passed (coll_values c) k + x)"
    "i64 (stat_at dim_Limited agg1 k + x) = i64 (stat_at dim_Limited agg k + of_rule Limited (coll_values c) k + x)" for x
    using F(1,2) by (intro i64_cong_add; blast)+
  ultimately show ?case using F(3,4) R(2) ic by (auto simp: add.assoc)
qed simp

text \<open>Every aggregated amount is a 64-bit value.\<close>

definition stats64 :: "(dimensionKey \<times> dimensionStats) list \<Rightarrow> bool" where
  "stats64 agg \<longleftrightarrow> (\<forall>k. in64 (stat_at dim_Passed agg k) \<and> in64 (stat_at dim_Limited agg k))"

lemma flushValues_64: "stats64 agg \<Longrightarrow> flushValues agg vs = (agg', ds, vs') \<Longrightarrow> stats64 agg'"
proof (induction vs arbitrary: agg ds vs')
  case (Cons v vs)
  have add: "stats64 (addStats (dimension v) p l agg)" for p l
    using Cons.prems(1) by (simp add: stats64_def addStats_at add64_def)
  show ?case using Cons.prems Cons.IH [OF add] Cons.IH [OF Cons.prems(1)]
    by (auto simp: takeCurve_result split: prod.splits if_splits)
qed simp

lemma flushCollectors_64: "stats64 agg \<Longrightarrow> flushCollectors tv agg cs = (agg', ds, cs') \<Longrightarrow> stats64 agg'"
  by (induction tv agg cs arbitrary: ds cs' rule: flushCollectors.induct) (auto split: prod.splits dest: flushValues_64)

section \<open>The calls to the metrics library\<close>

fun pass_to :: "dimensionKey \<Rightarrow> metric_op \<Rightarrow> int" where
  "pass_to k (AddPass k' a) = (if k' = k then a else 0)"
| "pass_to k _ = 0"

fun limit_to :: "dimensionKey \<Rightarrow> metric_op \<Rightarrow> int" where
  "limit_to k (AddLimit k' a) = (if k' = k then a else 0)"
| "limit_to k _ = 0"

fun total_to :: "dimensionKey \<Rightarrow> metric_op \<Rightarrow> int" where
  "total_to k (AddTotal k' a) = (if k' = k then a else 0)"
| "total_to k _ = 0"

definition ops_sum :: "(metric_op \<Rightarrow> int) \<Rightarrow> metric_op list \<Rightarrow> int" where
  "ops_sum f ops = sum_list (map f ops)"

lemma ops_sum_append [simp]: "ops_sum f (xs @ ys) = ops_sum f xs + ops_sum f ys" "ops_sum f [] = 0"
  by (simp_all add: ops_sum_def)

lemma statOps_sums:
  assumes "wf_map agg"
  shows "ops_sum (pass_to k) (concat (map statOps agg)) = (case map_of agg k of None \<Rightarrow> 0 | Some st \<Rightarrow> max 0 (dim_Passed st))"
    "ops_sum (limit_to k) (concat (map statOps agg)) = (case map_of agg k of None \<Rightarrow> 0 | Some st \<Rightarrow> max 0 (dim_Limited st))"
    "ops_sum (total_to k) (concat (map statOps agg)) =
      (case map_of agg k of None \<Rightarrow> 0 | Some st \<Rightarrow> max 0 (add64 (dim_Passed st) (dim_Limited st)))"
  using assms
proof (atomize (full), induction agg)
  case (Cons kst agg)
  obtain k' st where kst: "kst = (k', st)" by fastforce
  have "ops_sum (pass_to k) (statOps kst) = (if k' = k then max 0 (dim_Passed st) else 0)"
    "ops_sum (limit_to k) (statOps kst) = (if k' = k then max 0 (dim_Limited st) else 0)"
    "ops_sum (total_to k) (statOps kst) = (if k' = k then max 0 (add64 (dim_Passed st) (dim_Limited st)) else 0)"
    by (auto simp: kst statOps_def Let_def ops_sum_def max_def)
  moreover have "k' = k \<Longrightarrow> map_of agg k = None" using Cons.prems kst by (simp add: map_of_eq_None_iff)
  ultimately show ?case using Cons kst by (auto split: option.splits)
qed (simp add: ops_sum_def)

lemma no_sums:
  "ops_sum (pass_to k) (map (DeleteSeries \<circ> f) xs) = 0" "ops_sum (limit_to k) (map (DeleteSeries \<circ> f) xs) = 0"
  "ops_sum (total_to k) (map (DeleteSeries \<circ> f) xs) = 0"
  by (simp_all add: ops_sum_def comp_def sum_list_0)

section \<open>Properties\<close>

text \<open>The amounts of a rule that wait to be exported.\<close>

definition pending :: "(rateLimitData \<Rightarrow> int) \<Rightarrow> StaticsWorker \<Rightarrow> dimensionKey \<Rightarrow> int" where
  "pending g s k = of_rule g (all_values (workerCollectors s) @ all_values (workerDropped s)) k"

text \<open>What one flush exports, and what it leaves.\<close>

lemma flush_exports:
  assumes "\<And>v. v \<in> set (all_values (workerCollectors s) @ all_values (workerDropped s)) \<Longrightarrow>
      0 \<le> Passed (curve_of v) \<and> 0 \<le> Limited (curve_of v)"
    and "pending Passed s k + pending Limited s k < 2 ^ 63"
    and "s' = flushOnce svcName tv n s"
  shows "(\<exists>new. metricOps s' = metricOps s @ new \<and> ops_sum (pass_to k) new = pending Passed s k \<and>
      ops_sum (limit_to k) new = pending Limited s k \<and> ops_sum (total_to k) new = pending Passed s k + pending Limited s k) \<and>
    pending Passed s' k = 0 \<and>
    pending Limited s' k = 0 \<and>
    workerDropped s' = []"
proof -
  obtain agg1 ds1 cs where A: "flushCollectors tv [] (workerCollectors s) = (agg1, ds1, cs)" by (metis prod.exhaust)
  obtain agg ds2 dcs where B: "flushCollectors tv agg1 (workerDropped s) = (agg, ds2, dcs)" by (metis prod.exhaust)
  let ?last = "foldl (\<lambda>m (k, _). AList.update k (add64 (flushCycle s) 1) m) (lastSeen s) agg"
  let ?cnt = "if 0 < processCount s then [SetProcessAvg (Some (processTotal s, processCount s)), SetProcessMax (processMax s)]
      else [SetProcessAvg None, SetProcessMax 0]"
  let ?new = "concat (map statOps agg) @ map (DeleteSeries \<circ> fst) (filter (stale (add64 (flushCycle s) 1)) ?last) @ ?cnt @
      [SetActiveStreams (length cs), SetCounterCount n]"
  have ops: "metricOps s' = metricOps s @ ?new" and w: "workerCollectors s' = cs" "workerDropped s' = []"
    unfolding assms(3) by (simp_all add: flushOnce_def A B Let_def evictStaleSeries_def resetProcessStats_def)
  note FA = flushCollectors_result(1,2) [OF A, of k] flushCollectors_result(3-6) [OF A]
    and FB = flushCollectors_result(1,2) [OF B, of k] flushCollectors_result(3-6) [OF B]
  have "wf_map agg" using FA(4) FB(4) by simp
  note sums = statOps_sums [OF this, of k]
  have empty64: "stats64 []" by (simp add: stats64_def stat_at_def in64_def)
  have in64: "in64 (stat_at dim_Passed agg k)" "in64 (stat_at dim_Limited agg k)"
    using flushCollectors_64 [OF flushCollectors_64 [OF empty64 A] B] by (simp_all add: stats64_def)
  have nonneg: "0 \<le> pending g s k" if "g = Passed \<or> g = Limited" for g
    unfolding pending_def of_rule_def by (intro sum_list_nonneg) (use assms(1) that in auto)
  have "i64 (stat_at dim_Passed agg k) = i64 (pending Passed s k)"
    using FB(1) i64_cong_add [OF FA(1), of "of_rule Passed (all_values (workerDropped s)) k"]
    by (simp add: pending_def stat_at_def)
  then have p: "stat_at dim_Passed agg k = pending Passed s k"
    using in64(1) nonneg [of Passed] nonneg [of Limited] assms(2) by (simp add: in64_def)
  have "i64 (stat_at dim_Limited agg k) = i64 (pending Limited s k)"
    using FB(2) i64_cong_add [OF FA(2), of "of_rule Limited (all_values (workerDropped s)) k"]
    by (simp add: pending_def stat_at_def)
  then have l: "stat_at dim_Limited agg k = pending Limited s k"
    using in64(2) nonneg [of Passed] nonneg [of Limited] assms(2) by (simp add: in64_def)
  have total: "add64 (pending Passed s k) (pending Limited s k) = pending Passed s k + pending Limited s k"
    using nonneg [of Passed] nonneg [of Limited] assms(2) by (intro add64_id) (simp add: in64_def)
  have rest: "ops_sum (pass_to k) (?cnt @ [SetActiveStreams (length cs), SetCounterCount n]) = 0"
    "ops_sum (limit_to k) (?cnt @ [SetActiveStreams (length cs), SetCounterCount n]) = 0"
    "ops_sum (total_to k) (?cnt @ [SetActiveStreams (length cs), SetCounterCount n]) = 0"
    by (simp_all add: ops_sum_def)
  have "ops_sum (pass_to k) ?new = max 0 (stat_at dim_Passed agg k)"
    using sums(1) rest(1) no_sums(1) [of k fst "filter (stale (add64 (flushCycle s) 1)) ?last"]
    by (simp add: stat_at_def split: option.splits)
  moreover have "ops_sum (limit_to k) ?new = max 0 (stat_at dim_Limited agg k)"
    using sums(2) rest(2) no_sums(2) [of k fst "filter (stale (add64 (flushCycle s) 1)) ?last"]
    by (simp add: stat_at_def split: option.splits)
  moreover have "ops_sum (total_to k) ?new = max 0 (add64 (stat_at dim_Passed agg k) (stat_at dim_Limited agg k))"
    using sums(3) rest(3) no_sums(3) [of k fst "filter (stale (add64 (flushCycle s) 1)) ?last"]
    by (simp add: stat_at_def add64_def i64_def split: option.splits)
  ultimately have c1: "\<exists>new. metricOps s' = metricOps s @ new \<and> ops_sum (pass_to k) new = pending Passed s k \<and>
      ops_sum (limit_to k) new = pending Limited s k \<and> ops_sum (total_to k) new = pending Passed s k + pending Limited s k"
    using ops p l total nonneg [of Passed] nonneg [of Limited] by (intro exI [of _ ?new]) simp
  have zero: "of_rule g vs k = 0" if "\<forall>w \<in> set vs. \<not> active w" "g = Passed \<or> g = Limited" for g vs
    using that by (induction vs) (auto simp: active_def)
  have c2: "pending Passed s' k = 0" "pending Limited s' k = 0" "workerDropped s' = []"
    using zero [OF FA(5)] w by (simp_all add: pending_def)
  show ?thesis using c1 c2 by blast
qed

text \<open>A flush adds to the counters of every rule exactly the passed and limited amounts that the
  collectors of open and closed streams held for it, and their sum to the total; then no collector
  holds any amount, so the next flush exports nothing of it again.\<close>
theorem flush_exports_everything_once:
  assumes "\<And>v. v \<in> set (all_values (workerCollectors s) @ all_values (workerDropped s)) \<Longrightarrow>
      0 \<le> Passed (curve_of v) \<and> 0 \<le> Limited (curve_of v)"
    and "pending Passed s k + pending Limited s k < 2 ^ 63"
    and "s' = flushOnce svcName tv n s"
  shows "(\<exists>new. metricOps s' = metricOps s @ new \<and> ops_sum (pass_to k) new = pending Passed s k \<and>
      ops_sum (limit_to k) new = pending Limited s k \<and> ops_sum (total_to k) new = pending Passed s k + pending Limited s k) \<and>
    pending Passed s' k = 0 \<and>
    pending Limited s' k = 0 \<and>
    workerDropped s' = []"
  by (rule flush_exports [OF assms])

definition sample_worker :: StaticsWorker where
  "sample_worker = NewStaticsWorker\<lparr>workerCollectors := [(''c'', one_collector 0)], workerDropped := [(''d'', one_collector 5000)]\<rparr>"

theorem flush_exports_everything_once_witness:
  "\<exists>new. metricOps (flushOnce ''svc'' \<lparr>Sec = 9, Usec = 0\<rparr> 1 sample_worker) = metricOps sample_worker @ new \<and>
     ops_sum (pass_to (dimension (ValueV2 (one_value 0)))) new = 6 \<and>
     ops_sum (limit_to (dimension (ValueV2 (one_value 0)))) new = 4 \<and>
     ops_sum (total_to (dimension (ValueV2 (one_value 0)))) new = 10"
proof -
  let ?k = "dimension (ValueV2 (one_value 0))"
  have p: "pending Passed sample_worker ?k = 6" "pending Limited sample_worker ?k = 4"
    by (simp_all add: pending_def sample_worker_def two_streams_defs dimension_def accessor_defs)
  have "0 \<le> Passed (curve_of v) \<and> 0 \<le> Limited (curve_of v)"
    if "v \<in> set (all_values (workerCollectors sample_worker) @ all_values (workerDropped sample_worker))" for v
    using that by (auto simp: sample_worker_def two_streams_defs accessor_defs)
  from flush_exports_everything_once [OF this _ refl, where s = sample_worker and k = ?k and svcName = "''svc''" and tv = "\<lparr>Sec = 9, Usec = 0\<rparr>" and n = 1] p show ?thesis by simp
qed

section \<open>Series\<close>

lemma update_all:
  "map_of (foldl (\<lambda>m (k, _). AList.update k x m) m agg) k = (if k \<in> fst ` set agg then Some x else map_of m k)"
  "wf_map m \<Longrightarrow> wf_map (foldl (\<lambda>m (k, _). AList.update k x m) m agg)"
  by (induction agg arbitrary: m) (auto simp: amap.get_put amap.ok_put)

text \<open>The number of flushes is far from the end of the 64-bit range, and no series was seen later.\<close>

definition series_ok :: "StaticsWorker \<Rightarrow> bool" where
  "series_ok s \<longleftrightarrow> wf_map (lastSeen s) \<and> 0 \<le> flushCycle s \<and>
     (\<forall>k c. map_of (lastSeen s) k = Some c \<longrightarrow> 0 \<le> c \<and> c \<le> flushCycle s \<and> flushCycle s - c < staleFlushCycles)"

text \<open>After a flush exactly those series are kept that had an increment in it or in one of the
  thirty flushes before, every other series is deleted from the library in this flush, and a series
  that is kept was seen less than thirty flushes ago.\<close>
theorem stale_series_are_deleted:
  assumes "series_ok s" "flushCycle s < 2 ^ 62" "s' = flushOnce svcName tv n s"
    and "now = (\<lambda>k. \<exists>v \<in> set (all_values (workerCollectors s) @ all_values (workerDropped s)). active v \<and> dimension v = k)"
  shows "series_ok s' \<and>
    flushCycle s' = flushCycle s + 1 \<and>
    map_of (lastSeen s') k = (if now k then Some (flushCycle s + 1)
       else case map_of (lastSeen s) k of None \<Rightarrow> None
            | Some c \<Rightarrow> if flushCycle s + 1 - c < staleFlushCycles then Some c else None) \<and>
    (\<exists>new. metricOps s' = metricOps s @ new \<and>
       (DeleteSeries k \<in> set new \<longleftrightarrow> map_of (lastSeen s) k \<noteq> None \<and> map_of (lastSeen s') k = None))"
proof -
  obtain agg1 ds1 cs where A: "flushCollectors tv [] (workerCollectors s) = (agg1, ds1, cs)" by (metis prod.exhaust)
  obtain agg ds2 dcs where B: "flushCollectors tv agg1 (workerDropped s) = (agg, ds2, dcs)" by (metis prod.exhaust)
  let ?c = "flushCycle s + 1"
  let ?last = "foldl (\<lambda>m (k, _). AList.update k ?c m) (lastSeen s) agg"
  have c: "add64 (flushCycle s) 1 = ?c" using assms(1,2) by (intro add64_id) (simp add: series_ok_def in64_def)
  have keys: "k \<in> fst ` set agg \<longleftrightarrow> now k" for k
    unfolding flushCollectors_result(3) [OF B] flushCollectors_result(3) [OF A] assms(4) by auto
  have wf: "wf_map ?last" using assms(1) by (intro update_all(2)) (simp add: series_ok_def)
  have at: "map_of ?last k = (if now k then Some ?c else map_of (lastSeen s) k)" for k
    by (simp add: update_all(1) keys)
  have st: "stale ?c (k, x) \<longleftrightarrow> \<not> ?c - x < staleFlushCycles" if "map_of ?last k = Some x" for k x
  proof -
    have "0 \<le> x" "x \<le> ?c" using that at [of k] assms(1) by (fastforce simp: series_ok_def split: if_splits)+
    then have "sub64 ?c x = ?c - x" using assms(2) by (intro sub64_id) (simp add: in64_def)
    then show ?thesis by (simp add: stale_def)
  qed
  have filt: "map_of (filter P m) k = (case map_of m k of None \<Rightarrow> None | Some x \<Rightarrow> if P (k, x) then Some x else None)"
    if "wf_map m" for P and m :: "(dimensionKey \<times> int) list" and k
    using that
  proof (induction m)
    case (Cons a m)
    then show ?case by (cases a) (auto simp: map_of_eq_None_iff image_iff split: option.splits dest: map_of_SomeD)
  qed simp
  have s': "flushCycle s' = ?c" "lastSeen s' = filter (\<lambda>ks. \<not> stale ?c ks) ?last"
    "metricOps s' = metricOps s @ concat (map statOps agg) @ map (DeleteSeries \<circ> fst) (filter (stale ?c) ?last) @
        (if 0 < processCount s then [SetProcessAvg (Some (processTotal s, processCount s)), SetProcessMax (processMax s)]
         else [SetProcessAvg None, SetProcessMax 0]) @ [SetActiveStreams (length cs), SetCounterCount n]"
    unfolding assms(3) by (simp_all add: flushOnce_def A B Let_def evictStaleSeries_def resetProcessStats_def c)
  have cyc: "flushCycle s' = flushCycle s + 1" by (fact s'(1))
  have get: "map_of (lastSeen s') k = (if now k then Some (flushCycle s + 1)
       else case map_of (lastSeen s) k of None \<Rightarrow> None
            | Some c \<Rightarrow> if flushCycle s + 1 - c < staleFlushCycles then Some c else None)" for k
    using st [of k] unfolding s'(2) filt [OF wf] at by (auto simp: staleFlushCycles_def split: option.splits)
  have "wf_map (lastSeen s')" using wf unfolding s'(2) by (rule distinct_map_filter)
  then have c1: "series_ok s'"
    using assms(1) get cyc unfolding series_ok_def by (auto simp: staleFlushCycles_def split: if_splits option.splits)
      (smt (verit))+
  have "DeleteSeries k \<in> set (map (DeleteSeries \<circ> fst) (filter (stale ?c) ?last)) \<longleftrightarrow>
      (\<exists>x. map_of ?last k = Some x \<and> stale ?c (k, x))"
    using wf by (force simp: image_iff map_of_eq_Some_iff)
  also have "\<dots> \<longleftrightarrow> map_of (lastSeen s) k \<noteq> None \<and> map_of (lastSeen s') k = None"
    using st [of k] at [of k] get [of k] by (auto simp: staleFlushCycles_def split: if_splits option.splits)
  finally have del: "DeleteSeries k \<in> set (map (DeleteSeries \<circ> fst) (filter (stale ?c) ?last)) \<longleftrightarrow>
      map_of (lastSeen s) k \<noteq> None \<and> map_of (lastSeen s') k = None" .
  have ops: "DeleteSeries k \<notin> set (concat (map statOps agg))" by (auto simp: statOps_def Let_def split: prod.splits if_splits)
  have c2: "\<exists>new. metricOps s' = metricOps s @ new \<and>
       (DeleteSeries k \<in> set new \<longleftrightarrow> map_of (lastSeen s) k \<noteq> None \<and> map_of (lastSeen s') k = None)"
    by (rule exI, rule conjI, rule s'(3)) (use del ops in auto)
  show ?thesis using cyc get c1 c2 by blast
qed

theorem stale_series_are_deleted_witness:
  "map_of (lastSeen (flushOnce ''svc'' \<lparr>Sec = 9, Usec = 0\<rparr> 1
     (sample_worker\<lparr>flushCycle := 30, lastSeen := [(dimension (ValueV2 ((one_value 0)\<lparr>StatLabels := (StatLabels (one_value 0))\<lparr>stat_Labels := ''x''\<rparr>\<rparr>)), 1)]\<rparr>)))
       (dimension (ValueV2 (one_value 0))) = Some 31"
proof -
  let ?s = "sample_worker\<lparr>flushCycle := 30, lastSeen := [(dimension (ValueV2 ((one_value 0)\<lparr>StatLabels := (StatLabels (one_value 0))\<lparr>stat_Labels := ''x''\<rparr>\<rparr>)), 1)]\<rparr>"
  have ok: "series_ok ?s" by (simp add: series_ok_def sample_worker_def staleFlushCycles_def)
  have "\<exists>v \<in> set (all_values (workerCollectors ?s) @ all_values (workerDropped ?s)). active v \<and> dimension v = dimension (ValueV2 (one_value 0))"
    by (simp add: sample_worker_def two_streams_defs active_def accessor_defs dimension_def)
  with stale_series_are_deleted [OF ok _ refl refl, where k = "dimension (ValueV2 (one_value 0))"]
  show ?thesis by (simp add: sample_worker_def)
qed

section \<open>Processing times\<close>

lemma AddProcessTimes:
  assumes "\<forall>u \<in> set us. 0 \<le> u" "0 \<le> processTotal s" "0 \<le> processCount s"
    and "processTotal s + sum_list us < 2 ^ 63" "processCount s + int (length us) < 2 ^ 63"
  shows "processTotal (foldl (\<lambda>s u. AddProcessTime u s) s us) = processTotal s + sum_list us \<and>
    processCount (foldl (\<lambda>s u. AddProcessTime u s) s us) = processCount s + int (length us) \<and>
    processMax (foldl (\<lambda>s u. AddProcessTime u s) s us) = foldl max (processMax s) us"
  using assms
proof (induction us arbitrary: s)
  case (Cons u us)
  have nn: "0 \<le> sum_list us" using Cons.prems(1) by (intro sum_list_nonneg) auto
  have step: "processTotal (AddProcessTime u s) = processTotal s + u" "processCount (AddProcessTime u s) = processCount s + 1"
    "processMax (AddProcessTime u s) = max (processMax s) u"
    using Cons.prems nn by (auto simp: AddProcessTime_def add64_id in64_def Let_def)
  show ?case using Cons.IH [of "AddProcessTime u s"] Cons.prems step by simp
qed simp

text \<open>The normal form of a configuration has no map with keys that are not strings, and is kept.\<close>

lemma normalize_idem: "normalizeYAMLMap (normalizeYAMLMap y) = normalizeYAMLMap y"
proof (induction y rule: normalizeYAMLMap.induct)
  case (1 m)
  have "(\<And>x z. x \<in> set m \<Longrightarrow> fst x = Text z \<Longrightarrow> normalizeYAMLMap (normalizeYAMLMap (snd x)) = normalizeYAMLMap (snd x)) \<Longrightarrow>
    map (\<lambda>kv. (fst kv, normalizeYAMLMap (snd kv)))
      (concat (map (\<lambda>kv. case fst kv of Text s \<Rightarrow> [(s, normalizeYAMLMap (snd kv))] | _ \<Rightarrow> []) m)) =
    concat (map (\<lambda>kv. case fst kv of Text s \<Rightarrow> [(s, normalizeYAMLMap (snd kv))] | _ \<Rightarrow> []) m)"
    by (induction m) (auto split: yaml.splits)
  with 1 show ?case by simp
qed auto

end
