(* ===== verification/Registration.thy ===== *)
theory Registration
  imports Text_Format
begin

text \<open>
  \<open>bootstrap/registry.go\<close>: how the limiter registers itself at the naming service, keeps the
  registration alive by heartbeats and registers again, with a growing delay, when its instances
  are no longer known. The naming service is not part of the repository: it is a parameter that
  answers a call, which carries a request id that is never used twice, with a response or an
  error. The readiness of the process and the random jitter are parameters as well.
\<close>

section \<open>Configuration and messages\<close>

record Registry =
  reg_PolarisServerAddress :: string
  reg_Name :: string
  reg_Namespace :: string
  reg_Token :: string
  reg_HealthCheckEnable :: bool
  reg_Region :: string
  reg_Zone :: string
  reg_Campus :: string

text \<open>An API server, seen through its protocol and port, and its configuration.\<close>

record APIServer =
  srv_Protocol :: string
  srv_Port :: u32

record ApiConfig =
  api_Name :: string
  api_RegisterEnabled :: "bool option"
  api_RegisterPort :: u32

definition ShouldRegister :: "ApiConfig \<Rightarrow> bool" where
  "ShouldRegister c \<longleftrightarrow> api_RegisterEnabled c = None \<or> api_RegisterEnabled c = Some True"

record Location =
  loc_Region :: "string option"
  loc_Zone :: "string option"
  loc_Campus :: "string option"

text \<open>The version of the program: the values of the source, which a build can replace.\<close>

definition Version :: string where "Version = ''v1.2.0''"
definition BuildDate :: string where "BuildDate = ''''"

definition GetRevision :: "string \<Rightarrow> string \<Rightarrow> string" where
  "GetRevision version buildDate = (if buildDate = [] then version else version @ ''.'' @ buildDate)"

record Instance =
  inst_Id :: "string option"
  inst_Namespace :: string
  inst_Service :: string
  inst_Host :: string
  inst_Port :: u32
  inst_ServiceToken :: string
  inst_Protocol :: "string option"
  inst_Location :: "Location option"
  inst_HeartbeatTtl :: "u32 option"
  inst_Version :: "string option"
  inst_Metadata :: "(string \<times> string) list"

text \<open>A response of the naming service: the code and the id of the instance, both zero when absent.\<close>

record Response =
  rsp_Code :: u32
  rsp_Id :: string

type_synonym remote = "string \<Rightarrow> Instance \<Rightarrow> Response option"

definition serverTtl :: int where "serverTtl = 5 * 1000000000"
definition maxReRegisterDelay :: int where "maxReRegisterDelay = 60 * 1000000000"
definition notFoundResourceCode :: u32 where "notFoundResourceCode = 400202"
definition maxHeartbeatFailCount :: int where "maxHeartbeatFailCount = 2"

lemmas registry_consts = serverTtl_def maxReRegisterDelay_def notFoundResourceCode_def maxHeartbeatFailCount_def

section \<open>State\<close>

text \<open>\<open>int32\<close> values, with the wrap-around of their addition.\<close>

definition i32 :: "int \<Rightarrow> int" where
  "i32 x = (x + 2 ^ 31) mod 2 ^ 32 - 2 ^ 31"

definition add32 :: "int \<Rightarrow> int \<Rightarrow> int" where "add32 a b = i32 (a + b)"

lemma i32_id: "- (2 ^ 31) \<le> x \<Longrightarrow> x < 2 ^ 31 \<Longrightarrow> i32 x = x"
  by (simp add: i32_def)

lemma add32_id: "- (2 ^ 31) \<le> a + b \<Longrightarrow> a + b < 2 ^ 31 \<Longrightarrow> add32 a b = a + b"
  by (simp add: add32_def i32_id)

record registryCtx =
  ctx_cfg :: Registry
  ctx_servers :: "APIServer list"
  ctx_apiServerConfigs :: "ApiConfig list"
  ctx_serverAddress :: string

text \<open>
  The registrar and the two package variables it uses: the request counter and the token. The
  counters are \<open>int32\<close>; the flag \<open>reRegistering\<close> is only ever 0 or 1.
\<close>

record registrar =
  saved :: "registryCtx option"
  instances :: "Instance list option"
  notFoundCount :: int
  reRegisterCount :: int
  reRegistering :: bool
  skippedBeats :: int
  rid :: u64
  polarisToken :: string

definition initPolarisClient :: "Registry \<Rightarrow> registrar \<Rightarrow> bool \<times> registrar" where
  "initPolarisClient c r = (reg_PolarisServerAddress c = [], r\<lparr>polarisToken := reg_Token c\<rparr>)"

definition nextReqID :: "Instance \<Rightarrow> registrar \<Rightarrow> string \<times> registrar" where
  "nextReqID inst r =
     (inst_Service inst @ ''_'' @ dec_int (uint (rid r + 1)), r\<lparr>rid := rid r + 1\<rparr>)"

definition loadInstances :: "registrar \<Rightarrow> Instance list" where
  "loadInstances r = (case instances r of None \<Rightarrow> [] | Some is \<Rightarrow> is)"

section \<open>Registration\<close>

definition blank :: "char \<Rightarrow> bool" where
  "blank c \<longleftrightarrow> c \<in> set [CHR 0x20, CHR 0x09, CHR 0x0A, CHR 0x0B, CHR 0x0C, CHR 0x0D]"

text \<open>\<open>strings.TrimSpace\<close> of an ASCII string.\<close>

definition TrimSpace :: "string \<Rightarrow> string" where
  "TrimSpace s = rev (dropWhile blank (rev (dropWhile blank s)))"

definition level :: "string \<Rightarrow> string option" where
  "level s = (if s = [] then None else Some s)"

definition buildLocation :: "Registry \<Rightarrow> Location option" where
  "buildLocation c =
     (let region = TrimSpace (reg_Region c); zone = TrimSpace (reg_Zone c); campus = TrimSpace (reg_Campus c)
      in if region = [] \<and> zone = [] \<and> campus = [] then None
         else Some \<lparr>loc_Region = level region, loc_Zone = level zone, loc_Campus = level campus\<rparr>)"

definition buildRegisterRequest :: "string \<Rightarrow> Registry \<Rightarrow> APIServer \<Rightarrow> ApiConfig \<Rightarrow> string \<Rightarrow> Instance" where
  "buildRegisterRequest token c server serverCfg serverAddress =
     \<lparr>inst_Id = None, inst_Namespace = reg_Namespace c, inst_Service = reg_Name c, inst_Host = serverAddress,
      inst_Port = (if 0 < api_RegisterPort serverCfg then api_RegisterPort serverCfg else srv_Port server),
      inst_ServiceToken = token, inst_Protocol = Some (srv_Protocol server), inst_Location = buildLocation c,
      inst_HeartbeatTtl = (if reg_HealthCheckEnable c then Some (word_of_int (serverTtl div 1000000000)) else None),
      inst_Version = Some Version, inst_Metadata = [(''build-revision'', GetRevision Version BuildDate)]\<rparr>"

text \<open>The configuration of a server is looked up by its protocol; the last entry of a name wins.\<close>

definition no_config :: ApiConfig where
  "no_config = \<lparr>api_Name = [], api_RegisterEnabled = None, api_RegisterPort = 0\<rparr>"

definition configOf :: "ApiConfig list \<Rightarrow> string \<Rightarrow> ApiConfig" where
  "configOf cs name = (case map_of (map (\<lambda>c. (api_Name c, c)) (rev cs)) name of None \<Rightarrow> no_config | Some c \<Rightarrow> c)"

definition toRegister :: "string \<Rightarrow> registryCtx \<Rightarrow> Instance list" where
  "toRegister token ctx =
     map (\<lambda>s. buildRegisterRequest token (ctx_cfg ctx) s (configOf (ctx_apiServerConfigs ctx) (srv_Protocol s)) (ctx_serverAddress ctx))
       (filter (\<lambda>s. ShouldRegister (configOf (ctx_apiServerConfigs ctx) (srv_Protocol s))) (ctx_servers ctx))"

definition heartbeatInstance :: "Instance \<Rightarrow> Response \<Rightarrow> Instance" where
  "heartbeatInstance inst resp =
     inst\<lparr>inst_Id := Some (rsp_Id resp), inst_Protocol := None, inst_Location := None, inst_HeartbeatTtl := None,
       inst_Version := None, inst_Metadata := []\<rparr>"

text \<open>The calls of one registration: the first that fails ends it, and nothing is kept then.\<close>

fun registerAll :: "remote \<Rightarrow> Instance list \<Rightarrow> registrar \<Rightarrow> Instance list option \<times> registrar" where
  "registerAll remote [] r = (Some [], r)"
| "registerAll remote (inst # rest) r =
     (let (reqId, r1) = nextReqID inst r in
      case remote reqId inst of
        None \<Rightarrow> (None, r1)
      | Some resp \<Rightarrow>
          (let (others, r2) = registerAll remote rest r1
           in (map_option ((#) (heartbeatInstance inst resp)) others, r2)))"

text \<open>\<open>doSelfRegister\<close> returns whether it failed.\<close>

definition doSelfRegister :: "bool \<Rightarrow> remote \<Rightarrow> registrar \<Rightarrow> bool \<times> registrar" where
  "doSelfRegister dials remote r =
     (case saved r of
        None \<Rightarrow> (True, r)
      | Some ctx \<Rightarrow>
          if \<not> dials then (True, r)
          else (case registerAll remote (toRegister (polarisToken r) ctx) r of
                  (None, r') \<Rightarrow> (True, r')
                | (Some insts, r') \<Rightarrow> (False, r'\<lparr>instances := Some insts\<rparr>)))"

definition storeRegistryCtx :: "registryCtx \<Rightarrow> registrar \<Rightarrow> registrar" where
  "storeRegistryCtx ctx r = r\<lparr>saved := Some ctx\<rparr>"

definition selfRegister :: "bool \<Rightarrow> remote \<Rightarrow> registryCtx \<Rightarrow> registrar \<Rightarrow> bool \<times> registrar" where
  "selfRegister dials remote ctx r = doSelfRegister dials remote (storeRegistryCtx ctx r)"

text \<open>
  \<open>selfRegisterWhenReady\<close>, after the first probe has a result: the registration now, or later in
  a task that waits for the readiness to come back.
\<close>

datatype startup = Registered | RegisterFailed | Deferred

definition selfRegisterWhenReady :: "bool \<Rightarrow> bool \<Rightarrow> remote \<Rightarrow> registryCtx \<Rightarrow> registrar \<Rightarrow> startup \<times> registrar" where
  "selfRegisterWhenReady ready dials remote ctx r =
     (if ready
      then (let (failed, r') = selfRegister dials remote ctx r in (if failed then RegisterFailed else Registered, r'))
      else (Deferred, storeRegistryCtx ctx r))"

text \<open>\<open>selfDeregister\<close> sends one call per instance and goes on after an error: the calls it sends.\<close>

fun deregisterAll :: "Instance list \<Rightarrow> registrar \<Rightarrow> (string \<times> Instance) list \<times> registrar" where
  "deregisterAll [] r = ([], r)"
| "deregisterAll (inst # rest) r =
     (let (reqId, r1) = nextReqID inst r; (calls, r2) = deregisterAll rest r1 in ((reqId, inst) # calls, r2))"

definition selfDeregister :: "bool \<Rightarrow> registrar \<Rightarrow> (string \<times> Instance) list \<times> registrar" where
  "selfDeregister dials r =
     (if loadInstances r = [] \<or> \<not> dials then ([], r) else deregisterAll (loadInstances r) r)"

section \<open>Heartbeats\<close>

text \<open>\<open>triggerAsyncReRegister\<close>: whether a new task is started.\<close>

definition triggerAsyncReRegister :: "registrar \<Rightarrow> bool \<times> registrar" where
  "triggerAsyncReRegister r = (if reRegistering r then (False, r) else (True, r\<lparr>reRegistering := True\<rparr>))"

text \<open>One answer: whether the round goes on, whether a task was started.\<close>

definition handleHeartbeatResp :: "Response option \<Rightarrow> registrar \<Rightarrow> (bool \<times> bool) \<times> registrar" where
  "handleHeartbeatResp resp r =
     (case resp of
        None \<Rightarrow> ((False, False), r)
      | Some rsp \<Rightarrow>
          if rsp_Code rsp = notFoundResourceCode
          then let r1 = r\<lparr>notFoundCount := add32 (notFoundCount r) 1\<rparr> in
               if maxHeartbeatFailCount < notFoundCount r1
               then (let (started, r2) = triggerAsyncReRegister r1 in ((False, started), r2))
               else ((False, False), r1)
          else ((True, False), r\<lparr>notFoundCount := 0\<rparr>))"

fun sendHeartbeats :: "remote \<Rightarrow> Instance list \<Rightarrow> registrar \<Rightarrow> bool \<times> registrar" where
  "sendHeartbeats remote [] r = (False, r)"
| "sendHeartbeats remote (inst # rest) r =
     (let (reqId, r1) = nextReqID inst r;
          ((goesOn, started), r2) = handleHeartbeatResp (remote reqId inst) r1
      in if goesOn then sendHeartbeats remote rest r2 else (started, r2))"

definition heartbeatRound :: "bool \<Rightarrow> bool \<Rightarrow> remote \<Rightarrow> registrar \<Rightarrow> bool \<times> registrar" where
  "heartbeatRound ready dials remote r =
     (if \<not> ready then (False, r\<lparr>skippedBeats := add32 (skippedBeats r) 1\<rparr>)
      else let r1 = r\<lparr>skippedBeats := 0\<rparr>; snapshot = loadInstances r1 in
           if snapshot = [] \<or> \<not> dials then (False, r1) else sendHeartbeats remote snapshot r1)"

section \<open>Registering again\<close>

text \<open>
  The delay before an attempt. The source computes it with floating-point numbers; for the counts
  that reach the computation every intermediate value is an integer below 2 to the 53, so it is
  exact. The jitter is a random number below \<open>serverTtl\<close>.
\<close>

definition maxExp :: int where "maxExp = 10"

definition calcReRegisterDelay :: "int \<Rightarrow> int \<Rightarrow> int" where
  "calcReRegisterDelay count jitter =
     (if count \<le> 0 then 0
      else if maxExp < count then maxReRegisterDelay
      else let delay = serverTtl * 2 ^ nat (count - 1) + jitter
           in if delay < 0 \<or> maxReRegisterDelay < delay then maxReRegisterDelay else delay)"

text \<open>
  What one turn of the loop meets: the jitter, whether the context ends during the delay, whether
  the dial succeeds, the answers, and whether the context has ended after a failure. A task runs
  through the turns until it returns; it is still running when they are used up.
\<close>

record turn =
  jitter :: int
  cancelled :: bool
  dials :: bool
  answers_of :: remote
  endedAfter :: bool

datatype task = Running | Returned

definition attempt :: "turn \<Rightarrow> registrar \<Rightarrow> (task \<times> int) \<times> registrar" where
  "attempt t r =
     (let delay = calcReRegisterDelay (reRegisterCount r) (jitter t) in
      if 0 < delay \<and> cancelled t then ((Returned, delay), r\<lparr>reRegistering := False\<rparr>)
      else if saved r = None then ((Returned, delay), r\<lparr>reRegistering := False\<rparr>)
      else (let (failed, r1) = doSelfRegister (dials t) (answers_of t) r in
            if failed
            then let r2 = r1\<lparr>reRegisterCount := add32 (reRegisterCount r1) 1\<rparr> in
                 if endedAfter t then ((Returned, delay), r2\<lparr>reRegistering := False\<rparr>)
                 else ((Running, delay), r2)
            else ((Returned, delay), r1\<lparr>notFoundCount := 0, reRegisterCount := 0, reRegistering := False\<rparr>)))"

fun asyncReRegister :: "turn list \<Rightarrow> registrar \<Rightarrow> (task \<times> int list) \<times> registrar" where
  "asyncReRegister [] r = ((Running, []), r)"
| "asyncReRegister (t # ts) r =
     (let ((out, delay), r1) = attempt t r in
      case out of
        Returned \<Rightarrow> ((Returned, [delay]), r1)
      | Running \<Rightarrow> (let ((out2, delays), r2) = asyncReRegister ts r1 in ((out2, delay # delays), r2)))"

text \<open>\<open>registerWhenReady\<close>: polls the readiness until it is up or the context ends; whether a task starts.\<close>

fun registerWhenReady :: "(bool \<times> bool) list \<Rightarrow> registrar \<Rightarrow> bool \<times> registrar" where
  "registerWhenReady [] r = (False, r)"
| "registerWhenReady ((ready, ended) # polls) r =
     (if ready then triggerAsyncReRegister r
      else if ended then (False, r)
      else registerWhenReady polls r)"

section \<open>The delay\<close>

lemma delay_small:
  assumes "0 < count" "count \<le> 4" "0 \<le> j" "j < serverTtl"
  shows "calcReRegisterDelay count j = serverTtl * 2 ^ nat (count - 1) + j"
proof -
  have "count = 1 \<or> count = 2 \<or> count = 3 \<or> count = 4" using assms(1,2) by presburger
  then show ?thesis
    using assms(3,4) by (auto simp: calcReRegisterDelay_def maxExp_def registry_consts)
qed

lemma delay_large:
  assumes "4 < count" "0 \<le> j"
  shows "calcReRegisterDelay count j = maxReRegisterDelay"
proof (cases "maxExp < count")
  case False
  have "(2 :: int) ^ 4 \<le> 2 ^ nat (count - 1)" using assms(1) by (intro power_increasing) auto
  then have "maxReRegisterDelay < serverTtl * 2 ^ nat (count - 1) + j"
    using assms(2) by (simp add: registry_consts)
  with False assms(1) show ?thesis by (simp add: calcReRegisterDelay_def Let_def)
qed (use assms in \<open>simp add: calcReRegisterDelay_def\<close>)

lemma delay_cases:
  assumes "0 \<le> j" "j < serverTtl"
  obtains "count \<le> 0" "calcReRegisterDelay count j = 0"
  | "0 < count" "count \<le> 4" "calcReRegisterDelay count j = serverTtl * 2 ^ nat (count - 1) + j"
  | "4 < count" "calcReRegisterDelay count j = maxReRegisterDelay"
proof -
  consider "count \<le> 0" | "0 < count" "count \<le> 4" | "4 < count" by linarith
  then show thesis
  proof cases
    case 1
    then show ?thesis using that(1) by (simp add: calcReRegisterDelay_def)
  qed (use that delay_small delay_large assms in blast)+
qed

lemma delay_bounds:
  assumes "0 \<le> j" "j < serverTtl"
  shows "0 \<le> calcReRegisterDelay count j \<and> calcReRegisterDelay count j \<le> maxReRegisterDelay"
    and "calcReRegisterDelay count j = 0 \<longleftrightarrow> count \<le> 0"
proof -
  have "0 < (2 :: int) ^ nat (count - 1)" by simp
  then have pos: "0 < serverTtl * 2 ^ nat (count - 1) + j" using assms unfolding registry_consts by linarith
  have max: "0 < maxReRegisterDelay" by (simp add: registry_consts)
  have "calcReRegisterDelay count j \<le> maxReRegisterDelay" using max by (simp add: calcReRegisterDelay_def Let_def)
  with pos max show "0 \<le> calcReRegisterDelay count j \<and> calcReRegisterDelay count j \<le> maxReRegisterDelay"
    "calcReRegisterDelay count j = 0 \<longleftrightarrow> count \<le> 0"
    by (atomize (full), cases rule: delay_cases [OF assms, of count]) auto
qed

text \<open>A later attempt never waits less than an earlier one, whatever the jitter of the two.\<close>

lemma delay_mono:
  assumes "0 \<le> j" "j < serverTtl" "0 \<le> j'" "j' < serverTtl" "count < count'"
  shows "calcReRegisterDelay count j \<le> calcReRegisterDelay count' j'"
proof (cases rule: delay_cases [OF assms(3,4), of count'])
  case 1
  then show ?thesis using assms(5) by (simp add: calcReRegisterDelay_def)
next
  case 2
  show ?thesis
  proof (cases "count \<le> 0")
    case True
    then show ?thesis using delay_bounds(1) [OF assms(3,4), of count'] by (simp add: calcReRegisterDelay_def)
  next
    case False
    then have e: "calcReRegisterDelay count j = serverTtl * 2 ^ nat (count - 1) + j"
      using delay_small [of count j] 2 assms by simp
    have "2 * (2 :: int) ^ nat (count - 1) = 2 ^ nat count" using False by (simp flip: power_Suc add: Suc_nat_eq_nat_zadd1)
    moreover have "(2 :: int) ^ nat count \<le> 2 ^ nat (count' - 1)" using assms(5) by (intro power_increasing) auto
    moreover have "(1 :: int) \<le> 2 ^ nat (count - 1)" by simp
    ultimately have "serverTtl * 2 ^ nat (count - 1) + serverTtl \<le> serverTtl * 2 ^ nat (count' - 1)"
      unfolding registry_consts by linarith
    then show ?thesis using e 2(3) assms by linarith
  qed
next
  case 3
  then show ?thesis using delay_bounds(1) [OF assms(1,2), of count] by simp
qed

section \<open>Registration\<close>

text \<open>The request ids of consecutive calls, and the answers to them.\<close>

definition req_id :: "Instance \<Rightarrow> u64 \<Rightarrow> string" where
  "req_id inst n = inst_Service inst @ ''_'' @ dec_int (uint n)"

fun answered :: "remote \<Rightarrow> u64 \<Rightarrow> Instance list \<Rightarrow> Response option list" where
  "answered remote n [] = []"
| "answered remote n (inst # rest) = remote (req_id inst (n + 1)) inst # answered remote (n + 1) rest"

lemma length_answered [simp]: "length (answered remote n insts) = length insts"
  by (induction insts arbitrary: n) auto

lemma nextReqID_eq: "nextReqID inst r = (req_id inst (rid r + 1), r\<lparr>rid := rid r + 1\<rparr>)"
  by (simp add: nextReqID_def req_id_def)

lemma registerAll_result:
  "registerAll remote insts r = (out, r') \<Longrightarrow>
    out = (if None \<in> set (answered remote (rid r) insts) then None
           else Some (map2 heartbeatInstance insts (map the (answered remote (rid r) insts)))) \<and>
    (\<exists>n. r' = r\<lparr>rid := n\<rparr>)"
proof (induction insts arbitrary: r out r')
  case Nil
  then show ?case by (auto intro: exI [of _ "rid r"])
next
  case (Cons inst insts)
  show ?case
  proof (cases "remote (req_id inst (rid r + 1)) inst")
    case None
    then show ?thesis using Cons.prems by (auto simp: nextReqID_eq)
  next
    case (Some resp)
    obtain out2 r2 where R: "registerAll remote insts (r\<lparr>rid := rid r + 1\<rparr>) = (out2, r2)" by fastforce
    from Cons.IH [OF R] Some Cons.prems R show ?thesis by (auto simp: nextReqID_eq)
  qed
qed

lemma doSelfRegister_frame:
  assumes "doSelfRegister d remote r = (failed, r')"
  shows "saved r' = saved r \<and> reRegistering r' = reRegistering r \<and> reRegisterCount r' = reRegisterCount r \<and>
    notFoundCount r' = notFoundCount r \<and> polarisToken r' = polarisToken r \<and> skippedBeats r' = skippedBeats r"
  using assms by (auto simp: doSelfRegister_def split: option.splits if_splits prod.splits dest!: registerAll_result)

section \<open>Heartbeats\<close>

text \<open>An instance that is not found and one that is alive.\<close>

definition not_found :: "Response option \<Rightarrow> bool" where
  "not_found resp \<longleftrightarrow> (\<exists>rsp. resp = Some rsp \<and> rsp_Code rsp = notFoundResourceCode)"

definition alive :: "Response option \<Rightarrow> bool" where
  "alive resp \<longleftrightarrow> (\<exists>rsp. resp = Some rsp \<and> rsp_Code rsp \<noteq> notFoundResourceCode)"

lemma handle_alive: "alive resp \<Longrightarrow> handleHeartbeatResp resp r = ((True, False), r\<lparr>notFoundCount := 0\<rparr>)"
  by (auto simp: alive_def handleHeartbeatResp_def)

lemma handle_not_found:
  assumes "not_found resp" "0 \<le> notFoundCount r" "notFoundCount r < 2 ^ 31 - 1"
  shows "handleHeartbeatResp resp r =
    ((False, 2 \<le> notFoundCount r \<and> \<not> reRegistering r),
     r\<lparr>notFoundCount := notFoundCount r + 1, reRegistering := reRegistering r \<or> 2 \<le> notFoundCount r\<rparr>)"
  using assms
  by (auto simp: not_found_def handleHeartbeatResp_def triggerAsyncReRegister_def Let_def add32_id
      maxHeartbeatFailCount_def)

text \<open>A sequence of rounds with the same instances, all ready and connected; whether a task was started.\<close>

fun rounds :: "remote list \<Rightarrow> registrar \<Rightarrow> bool \<times> registrar" where
  "rounds [] r = (False, r)"
| "rounds (remote # remotes) r =
     (let (started, r1) = heartbeatRound True True remote r in
      if started then (True, r1) else rounds remotes r1)"

lemma round_first_not_found:
  assumes "instances r = Some (inst # rest)" "0 \<le> notFoundCount r" "notFoundCount r < 2 ^ 31 - 1"
    and "\<And>i. not_found (remote i inst)"
  shows "heartbeatRound True True remote r =
    (2 \<le> notFoundCount r \<and> \<not> reRegistering r,
     r\<lparr>skippedBeats := 0, rid := rid r + 1, notFoundCount := notFoundCount r + 1,
       reRegistering := reRegistering r \<or> 2 \<le> notFoundCount r\<rparr>)"
  using assms handle_not_found [OF assms(4), of "r\<lparr>skippedBeats := 0, rid := rid r + 1\<rparr>"]
  by (simp add: heartbeatRound_def loadInstances_def nextReqID_eq Let_def)

text \<open>The first instance is alive and the second is not: the count never gets beyond one.\<close>

lemma round_second_not_found:
  assumes "instances r = Some (a # b # rest)" "notFoundCount r \<in> {0, 1}"
    and "\<And>i. alive (remote i a)" "\<And>i. not_found (remote i b)"
  shows "heartbeatRound True True remote r = (False, r\<lparr>skippedBeats := 0, rid := rid r + 2, notFoundCount := 1\<rparr>)"
  using assms by (auto simp: heartbeatRound_def loadInstances_def nextReqID_eq Let_def handle_alive
      handle_not_found [OF assms(4)] add.commute)

lemma rounds_second_not_found:
  assumes "instances r = Some (a # b # rest)" "notFoundCount r \<in> {0, 1}"
    and "\<forall>remote \<in> set remotes. (\<forall>i. alive (remote i a)) \<and> (\<forall>i. not_found (remote i b))"
  shows "fst (rounds remotes r) = False \<and> reRegistering (snd (rounds remotes r)) = reRegistering r"
  using assms
proof (induction remotes arbitrary: r)
  case (Cons remote remotes)
  then have "heartbeatRound True True remote r = (False, r\<lparr>skippedBeats := 0, rid := rid r + 2, notFoundCount := 1\<rparr>)"
    by (intro round_second_not_found) auto
  with Cons.IH [of "r\<lparr>skippedBeats := 0, rid := rid r + 2, notFoundCount := 1\<rparr>"] Cons.prems show ?case by simp
qed simp

section \<open>Attempts\<close>

definition turn_fails :: "turn \<Rightarrow> registrar \<Rightarrow> bool" where
  "turn_fails t r \<longleftrightarrow> fst (doSelfRegister (dials t) (answers_of t) r)"

lemma attempt_keeps_saved: "attempt t r = ((out, delay), r') \<Longrightarrow> saved r' = saved r"
  by (auto simp: attempt_def Let_def split: if_splits prod.splits dest!: doSelfRegister_frame)

lemma attempt_flag:
  "attempt t r = ((out, delay), r') \<Longrightarrow> reRegistering r' = (if out = Running then reRegistering r else False)"
  by (auto simp: attempt_def Let_def split: if_splits prod.splits dest!: doSelfRegister_frame)

text \<open>An attempt that meets neither an ended context nor a missing configuration.\<close>

lemma attempt_result:
  assumes "saved r \<noteq> None" "\<not> cancelled t" "\<not> endedAfter t"
  shows "attempt t r =
    (let (failed, r1) = doSelfRegister (dials t) (answers_of t) r; delay = calcReRegisterDelay (reRegisterCount r) (jitter t)
     in if failed then ((Running, delay), r1\<lparr>reRegisterCount := add32 (reRegisterCount r) 1\<rparr>)
        else ((Returned, delay), r1\<lparr>notFoundCount := 0, reRegisterCount := 0, reRegistering := False\<rparr>))"
proof -
  obtain failed r1 where D: "doSelfRegister (dials t) (answers_of t) r = (failed, r1)" by fastforce
  show ?thesis using assms doSelfRegister_frame [OF D] by (auto simp: attempt_def D Let_def)
qed

text \<open>The turns of a task that fail, and the delays before them.\<close>

fun all_fail :: "turn list \<Rightarrow> registrar \<Rightarrow> bool" where
  "all_fail [] r \<longleftrightarrow> True"
| "all_fail (t # ts) r \<longleftrightarrow> turn_fails t r \<and> \<not> cancelled t \<and> \<not> endedAfter t \<and> all_fail ts (snd (attempt t r))"

fun delays_from :: "int \<Rightarrow> turn list \<Rightarrow> int list" where
  "delays_from count [] = []"
| "delays_from count (t # ts) = calcReRegisterDelay count (jitter t) # delays_from (count + 1) ts"

lemma asyncReRegister_fail:
  assumes "saved r \<noteq> None" "all_fail ts r" "0 \<le> reRegisterCount r" "reRegisterCount r + int (length ts) < 2 ^ 31"
  shows "\<exists>r1. asyncReRegister (ts @ ts') r =
      ((fst (fst (asyncReRegister ts' r1)), delays_from (reRegisterCount r) ts @ snd (fst (asyncReRegister ts' r1))),
       snd (asyncReRegister ts' r1)) \<and>
    saved r1 = saved r \<and> reRegistering r1 = reRegistering r \<and> instances r1 = instances r \<and>
    polarisToken r1 = polarisToken r \<and> reRegisterCount r1 = reRegisterCount r + int (length ts)"
  using assms
proof (induction ts arbitrary: r)
  case Nil
  then show ?case by (intro exI [of _ r]) simp
next
  case (Cons t ts)
  obtain failed r1 where D: "doSelfRegister (dials t) (answers_of t) r = (failed, r1)" by fastforce
  with Cons.prems have failed: "failed" by (auto simp: turn_fails_def)
  note F = doSelfRegister_frame [OF D]
  have same: "instances r1 = instances r" using D failed
    by (auto simp: doSelfRegister_def split: option.splits if_splits prod.splits dest!: registerAll_result)
  let ?r2 = "r1\<lparr>reRegisterCount := reRegisterCount r + 1\<rparr>"
  have A: "attempt t r = ((Running, calcReRegisterDelay (reRegisterCount r) (jitter t)), ?r2)"
    using attempt_result [of r t] Cons.prems D failed by (auto simp: Let_def add32_id)
  have "saved ?r2 \<noteq> None" "all_fail ts ?r2" "0 \<le> reRegisterCount ?r2"
    "reRegisterCount ?r2 + int (length ts) < 2 ^ 31"
    using Cons.prems F A by auto
  from Cons.IH [OF this] obtain r3 where r3: "asyncReRegister (ts @ ts') ?r2 =
      ((fst (fst (asyncReRegister ts' r3)), delays_from (reRegisterCount r + 1) ts @ snd (fst (asyncReRegister ts' r3))),
       snd (asyncReRegister ts' r3))"
    "saved r3 = saved r1" "reRegistering r3 = reRegistering r1" "instances r3 = instances r1"
    "polarisToken r3 = polarisToken r1" "reRegisterCount r3 = reRegisterCount r + 1 + int (length ts)" by auto
  show ?case
    by (rule exI [of _ r3]) (use A F same r3 in \<open>simp add: Let_def\<close>)
qed

section \<open>Tasks\<close>

text \<open>
  The registrar with the tasks that are running: heartbeat rounds, the deferred registration at
  startup and single attempts of a task take turns.
\<close>

datatype bevent = Beat bool bool remote | Poll "(bool \<times> bool) list" | Attempt turn

definition bstep :: "bevent \<Rightarrow> registrar \<times> nat \<Rightarrow> registrar \<times> nat" where
  "bstep e st = (let (r, tasks) = st in
     case e of
       Beat ready dial remote \<Rightarrow>
         (let (started, r') = heartbeatRound ready dial remote r in (r', if started then tasks + 1 else tasks))
     | Poll polls \<Rightarrow>
         (let (started, r') = registerWhenReady polls r in (r', if started then tasks + 1 else tasks))
     | Attempt t \<Rightarrow>
         if tasks = 0 then st
         else (let ((out, _), r') = attempt t r in (r', if out = Returned then tasks - 1 else tasks)))"

inductive breach :: "registrar \<Rightarrow> registrar \<times> nat \<Rightarrow> bool" for r0 where
  start: "breach r0 (r0, 0)"
| step: "breach r0 st \<Longrightarrow> breach r0 (bstep e st)"

definition one_task :: "registrar \<times> nat \<Rightarrow> bool" where
  "one_task st \<longleftrightarrow> snd st = (if reRegistering (fst st) then 1 else 0)"

lemma trigger_tasks:
  "triggerAsyncReRegister r = (started, r') \<Longrightarrow> one_task (r, n) \<Longrightarrow> one_task (r', if started then n + 1 else n)"
  by (auto simp: triggerAsyncReRegister_def one_task_def split: if_splits)

lemma handle_tasks:
  "handleHeartbeatResp resp r = ((goesOn, started), r') \<Longrightarrow> one_task (r, n) \<Longrightarrow>
    one_task (r', if started then n + 1 else n) \<and> (goesOn \<longrightarrow> \<not> started)"
  by (auto simp: handleHeartbeatResp_def Let_def triggerAsyncReRegister_def one_task_def split: option.splits if_splits)

lemma send_tasks:
  "sendHeartbeats remote insts r = (started, r') \<Longrightarrow> one_task (r, n) \<Longrightarrow> one_task (r', if started then n + 1 else n)"
proof (induction insts arbitrary: r)
  case (Cons inst insts)
  obtain goesOn st r2 where H: "handleHeartbeatResp (remote (req_id inst (rid r + 1)) inst) (r\<lparr>rid := rid r + 1\<rparr>) = ((goesOn, st), r2)"
    by (metis prod.exhaust)
  have "one_task (r\<lparr>rid := rid r + 1\<rparr>, n)" using Cons.prems(2) by (simp add: one_task_def)
  from handle_tasks [OF H this] Cons show ?case by (auto simp: nextReqID_eq H split: if_splits)
qed auto

lemma poll_tasks:
  "registerWhenReady polls r = (started, r') \<Longrightarrow> one_task (r, n) \<Longrightarrow> one_task (r', if started then n + 1 else n)"
  by (induction polls r rule: registerWhenReady.induct) (auto split: if_splits dest: trigger_tasks)

lemma bstep_tasks:
  assumes "one_task st"
  shows "one_task (bstep e st)"
proof -
  obtain r n where st: "st = (r, n)" by fastforce
  show ?thesis
  proof (cases e)
    case (Beat ready dial remote)
    have skip: "one_task (r\<lparr>skippedBeats := x\<rparr>, n)" for x using assms st by (simp add: one_task_def)
    obtain started r2 where S: "sendHeartbeats remote (loadInstances (r\<lparr>skippedBeats := 0\<rparr>)) (r\<lparr>skippedBeats := 0\<rparr>) = (started, r2)"
      by fastforce
    show ?thesis using Beat st skip send_tasks [OF S skip] S
      by (auto simp: bstep_def heartbeatRound_def Let_def)
  next
    case (Poll polls)
    then show ?thesis using assms st by (auto simp: bstep_def split: prod.splits dest: poll_tasks)
  next
    case (Attempt t)
    then show ?thesis using assms st attempt_flag [of t r]
      by (cases "fst (fst (attempt t r))") (auto simp: bstep_def one_task_def split: prod.splits if_splits)
  qed
qed

section \<open>Properties\<close>

text \<open>C20: the delay before an attempt is never negative and never above a minute, it is zero
  exactly for the first attempt, a minute from the fifth retry on, and a later attempt never waits
  less than an earlier one, whatever the jitter.\<close>
theorem reRegister_delay_schedule:
  assumes "0 \<le> j" "j < serverTtl" "0 \<le> j'" "j' < serverTtl" "count < count'"
  shows "0 \<le> calcReRegisterDelay count j \<and> calcReRegisterDelay count j \<le> maxReRegisterDelay \<and>
    (calcReRegisterDelay count j = 0 \<longleftrightarrow> count \<le> 0) \<and>
    calcReRegisterDelay count j \<le> calcReRegisterDelay count' j' \<and>
    (4 < count' \<longrightarrow> calcReRegisterDelay count' j' = maxReRegisterDelay)"
  using delay_bounds [OF assms(1,2), of count] delay_mono [OF assms] delay_large [OF _ assms(3), of count'] by auto

theorem reRegister_delay_schedule_witness:
  "calcReRegisterDelay 2 4000000000 \<le> calcReRegisterDelay 3 0 \<and> calcReRegisterDelay 2 4000000000 \<noteq> 0 \<and>
   calcReRegisterDelay 5 0 = maxReRegisterDelay"
  using reRegister_delay_schedule [of 4000000000 0 2 3] reRegister_delay_schedule [of 0 0 0 5]
  by (simp add: serverTtl_def)

text \<open>Registering keeps every instance with the id of its answer when all calls are answered,
  and leaves the instances as they were when the connection or one call fails. Every server whose
  registration is not switched off is registered, whatever code the answers carry.\<close>
theorem doSelfRegister_result:
  assumes "saved r = Some ctx" "doSelfRegister dial remote r = (failed, r')"
  shows "(failed \<longleftrightarrow> \<not> dial \<or> None \<in> set (answered remote (rid r) (toRegister (polarisToken r) ctx))) \<and>
    instances r' = (if failed then instances r
       else Some (map2 heartbeatInstance (toRegister (polarisToken r) ctx)
              (map the (answered remote (rid r) (toRegister (polarisToken r) ctx))))) \<and>
    length (toRegister (polarisToken r) ctx) =
       length (filter (\<lambda>s. ShouldRegister (configOf (ctx_apiServerConfigs ctx) (srv_Protocol s))) (ctx_servers ctx))"
  using assms by (auto simp: doSelfRegister_def toRegister_def [of _ ctx] split: option.splits if_splits prod.splits
      dest!: registerAll_result)

definition sample_ctx :: registryCtx where
  "sample_ctx =
     \<lparr>ctx_cfg = \<lparr>reg_PolarisServerAddress = ''p'', reg_Name = ''limiter'', reg_Namespace = ''Polaris'', reg_Token = ''t'',
         reg_HealthCheckEnable = True, reg_Region = '' sz '', reg_Zone = [], reg_Campus = []\<rparr>,
      ctx_servers = [\<lparr>srv_Protocol = ''http'', srv_Port = 8100\<rparr>, \<lparr>srv_Protocol = ''grpc'', srv_Port = 8101\<rparr>],
      ctx_apiServerConfigs = [\<lparr>api_Name = ''http'', api_RegisterEnabled = Some False, api_RegisterPort = 0\<rparr>],
      ctx_serverAddress = ''10.0.0.1''\<rparr>"

definition sample_registrar :: registrar where
  "sample_registrar = \<lparr>saved = Some sample_ctx, instances = None, notFoundCount = 0, reRegisterCount = 0,
     reRegistering = False, skippedBeats = 0, rid = 0, polarisToken = ''t''\<rparr>"

definition accepts :: remote where
  "accepts i inst = Some \<lparr>rsp_Code = 200000, rsp_Id = ''id-'' @ i\<rparr>"

definition refuses :: remote where
  "refuses i inst = None"

definition forgets :: remote where
  "forgets i inst = Some \<lparr>rsp_Code = 400202, rsp_Id = []\<rparr>"

lemmas sample_reg = sample_registrar_def sample_ctx_def accepts_def refuses_def forgets_def

lemma sample_toRegister: "toRegister ''t'' sample_ctx =
    [\<lparr>inst_Id = None, inst_Namespace = ''Polaris'', inst_Service = ''limiter'', inst_Host = ''10.0.0.1'', inst_Port = 8101,
      inst_ServiceToken = ''t'', inst_Protocol = Some ''grpc'',
      inst_Location = Some \<lparr>loc_Region = Some ''sz'', loc_Zone = None, loc_Campus = None\<rparr>, inst_HeartbeatTtl = Some 5,
      inst_Version = Some ''v1.2.0'', inst_Metadata = [(''build-revision'', ''v1.2.0'')]\<rparr>]"
  by code_simp

theorem doSelfRegister_result_witness:
  "\<exists>r' inst. doSelfRegister True accepts sample_registrar = (False, r') \<and> instances r' = Some [inst] \<and>
     inst_Port inst = 8101 \<and> inst_Id inst = Some ''id-limiter_1''"
proof -
  have id: "req_id \<lparr>inst_Id = None, inst_Namespace = ''Polaris'', inst_Service = ''limiter'', inst_Host = ''10.0.0.1'',
      inst_Port = 8101, inst_ServiceToken = ''t'', inst_Protocol = Some ''grpc'',
      inst_Location = Some \<lparr>loc_Region = Some ''sz'', loc_Zone = None, loc_Campus = None\<rparr>, inst_HeartbeatTtl = Some 5,
      inst_Version = Some ''v1.2.0'', inst_Metadata = [(''build-revision'', ''v1.2.0'')]\<rparr> 1
    = ''limiter_1''" by code_simp
  obtain failed r' where D: "doSelfRegister True accepts sample_registrar = (failed, r')" by fastforce
  have S: "saved sample_registrar = Some sample_ctx" "polarisToken sample_registrar = ''t''" "rid sample_registrar = 0"
    by (simp_all add: sample_registrar_def)
  from doSelfRegister_result [OF S(1) D] have "\<not> failed" "instances r' = Some (map2 heartbeatInstance
      (toRegister ''t'' sample_ctx) (map the (answered accepts 0 (toRegister ''t'' sample_ctx))))"
    by (simp_all add: S sample_toRegister accepts_def)
  then show ?thesis using D by (simp add: sample_toRegister accepts_def heartbeatInstance_def id)
qed

text \<open>When the first registered instance is no longer known, the third heartbeat round starts
  one registration task, and no earlier one does.\<close>
theorem lost_instance_registers_again:
  assumes "instances r = Some (inst # rest)" "notFoundCount r = 0" "\<not> reRegistering r"
    and "\<And>i. not_found (a i inst)" "\<And>i. not_found (b i inst)" "\<And>i. not_found (c i inst)"
  shows "fst (rounds [a, b] r) = False \<and>
    rounds [a, b, c] r =
       (True, r\<lparr>skippedBeats := 0, rid := rid r + 3, notFoundCount := 3, reRegistering := True\<rparr>)"
  using assms by (simp_all add: round_first_not_found)

text \<open>A second instance that is no longer known is never noticed while the first one is alive:
  its success resets the common count in every round, so no number of rounds starts a registration.\<close>
theorem lost_instance_masked:
  assumes "instances r = Some (a # b # rest)" "notFoundCount r = 0" "\<not> reRegistering r"
    and "\<forall>remote \<in> set remotes. (\<forall>i. alive (remote i a)) \<and> (\<forall>i. not_found (remote i b))"
  shows "fst (rounds remotes r) = False \<and> \<not> reRegistering (snd (rounds remotes r))"
  using rounds_second_not_found [OF assms(1) _ assms(4)] assms(2,3) by auto

definition sample_instance :: "u32 \<Rightarrow> Instance" where
  "sample_instance port =
     \<lparr>inst_Id = Some [], inst_Namespace = ''Polaris'', inst_Service = ''limiter'', inst_Host = ''10.0.0.1'', inst_Port = port,
      inst_ServiceToken = ''t'', inst_Protocol = None, inst_Location = None, inst_HeartbeatTtl = None,
      inst_Version = None, inst_Metadata = []\<rparr>"

theorem lost_instance_registers_again_witness:
  "fst (rounds [forgets, forgets, forgets] (sample_registrar\<lparr>instances := Some [sample_instance 8101]\<rparr>))"
proof -
  have "not_found (forgets i inst)" for i inst by (simp add: not_found_def forgets_def notFoundResourceCode_def)
  from lost_instance_registers_again [where r = "sample_registrar\<lparr>instances := Some [sample_instance 8101]\<rparr>",
      OF _ _ _ this this this]
  show ?thesis by (simp add: sample_registrar_def)
qed

definition half_alive :: remote where
  "half_alive i inst = (if inst_Port inst = 8101 then accepts i inst else forgets i inst)"

theorem lost_instance_masked_witness:
  "fst (rounds (replicate 100 half_alive)
     (sample_registrar\<lparr>instances := Some [sample_instance 8101, sample_instance 8100]\<rparr>)) = False"
  by (rule lost_instance_masked [where a = "sample_instance 8101" and b = "sample_instance 8100" and rest = "[]", THEN conjunct1])
    (simp_all add: sample_registrar_def half_alive_def sample_instance_def alive_def not_found_def accepts_def
      forgets_def notFoundResourceCode_def)

text \<open>C18: however heartbeat rounds, the deferred registration and the attempts of tasks take turns,
  at most one registration task is running, and the flag says whether one is.\<close>
theorem one_registration_task:
  assumes "breach r0 st" "\<not> reRegistering r0"
  shows "snd st = (if reRegistering (fst st) then 1 else 0)"
proof -
  have "one_task st" using assms(1)
  proof induction
    case start
    then show ?case using assms(2) by (simp add: one_task_def)
  qed (rule bstep_tasks)
  then show ?thesis by (simp add: one_task_def)
qed

theorem one_registration_task_witness:
  "snd (bstep (Beat True True forgets) (bstep (Poll [(False, False), (True, False)]) (sample_registrar, 0))) = 1"
proof -
  let ?st = "bstep (Beat True True forgets) (bstep (Poll [(False, False), (True, False)]) (sample_registrar, 0))"
  have "breach sample_registrar ?st" by (intro breach.intros)
  from one_registration_task [OF this] show ?thesis
    by (simp add: sample_registrar_def bstep_def triggerAsyncReRegister_def heartbeatRound_def loadInstances_def Let_def)
qed

text \<open>C19: a registration task whose attempts fail and then succeed waits the scheduled delays,
  returns, resets both counts, lowers its flag and keeps the registered instances.\<close>
theorem reRegister_recovers:
  assumes "saved r = Some ctx" "all_fail ts r" "reRegisterCount r = 0" "length ts < 2 ^ 31"
    and "\<not> cancelled t" "dials t" "\<And>i inst. answers_of t i inst \<noteq> None"
  shows "\<exists>r'. asyncReRegister (ts @ t # ts') r = ((Returned, delays_from 0 (ts @ [t])), r') \<and>
    notFoundCount r' = 0 \<and> reRegisterCount r' = 0 \<and> \<not> reRegistering r' \<and>
    (\<exists>n. instances r' = Some (map2 heartbeatInstance (toRegister (polarisToken r) ctx)
       (map the (answered (answers_of t) n (toRegister (polarisToken r) ctx)))))"
proof -
  have "saved r \<noteq> None" "0 \<le> reRegisterCount r" "reRegisterCount r + int (length ts) < 2 ^ 31" using assms by auto
  from asyncReRegister_fail [OF this(1) assms(2) this(2,3), of "t # ts'"] assms(3) obtain r1 where
    A: "asyncReRegister (ts @ t # ts') r = ((fst (fst (asyncReRegister (t # ts') r1)),
        delays_from 0 ts @ snd (fst (asyncReRegister (t # ts') r1))), snd (asyncReRegister (t # ts') r1))"
    and r1: "saved r1 = saved r" "polarisToken r1 = polarisToken r" "reRegisterCount r1 = int (length ts)" by auto
  obtain failed r2 where D: "doSelfRegister (dials t) (answers_of t) r1 = (failed, r2)" by fastforce
  have "None \<notin> set (answered (answers_of t) n insts)" for n insts
    by (induction insts arbitrary: n) (use assms(7) in \<open>auto simp: eq_commute\<close>)
  then have ok: "\<not> failed" "instances r2 = Some (map2 heartbeatInstance (toRegister (polarisToken r) ctx)
       (map the (answered (answers_of t) (rid r1) (toRegister (polarisToken r) ctx))))"
    using D assms(1,6) r1 by (auto simp: doSelfRegister_def split: option.splits prod.splits dest!: registerAll_result)
  have d: "delays_from c (ts @ [t]) = delays_from c ts @ [calcReRegisterDelay (c + int (length ts)) (jitter t)]" for c
    by (induction ts arbitrary: c) (auto simp: algebra_simps)
  have "asyncReRegister (t # ts') r1 = ((Returned, [calcReRegisterDelay (int (length ts)) (jitter t)]),
      r2\<lparr>notFoundCount := 0, reRegisterCount := 0, reRegistering := False\<rparr>)"
    using D ok(1) assms(1,5) r1 by (simp add: attempt_def Let_def)
  then show ?thesis using A ok(2) d [of 0] by auto
qed

definition failing_turn :: turn where
  "failing_turn = \<lparr>jitter = 0, cancelled = False, dials = True, answers_of = refuses, endedAfter = False\<rparr>"

definition good_turn :: turn where
  "good_turn = \<lparr>jitter = 0, cancelled = False, dials = True, answers_of = accepts, endedAfter = False\<rparr>"

theorem reRegister_recovers_witness:
  "\<exists>r'. asyncReRegister [failing_turn, failing_turn, good_turn] sample_registrar =
     ((Returned, [0, 5000000000, 10000000000]), r') \<and> notFoundCount r' = 0"
proof -
  have fails: "fst (doSelfRegister True refuses r)" if "saved r = Some sample_ctx" "polarisToken r = ''t''" for r
    using that by (simp add: doSelfRegister_def sample_toRegister nextReqID_eq refuses_def)
  obtain f1 r1 where D: "doSelfRegister True refuses sample_registrar = (f1, r1)" by fastforce
  have r1: "f1" "saved r1 = Some sample_ctx" "polarisToken r1 = ''t''"
    using doSelfRegister_frame [OF D] fails [of sample_registrar] D by (auto simp: sample_registrar_def)
  have "all_fail [failing_turn, failing_turn] sample_registrar"
    using fails r1 D by (simp add: turn_fails_def failing_turn_def attempt_def Let_def sample_registrar_def)
  from reRegister_recovers [OF _ this, of sample_ctx good_turn "[]"]
  show ?thesis
    by (auto simp: sample_registrar_def good_turn_def accepts_def failing_turn_def calcReRegisterDelay_def
        maxExp_def registry_consts)
qed

end
