(* ===== verification/Health.thy ===== *)
theory Health
  imports Registration
begin

text \<open>
  \<open>pkg/health\<close>: a background task writes to a probe file, and from the times of its probes the
  process decides, without touching the disk, whether it is ready; the heartbeats to the naming
  service and the readiness answer follow that decision. Times are nanoseconds of the wall clock. The
  probe is a start and a finish, between which any time may pass, or there is never a finish.
\<close>

section \<open>Configuration\<close>

record HealthConfig =
  hc_Enable :: "bool option"
  hc_Interval :: int
  hc_Timeout :: int
  hc_Staleness :: int
  hc_AffectHeartbeat :: "bool option"
  hc_Path :: string
  hc_RotationMaxSize :: int
  hc_RotationMaxAge :: int
  hc_RotationMaxBackups :: int

definition defaultInterval :: int where "defaultInterval = 5 * 1000000000"
definition defaultTimeout :: int where "defaultTimeout = 3 * 1000000000"
definition defaultStaleness :: int where "defaultStaleness = 15 * 1000000000"

lemmas health_consts = defaultInterval_def defaultTimeout_def defaultStaleness_def

definition WithDefaults :: "HealthConfig \<Rightarrow> HealthConfig" where
  "WithDefaults c =
     (let enable = (case hc_Enable c of None \<Rightarrow> Some True | Some b \<Rightarrow> Some b);
          affect = (case hc_AffectHeartbeat c of None \<Rightarrow> Some True | Some b \<Rightarrow> Some b);
          interval = (if hc_Interval c \<le> 0 then defaultInterval else hc_Interval c);
          timeout = (if hc_Timeout c \<le> 0 then defaultTimeout else hc_Timeout c);
          stale = (if hc_Staleness c \<le> 0 then defaultStaleness else hc_Staleness c);
          minStaleness = add64 (mul64 2 interval) timeout
      in c\<lparr>hc_Enable := enable, hc_AffectHeartbeat := affect, hc_Interval := interval, hc_Timeout := timeout,
           hc_Staleness := (if stale < minStaleness then minStaleness else stale),
           hc_Path := (if hc_Path c = [] then ''log/polaris-limiter-probe.log'' else hc_Path c),
           hc_RotationMaxSize := (if hc_RotationMaxSize c \<le> 0 then 10 else hc_RotationMaxSize c),
           hc_RotationMaxAge := (if hc_RotationMaxAge c \<le> 0 then 7 else hc_RotationMaxAge c),
           hc_RotationMaxBackups := (if hc_RotationMaxBackups c \<le> 0 then 3 else hc_RotationMaxBackups c)\<rparr>)"

definition Enabled :: "HealthConfig \<Rightarrow> bool" where
  "Enabled c = (case hc_Enable c of None \<Rightarrow> True | Some b \<Rightarrow> b)"

definition HeartbeatAffected :: "HealthConfig \<Rightarrow> bool" where
  "HeartbeatAffected c = (case hc_AffectHeartbeat c of None \<Rightarrow> True | Some b \<Rightarrow> b)"

section \<open>Errors of the probe\<close>

datatype errno = EIO | ENXIO | ENODEV | OtherErrno nat

text \<open>An error: the error numbers of its chain, and its text. The texts are those of Linux.\<close>

record probe_err =
  err_chain :: "errno list"
  err_text :: string

definition deviceErrnos :: "errno list" where "deviceErrnos = [EIO, ENXIO, ENODEV]"

fun errno_text :: "errno \<Rightarrow> string" where
  "errno_text EIO = ''input/output error''"
| "errno_text ENXIO = ''no such device or address''"
| "errno_text ENODEV = ''no such device''"
| "errno_text (OtherErrno n) = ''errno ''"

fun contains :: "string \<Rightarrow> string \<Rightarrow> bool" where
  "contains [] sub \<longleftrightarrow> sub = []"
| "contains (c # cs) sub \<longleftrightarrow> take (length sub) (c # cs) = sub \<or> contains cs sub"

definition isDeviceError :: "probe_err \<Rightarrow> bool" where
  "isDeviceError e = list_ex (\<lambda>n. n \<in> set (err_chain e) \<or> contains (err_text e) (errno_text n)) deviceErrnos"

record probeError =
  pe_msg :: string
  pe_device :: bool

section \<open>The detector\<close>

record IOHangDetector =
  det_interval :: int
  det_timeout :: int
  det_staleness :: int
  probing :: bool
  inflightSince :: int
  lastDoneAt :: int
  lastSuccessAt :: int
  lastCostNs :: int
  lastErr :: "probeError option"
  firstDone :: bool

definition NewIOHangDetector :: "HealthConfig \<Rightarrow> IOHangDetector" where
  "NewIOHangDetector c =
     \<lparr>det_interval = hc_Interval c, det_timeout = hc_Timeout c, det_staleness = hc_Staleness c, probing = False,
      inflightSince = 0, lastDoneAt = 0, lastSuccessAt = 0, lastCostNs = 0, lastErr = None, firstDone = False\<rparr>"

text \<open>\<open>time.Time.Sub\<close> of two wall-clock times saturates.\<close>

definition time_sub :: "int \<Rightarrow> int \<Rightarrow> int" where
  "time_sub a b = max (- (2 ^ 63)) (min (2 ^ 63 - 1) (a - b))"

text \<open>A tick starts a probe unless one is running; whether it did.\<close>

definition kickProbe :: "int \<Rightarrow> IOHangDetector \<Rightarrow> bool \<times> IOHangDetector" where
  "kickProbe now d = (if probing d then (False, d) else (True, d\<lparr>probing := True, inflightSince := now\<rparr>))"

text \<open>The end of \<open>ProbeOnce\<close>: the write has returned.\<close>

definition ProbeOnce_done :: "int \<Rightarrow> probe_err option \<Rightarrow> IOHangDetector \<Rightarrow> IOHangDetector" where
  "ProbeOnce_done finished err d =
     (let d1 = d\<lparr>lastCostNs := time_sub finished (inflightSince d), lastDoneAt := finished\<rparr>;
          d2 = (case err of
                  Some e \<Rightarrow> d1\<lparr>lastErr := Some \<lparr>pe_msg = err_text e, pe_device = isDeviceError e\<rparr>\<rparr>
                | None \<Rightarrow> d1\<lparr>lastErr := None, lastSuccessAt := finished\<rparr>)
      in d2\<lparr>firstDone := True, inflightSince := 0\<rparr>)"

text \<open>What the task logs after a probe, and the end of the task.\<close>

datatype health_log = DeviceErrorDown string | ProbeWriteFailed string | ProbeRecovered int | ProbeSlow int int

definition logTransition :: "bool \<Rightarrow> probe_err option \<Rightarrow> IOHangDetector \<Rightarrow> health_log list" where
  "logTransition hadErr err d =
     (case err of
        Some e \<Rightarrow> (if \<not> hadErr \<and> isDeviceError e then [DeviceErrorDown (err_text e)]
                  else if \<not> hadErr then [ProbeWriteFailed (err_text e)] else [])
      | None \<Rightarrow> (if hadErr then [ProbeRecovered (lastCostNs d)] else [])) @
     (if det_timeout d < lastCostNs d then [ProbeSlow (lastCostNs d) (det_timeout d)] else [])"

definition finishProbe :: "int \<Rightarrow> probe_err option \<Rightarrow> IOHangDetector \<Rightarrow> health_log list \<times> IOHangDetector" where
  "finishProbe finished err d =
     (let hadErr = (lastErr d \<noteq> None); d1 = ProbeOnce_done finished err d
      in (logTransition hadErr err d1, d1\<lparr>probing := False\<rparr>))"

datatype reason = Inflight int int | WarmingUp | Stale int int | DeviceFault string | LastSuccess int int | NoReason

text \<open>\<open>Status\<close>: whether the disk is well, and why (the texts of the details are not built).\<close>

definition Status :: "int \<Rightarrow> IOHangDetector \<Rightarrow> bool \<times> reason" where
  "Status now d =
     (if inflightSince d \<noteq> 0 \<and> det_timeout d < time_sub now (inflightSince d)
      then (False, Inflight (time_sub now (inflightSince d)) (det_timeout d))
      else if lastDoneAt d = 0 then (True, WarmingUp)
      else if det_staleness d < time_sub now (lastDoneAt d)
      then (False, Stale (time_sub now (lastDoneAt d)) (det_staleness d))
      else case lastErr d of
             Some e \<Rightarrow> if pe_device e then (False, DeviceFault (pe_msg e))
                       else if lastSuccessAt d \<noteq> 0 then (True, LastSuccess (lastCostNs d) (lastSuccessAt d))
                       else (True, NoReason)
           | None \<Rightarrow> if lastSuccessAt d \<noteq> 0 then (True, LastSuccess (lastCostNs d) (lastSuccessAt d))
                     else (True, NoReason))"

definition Healthy :: "int \<Rightarrow> IOHangDetector \<Rightarrow> bool" where
  "Healthy now d = fst (Status now d)"

text \<open>
  \<open>WaitFirstResult\<close> over the detector at each poll: how many polls it waits. The context ends after
  twice the timeout, so the list of polls is finite.
\<close>

fun waitPolls :: "(int \<times> IOHangDetector) list \<Rightarrow> nat" where
  "waitPolls [] = 0"
| "waitPolls ((now, d) # polls) = (if firstDone d \<or> \<not> Healthy now d then 0 else Suc (waitPolls polls))"

section \<open>The checker\<close>

record Checker =
  ioHangEnabled :: bool
  affectHeartbeat :: bool
  detector :: "IOHangDetector option"

definition NewChecker :: "HealthConfig \<Rightarrow> IOHangDetector option \<Rightarrow> Checker" where
  "NewChecker c d = \<lparr>ioHangEnabled = Enabled c, affectHeartbeat = HeartbeatAffected c, detector = d\<rparr>"

text \<open>A report: the overall status and the status of the components.\<close>

record HealthReport =
  report_up :: bool
  report_components :: "(string \<times> bool) list"

definition Liveness :: HealthReport where
  "Liveness = \<lparr>report_up = True, report_components = [(''basic'', True)]\<rparr>"

definition Readiness :: "int \<Rightarrow> Checker option \<Rightarrow> HealthReport" where
  "Readiness now c =
     (case c of
        None \<Rightarrow> Liveness
      | Some c \<Rightarrow>
          (case detector c of
             None \<Rightarrow> Liveness
           | Some d \<Rightarrow>
               if \<not> ioHangEnabled c then Liveness
               else let up = fst (Status now d) in
                    \<lparr>report_up = up, report_components = [(''basic'', True), (''ioHang'', up)]\<rparr>))"

definition AllowHeartbeat :: "int \<Rightarrow> Checker option \<Rightarrow> bool" where
  "AllowHeartbeat now c =
     (case c of
        None \<Rightarrow> True
      | Some c \<Rightarrow>
          (case detector c of
             None \<Rightarrow> True
           | Some d \<Rightarrow> if \<not> ioHangEnabled c \<or> \<not> affectHeartbeat c then True else Healthy now d))"

definition WaitFirstResult :: "(int \<times> IOHangDetector) list \<Rightarrow> Checker option \<Rightarrow> nat" where
  "WaitFirstResult polls c =
     (case c of
        None \<Rightarrow> 0
      | Some c \<Rightarrow> if \<not> ioHangEnabled c \<or> \<not> affectHeartbeat c \<or> detector c = None then 0 else waitPolls polls)"

text \<open>\<open>writeHealth\<close> of \<open>apiserver/http/health.go\<close>: the HTTP status of a report.\<close>

definition writeHealth :: "HealthReport \<Rightarrow> int" where
  "writeHealth r = (if report_up r then 200 else 503)"

text \<open>\<open>Start\<close>: the checker of a configuration, with a detector whose first probe starts at once.\<close>

definition health_Start :: "int \<Rightarrow> HealthConfig \<Rightarrow> Checker" where
  "health_Start now given =
     (let c = WithDefaults given
      in NewChecker c (if Enabled c then Some (snd (kickProbe now (NewIOHangDetector c))) else None))"

section \<open>Lemmas\<close>

lemma WithDefaults_staleness:
  assumes "hc_Interval (WithDefaults c) < 2 ^ 61" "hc_Timeout (WithDefaults c) < 2 ^ 61"
  shows "2 * hc_Interval (WithDefaults c) + hc_Timeout (WithDefaults c) \<le> hc_Staleness (WithDefaults c)"
    "0 < hc_Interval (WithDefaults c)" "0 < hc_Timeout (WithDefaults c)"
proof -
  have pos: "0 < hc_Interval (WithDefaults c)" "0 < hc_Timeout (WithDefaults c)"
    by (simp_all add: WithDefaults_def Let_def health_consts)
  then show "0 < hc_Interval (WithDefaults c)" "0 < hc_Timeout (WithDefaults c)" .
  have "add64 (mul64 2 (hc_Interval (WithDefaults c))) (hc_Timeout (WithDefaults c)) =
      2 * hc_Interval (WithDefaults c) + hc_Timeout (WithDefaults c)"
    using pos assms by (simp add: mul64_id add64_id in64_def)
  moreover have "add64 (mul64 2 (hc_Interval (WithDefaults c))) (hc_Timeout (WithDefaults c)) \<le> hc_Staleness (WithDefaults c)"
    by (simp add: WithDefaults_def Let_def)
  ultimately show "2 * hc_Interval (WithDefaults c) + hc_Timeout (WithDefaults c) \<le> hc_Staleness (WithDefaults c)" by simp
qed

lemma WithDefaults_idem: "WithDefaults (WithDefaults c) = WithDefaults c"
  by (cases "hc_Enable c"; cases "hc_AffectHeartbeat c") (simp_all add: WithDefaults_def Let_def health_consts)

lemma Status_up:
  "Healthy now d \<longleftrightarrow> \<not> (inflightSince d \<noteq> 0 \<and> det_timeout d < time_sub now (inflightSince d)) \<and>
    (lastDoneAt d = 0 \<or> time_sub now (lastDoneAt d) \<le> det_staleness d \<and> \<not> (\<exists>e. lastErr d = Some e \<and> pe_device e))"
  by (auto simp: Healthy_def Status_def split: option.splits)

lemma time_sub_id: "- (2 ^ 63) \<le> a - b \<Longrightarrow> a - b < 2 ^ 63 \<Longrightarrow> time_sub a b = a - b"
  by (simp add: time_sub_def)

section \<open>Properties\<close>

definition detector_of :: "HealthConfig \<Rightarrow> IOHangDetector \<Rightarrow> bool" where
  "detector_of c d \<longleftrightarrow> det_interval d = hc_Interval c \<and> det_timeout d = hc_Timeout c \<and> det_staleness d = hc_Staleness c"

text \<open>With a configuration that has its defaults, a disk whose probes return within the timeout and
  without a device error is never reported as hung between the end of a probe and two intervals and
  a timeout later, whatever staleness was configured.\<close>
theorem steady_disk_is_healthy:
  assumes "detector_of (WithDefaults c) d" "hc_Interval (WithDefaults c) < 2 ^ 60" "hc_Timeout (WithDefaults c) < 2 ^ 60"
    and "lastDoneAt d \<le> now" "now \<le> lastDoneAt d + 2 * hc_Interval (WithDefaults c) + hc_Timeout (WithDefaults c)"
    and "inflightSince d = 0 \<or> inflightSince d \<le> now \<and> now - inflightSince d \<le> hc_Timeout (WithDefaults c)"
    and "\<forall>e. lastErr d = Some e \<longrightarrow> \<not> pe_device e"
  shows "Healthy now d \<and>
    writeHealth (Readiness now (Some (NewChecker (WithDefaults c) (Some d)))) = 200 \<and>
    AllowHeartbeat now (Some (NewChecker (WithDefaults c) (Some d)))"
proof -
  have s: "2 * hc_Interval (WithDefaults c) + hc_Timeout (WithDefaults c) \<le> hc_Staleness (WithDefaults c)"
    using WithDefaults_staleness [of c] assms(2,3) by simp
  have t: "time_sub now (lastDoneAt d) = now - lastDoneAt d" using assms(2-5) by (intro time_sub_id) auto
  have i: "inflightSince d \<noteq> 0 \<Longrightarrow> time_sub now (inflightSince d) = now - inflightSince d"
    using assms(3,6) by (intro time_sub_id) auto
  have h: "Healthy now d" using assms(1,5-7) s t i by (auto simp: Status_up detector_of_def)
  then have c1: "writeHealth (Readiness now (Some (NewChecker (WithDefaults c) (Some d)))) = 200"
    by (simp add: writeHealth_def Readiness_def NewChecker_def Liveness_def Healthy_def Let_def)
  have c2: "AllowHeartbeat now (Some (NewChecker (WithDefaults c) (Some d)))"
    using h by (simp add: AllowHeartbeat_def NewChecker_def)
  show ?thesis using h c1 c2 by blast
qed

definition plain_config :: HealthConfig where
  "plain_config = \<lparr>hc_Enable = None, hc_Interval = 0, hc_Timeout = 0, hc_Staleness = 1, hc_AffectHeartbeat = None, hc_Path = [],
     hc_RotationMaxSize = 0, hc_RotationMaxAge = 0, hc_RotationMaxBackups = 0\<rparr>"

definition fresh_detector :: IOHangDetector where
  "fresh_detector = snd (kickProbe 1000 (NewIOHangDetector (WithDefaults plain_config)))"

lemmas fresh_defs = fresh_detector_def plain_config_def kickProbe_def NewIOHangDetector_def WithDefaults_def health_consts

theorem steady_disk_is_healthy_witness:
  "Healthy 12000000000 (snd (finishProbe 2000 None fresh_detector))"
  by (rule steady_disk_is_healthy [of plain_config, THEN conjunct1])
    (simp_all add: detector_of_def finishProbe_def ProbeOnce_done_def Let_def fresh_defs add64_def mul64_def i64_def)

text \<open>a probe that does not return is noticed: from one timeout after its start on, whatever ticks
  come, the process is not ready, and no heartbeat is sent to the naming service.\<close>
theorem hung_disk_stops_heartbeats:
  assumes "probing d" "inflightSince d \<noteq> 0" "inflightSince d + det_timeout d < now" "0 \<le> det_timeout d" "now - inflightSince d < 2 ^ 63"
    and "Enabled c" "HeartbeatAffected c"
    and "d' = foldl (\<lambda>d t. snd (kickProbe t d)) d ticks"
  shows "\<not> Healthy now d' \<and>
    writeHealth (Readiness now (Some (NewChecker c (Some d')))) = 503 \<and>
    heartbeatRound (AllowHeartbeat now (Some (NewChecker c (Some d')))) dial remote r =
       (False, r\<lparr>skippedBeats := add32 (skippedBeats r) 1\<rparr>)"
proof -
  have "d' = d" using assms(1,8) by (induction ticks arbitrary: d') (simp_all add: kickProbe_def)
  moreover have "time_sub now (inflightSince d) = now - inflightSince d" using assms(3-5) by (intro time_sub_id) auto
  ultimately have h: "\<not> Healthy now d'" using assms(2,3) by (simp add: Status_up)
  then have c1: "writeHealth (Readiness now (Some (NewChecker c (Some d')))) = 503"
    using assms(6) by (simp add: writeHealth_def Readiness_def NewChecker_def Healthy_def Let_def)
  have c2: "heartbeatRound (AllowHeartbeat now (Some (NewChecker c (Some d')))) dial remote r =
       (False, r\<lparr>skippedBeats := add32 (skippedBeats r) 1\<rparr>)"
    using h assms(6,7) by (simp add: AllowHeartbeat_def NewChecker_def heartbeatRound_def)
  show ?thesis using h c1 c2 by blast
qed

theorem hung_disk_stops_heartbeats_witness:
  "fst (heartbeatRound (AllowHeartbeat 4000000000 (Some (NewChecker (WithDefaults plain_config)
     (Some (foldl (\<lambda>d t. snd (kickProbe t d)) fresh_detector [2000, 3000]))))) True accepts sample_registrar) = False"
proof -
  have "probing fresh_detector" "inflightSince fresh_detector \<noteq> 0"
    "inflightSince fresh_detector + det_timeout fresh_detector < 4000000000" "0 \<le> det_timeout fresh_detector"
    "4000000000 - inflightSince fresh_detector < 2 ^ 63" "Enabled (WithDefaults plain_config)"
    "HeartbeatAffected (WithDefaults plain_config)"
    by (simp_all add: fresh_defs Let_def Enabled_def HeartbeatAffected_def)
  from hung_disk_stops_heartbeats [OF this refl, of "[2000, 3000]" True accepts sample_registrar] show ?thesis by simp
qed

text \<open>When a probe returns, a device error takes the process down until the next probe returns
  without one, and any other error, a full or read-only disk for instance, leaves it up.\<close>
theorem probe_error_classes:
  assumes "lastErr d' = lastErr (snd (finishProbe finished (Some e) d))" "lastDoneAt d' = finished"
    and "inflightSince d' = 0" "finished \<noteq> 0" "finished \<le> now" "now - finished \<le> det_staleness d'" "now - finished < 2 ^ 63"
  shows "(Healthy now d' \<longleftrightarrow> \<not> isDeviceError e) \<and>
    Healthy now (snd (finishProbe now None d'))"
proof -
  have t: "time_sub now finished = now - finished" using assms(5,7) by (intro time_sub_id) auto
  have "lastErr d' = Some \<lparr>pe_msg = err_text e, pe_device = isDeviceError e\<rparr>"
    using assms(1) by (simp add: finishProbe_def ProbeOnce_done_def Let_def)
  then have c1: "Healthy now d' \<longleftrightarrow> \<not> isDeviceError e" using assms(2-6) t by (simp add: Status_up)
  have "0 \<le> det_staleness d'" using assms(5,6) by linarith
  then have c2: "Healthy now (snd (finishProbe now None d'))"
    by (simp add: Status_up finishProbe_def ProbeOnce_done_def Let_def time_sub_def)
  show ?thesis using c1 c2 by blast
qed

definition disk_full :: probe_err where
  "disk_full = \<lparr>err_chain = [OtherErrno 28], err_text = ''write probe file p: no space left on device''\<rparr>"

definition disk_gone :: probe_err where
  "disk_gone = \<lparr>err_chain = [], err_text = ''can't open new logfile: open p: input/output error''\<rparr>"

theorem probe_error_classes_witness:
  "Healthy 3000 (snd (finishProbe 2000 (Some disk_full) fresh_detector)) \<and>
   \<not> Healthy 3000 (snd (finishProbe 2000 (Some disk_gone) fresh_detector))"
proof -
  have D: "\<not> isDeviceError disk_full" "isDeviceError disk_gone" by code_simp+
  have H: "Healthy 3000 (snd (finishProbe 2000 (Some e) fresh_detector)) \<longleftrightarrow> \<not> isDeviceError e" for e
    by (rule probe_error_classes [THEN conjunct1, OF refl])
      (simp_all add: finishProbe_def ProbeOnce_done_def Let_def fresh_defs add64_def mul64_def i64_def)
  show ?thesis using D by (simp add: H)
qed

end
