(* ===== verification/Server_Properties.thy ===== *)
theory Server_Properties
  imports Sample_Run Endpoints Metrics Health Requests
begin

text \<open>
  The properties of the server as a whole: no reachable step panics, the tables agree in every
  reachable state, and what each request operation answers from the logs of the counters. Each is
  applied at a state of the sample run.
\<close>

section \<open>The sample states\<close>

definition sample_state :: "nat \<Rightarrow> Sys" where
  "sample_state k = snd (snd (the (run_sample k)))"

definition sample_time :: "nat \<Rightarrow> int" where
  "sample_time k = fst (the (run_sample k))"

definition sample_core :: "nat \<Rightarrow> Server" where
  "sample_core k = coreServer (svc (sample_state k))"

lemma sample_run_4: "run_sample 4 = Some (sample_time 4, 4, sample_state 4)"
  by code_simp

text \<open>What the run has left after its fourth step, evaluated in one go.\<close>

lemma sample_evaluated:
  "(let sv = sample_core 4; cm = counterMng sv; cl = clientMng sv; h = clientObjs (mem sv) in
    sample_time 4 = 100030 \<and> length h = 2 \<and> cfg sv = sample_config \<and>
    map_of (counterMap cm) (ident_of (sample_request ''a'') 0) = Some 1 \<and>
    map_of (clientMap cl) ''b'' = Some 2 \<and>
    length (filter (\<lambda>(i, k). IsExpired (at_ms 200000) (counter_of cm (mem sv) k)) (counterMap cm)) = 1 \<and>
    list_all (\<lambda>(i, k). IsExpired (at_ms 200000) (counter_of cm (mem sv) k)) (counterMap cm) \<and>
    idx_room cl \<and> at_key (clients cl) (clientKey (h ! 0)) = Some 0 \<and> clientId (h ! 0) = ''a'' \<and>
    streamContextId (h ! 0) = ''u1'' \<and> at_key (counters cm) 1 = Some 0 \<and>
    0 < length (counterObjs (mem sv)) \<and> 1 \<le> maxSize cm \<and> int (length (counters cm)) = uint (maxSize cm))"
  by code_simp

lemmas sample_values = sample_evaluated [unfolded Let_def, THEN conjunct1]
  sample_evaluated [unfolded Let_def, THEN conjunct2, THEN conjunct1]
  sample_evaluated [unfolded Let_def, THEN conjunct2, THEN conjunct2, THEN conjunct1]
  sample_evaluated [unfolded Let_def, THEN conjunct2, THEN conjunct2, THEN conjunct2, THEN conjunct1]
  sample_evaluated [unfolded Let_def, THEN conjunct2, THEN conjunct2, THEN conjunct2, THEN conjunct2, THEN conjunct1]
lemmas sample_rest = sample_evaluated [unfolded Let_def, THEN conjunct2, THEN conjunct2, THEN conjunct2, THEN conjunct2, THEN conjunct2]

lemmas sample_reach_4 = sample_reach [OF sample_run_4]

lemma sample_server_ok: "\<exists>logs. server_ok (sample_core 4) logs 100030"
  using reach_ok [OF sample_reach_4] sample_values(1) by (simp add: sys_ok_def sample_core_def)

lemma at_ms_ok:
  assumes "0 \<le> ms" "ms < 2 ^ 45"
  shows "clock_ok (at_ms ms)" "CurrentMillisecond (at_ms ms) = ms"
proof -
  have "0 \<le> ms div 1000 \<and> ms div 1000 < 64060588800" using assms zdiv_mono1 [of ms "2 ^ 45" 1000] by simp
  then show "clock_ok (at_ms ms)" by (simp add: clock_ok_def at_ms_def)
  then show "CurrentMillisecond (at_ms ms) = ms"
    using CurrentMillisecond_ok by (simp add: at_ms_def)
qed

section \<open>Every run\<close>

text \<open>
  C1: no step of a run panics: from every reachable state every step whose clock readings do not go
  back, and whose request is well formed for its stream, is executed, and its result is reachable
  again. The bound on the number of steps keeps the cursor of the client keys in 32 bits.
\<close>
theorem server_never_panics:
  assumes "reach fails T n y" "n < 4294967295" "ev_ok T e y"
  shows "\<exists>y'. exec fails e y = Inr y' \<and> reach fails (ev_time e) (Suc n) y'"
  using exec_ok [OF reach_ok [OF assms(1)] assms(2,3), of fails] reach.step [OF assms(1,3)] assms(2) by auto

lemma server_never_panics_witness:
  "\<exists>y'. exec never_fails (PurgeTick (at_ms 200000)) (sample_state 4) = Inr y' \<and> reach never_fails 200000 5 y'"
  using server_never_panics [OF sample_reach_4, of "PurgeTick (at_ms 200000)"] at_ms_ok [of 200000]
  by (simp add: sample_values(1))

lemma reach_server_ok:
  assumes "reach fails T n y" "n \<le> 4294967295"
  obtains logs where "server_ok (coreServer (svc y)) logs T"
  using reach_ok [OF assms] unfolding sys_ok_def by blast

text \<open>
  C2: in every reachable state the tables of the server agree. A rule is found under the key that
  the table has for it, and no other rule is; a client id likewise; no more keys are in use than the
  configuration allows; every counter counts its client ids and derives its quota from them; and no
  push channel holds more than its capacity.
\<close>
theorem reachable_tables_agree:
  assumes "reach fails T n y" "n \<le> 4294967295"
  defines "sv \<equiv> coreServer (svc y)"
  shows "(\<forall>i k. map_of (counterMap (counterMng sv)) i = Some k \<longrightarrow>
      (\<exists>ref. GetCounter k (counterMng sv) = Inr (ExecuteSuccess, Some ref) \<and>
        cIdentifier (counterObjs (mem sv) ! ref) = i \<and> counterKey (counterObjs (mem sv) ! ref) = k)) \<and>
    (\<forall>c k. map_of (clientMap (clientMng sv)) c = Some k \<longrightarrow>
      (\<exists>r. GetClient k (clientMng sv) = Inr (ExecuteSuccess, Some r) \<and>
        clientId (clientObjs (mem sv) ! r) = c \<and> clientKey (clientObjs (mem sv) ! r) = k \<and>
        \<not> detached (clientObjs (mem sv) ! r))) \<and>
    card (usedKeys (counterMng sv)) \<le> nat (uint (MaxCounter (cfg sv))) \<and>
    (\<forall>ref < length (counterObjs (mem sv)).
      clientCount (counterClients (counterObjs (mem sv) ! ref)) =
        of_nat (length (clientIds (counterClients (counterObjs (mem sv) ! ref)))) \<and>
      maxAmount (counterObjs (mem sv) ! ref) = effectiveMax (counterObjs (mem sv) ! ref)) \<and>
    (\<forall>w < length (pushChannels (pushMgr (mem sv))).
      length (pushChannels (pushMgr (mem sv)) ! w) \<le> chanSize (pushMgr (mem sv)))"
proof -
  obtain logs where ok: "server_ok sv logs T" using reach_server_ok [OF assms(1,2)] unfolding sv_def .
  note S = server_okD [OF ok]
  note D = table_okD [OF S(7)] and C = clients_tableD [OF S(4)]
  have c1: "\<exists>ref. GetCounter k (counterMng sv) = Inr (ExecuteSuccess, Some ref) \<and>
      cIdentifier (counterObjs (mem sv) ! ref) = i \<and> counterKey (counterObjs (mem sv) ! ref) = k"
    if "map_of (counterMap (counterMng sv)) i = Some k" for i k
  proof -
    have k: "slot_ok (counterMng sv) (counterObjs (mem sv)) i k" by (rule D(4) [OF that])
    then have "k \<noteq> 0" using D(7) by (auto simp: slot_ok_def key_range_def)
    then show ?thesis using GetCounter_ok(1) [OF S(7)] k by (auto simp: slot_ok_def)
  qed
  have c2: "\<exists>r. GetClient k (clientMng sv) = Inr (ExecuteSuccess, Some r) \<and>
      clientId (clientObjs (mem sv) ! r) = c \<and> clientKey (clientObjs (mem sv) ! r) = k \<and>
      \<not> detached (clientObjs (mem sv) ! r)" if "map_of (clientMap (clientMng sv)) c = Some k" for c k
  proof -
    have k: "client_slot (clientMng sv) (clientObjs (mem sv)) c k" by (rule C(4) [OF that])
    then have r: "k \<in> key_range (maxClients (clientMng sv))" using C(7) by (auto simp: client_slot_def)
    then have "k \<noteq> 0" "\<not> maxClients (clientMng sv) < k" by (auto simp: key_range_def)
    then show ?thesis using slice_get_key [OF r C(2)] k by (auto simp: GetClient_def client_slot_def)
  qed
  have c3: "card (usedKeys (counterMng sv)) \<le> nat (uint (MaxCounter (cfg sv)))"
    using counter_keys.card_used [OF D(1)] S(2) by simp
  have c4: "clientCount (counterClients (counterObjs (mem sv) ! ref)) =
        of_nat (length (clientIds (counterClients (counterObjs (mem sv) ! ref)))) \<and>
      maxAmount (counterObjs (mem sv) ! ref) = effectiveMax (counterObjs (mem sv) ! ref)"
    if "ref < length (counterObjs (mem sv))" for ref
    using objs_okD [OF S(8) that] by (simp add: counter_ok_def clients_ok_def)
  have c5: "length (pushChannels (pushMgr (mem sv)) ! w) \<le> chanSize (pushMgr (mem sv))"
    if "w < length (pushChannels (pushMgr (mem sv)))" for w
    using S(5) that by (simp add: push_ok_def)
  show ?thesis by (intro conjI allI impI c1 c2 c3 c4 c5)
qed

lemma reachable_tables_agree_witness:
  "(\<exists>ref. GetCounter 1 (counterMng (sample_core 4)) = Inr (ExecuteSuccess, Some ref)) \<and>
   (\<exists>r. GetClient 2 (clientMng (sample_core 4)) = Inr (ExecuteSuccess, Some r) \<and>
     clientId (clientObjs (mem (sample_core 4)) ! r) = ''b'')"
  using reachable_tables_agree [OF sample_reach_4] sample_values(4,5)
  unfolding sample_core_def [symmetric] by fastforce

text \<open>
  C10: a key on the wire names the counter with key \<open>k\<close> exactly when it is \<open>k\<close> boxed with the id of
  this server, so the keys of other servers, of no counter and of counters beyond the maximum are
  refused, and two counters never share a key on the wire.
\<close>
theorem wire_keys_round_trip:
  assumes "config_ok c"
  shows "(\<forall>k. unboxCounterKey c w = (ExecuteSuccess, k) \<longleftrightarrow> 1 \<le> k \<and> k \<le> MaxCounter c \<and> w = boxCounterKey c k) \<and>
    ((\<nexists>k. 1 \<le> k \<and> k \<le> MaxCounter c \<and> w = boxCounterKey c k) \<longrightarrow> unboxCounterKey c w = (InvalidCounterKey, 0))"
  using unbox_iff [OF assms] unbox_other [OF assms] by blast

lemma sample_config_ok: "config_ok sample_config"
  by code_simp

lemma wire_keys_round_trip_witness:
  "unboxCounterKey sample_config (boxCounterKey sample_config 2) = (ExecuteSuccess, 2) \<and>
   boxCounterKey sample_config 2 = 0x1000002"
  using wire_keys_round_trip [OF sample_config_ok, of "boxCounterKey sample_config 2"]
  by (simp add: sample_config_def boxCounterKey_def DefaultConfig_def)

section \<open>What the requests answer\<close>

text \<open>
  C3: refinement of the logs. The answer to an accepted report is the one that the specification
  computes from the logs of the counters alone: each usage is answered with what is left of its
  counter after it, in the order of the report, up to the first key that is not this server's or has
  no counter. The logs after it are the specification's, and neither table has changed.
\<close>
theorem acquire_refines_logs:
  fixes sv :: Server
  assumes "server_ok sv logs T" "T \<le> t" "t < 2 ^ 62" "i64 (start sdiv 1000) = t"
    and "r < length (clientObjs (mem sv))" "CheckRateLimitReportRequest tv (Some q) = None"
  shows "\<exists>resp c sv' col' logs'. AcquireQuota tv (Some r) start (Some q) sv col = Inr ((resp, c), sv', col') \<and>
    acquire_spec (cfg sv) (looked sv) (stored sv) (Report_Timestamp q) t logs (QuotaUses q) =
      ((ReportResp_Code (Timed_Response resp),
        map (\<lambda>l. (Left_CounterKey l, Left_Left l)) (ReportResp_QuotaLefts (Timed_Response resp))), logs') \<and>
    server_ok sv' logs' t \<and> counterMng sv' = counterMng sv \<and> clientMng sv' = clientMng sv \<and> cfg sv' = cfg sv"
  using AcquireQuota_ok [OF assms(1-4) refl assms(5), of tv "Some q" col] assms(6)
  by (auto simp: acquire_frame_def)

lemma acquire_refines_logs_witness:
  "\<exists>logs resp c sv' col' logs'. server_ok (sample_core 4) logs 100030 \<and>
    AcquireQuota (at_ms 100040) (Some 0) 100040000 (Some (report_of 0x1000001 7 100040)) (sample_core 4)
      (NewRateLimitStatCollector ''k1'') = Inr ((resp, c), sv', col') \<and>
    acquire_spec sample_config (looked (sample_core 4)) (stored (sample_core 4)) 100040 100040 logs
        [\<lparr>Sum_CounterKey = 0x1000001, Sum_Used = 7, Sum_Limited = 0\<rparr>] =
      ((ReportResp_Code (Timed_Response resp),
        map (\<lambda>l. (Left_CounterKey l, Left_Left l)) (ReportResp_QuotaLefts (Timed_Response resp))), logs') \<and>
    server_ok sv' logs' 100040"
proof -
  obtain logs where ok: "server_ok (sample_core 4) logs 100030" using sample_server_ok by blast
  let ?q = "report_of 0x1000001 7 100040" and ?uses = "[\<lparr>Sum_CounterKey = 0x1000001, Sum_Used = 7, Sum_Limited = 0\<rparr>]"
  have q: "CheckRateLimitReportRequest (at_ms 100040) (Some ?q) = None" "i64 (100040000 sdiv 1000) = 100040" by code_simp+
  have f: "Report_Timestamp ?q = 100040" "QuotaUses ?q = ?uses" by (simp_all add: report_of_def)
  have r: "0 < length (clientObjs (mem (sample_core 4)))" by (simp add: sample_values)
  have t: "(100030 :: int) \<le> 100040" "(100040 :: int) < 2 ^ 62" by simp_all
  show ?thesis
    using acquire_refines_logs [OF ok t q(2) r q(1), of "NewRateLimitStatCollector ''k1''"] ok
    unfolding f sample_values(3) by blast
qed

text \<open>
  C6: an initialisation on a consistent server never panics and keeps it consistent. On success it
  answers the key of the client and one entry per rule of the request, in order, each with the
  rule's duration and the wire key under which the counter of the rule is then found; every other
  answer carries no counters. Rules that had a counter keep it.
\<close>
theorem init_answers_every_rule:
  assumes "server_ok sv logs T" "r < length (clientObjs (mem sv))" "clock_ok tv" "T \<le> CurrentMillisecond tv"
  shows "\<exists>resp cC sv' logs'. InitializeQuota tv (Some r) req sv = Inr ((resp, cC), sv') \<and>
    server_ok sv' logs' (CurrentMillisecond tv) \<and>
    (\<forall>i k. map_of (counterMap (counterMng sv)) i = Some k \<longrightarrow> map_of (counterMap (counterMng sv')) i = Some k) \<and>
    (if InitResp_Code resp = ExecuteSuccess
     then InitResp_ClientKey resp = clientKey (clientObjs (mem sv) ! r) \<and>
       length (InitResp_Counters resp) = length (Init_Totals req) \<and>
       (\<forall>j < length (Init_Totals req). QC_Duration (InitResp_Counters resp ! j) = Total_Duration (Init_Totals req ! j) \<and>
         (\<exists>k. unboxCounterKey (cfg sv) (QC_CounterKey (InitResp_Counters resp ! j)) = (ExecuteSuccess, k) \<and>
            map_of (counterMap (counterMng sv')) (ident_of req j) = Some k))
     else InitResp_Counters resp = [])"
proof -
  obtain resp cC sv' logs' where A: "InitializeQuota tv (Some r) req sv = Inr ((resp, cC), sv')"
    "server_ok sv' logs' (CurrentMillisecond tv)" "same_frame sv sv'"
    "if InitResp_Code resp = ExecuteSuccess
     then InitResp_ClientKey resp = clientKey (clientObjs (mem sv) ! r) \<and>
       length (InitResp_Counters resp) = length (Init_Totals req) \<and> rule_keys sv' req 0 (InitResp_Counters resp)
     else InitResp_Counters resp = []"
    using InitializeQuota_ok [OF assms, of req] by blast
  then show ?thesis
    by (intro exI [of _ resp] exI [of _ cC] exI [of _ sv'] exI [of _ logs'])
      (simp add: same_frame_def rule_keys_def split: if_splits)
qed

lemma init_answers_every_rule_witness:
  "\<exists>resp cC sv' logs'. InitializeQuota (at_ms 100040) (Some 0) (sample_request ''a'') (sample_core 4) = Inr ((resp, cC), sv') \<and>
    server_ok sv' logs' 100040"
proof -
  obtain logs where ok: "server_ok (sample_core 4) logs 100030" using sample_server_ok by blast
  show ?thesis
    using init_answers_every_rule [OF ok, of 0 "at_ms 100040" "sample_request ''a''"] at_ms_ok [of 100040]
    by (force simp: sample_values(2))
qed

text \<open>
  A batch initialisation on a consistent server never panics and keeps it consistent; on
  success it answers one result per entry of the batch, in order. A result with the success code
  has, for every label of its entry in order, one counter per rule of the entry.
\<close>
theorem batch_answers_every_label:
  assumes "server_ok sv logs T" "r < length (clientObjs (mem sv))" "clock_ok tv" "T \<le> CurrentMillisecond tv"
  shows "\<exists>resp cC sv' logs'. BatchInitializeQuota tv (Some r) req sv = Inr ((resp, cC), sv') \<and>
    server_ok sv' logs' (CurrentMillisecond tv) \<and>
    (BatchResp_Code resp = ExecuteSuccess \<longrightarrow> BatchResp_ClientKey resp = clientKey (clientObjs (mem sv) ! r) \<and>
       length (BatchResp_Result resp) = length (Batch_Request req) \<and>
       (\<forall>j < length (Batch_Request req).
          let entry = Batch_Request req ! j; res = BatchResp_Result resp ! j in
          Result_Code res = ExecuteSuccess \<longrightarrow>
            map LQC_Labels (Result_Counters res) = GetLabelsList (Init_Target entry) \<and>
            (\<forall>q \<in> set (Result_Counters res). length (LQC_Counters q) = length (Init_Totals entry) \<and>
               rule_keys sv' (with_label (LQC_Labels q) entry) 0 (LQC_Counters q))))"
proof -
  obtain resp cC sv' logs' where A: "BatchInitializeQuota tv (Some r) req sv = Inr ((resp, cC), sv')"
    "server_ok sv' logs' (CurrentMillisecond tv)"
    "BatchResp_Code resp = ExecuteSuccess \<longrightarrow> BatchResp_ClientKey resp = clientKey (clientObjs (mem sv) ! r) \<and>
       list_all2 (entry_ok sv') (Batch_Request req) (BatchResp_Result resp)"
    using BatchInitializeQuota_ok [OF assms, of req] by blast
  have labels: "map LQC_Labels qs = ls \<and> (\<forall>q \<in> set qs. rule_keys sv' (with_label (LQC_Labels q) e) 0 (LQC_Counters q))"
    if "label_keys sv' e ls qs" for e ls qs
    using that unfolding label_keys_def by (induction rule: list_all2_induct) auto
  show ?thesis
    using A labels by (fastforce simp: list_all2_conv_all_nth entry_ok_def all_rules_def Let_def)
qed

definition sample_batch :: RateLimitBatchInitRequest where
  "sample_batch = \<lparr>Batch_Request = [sample_request ''a''], Batch_ClientId = ''a''\<rparr>"

lemma batch_answers_every_label_witness:
  "\<exists>resp cC sv' logs'. BatchInitializeQuota (at_ms 100040) (Some 0) sample_batch (sample_core 4) = Inr ((resp, cC), sv') \<and>
    server_ok sv' logs' 100040"
proof -
  obtain logs where ok: "server_ok (sample_core 4) logs 100030" using sample_server_ok by blast
  show ?thesis
    using batch_answers_every_label [OF ok, of 0 "at_ms 100040" sample_batch] at_ms_ok [of 100040]
    by (force simp: sample_values(2))
qed

section \<open>Tables over time\<close>

text \<open>
  C9: a tick of the clean-up removes exactly the rules whose counter has expired and keeps the key of
  every other rule; it reports their number, never panics and leaves the tables consistent.
\<close>
theorem tick_removes_expired:
  assumes "manager_ok cm m logs T"
  shows "\<exists>n cm' m'. Tick tv cm m = Inr (n, cm', m') \<and> manager_ok cm' m' logs T \<and>
    n = length (filter (\<lambda>(i, k). IsExpired tv (counter_of cm m k)) (counterMap cm)) \<and>
    (\<forall>i. map_of (counterMap cm') i = (case map_of (counterMap cm) i of None \<Rightarrow> None
      | Some k \<Rightarrow> if IsExpired tv (counter_of cm m k) then None else Some k))"
  using Tick_ok [OF assms, of tv] by blast

lemma tick_removes_expired_witness:
  "\<exists>n cm' m'. Tick (at_ms 200000) (counterMng (sample_core 4)) (mem (sample_core 4)) = Inr (n, cm', m') \<and>
     n = 1 \<and> (\<forall>i. map_of (counterMap cm') i = None)"
proof -
  obtain logs where ok: "server_ok (sample_core 4) logs 100030" using sample_server_ok by blast
  note one = sample_rest [THEN conjunct1]
  note all = sample_rest [THEN conjunct2, THEN conjunct1]
  have "IsExpired (at_ms 200000) (counter_of (counterMng (sample_core 4)) (mem (sample_core 4)) k)"
    if "map_of (counterMap (counterMng (sample_core 4))) i = Some k" for i k
    using all map_of_SomeD [OF that] by (auto simp: list_all_iff)
  then have none: "(case map_of (counterMap (counterMng (sample_core 4))) i of None \<Rightarrow> None
      | Some k \<Rightarrow> if IsExpired (at_ms 200000) (counter_of (counterMng (sample_core 4)) (mem (sample_core 4)) k)
          then None else Some k) = None" for i
    by (simp split: option.split)
  show ?thesis
    using tick_removes_expired [OF server_okD(3) [OF ok], of "at_ms 200000"] unfolding one none by blast
qed

text \<open>
  C8: a client that initialises on a stream gets the client object of its id, moved to that stream,
  if there is one; else, unless all keys are in use, a new object under a key that was not in use; else
  it is refused and nothing but the key cursor changes. The cursor has to be below the end of 32 bits.
\<close>
theorem add_client_result:
  fixes m :: "'a Mem_scheme"
  assumes "clients_table cm (clientObjs m)" "idx_room cm"
  shows "case map_of (clientMap cm) i of
      Some k \<Rightarrow> \<exists>r c es. AddClient tv i ip (Some s) cm m = Inr ((ExecuteSuccess, Some r), cm,
          m\<lparr>clientObjs := (clientObjs m)[r := c], eventLog := eventLog m @ es\<rparr>) \<and>
        at_key (clients cm) k = Some r \<and> clientKey c = k \<and> clientId c = i \<and> streamContextId c = ctxId s \<and>
        clients_table cm ((clientObjs m)[r := c])
    | None \<Rightarrow>
        if usedClientKeys cm = key_range (maxClients cm)
        then \<exists>cm'. AddClient tv i ip (Some s) cm m = Inr ((ExceedMaxClient, None), cm', m) \<and>
          cm' = cm\<lparr>freeClientKeys := freeClientKeys cm', clientIdx := clientIdx cm'\<rparr> \<and>
          usedClientKeys cm' = usedClientKeys cm \<and> clients_table cm' (clientObjs m)
        else \<exists>k es cm'. let c = \<lparr>clientKey = k, clientIP = ip, clientId = i, streamCtx = Some s, detached = False\<rparr> in
          AddClient tv i ip (Some s) cm m = Inr ((ExecuteSuccess, Some (length (clientObjs m))), cm',
            m\<lparr>clientObjs := clientObjs m @ [c], eventLog := eventLog m @ es\<rparr>) \<and>
          k \<in> key_range (maxClients cm) \<and> k \<notin> usedClientKeys cm \<and>
          clientMap cm' = AList.update i k (clientMap cm) \<and> clients_table cm' (clientObjs m @ [c])"
proof (cases "map_of (clientMap cm) i")
  case None
  show ?thesis
  proof (cases "usedClientKeys cm = key_range (maxClients cm)")
    case True
    show ?thesis using AddClient_full [OF assms None True] None True by simp
  next
    case False
    show ?thesis using AddClient_new [OF assms None False, of tv ip s] None False by (auto simp: Let_def)
  qed
next
  case (Some k)
  show ?thesis using AddClient_known [OF assms(1) Some, of tv ip s] Some by fastforce
qed

lemma sample_clients:
  "clients_table (clientMng (sample_core 4)) (clientObjs (mem (sample_core 4)))" "idx_room (clientMng (sample_core 4))"
proof -
  obtain logs where ok: "server_ok (sample_core 4) logs 100030" using sample_server_ok by blast
  show "clients_table (clientMng (sample_core 4)) (clientObjs (mem (sample_core 4)))" by (rule server_okD(4) [OF ok])
  show "idx_room (clientMng (sample_core 4))" using sample_rest by blast
qed

lemma add_client_result_witness:
  "\<exists>r cm' m'. AddClient (at_ms 100040) ''b'' (sample_ip 3) (Some (NewStreamContext ''u3'' 3))
      (clientMng (sample_core 4)) (mem (sample_core 4)) = Inr ((ExecuteSuccess, Some r), cm', m') \<and>
    at_key (clients (clientMng (sample_core 4))) 2 = Some r"
  using add_client_result [OF sample_clients, where i = "''b''" and tv = "at_ms 100040" and ip = "sample_ip 3" and s = "NewStreamContext ''u3'' 3"]
  by (auto simp: sample_values(5))

text \<open>
  C7: the end of a stream removes a client exactly when the key of the stream's client still belongs
  to a client with the same id that is on this very stream; a client that has moved to another stream
  stays. Removal drops the id from the map and frees the key, and the tables stay consistent.
\<close>
theorem stream_end_removes_own_client:
  fixes m :: "'a Mem_scheme"
  assumes "clients_table cm (clientObjs m)" "r < length (clientObjs m)"
  shows "\<exists>cm' h es. CleanupClient tv r sid cm m = Inr (cm', m\<lparr>clientObjs := h, eventLog := eventLog m @ es\<rparr>) \<and>
    clients_table cm' h \<and> same_clients (clientObjs m) h \<and>
    (if \<exists>q. at_key (clients cm) (clientKey (clientObjs m ! r)) = Some q \<and>
          clientId (clientObjs m ! q) = clientId (clientObjs m ! r) \<and> streamContextId (clientObjs m ! q) = sid
     then clientMap cm' = AList.delete (clientId (clientObjs m ! r)) (clientMap cm) \<and>
       usedClientKeys cm' = usedClientKeys cm - {clientKey (clientObjs m ! r)}
     else cm' = cm \<and> h = clientObjs m \<and> es = [])"
  using CleanupClient_ok [OF assms, of tv sid] unfolding ends_def by blast

lemma stream_end_removes_own_client_witness:
  "(\<exists>cm' m'. CleanupClient (at_ms 100040) 0 ''u1'' (clientMng (sample_core 4)) (mem (sample_core 4)) = Inr (cm', m') \<and>
     clientMap cm' = AList.delete ''a'' (clientMap (clientMng (sample_core 4)))) \<and>
   (\<exists>m'. CleanupClient (at_ms 100040) 0 ''u9'' (clientMng (sample_core 4)) (mem (sample_core 4)) =
     Inr (clientMng (sample_core 4), m'))"
proof -
  let ?cm = "clientMng (sample_core 4)" and ?h = "clientObjs (mem (sample_core 4))"
  have r: "0 < length ?h" by (simp add: sample_values)
  have at: "at_key (clients ?cm) (clientKey (?h ! 0)) = Some 0" "clientId (?h ! 0) = ''a''" "streamContextId (?h ! 0) = ''u1''"
    using sample_rest by blast+
  have ends: "(\<exists>q. at_key (clients ?cm) (clientKey (?h ! 0)) = Some q \<and>
      clientId (?h ! q) = ''a'' \<and> streamContextId (?h ! q) = sid) \<longleftrightarrow> sid = ''u1''" for sid
    by (auto simp: at)
  show ?thesis
    using stream_end_removes_own_client [OF sample_clients(1) r, of "at_ms 100040" "''u1''"]
      stream_end_removes_own_client [OF sample_clients(1) r, of "at_ms 100040" "''u9''"]
    unfolding at(2) unfolding ends by auto
qed

section \<open>Errors\<close>

text \<open>
  C14: the requests that end the process. An initialisation command whose message is absent
  dereferences a nil pointer, and so does a report that precedes the initialisation of its stream, as
  soon as its first usage names a counter that exists and is not zero.
\<close>
theorem malformed_requests_panic:
  assumes "config_ok (cfg sv)" "int (length (counters (counterMng sv))) = uint (maxSize (counterMng sv))"
  shows "(Req_Cmd req = INIT \<and> Req_Init req = None \<longrightarrow>
      dispatch ck req conn sv = Inl NilPointer) \<and>
    (Req_Cmd req = BATCH_INIT \<and> Req_BatchInit req = None \<longrightarrow>
      dispatch ck req conn sv = Inl NilPointer) \<and>
    (Req_Cmd req = ACQUIRE \<and> connClient conn = None \<and> Req_Report req = Some q \<and> CheckRateLimitReportRequest (workTv ck) (Some q) = None \<and> Sum_Used (hd (QuotaUses q)) \<noteq> 0 \<and> unboxCounterKey (cfg sv) (Sum_CounterKey (hd (QuotaUses q))) = (ExecuteSuccess, k) \<and> k \<le> maxSize (counterMng sv) \<and> at_key (counters (counterMng sv)) k = Some ref \<and> ref < length (counterObjs (mem sv)) \<longrightarrow>
      dispatch ck req conn sv = Inl NilPointer)"
proof -
  have c1: "dispatch ck req conn sv = Inl NilPointer" if "Req_Cmd req = INIT" "Req_Init req = None"
    using that by (simp add: dispatch_def InitializeClient_def Let_def)
  have c2: "dispatch ck req conn sv = Inl NilPointer" if "Req_Cmd req = BATCH_INIT" "Req_BatchInit req = None"
    using that by (simp add: dispatch_def InitializeClientBatch_def Let_def)
  have c3: "dispatch ck req conn sv = Inl NilPointer"
    if req: "Req_Cmd req = ACQUIRE" "connClient conn = None" "Req_Report req = Some q"
    "CheckRateLimitReportRequest (workTv ck) (Some q) = None" "Sum_Used (hd (QuotaUses q)) \<noteq> 0"
    and key: "unboxCounterKey (cfg sv) (Sum_CounterKey (hd (QuotaUses q))) = (ExecuteSuccess, k)"
      "k \<le> maxSize (counterMng sv)" "at_key (counters (counterMng sv)) k = Some ref" "ref < length (counterObjs (mem sv))"
  proof -
    obtain u us where uses: "QuotaUses q = u # us" using req(4) by (cases "QuotaUses q") (auto simp: CheckRateLimitReportRequest_None)
    have "k \<noteq> 0" using key(1) unbox_iff [OF assms(1)] by auto
    then have get: "GetCounter k (counterMng sv) = Inr (ExecuteSuccess, Some ref)"
      using GetCounter_cases [OF assms(2), of k] key(2,3) by simp
    have "0 < Sum_Used u" using req(5) uses by (simp add: word_gt_0)
    then show ?thesis
      using req key(1,4) uses get
      by (simp add: dispatch_def AcquireQuota_def Let_def counter_AcquireQuota_def doQuotaStatReport_def)
  qed
  show ?thesis using c1 c2 c3 by blast
qed

lemma malformed_requests_panic_witness:
  "dispatch (clock_at 100040) (report_message 0x1000001 7 100040)
     \<lparr>connCtx = NewStreamContext ''u3'' 3, connIP = sample_ip 3, connClient = None,
      connCollector = NewRateLimitStatCollector ''k3''\<rparr> (sample_core 4) = Inl NilPointer"
proof -
  have "CheckRateLimitReportRequest (workTv (clock_at 100040)) (Some (report_of 0x1000001 7 100040)) = None"
    "unboxCounterKey sample_config 0x1000001 = (ExecuteSuccess, 1)" by code_simp+
  moreover have "at_key (counters (counterMng (sample_core 4))) 1 = Some 0" "0 < length (counterObjs (mem (sample_core 4)))"
    "(1 :: u32) \<le> maxSize (counterMng (sample_core 4))"
    "int (length (counters (counterMng (sample_core 4)))) = uint (maxSize (counterMng (sample_core 4)))"
    using sample_rest by blast+
  moreover have "config_ok (cfg (sample_core 4))" by (simp add: sample_values(3) sample_config_ok)
  ultimately show ?thesis
    using malformed_requests_panic [where sv = "sample_core 4" and req = "report_message 0x1000001 7 100040"
        and q = "report_of 0x1000001 7 100040" and k = 1 and ref = 0 and ck = "clock_at 100040"
        and conn = "\<lparr>connCtx = NewStreamContext ''u3'' 3, connIP = sample_ip 3, connClient = None,
          connCollector = NewRateLimitStatCollector ''k3''\<rparr>"]
    by (simp add: report_message_def report_of_def sample_values)
qed

text \<open>
  A start that fails is forgotten. The first call reports the error and no server exists; any
  later call reports success, whatever its configuration, still without a server, so the process
  then counts as started and the maintenance queries dereference a nil pointer.
\<close>
theorem failed_start_is_forgotten:
  assumes "initialize given = Inr (Inl e)"
  shows "\<exists>p1 p2. Initialize given NewProcess = Inr (Some e, p1) \<and> GetRateLimitServer p1 = None \<and>
    GetCountersTotal p1 = Inr (HttpError 503) \<and>
    Initialize given' p1 = Inr (None, p2) \<and> GetRateLimitServer p2 = Some None \<and> GetCountersTotal p2 = Inl NilPointer"
  using assms by (simp add: Initialize_def NewProcess_def GetRateLimitServer_def GetCountersTotal_def with_server_def)

lemma failed_start_is_forgotten_witness:
  "\<exists>p1 p2. Initialize (Some (DefaultConfig\<lparr>Myid := 256\<rparr>)) NewProcess = Inr (Some (ConfigError MyidError), p1) \<and>
    Initialize (Some sample_config) p1 = Inr (None, p2) \<and> GetCountersTotal p2 = Inl NilPointer"
proof -
  have "initialize (Some (DefaultConfig\<lparr>Myid := 256\<rparr>)) = Inr (Inl (ConfigError MyidError))" by code_simp
  from failed_start_is_forgotten [OF this, of "Some sample_config"] show ?thesis by blast
qed

text \<open>
  The query for one counter, on a started process whose server is consistent. A key that is no
  32-bit number is answered with 400, a key in use with the quota, the client count and the last
  change of its counter, any other key with 404, except the key 0, which indexes the slice of the
  counters below its start and panics. The same query for a client never panics.
\<close>
theorem stat_queries:
  assumes "server_ok sv logs T" "finishInit p" "theServer p = Some sv"
  shows "(ParseUint32 s = None \<longrightarrow>
      GetCounterStat s p = Inr (HttpError 400)) \<and>
    (ParseUint32 s = Some 0 \<longrightarrow>
      GetCounterStat s p = Inl IndexRange) \<and>
    (ParseUint32 s = Some k \<and> k \<noteq> 0 \<and> k \<notin> usedKeys (counterMng sv) \<longrightarrow>
      GetCounterStat s p = Inr (HttpError 404)) \<and>
    (ParseUint32 s = Some k \<and> k \<in> usedKeys (counterMng sv) \<longrightarrow>
      (\<exists>i c. map_of (counterMap (counterMng sv)) i = Some k \<and> c = counter_of (counterMng sv) (mem sv) k \<and>
        GetCounterStat s p = Inr (Json \<lparr>cs_Namespace = id_Namespace i, cs_Service = id_Service i, cs_Labels = id_Labels i,
          cs_Duration = duration_String (id_Duration i), cs_MaxAmount = maxAmount c,
          cs_ClientCount = clientCount (counterClients c), cs_LastUpdateTime = lastMTimeMilli c\<rparr>))) \<and>
    (\<exists>a. GetClientStat s p = Inr a)"
proof -
  note S = server_okD [OF assms(1)]
  have max: "maxSize (counterMng sv) < 0 \<longleftrightarrow> False" by simp
  have c1: "GetCounterStat s p = Inr (HttpError 400)" if "ParseUint32 s = None"
    using that by (simp add: GetCounterStat_def)
  have c2: "GetCounterStat s p = Inl IndexRange" if "ParseUint32 s = Some 0"
    using that assms(2,3) GetCounter_cases [OF table_okD(2) [OF S(7)], of 0]
    by (simp add: GetCounterStat_def with_server_def GetRateLimitServer_def)
  have c3: "GetCounterStat s p = Inr (HttpError 404)"
    if "ParseUint32 s = Some k" "k \<noteq> 0" "k \<notin> usedKeys (counterMng sv)"
    using that assms(2,3) GetCounter_ok(1) [OF S(7) that(2)]
    by (simp add: GetCounterStat_def with_server_def GetRateLimitServer_def codes)
  have c4: "\<exists>i c. map_of (counterMap (counterMng sv)) i = Some k \<and> c = counter_of (counterMng sv) (mem sv) k \<and>
        GetCounterStat s p = Inr (Json \<lparr>cs_Namespace = id_Namespace i, cs_Service = id_Service i, cs_Labels = id_Labels i,
          cs_Duration = duration_String (id_Duration i), cs_MaxAmount = maxAmount c,
          cs_ClientCount = clientCount (counterClients c), cs_LastUpdateTime = lastMTimeMilli c\<rparr>)"
    if k: "ParseUint32 s = Some k" "k \<in> usedKeys (counterMng sv)"
  proof -
    have "k \<noteq> 0" using table_okD(7) [OF S(7)] k(2) by (auto simp: key_range_def)
    from GetCounter_ok [OF S(7) this] k(2) show ?thesis
      using k(1) assms(2,3)
      by (auto simp: GetCounterStat_def with_server_def GetRateLimitServer_def counter_of_def Let_def)
  qed
  have c5: "\<exists>a. GetClientStat s p = Inr a"
  proof (cases "ParseUint32 s")
    case None
    then show ?thesis by (simp add: GetClientStat_def)
  next
    case (Some k)
    show ?thesis
    proof (cases "k = 0 \<or> maxClients (clientMng sv) < k")
      case True
      then show ?thesis using Some assms(2,3)
        by (auto simp: GetClientStat_def with_server_def GetRateLimitServer_def GetClient_def codes)
    next
      case False
      then have r: "k \<in> key_range (maxClients (clientMng sv))"
        using u32_pos [of k] by (simp add: key_range_iff not_less word_le_def)
      note at = slice_get_key [OF r clients_tableD(2) [OF S(4)]]
      show ?thesis
        using Some assms(2,3) False at table_client [OF S(4) r]
        by (cases "at_key (clients (clientMng sv)) k")
          (auto simp: GetClientStat_def with_server_def GetRateLimitServer_def GetClient_def client_info_def codes)
    qed
  qed
  show ?thesis using c1 c2 c3 c4 c5 by blast
qed

definition sample_process :: Process where
  "sample_process = \<lparr>onceDone = True, finishInit = True, theServer = Some (sample_core 4)\<rparr>"

lemma stat_queries_witness:
  "GetCounterStat ''0'' sample_process = Inl IndexRange \<and> GetCounterStat ''7x'' sample_process = Inr (HttpError 400) \<and>
   (\<exists>a. GetClientStat ''0'' sample_process = Inr a)"
proof -
  obtain logs where ok: "server_ok (sample_core 4) logs 100030" using sample_server_ok by blast
  have p: "finishInit sample_process" "theServer sample_process = Some (sample_core 4)" by (simp_all add: sample_process_def)
  have "ParseUint32 ''0'' = Some 0" "ParseUint32 ''7x'' = None" by code_simp+
  with stat_queries [OF ok p, where s = "''0''"] stat_queries [OF ok p, where s = "''7x''"] show ?thesis by blast
qed

end
