(* ===== verification/Plugin_Registry.thy ===== *)
theory Plugin_Registry
  imports Limiter_Prelude
begin

text \<open>
  \<open>plugin/plugin.go\<close>, \<open>plugin/statis_api.go\<close>, the registration of the three statistics plugins in the
  \<open>init\<close> functions of \<open>plugin/statis\<close>, and the table of servers of \<open>apiserver/base_server.go\<close>. A plugin is
  initialised by the first caller of \<open>GetStatis\<close>; the outcome of its own \<open>Initialize\<close> is a parameter.
\<close>

section \<open>Plugins\<close>

datatype plugin_worker = EchoWorker | FileWorker | PrometheusWorker

fun plugin_Name :: "plugin_worker \<Rightarrow> string" where
  "plugin_Name EchoWorker = ''echo''"
| "plugin_Name FileWorker = ''file''"
| "plugin_Name PrometheusWorker = ''prometheus''"

record 'o ConfigEntry =
  ce_Name :: string
  ce_Option :: 'o

record 'o plugin_config =
  pc_Storage :: "'o ConfigEntry option"
  pc_Statis :: "'o ConfigEntry option"

text \<open>
  The variables of the package: the registered plugins, the configuration, the plugins that were
  initialised, whether the once-only initialisation of the statistics ran, and the function that
  counts the streams and counters of the server, over the state \<open>'p\<close> that it reads when it is called.
\<close>

record ('o, 'p) plugins =
  pluginSet :: "(string \<times> plugin_worker) list"
  pl_config :: "'o plugin_config"
  initializeSet :: "(string \<times> plugin_worker) list"
  statisOnce :: bool
  serverStatsProvider :: "('p \<Rightarrow> nat \<times> nat) option"

text \<open>Two plugins of one name panic: None.\<close>

definition RegisterPlugin :: "string \<Rightarrow> plugin_worker \<Rightarrow> ('o, 'p) plugins \<Rightarrow> ('o, 'p) plugins option" where
  "RegisterPlugin name p s =
     (case map_of (pluginSet s) name of
        Some _ \<Rightarrow> None
      | None \<Rightarrow> Some (s\<lparr>pluginSet := AList.update name p (pluginSet s)\<rparr>))"

definition no_plugins :: "('o, 'p) plugins" where
  "no_plugins = \<lparr>pluginSet = [], pl_config = \<lparr>pc_Storage = None, pc_Statis = None\<rparr>, initializeSet = [], statisOnce = False,
     serverStatsProvider = None\<rparr>"

text \<open>The packages that the program imports for their \<open>init\<close> functions.\<close>

definition loaded_plugins :: "('o, 'p) plugins option" where
  "loaded_plugins =
     Option.bind (RegisterPlugin (plugin_Name EchoWorker) EchoWorker no_plugins) (\<lambda>s.
     Option.bind (RegisterPlugin (plugin_Name FileWorker) FileWorker s) (\<lambda>s.
     RegisterPlugin (plugin_Name PrometheusWorker) PrometheusWorker s))"

definition GlobalInitialize :: "'o plugin_config \<Rightarrow> ('o, 'p) plugins \<Rightarrow> ('o, 'p) plugins" where
  "GlobalInitialize c s = s\<lparr>pl_config := c\<rparr>"

text \<open>The plugins that are destroyed.\<close>

definition GlobalDestroy :: "('o, 'p) plugins \<Rightarrow> plugin_worker list" where
  "GlobalDestroy s = map snd (initializeSet s)"

text \<open>
  \<open>subInitialize\<close>: \<open>init_err\<close> is the error that the plugin's \<open>Initialize\<close> returns, if any. The plugin is
  put into the set of initialised plugins whether it failed or not, and only the caller that runs the
  initialisation sees its error.
\<close>

definition subInitialize ::
  "(plugin_worker \<Rightarrow> 'o ConfigEntry \<Rightarrow> 'e option) \<Rightarrow> 'o ConfigEntry option \<Rightarrow> ('o, 'p) plugins
    \<Rightarrow> (plugin_worker option \<times> 'e option) \<times> ('o, 'p) plugins" where
  "subInitialize init_err cfg s =
     (case cfg of
        None \<Rightarrow> ((None, None), s)
      | Some c \<Rightarrow>
          (case map_of (pluginSet s) (ce_Name c) of
             None \<Rightarrow> ((None, None), s)
           | Some p \<Rightarrow>
               if statisOnce s then ((Some p, None), s)
               else ((Some p, init_err p c),
                     s\<lparr>statisOnce := True, initializeSet := AList.update (ce_Name c) p (initializeSet s)\<rparr>)))"

text \<open>\<open>GetStatis\<close>: a plugin with an error is not returned. Every registered plugin has the interface.\<close>

definition GetStatis ::
  "(plugin_worker \<Rightarrow> 'o ConfigEntry \<Rightarrow> 'e option) \<Rightarrow> ('o, 'p) plugins \<Rightarrow> (plugin_worker option \<times> 'e option) \<times> ('o, 'p) plugins" where
  "GetStatis init_err s =
     (case subInitialize init_err (pc_Statis (pl_config s)) s of
        ((p, err), s) \<Rightarrow> ((if err \<noteq> None \<or> p = None then None else p, err), s))"

definition SetServerStatsProvider :: "('p \<Rightarrow> nat \<times> nat) option \<Rightarrow> ('o, 'p) plugins \<Rightarrow> ('o, 'p) plugins" where
  "SetServerStatsProvider p s = s\<lparr>serverStatsProvider := p\<rparr>"

definition GetServerStats :: "'p \<Rightarrow> ('o, 'p) plugins \<Rightarrow> nat \<times> nat" where
  "GetServerStats st s = (case serverStatsProvider s of None \<Rightarrow> (0, 0) | Some p \<Rightarrow> p st)"

section \<open>The table of servers\<close>

text \<open>A second server of a name is refused with an error, the table unchanged.\<close>

definition api_Register :: "string \<Rightarrow> 's \<Rightarrow> (string \<times> 's) list \<Rightarrow> bool \<times> (string \<times> 's) list" where
  "api_Register name server slots =
     (case map_of slots name of Some _ \<Rightarrow> (True, slots) | None \<Rightarrow> (False, AList.update name server slots))"

section \<open>Lemmas\<close>

lemma loaded_plugins_set:
  "\<exists>s. loaded_plugins = Some s \<and> (\<forall>p. map_of (pluginSet s) (plugin_Name p) = Some p) \<and> \<not> statisOnce s \<and> initializeSet s = []"
proof -
  have "map_of [(''echo'', EchoWorker), (''file'', FileWorker), (''prometheus'', PrometheusWorker)] (plugin_Name p) = Some p" for p
    by (cases p) simp_all
  then show ?thesis by (simp add: loaded_plugins_def RegisterPlugin_def no_plugins_def)
qed

lemma GetStatis_frame:
  assumes "GetStatis init_err s = (r, s')"
  shows "pluginSet s' = pluginSet s" "pl_config s' = pl_config s" "serverStatsProvider s' = serverStatsProvider s"
    "statisOnce s \<Longrightarrow> s' = s"
  using assms by (auto simp: GetStatis_def subInitialize_def split: option.splits if_splits prod.splits)

text \<open>The plugin of the configuration, when it names a registered one.\<close>

definition configured :: "('o, 'p) plugins \<Rightarrow> (plugin_worker \<times> 'o ConfigEntry) option" where
  "configured s = Option.bind (pc_Statis (pl_config s)) (\<lambda>c. map_option (\<lambda>p. (p, c)) (map_of (pluginSet s) (ce_Name c)))"

lemma GetStatis_cases:
  "GetStatis init_err s =
     (case configured s of
        None \<Rightarrow> ((None, None), s)
      | Some (p, c) \<Rightarrow>
          if statisOnce s then ((Some p, None), s)
          else ((if init_err p c = None then Some p else None, init_err p c),
                s\<lparr>statisOnce := True, initializeSet := AList.update (ce_Name c) p (initializeSet s)\<rparr>))"
  by (auto simp: GetStatis_def subInitialize_def configured_def split: option.split)

lemma configured_GetStatis: "GetStatis init_err s = (r, s') \<Longrightarrow> configured s' = configured s"
  using GetStatis_frame(1,2) [of init_err s r s'] by (simp add: configured_def)

lemma failed_plugin_first:
  assumes "configured s = Some (p, c)" "\<not> statisOnce s" "init_err p c = Some e"
  shows "\<exists>s1. GetStatis init_err s = ((None, Some e), s1) \<and> GetStatis init_err s1 = ((Some p, None), s1) \<and>
    p \<in> set (GlobalDestroy s1)"
proof -
  let ?s1 = "s\<lparr>statisOnce := True, initializeSet := AList.update (ce_Name c) p (initializeSet s)\<rparr>"
  have first: "GetStatis init_err s = ((None, Some e), ?s1)" using assms by (simp add: GetStatis_cases)
  have "configured ?s1 = Some (p, c)" using configured_GetStatis [OF first] assms(1) by simp
  then have "GetStatis init_err ?s1 = ((Some p, None), ?s1)" by (simp add: GetStatis_cases)
  moreover have "p \<in> set (GlobalDestroy ?s1)"
    using map_of_SomeD [of "AList.update (ce_Name c) p (initializeSet s)" "ce_Name c" p]
    by (force simp: GlobalDestroy_def update_conv')
  ultimately show ?thesis using first by blast
qed

text \<open>
  The statistics plugin is initialised at most once: however often it is asked for, the plugins
  change at the first call only, and the set of plugins to destroy grows by at most one.
\<close>

lemma GetStatis_once:
  assumes "GetStatis init_err s = (r, s1)" "GetStatis init_err s1 = (r', s2)"
  shows "s2 = s1 \<and> length (initializeSet s1) \<le> Suc (length (initializeSet s))"
proof -
  have "length (AList.update k v xs) \<le> Suc (length xs)" for k :: string and v :: plugin_worker and xs
    by (induction xs) auto
  then show ?thesis using assms configured_GetStatis [OF assms(1)]
    by (auto simp: GetStatis_cases split: option.splits if_splits)
qed

definition sample_plugins :: "(bool, unit) plugins" where
  "sample_plugins = no_plugins\<lparr>pluginSet := [(''file'', FileWorker)],
     pl_config := \<lparr>pc_Storage = None, pc_Statis = Some \<lparr>ce_Name = ''file'', ce_Option = False\<rparr>\<rparr>\<rparr>"

definition needs_option :: "plugin_worker \<Rightarrow> bool ConfigEntry \<Rightarrow> string option" where
  "needs_option p c = (if ce_Option c then None else Some ''fail to validate'')"

end
