(* ===== verification/Servers.thy ===== *)
theory Servers
  imports Plugin_Registry Endpoints
begin

text \<open>
  \<open>apiserver/grpc/server.go\<close>, \<open>apiserver/http/server.go\<close> and \<open>apiserver/http/api.go\<close>: the two servers, from
  their options to the moment where they serve, and the routing table of the HTTP server. Whether the
  address can be listened on and with what the libraries' \<open>Serve\<close> ends are parameters.
\<close>

section \<open>Options\<close>

text \<open>The options of a server as they were decoded: the type assertions of the code panic on another type.\<close>

datatype option_value = OptString string | OptInt int | OptOther

type_synonym server_options = "(string \<times> option_value) list"

definition option_string :: "server_options \<Rightarrow> string \<Rightarrow> panic + string" where
  "option_string opts key = (case map_of opts key of Some (OptString s) \<Rightarrow> Inr s | _ \<Rightarrow> Inl TypeAssertion)"

definition option_int :: "server_options \<Rightarrow> string \<Rightarrow> panic + int" where
  "option_int opts key = (case map_of opts key of Some (OptInt n) \<Rightarrow> Inr n | _ \<Rightarrow> Inl TypeAssertion)"

section \<open>The gRPC server\<close>

record GrpcServer =
  g_IP :: string
  g_Port :: u32
  g_MaxConnections :: int
  g_server :: bool
  g_coreServer :: bool
  g_statics :: "plugin_worker option"

definition NewGrpcServer :: GrpcServer where
  "NewGrpcServer = \<lparr>g_IP = [], g_Port = 0, g_MaxConnections = 0, g_server = False, g_coreServer = False, g_statics = None\<rparr>"

definition grpc_Initialize :: "server_options \<Rightarrow> GrpcServer \<Rightarrow> panic + GrpcServer" where
  "grpc_Initialize opts g =
     bindR (option_string opts ''ip'') (\<lambda>ip.
     bindR (option_int opts ''port'') (\<lambda>port.
       let g = g\<lparr>g_IP := ip, g_Port := of_int port\<rparr> in
       case map_of opts ''max-connections'' of
         None \<Rightarrow> Inr g
       | Some _ \<Rightarrow> bindR (option_int opts ''max-connections'') (\<lambda>n. Inr (g\<lparr>g_MaxConnections := n\<rparr>))))"

text \<open>What \<open>Run\<close> sends to the error channel.\<close>

datatype 'e run_error = ListenErr string | CoreNotReady | StatisErr 'e | StatisMissing | ServeErr string

text \<open>What a server meets: the outcome of listening on an address and of \<open>Serve\<close>.\<close>

record run_env =
  re_listen :: "string \<Rightarrow> string option"
  re_serve :: "string option"

definition server_address :: "string \<Rightarrow> u32 \<Rightarrow> string" where
  "server_address ip port = ip @ '':'' @ dec_int (uint port)"

text \<open>The listener, limited when a positive number of connections is configured.\<close>

definition grpc_listener :: "GrpcServer \<Rightarrow> string \<times> int option" where
  "grpc_listener g = (server_address (g_IP g) (g_Port g), if 0 < g_MaxConnections g then Some (g_MaxConnections g) else None)"

text \<open>
  \<open>Run\<close>: the error that it sends, if any, the server, the plugins and the statistics of the package
  \<open>ratelimitv2\<close>. It serves when it gets to \<open>Serve\<close>, the last step.
\<close>

definition grpc_Run ::
  "run_env \<Rightarrow> (plugin_worker \<Rightarrow> 'o ConfigEntry \<Rightarrow> 'e option) \<Rightarrow> Process \<Rightarrow> GrpcServer \<Rightarrow> ('o, 'p) plugins
    \<Rightarrow> plugin_worker option \<Rightarrow> 'e run_error option \<times> bool \<times> GrpcServer \<times> ('o, 'p) plugins \<times> plugin_worker option" where
  "grpc_Run env init_err p g pl statics =
     (case re_listen env (fst (grpc_listener g)) of
        Some e \<Rightarrow> (Some (ListenErr e), False, g, pl, statics)
      | None \<Rightarrow>
          let g = g\<lparr>g_coreServer := False, g_statics := None, g_server := True\<rparr> in
          case GetRateLimitServer p of
            None \<Rightarrow> (Some CoreNotReady, False, g, pl, statics)
          | Some sv \<Rightarrow>
              let g = g\<lparr>g_coreServer := (sv \<noteq> None)\<rparr> in
              case GetStatis init_err pl of
                ((_, Some e), pl) \<Rightarrow> (Some (StatisErr e), False, g, pl, statics)
              | ((None, None), pl) \<Rightarrow> (Some StatisMissing, False, g, pl, statics)
              | ((Some w, None), pl) \<Rightarrow>
                  (map_option ServeErr (re_serve env), True, g\<lparr>g_statics := Some w\<rparr>, pl, Some w))"

section \<open>The HTTP server\<close>

datatype gatherer = DefaultGatherer | WorkerRegistry plugin_worker

datatype http_handler = PprofHandler string | MetricsHandler gatherer | IndexHandler | LivenessHandler | ReadinessHandler
  | CountersTotalHandler | CountersKeysHandler | CounterStatHandler | ClientsTotalHandler | ClientsKeysHandler | ClientStatHandler

record HttpServer =
  h_ip :: string
  h_port :: u32
  h_server :: bool
  h_handler :: "(string \<times> http_handler) list"

definition NewHttpServer :: HttpServer where
  "NewHttpServer = \<lparr>h_ip = [], h_port = 0, h_server = False, h_handler = []\<rparr>"

definition http_Initialize :: "server_options \<Rightarrow> HttpServer \<Rightarrow> panic + HttpServer" where
  "http_Initialize opts h =
     bindR (option_string opts ''ip'') (\<lambda>ip.
     bindR (option_int opts ''port'') (\<lambda>port. Inr (h\<lparr>h_ip := ip, h_port := of_int port\<rparr>)))"

text \<open>Only the metrics plugin has a registry of its own, which it makes when it is constructed.\<close>

fun has_registry :: "plugin_worker \<Rightarrow> bool" where
  "has_registry PrometheusWorker = True"
| "has_registry _ = False"

definition buildMetricsHandler ::
  "(plugin_worker \<Rightarrow> 'o ConfigEntry \<Rightarrow> 'e option) \<Rightarrow> ('o, 'p) plugins \<Rightarrow> gatherer \<times> ('o, 'p) plugins" where
  "buildMetricsHandler init_err pl =
     (case GetStatis init_err pl of
        ((_, Some e), pl) \<Rightarrow> (DefaultGatherer, pl)
      | ((None, None), pl) \<Rightarrow> (DefaultGatherer, pl)
      | ((Some w, None), pl) \<Rightarrow> (if has_registry w then WorkerRegistry w else DefaultGatherer, pl))"

definition initMaintainHandler :: "(string \<times> http_handler) list" where
  "initMaintainHandler = map (\<lambda>(path, h). (''/maintain'' @ path, h))
     [(''/counters/total'', CountersTotalHandler), (''/counters/keys'', CountersKeysHandler),
      (''/counter/stat'', CounterStatHandler), (''/clients/total'', ClientsTotalHandler),
      (''/clients/keys'', ClientsKeysHandler), (''/client/stat'', ClientStatHandler)]"

definition initHandler ::
  "(plugin_worker \<Rightarrow> 'o ConfigEntry \<Rightarrow> 'e option) \<Rightarrow> HttpServer \<Rightarrow> ('o, 'p) plugins \<Rightarrow> HttpServer \<times> ('o, 'p) plugins" where
  "initHandler init_err h pl =
     (let (metrics, pl) = buildMetricsHandler init_err pl in
      (h\<lparr>h_handler :=
          [(''/debug/pprof/'', PprofHandler ''index''), (''/debug/pprof/cmdline'', PprofHandler ''cmdline''),
           (''/debug/pprof/profile'', PprofHandler ''profile''), (''/debug/pprof/symbol'', PprofHandler ''symbol''),
           (''/metrics'', MetricsHandler metrics), (''/'', IndexHandler), (''/liveness'', LivenessHandler),
           (''/readiness'', ReadinessHandler)] @ initMaintainHandler\<rparr>, pl))"

definition http_Run ::
  "run_env \<Rightarrow> (plugin_worker \<Rightarrow> 'o ConfigEntry \<Rightarrow> 'e option) \<Rightarrow> HttpServer \<Rightarrow> ('o, 'p) plugins
    \<Rightarrow> 'e run_error option \<times> bool \<times> HttpServer \<times> ('o, 'p) plugins" where
  "http_Run env init_err h pl =
     (case re_listen env (server_address (h_ip h) (h_port h)) of
        Some e \<Rightarrow> (Some (ListenErr e), False, h, pl)
      | None \<Rightarrow>
          let (h, pl) = initHandler init_err h pl in
          (map_option ServeErr (re_serve env), True, h\<lparr>h_server := True\<rparr>, pl))"

text \<open>\<open>Stop\<close> reaches the library only when the server was created: whether it does.\<close>

definition grpc_Stop :: "GrpcServer \<Rightarrow> bool" where "grpc_Stop g \<longleftrightarrow> g_server g"
definition http_Stop :: "HttpServer \<Rightarrow> bool" where "http_Stop h \<longleftrightarrow> h_server h"

section \<open>Properties\<close>

text \<open>
  C26: The gRPC server serves only when its address could be listened on, the limiter is initialised and a
  statistics plugin is there, which it and the limiter then use; in every other case it sends the error.
\<close>
theorem grpc_serves_only_when_ready:
  assumes "grpc_Run env init_err p g pl statics = (err, serves, g', pl', statics')"
  shows "if serves
    then re_listen env (server_address (g_IP g) (g_Port g)) = None \<and> finishInit p \<and>
      (\<exists>w c. configured pl = Some (w, c) \<and> (statisOnce pl \<or> init_err w c = None) \<and> statics' = Some w \<and>
         g_statics g' = Some w \<and> (g_coreServer g' \<longleftrightarrow> theServer p \<noteq> None))
    else err \<noteq> None \<and> statics' = statics"
  using assms
  by (auto simp: grpc_Run_def GetStatis_cases grpc_listener_def GetRateLimitServer_def Let_def
      split: option.splits prod.splits if_splits)

lemma http_first_serves_failed_plugin:
  assumes "configured pl = Some (w, c)" "\<not> statisOnce pl" "init_err w c = Some e"
    "\<And>a. re_listen env a = None" "finishInit p"
  obtains herr h' pl' gerr g' pl'' where "http_Run env init_err h pl = (herr, True, h', pl')"
    "grpc_Run env init_err p g pl' statics = (gerr, True, g', pl'', Some w)" "g_statics g' = Some w"
proof -
  obtain s1 where s1: "GetStatis init_err pl = ((None, Some e), s1)" "GetStatis init_err s1 = ((Some w, None), s1)"
    using failed_plugin_first [where init_err = init_err, OF assms(1-3)] by blast
  obtain h' where h: "http_Run env init_err h pl = (map_option ServeErr (re_serve env), True, h', s1)"
    using s1(1) assms(4) by (simp add: http_Run_def initHandler_def buildMetricsHandler_def)
  obtain g' where "grpc_Run env init_err p g s1 statics = (map_option ServeErr (re_serve env), True, g', s1, Some w)"
    "g_statics g' = Some w"
    using s1(2) assms(4,5) by (simp add: grpc_Run_def GetRateLimitServer_def Let_def)
  with h show thesis by (rule that)
qed

lemma grpc_first_sends_plugin_error:
  assumes "configured pl = Some (w, c)" "\<not> statisOnce pl" "init_err w c = Some e"
    "\<And>a. re_listen env a = None" "finishInit p"
  shows "\<exists>g' pl'. grpc_Run env init_err p g pl statics = (Some (StatisErr e), False, g', pl', statics)"
  using failed_plugin_first [where init_err = init_err, OF assms(1-3)] assms(4,5)
  by (auto simp: grpc_Run_def GetRateLimitServer_def Let_def)

text \<open>
  When the HTTP server starts first, an error of the statistics plugin is only logged, and the gRPC
  server then serves with the plugin that could not be initialised. When the gRPC server starts first,
  it sends the error and does not serve.
\<close>
theorem http_first_hides_plugin_error:
  assumes "configured pl = Some (w, c)" "\<not> statisOnce pl" "init_err w c = Some e"
    "\<And>a. re_listen env a = None" "finishInit p"
  shows "(\<exists>herr h' pl' gerr g' pl''. http_Run env init_err h pl = (herr, True, h', pl') \<and>
      grpc_Run env init_err p g pl' statics = (gerr, True, g', pl'', Some w) \<and> g_statics g' = Some w) \<and>
    (\<exists>g' pl'. grpc_Run env init_err p g pl statics = (Some (StatisErr e), False, g', pl', statics))"
  using http_first_serves_failed_plugin [where init_err = init_err, OF assms, of h g statics]
    grpc_first_sends_plugin_error [where init_err = init_err, OF assms, of g statics] by metis

definition listening :: run_env where
  "listening = \<lparr>re_listen = (\<lambda>_. None), re_serve = None\<rparr>"

definition started_process :: Process where
  "started_process = NewProcess\<lparr>onceDone := True, finishInit := True\<rparr>"

theorem grpc_serves_only_when_ready_witness:
  "fst (grpc_Run listening needs_option NewProcess NewGrpcServer sample_plugins None) \<noteq> None"
proof -
  obtain err serves g' pl' statics' where run:
    "grpc_Run listening needs_option NewProcess NewGrpcServer sample_plugins None = (err, serves, g', pl', statics')"
    by (metis prod_cases5)
  have "\<not> finishInit NewProcess" by (simp add: NewProcess_def)
  then show ?thesis using grpc_serves_only_when_ready [OF run] run by (auto split: if_splits)
qed

theorem http_first_hides_plugin_error_witness:
  "\<exists>herr h' pl' gerr g' pl''. http_Run listening needs_option NewHttpServer sample_plugins = (herr, True, h', pl') \<and>
    grpc_Run listening needs_option started_process NewGrpcServer pl' None = (gerr, True, g', pl'', Some FileWorker)"
  using http_first_hides_plugin_error [of sample_plugins FileWorker "\<lparr>ce_Name = ''file'', ce_Option = False\<rparr>" needs_option
      "''fail to validate''" listening started_process NewHttpServer NewGrpcServer None]
  by (auto simp: sample_plugins_def needs_option_def configured_def no_plugins_def listening_def started_process_def)

end
