(* ===== verification/Log_Options.thy ===== *)
theory Log_Options
  imports Labels
begin

text \<open>
  \<open>pkg/log/options.go\<close>: the options of the operational log. The levels of the scopes are kept in one
  string, \<open>scope:level\<close> entries separated by commas, which the setters edit in place. The lemmas show
  that on the strings that the code builds the setters are updates of a map from scopes to levels,
  and the getters look-ups in it.
\<close>

section \<open>Levels\<close>

datatype Level = NoneLevel | FatalLevel | ErrorLevel | WarnLevel | InfoLevel | DebugLevel

fun level_rank :: "Level \<Rightarrow> nat" where
  "level_rank NoneLevel = 0"
| "level_rank FatalLevel = 1"
| "level_rank ErrorLevel = 2"
| "level_rank WarnLevel = 3"
| "level_rank InfoLevel = 4"
| "level_rank DebugLevel = 5"

lemma level_rank_inj: "level_rank a = level_rank b \<longleftrightarrow> a = b"
  by (cases a; cases b) simp_all

text \<open>The levels are compared as the integers that they are in the code.\<close>

instantiation Level :: linorder
begin

definition less_eq_Level :: "Level \<Rightarrow> Level \<Rightarrow> bool" where
  "less_eq_Level a b \<longleftrightarrow> level_rank a \<le> level_rank b"

definition less_Level :: "Level \<Rightarrow> Level \<Rightarrow> bool" where
  "less_Level a b \<longleftrightarrow> level_rank a < level_rank b"

instance
  by intro_classes (auto simp: less_eq_Level_def less_Level_def level_rank_inj)

end

lemmas level_order = less_eq_Level_def less_Level_def

lemma level_le_iff [simp]:
  "NoneLevel \<le> l" "l \<le> DebugLevel" "l \<le> NoneLevel \<longleftrightarrow> l = NoneLevel" "DebugLevel \<le> l \<longleftrightarrow> l = DebugLevel"
  by (cases l; simp add: level_order)+

fun levelToString :: "Level \<Rightarrow> string" where
  "levelToString DebugLevel = ''debug''"
| "levelToString InfoLevel = ''info''"
| "levelToString WarnLevel = ''warn''"
| "levelToString ErrorLevel = ''error''"
| "levelToString FatalLevel = ''fatal''"
| "levelToString NoneLevel = ''none''"

definition stringToLevel :: "string \<Rightarrow> Level option" where
  "stringToLevel s =
     map_of [(''debug'', DebugLevel), (''info'', InfoLevel), (''warn'', WarnLevel), (''error'', ErrorLevel),
       (''fatal'', FatalLevel), (''none'', NoneLevel)] s"

lemma stringToLevel_iff: "stringToLevel s = Some l \<longleftrightarrow> s = levelToString l"
  by (cases l) (auto simp: stringToLevel_def split: if_splits)

lemma stringToLevel_levelToString [simp]: "stringToLevel (levelToString l) = Some l"
  by (simp add: stringToLevel_iff)

section \<open>Options\<close>

definition DefaultScopeName :: string where "DefaultScopeName = ''default''"
definition OverrideScopeName :: string where "OverrideScopeName = ''all''"

record Options =
  OutputPaths :: "string list"
  ErrorOutputPaths :: "string list"
  RotateOutputPath :: string
  RotationMaxSize :: int
  RotationMaxAge :: int
  RotationMaxBackups :: int
  JSONEncoding :: bool
  LogGrpc :: bool
  opt_Level :: string
  outputLevels :: string
  opt_logCallers :: string
  stackTraceLevels :: string

definition DefaultOptions :: Options where
  "DefaultOptions =
     \<lparr>OutputPaths = [''stdout''], ErrorOutputPaths = [''stderr''], RotateOutputPath = [], RotationMaxSize = 100,
      RotationMaxAge = 30, RotationMaxBackups = 10, JSONEncoding = False, LogGrpc = False, opt_Level = [],
      outputLevels = DefaultScopeName @ '':'' @ levelToString InfoLevel, opt_logCallers = [],
      stackTraceLevels = DefaultScopeName @ '':'' @ levelToString NoneLevel\<rparr>"

datatype log_error = InvalidLogLevel | InvalidLevelFormat string | InvalidOutputLevel string
  | NoLevelDefined string | UnknownScope string | OpenFailed

definition convertScopedLevel :: "string \<Rightarrow> log_error + (string \<times> Level)" where
  "convertScopedLevel sl =
     (let pieces = strings_split (CHR '':'') sl in
      if length pieces \<noteq> 1 \<and> length pieces \<noteq> 2 then Inl (InvalidLevelFormat sl)
      else
        let (s, l) = (if length pieces = 1 then (DefaultScopeName, pieces ! 0) else (pieces ! 0, pieces ! 1))
        in case stringToLevel l of None \<Rightarrow> Inl (InvalidOutputLevel sl) | Some level \<Rightarrow> Inr (s, level))"

text \<open>The first entry with a property, replaced or found.\<close>

fun replace_first :: "('a \<Rightarrow> bool) \<Rightarrow> 'a \<Rightarrow> 'a list \<Rightarrow> 'a list option" where
  "replace_first P y [] = None"
| "replace_first P y (x # xs) = (if P x then Some (y # xs) else map_option ((#) x) (replace_first P y xs))"

text \<open>An entry without a scope stands for the default scope; it is looked for first.\<close>

definition unscoped :: "string \<Rightarrow> bool" where
  "unscoped ol \<longleftrightarrow> CHR '':'' \<notin> set ol"

definition set_scoped :: "string \<Rightarrow> string \<Rightarrow> string \<Rightarrow> string" where
  "set_scoped scope level text =
     (let sl = scope @ '':'' @ level; levels = strings_split (CHR '','') text;
          replaced = (case (if scope = DefaultScopeName then replace_first unscoped sl levels else None) of
             Some ls \<Rightarrow> Some ls | None \<Rightarrow> replace_first (prefix (scope @ '':'')) sl levels)
      in strings_join (CHR '','') (case replaced of Some ls \<Rightarrow> ls | None \<Rightarrow> levels @ [sl]))"

definition get_scoped :: "string \<Rightarrow> string \<Rightarrow> log_error + Level" where
  "get_scoped scope text =
     (let levels = strings_split (CHR '','') text in
      case (case (if scope = DefaultScopeName then List.find unscoped levels else None) of
              Some ol \<Rightarrow> Some ol | None \<Rightarrow> List.find (prefix (scope @ '':'')) levels) of
        None \<Rightarrow> Inl (NoLevelDefined scope)
      | Some ol \<Rightarrow> bindR (convertScopedLevel ol) (\<lambda>(_, l). Inr l))"

definition SetOutputLevel :: "string \<Rightarrow> string \<Rightarrow> Options \<Rightarrow> log_error option \<times> Options" where
  "SetOutputLevel scope level opts =
     (case stringToLevel level of
        None \<Rightarrow> (Some InvalidLogLevel, opts)
      | Some _ \<Rightarrow> (None, opts\<lparr>outputLevels := set_scoped scope level (outputLevels opts)\<rparr>))"

definition GetOutputLevel :: "string \<Rightarrow> Options \<Rightarrow> log_error + Level" where
  "GetOutputLevel scope opts = get_scoped scope (outputLevels opts)"

text \<open>The stack trace level is not checked when it is set.\<close>

definition SetStackTraceLevel :: "string \<Rightarrow> string \<Rightarrow> Options \<Rightarrow> Options" where
  "SetStackTraceLevel scope level opts = opts\<lparr>stackTraceLevels := set_scoped scope level (stackTraceLevels opts)\<rparr>"

definition GetStackTraceLevel :: "string \<Rightarrow> Options \<Rightarrow> log_error + Level" where
  "GetStackTraceLevel scope opts = get_scoped scope (stackTraceLevels opts)"

definition opt_SetLogCallers :: "string \<Rightarrow> bool \<Rightarrow> Options \<Rightarrow> Options" where
  "opt_SetLogCallers scope incl opts =
     (let scopes = map (\<lambda>s. if s = scope then [] else s) (strings_split (CHR '','') (opt_logCallers opts));
          scopes' = (if incl
                     then (case replace_first (\<lambda>s. s = []) scope scopes of Some ss \<Rightarrow> ss | None \<Rightarrow> scopes @ [scope])
                     else scopes)
      in opts\<lparr>opt_logCallers := strings_join (CHR '','') scopes'\<rparr>)"

definition opt_GetLogCallers :: "string \<Rightarrow> Options \<Rightarrow> bool" where
  "opt_GetLogCallers scope opts = list_ex (\<lambda>s. s = scope) (strings_split (CHR '','') (opt_logCallers opts))"

section \<open>The strings as maps\<close>

text \<open>A scope name without the separators, as every registered name is.\<close>

definition plain_scope :: "string \<Rightarrow> bool" where
  "plain_scope s \<longleftrightarrow> CHR '':'' \<notin> set s \<and> CHR '','' \<notin> set s"

definition entry_text :: "string \<times> Level \<Rightarrow> string" where
  "entry_text e = fst e @ '':'' @ levelToString (snd e)"

text \<open>A string of levels represents a map: one entry per scope.\<close>

definition levels_rep :: "string \<Rightarrow> (string \<times> Level) list \<Rightarrow> bool" where
  "levels_rep text es \<longleftrightarrow> es \<noteq> [] \<and> wf_map es \<and> (\<forall>e \<in> set es. plain_scope (fst e)) \<and>
     text = strings_join (CHR '','') (map entry_text es)"

lemma level_chars: "CHR '','' \<notin> set (levelToString l)" "CHR '':'' \<notin> set (levelToString l)"
  by (cases l; simp)+

lemma levels_rep_split:
  assumes "levels_rep text es"
  shows "strings_split (CHR '','') text = map entry_text es"
proof -
  have "\<forall>item \<in> set (map entry_text es). CHR '','' \<notin> set item"
    using assms by (auto simp: levels_rep_def plain_scope_def entry_text_def level_chars)
  with assms show ?thesis by (simp add: levels_rep_def split_join)
qed

lemma prefix_entry:
  assumes "plain_scope s" "plain_scope (fst e)"
  shows "prefix (s @ '':'') (entry_text e) \<longleftrightarrow> fst e = s"
proof
  assume "prefix (s @ '':'') (entry_text e)"
  then obtain r where r: "fst e @ CHR '':'' # levelToString (snd e) = s @ CHR '':'' # r"
    by (auto simp: entry_text_def prefix_def)
  have "CHR '':'' \<notin> set s" "CHR '':'' \<notin> set (fst e)" using assms by (simp_all add: plain_scope_def)
  then have "strings_split (CHR '':'') (fst e @ CHR '':'' # levelToString (snd e)) = fst e # strings_split (CHR '':'') (levelToString (snd e))"
    "strings_split (CHR '':'') (s @ CHR '':'' # r) = s # strings_split (CHR '':'') r" by (simp_all add: split_append)
  then show "fst e = s" unfolding r by simp
qed (auto simp: entry_text_def)

lemma convert_entry: "plain_scope (fst e) \<Longrightarrow> convertScopedLevel (entry_text e) = Inr (fst e, snd e)"
  by (simp add: convertScopedLevel_def entry_text_def plain_scope_def split_append split_free level_chars)

lemma not_unscoped: "\<not> unscoped (entry_text e)"
  by (simp add: unscoped_def entry_text_def)

lemma replace_first_None: "replace_first P y xs = None \<longleftrightarrow> (\<forall>x \<in> set xs. \<not> P x)"
  by (induction xs) auto

lemma replace_first_entries:
  assumes "plain_scope s" "\<forall>e \<in> set es. plain_scope (fst e)"
  shows "replace_first (prefix (s @ '':'')) (s @ CHR '':'' # levelToString l) (map entry_text es) =
    (if s \<in> fst ` set es then Some (map entry_text (AList.update s l es)) else None)"
  using assms(2)
proof (induction es)
  case (Cons e es)
  then show ?case using prefix_entry [OF assms(1), of e]
    by (cases e) (auto simp: entry_text_def)
qed simp

lemma update_absent: "s \<notin> fst ` set es \<Longrightarrow> AList.update s l es = es @ [(s, l)]"
  by (induction es) auto

lemma set_scoped_rep:
  assumes "levels_rep text es" "plain_scope s"
  shows "levels_rep (set_scoped s (levelToString l) text) (AList.update s l es)"
proof -
  have es: "es \<noteq> []" "wf_map es" "\<forall>e \<in> set es. plain_scope (fst e)" using assms(1) by (simp_all add: levels_rep_def)
  have none: "replace_first unscoped y (map entry_text es) = None" for y
    by (simp add: replace_first_None not_unscoped)
  have first: "(case (if s = DefaultScopeName then replace_first unscoped y (map entry_text es) else None) of
      Some ls \<Rightarrow> Some ls | None \<Rightarrow> x) = x" for x y by (simp add: none)
  have "set_scoped s (levelToString l) text = strings_join (CHR '','') (map entry_text (AList.update s l es))"
    using replace_first_entries [OF assms(2) es(3), of l] update_absent [of s es l]
    unfolding set_scoped_def levels_rep_split [OF assms(1)] Let_def first
    by (cases "s \<in> fst ` set es") (simp_all add: entry_text_def)
  moreover have "AList.update s l es \<noteq> []" by (cases es) auto
  moreover have "\<forall>e \<in> set (AList.update s l es). plain_scope (fst e)"
    using es(3) assms(2) by (induction es) auto
  ultimately show ?thesis using amap.ok_put [OF es(2)] by (simp add: levels_rep_def)
qed

lemma find_entries:
  assumes "plain_scope s" "\<forall>e \<in> set es. plain_scope (fst e)"
  shows "List.find (prefix (s @ '':'')) (map entry_text es) = map_option (\<lambda>l. entry_text (s, l)) (map_of es s)"
  using assms(2)
proof (induction es)
  case (Cons e es)
  then show ?case using prefix_entry [OF assms(1), of e] by (cases e) auto
qed simp

lemma get_scoped_rep:
  assumes "levels_rep text es" "plain_scope s"
  shows "get_scoped s text = (case map_of es s of None \<Rightarrow> Inl (NoLevelDefined s) | Some l \<Rightarrow> Inr l)"
proof -
  have es: "\<forall>e \<in> set es. plain_scope (fst e)" using assms(1) by (simp add: levels_rep_def)
  have none: "List.find unscoped (map entry_text es) = None"
    by (simp add: find_None_iff not_unscoped)
  have first: "(case (if s = DefaultScopeName then List.find unscoped (map entry_text es) else None) of
      Some ol \<Rightarrow> Some ol | None \<Rightarrow> x) = x" for x by (simp add: none)
  show ?thesis
    unfolding get_scoped_def levels_rep_split [OF assms(1)] Let_def first find_entries [OF assms(2) es]
    using convert_entry [of "(s, l)" for l] assms(2) by (simp split: option.split)
qed

lemma unset_default_rep: "levels_rep (set_scoped DefaultScopeName (levelToString l) []) [(DefaultScopeName, l)]"
  by (simp add: levels_rep_def set_scoped_def plain_scope_def DefaultScopeName_def entry_text_def unscoped_def Let_def)

lemma default_levels_rep:
  "levels_rep (outputLevels DefaultOptions) [(DefaultScopeName, InfoLevel)]"
  "levels_rep (stackTraceLevels DefaultOptions) [(DefaultScopeName, NoneLevel)]"
  by (simp_all add: levels_rep_def DefaultOptions_def plain_scope_def DefaultScopeName_def entry_text_def)

text \<open>
  Any sequence of settings, from the defaults or from options without levels of which the first
  setting is the default scope's: a level that is read is the last one that was set.
\<close>

fun set_levels :: "(string \<times> Level) list \<Rightarrow> string \<Rightarrow> string" where
  "set_levels [] text = text"
| "set_levels ((s, l) # sets) text = set_levels sets (set_scoped s (levelToString l) text)"

lemma set_levels_rep:
  assumes "levels_rep ts es" "\<forall>(s, l) \<in> set sets. plain_scope s"
  shows "\<exists>es'. levels_rep (set_levels sets ts) es' \<and> map_of es' = map_of es ++ map_of (rev sets)"
  using assms
proof (induction sets arbitrary: ts es)
  case (Cons e sets)
  obtain s l where e: "e = (s, l)" by (cases e)
  have s: "plain_scope s" "\<forall>(s, l) \<in> set sets. plain_scope s" using Cons.prems(2) e by auto
  obtain es' where "levels_rep (set_levels sets (set_scoped s (levelToString l) ts)) es'"
    "map_of es' = map_of (AList.update s l es) ++ map_of (rev sets)"
    using Cons.IH [OF set_scoped_rep [OF Cons.prems(1) s(1)] s(2)] by blast
  then show ?case by (intro exI [of _ es']) (auto simp: e update_conv' map_add_def split: option.splits)
qed auto

section \<open>Callers\<close>

lemma replace_first_some:
  "replace_first P y xs = Some ys \<Longrightarrow> \<exists>us x vs. xs = us @ x # vs \<and> P x \<and> ys = us @ y # vs"
proof (induction xs arbitrary: ys)
  case (Cons x xs)
  show ?case
  proof (cases "P x")
    case True
    then show ?thesis using Cons.prems by (intro exI [of _ "[]"]) auto
  next
    case False
    then obtain zs where "replace_first P y xs = Some zs" "ys = x # zs" using Cons.prems by auto
    with Cons.IH [of zs] False show ?thesis by (metis append_Cons)
  qed
qed simp

text \<open>The list of callers behaves as a set of scopes.\<close>

lemma set_callers:
  assumes "t \<noteq> []" "s \<noteq> []"
  shows "t \<in> set (case replace_first (\<lambda>t. t = []) s (map (\<lambda>t. if t = s then [] else t) xs) of
      Some ss \<Rightarrow> ss | None \<Rightarrow> map (\<lambda>t. if t = s then [] else t) xs @ [s]) \<longleftrightarrow> t = s \<or> t \<in> set xs"
proof (cases "replace_first (\<lambda>t. t = []) s (map (\<lambda>t. if t = s then [] else t) xs)")
  case None
  then show ?thesis using assms by auto
next
  case (Some ss)
  then obtain us vs where s: "map (\<lambda>t. if t = s then [] else t) xs = us @ [] # vs" "ss = us @ s # vs"
    using replace_first_some [OF Some] by blast
  have "t \<in> set (map (\<lambda>t. if t = s then [] else t) xs) \<longleftrightarrow> t \<noteq> s \<and> t \<in> set xs" using assms by auto
  then have "t \<in> set us \<or> t \<in> set vs \<longleftrightarrow> t \<noteq> s \<and> t \<in> set xs" using assms(1) unfolding s(1) by simp
  then show ?thesis unfolding Some s(2) by auto
qed

lemma callers_set:
  assumes "CHR '','' \<notin> set s" "s \<noteq> []" "x \<noteq> []"
  shows "opt_GetLogCallers x (opt_SetLogCallers s incl opts) = (if x = s then incl else opt_GetLogCallers x opts)"
proof -
  define old where "old = strings_split (CHR '','') (opt_logCallers opts)"
  define cs where "cs = map (\<lambda>t. if t = s then [] else t) old"
  define new where "new = (if incl then (case replace_first (\<lambda>t. t = []) s cs of Some ss \<Rightarrow> ss | None \<Rightarrow> cs @ [s]) else cs)"
  have old: "old \<noteq> []" "\<forall>t \<in> set old. CHR '','' \<notin> set t"
    unfolding old_def using strings_split_nonempty split_item_free by blast+
  have mem: "t \<in> set new \<longleftrightarrow> (if t = s then incl else t \<in> set old)" if t: "t \<noteq> []" for t
    using set_callers [OF t assms(2), of old, folded cs_def] t by (cases incl) (auto simp: new_def, auto simp: cs_def)
  have "new \<noteq> []" using old(1) replace_first_some [of "\<lambda>t. t = []" s cs]
    by (auto simp: new_def cs_def split: option.split)
  moreover have "CHR '','' \<notin> set t" if "t \<in> set new" for t
    using mem [of t] that old(2) assms(1) by (cases "t = []") (auto split: if_splits)
  ultimately have "strings_split (CHR '','') (opt_logCallers (opt_SetLogCallers s incl opts)) = new"
    unfolding opt_SetLogCallers_def Let_def old_def [symmetric] cs_def [symmetric] new_def [symmetric]
    by (simp add: split_join)
  then show ?thesis using mem [OF assms(3)] by (simp add: opt_GetLogCallers_def list_ex_iff flip: old_def)
qed

end
