(* ===== verification/Log_Scopes.thy ===== *)
theory Log_Scopes
  imports Log_Options Text_Format
begin

text \<open>
  \<open>pkg/log/scope.go\<close>, \<open>pkg/log/default.go\<close> and \<open>pkg/log/config.go\<close>: the scopes of the operational log, the
  functions that write to it, and \<open>Configure\<close>, which applies the options. A scope is shared by the
  table of scopes and by its users, so a setter updates the table's entry. The outcome of opening the
  output files, of writing to a sink and of formatting a message are parameters.
\<close>

section \<open>Scopes\<close>

record Scope =
  sc_name :: string
  nameToEmit :: string
  sc_description :: string
  callerSkip :: int
  outputLevel :: Level
  stackTraceLevel :: Level
  sc_logCallers :: bool

type_synonym scopes = "(string \<times> Scope) list"

definition scope_SetOutputLevel :: "Level \<Rightarrow> Scope \<Rightarrow> Scope" where
  "scope_SetOutputLevel l s = s\<lparr>outputLevel := l\<rparr>"

definition scope_SetStackTraceLevel :: "Level \<Rightarrow> Scope \<Rightarrow> Scope" where
  "scope_SetStackTraceLevel l s = s\<lparr>stackTraceLevel := l\<rparr>"

definition scope_SetLogCallers :: "bool \<Rightarrow> Scope \<Rightarrow> Scope" where
  "scope_SetLogCallers b s = s\<lparr>sc_logCallers := b\<rparr>"

lemmas scope_setters = scope_SetOutputLevel_def scope_SetStackTraceLevel_def scope_SetLogCallers_def

text \<open>A name with a separator panics: the result is then None.\<close>

definition RegisterScope :: "string \<Rightarrow> string \<Rightarrow> int \<Rightarrow> scopes \<Rightarrow> (Scope \<times> scopes) option" where
  "RegisterScope name description skip ss =
     (if list_ex (\<lambda>c. c \<in> set '':,.'') name then None
      else case map_of ss name of
          Some s \<Rightarrow> Some (s, ss)
        | None \<Rightarrow>
            let s = \<lparr>sc_name = name, nameToEmit = (if name \<noteq> DefaultScopeName then name else []),
                     sc_description = description, callerSkip = skip,
                     outputLevel = InfoLevel, stackTraceLevel = NoneLevel, sc_logCallers = False\<rparr>
            in Some (s, AList.update name s ss))"

definition FindScope :: "string \<Rightarrow> scopes \<Rightarrow> Scope option" where
  "FindScope scope ss = map_of ss scope"

section \<open>Entries\<close>

text \<open>The levels of the zap library, as its integers, and the level that disables output.\<close>

type_synonym zap_level = int

definition zapDebug :: zap_level where "zapDebug = -1"
definition zapInfo :: zap_level where "zapInfo = 0"
definition zapWarn :: zap_level where "zapWarn = 1"
definition zapError :: zap_level where "zapError = 2"
definition zapFatal :: zap_level where "zapFatal = 5"
definition zapNone :: zap_level where "zapNone = 100"

lemmas zap_levels = zapDebug_def zapInfo_def zapWarn_def zapError_def zapFatal_def zapNone_def

fun levelToZap :: "Level \<Rightarrow> zap_level" where
  "levelToZap DebugLevel = zapDebug"
| "levelToZap InfoLevel = zapInfo"
| "levelToZap WarnLevel = zapWarn"
| "levelToZap ErrorLevel = zapError"
| "levelToZap FatalLevel = zapFatal"
| "levelToZap NoneLevel = zapNone"

text \<open>An entry: the caller is the number of frames to skip, the stack is recorded or not.\<close>

record Entry =
  en_Message :: string
  en_Level :: zap_level
  en_Time :: int
  en_LoggerName :: string
  en_Caller :: "int option"
  en_Stack :: bool

datatype enabler = AllLevels | DefaultScopeLevels

text \<open>
  Where entries go: nowhere (the nil sink of options without a path), opened paths, a rotated file with
  its size, backups and age, or both.
\<close>

datatype sink = NilSink | PathSink "string list" | RotateSink string int int int | MultiSink "string list" string int int int

record zap_core =
  core_json :: bool
  core_sink :: sink
  core_enabler :: enabler

record patchTable =
  pt_core :: zap_core
  pt_errorSink :: "string list"

record captureLogger =
  cap_core :: zap_core
  cap_errorOutput :: "string list"
  cap_callerSkip :: int
  cap_addCaller :: bool
  cap_stackFrom :: "zap_level option"

text \<open>The variables of the package: the scopes, the function table, the captured loggers and the opened files.\<close>

record log_state =
  ls_scopes :: scopes
  ls_funcs :: "patchTable option"
  ls_captured :: "captureLogger option"
  ls_grpc :: "captureLogger option"
  ls_opened :: "string list list"

datatype 'f log_effect = CoreWrite zap_core Entry "'f list" | ErrorLine int string | ErrorSync | ExitProcess int

text \<open>The message of a call: given as it is with fields, or formatted by the two functions of \<open>fmt\<close>.\<close>

datatype ('a, 'f) log_call = Msg string "'f list" | Sprint "'a list" | Sprintf string "'a list"

type_synonym 'a formatter = "('a list \<Rightarrow> string) \<times> (string \<Rightarrow> 'a list \<Rightarrow> string)"

fun call_text :: "'a formatter \<Rightarrow> ('a, 'f) log_call \<Rightarrow> string" where
  "call_text fmt (Msg m fs) = m"
| "call_text fmt (Sprint args) = fst fmt args"
| "call_text fmt (Sprintf template args) = (if 0 < length args then snd fmt template args else template)"

fun call_fields :: "('a, 'f) log_call \<Rightarrow> 'f list" where
  "call_fields (Msg m fs) = fs"
| "call_fields (Sprint args) = []"
| "call_fields (Sprintf template args) = []"

section \<open>Writing\<close>

text \<open>
  The write function that \<open>Configure\<close> installs: a fatal entry ends the process, so what follows does not
  run. \<open>zap_write\<close> gives the error that the library reports for an entry, if any.
\<close>

definition callerSkipOffset :: int where "callerSkipOffset = 2"

definition pt_write ::
  "(zap_core \<Rightarrow> Entry \<Rightarrow> 'f list \<Rightarrow> string option) \<Rightarrow> patchTable \<Rightarrow> Entry \<Rightarrow> 'f list
    \<Rightarrow> 'f log_effect list \<times> string option" where
  "pt_write zap_write pt ent fs =
     (let err = zap_write (pt_core pt) ent fs in
      (CoreWrite (pt_core pt) ent fs # (if en_Level ent = zapFatal then [ExitProcess 1] else []), err))"

definition exited :: "'f log_effect list \<Rightarrow> bool" where
  "exited effs \<longleftrightarrow> list_ex (\<lambda>e. case e of ExitProcess _ \<Rightarrow> True | _ \<Rightarrow> False) effs"

text \<open>\<open>emit\<close> panics when no function table was ever stored: None.\<close>

definition scope_emit ::
  "(zap_core \<Rightarrow> Entry \<Rightarrow> 'f list \<Rightarrow> string option) \<Rightarrow> int \<Rightarrow> patchTable option \<Rightarrow> Scope \<Rightarrow> zap_level \<Rightarrow> bool
    \<Rightarrow> string \<Rightarrow> 'f list \<Rightarrow> 'f log_effect list option" where
  "scope_emit zap_write now funcs s level dumpStack msg fs =
     (let e = \<lparr>en_Message = msg, en_Level = level, en_Time = now, en_LoggerName = nameToEmit s, en_Caller = None,
               en_Stack = False\<rparr>;
          e = (if sc_logCallers s then e\<lparr>en_Caller := Some (callerSkip s + callerSkipOffset)\<rparr> else e);
          e = (if dumpStack then e\<lparr>en_Stack := True\<rparr> else e)
      in map_option (\<lambda>pt.
           let (effs, err) = pt_write zap_write pt e fs in
           if exited effs then effs
           else (case err of None \<Rightarrow> effs | Some m \<Rightarrow> effs @ [ErrorLine now m, ErrorSync])) funcs)"

text \<open>What a call to a log function needs from outside: the library's write, the clock, \<open>fmt\<close> and the table.\<close>

record ('a, 'f) log_env =
  le_write :: "zap_core \<Rightarrow> Entry \<Rightarrow> 'f list \<Rightarrow> string option"
  le_now :: int
  le_fmt :: "'a formatter"
  le_funcs :: "patchTable option"

definition emit_call :: "('a, 'f) log_env \<Rightarrow> Scope \<Rightarrow> zap_level \<Rightarrow> bool \<Rightarrow> ('a, 'f) log_call \<Rightarrow> 'f log_effect list option" where
  "emit_call env s level dumpStack c =
     scope_emit (le_write env) (le_now env) (le_funcs env) s level dumpStack (call_text (le_fmt env) c) (call_fields c)"

text \<open>The methods of a scope. Below \<open>Error\<close> they compare the stack trace level with the level of errors.\<close>

definition scope_Fatal :: "('a, 'f) log_env \<Rightarrow> Scope \<Rightarrow> ('a, 'f) log_call \<Rightarrow> 'f log_effect list option" where
  "scope_Fatal env s c =
     (if outputLevel s \<ge> FatalLevel then emit_call env s zapFatal (stackTraceLevel s \<ge> FatalLevel) c else Some [])"

definition scope_FatalEnabled :: "Scope \<Rightarrow> bool" where "scope_FatalEnabled s \<longleftrightarrow> outputLevel s \<ge> FatalLevel"

definition scope_Error :: "('a, 'f) log_env \<Rightarrow> Scope \<Rightarrow> ('a, 'f) log_call \<Rightarrow> 'f log_effect list option" where
  "scope_Error env s c =
     (if outputLevel s \<ge> ErrorLevel then emit_call env s zapError (stackTraceLevel s \<ge> ErrorLevel) c else Some [])"

definition scope_ErrorEnabled :: "Scope \<Rightarrow> bool" where "scope_ErrorEnabled s \<longleftrightarrow> outputLevel s \<ge> ErrorLevel"

definition scope_Warn :: "('a, 'f) log_env \<Rightarrow> Scope \<Rightarrow> ('a, 'f) log_call \<Rightarrow> 'f log_effect list option" where
  "scope_Warn env s c =
     (if outputLevel s \<ge> WarnLevel then emit_call env s zapWarn (stackTraceLevel s \<ge> ErrorLevel) c else Some [])"

definition scope_WarnEnabled :: "Scope \<Rightarrow> bool" where "scope_WarnEnabled s \<longleftrightarrow> outputLevel s \<ge> WarnLevel"

definition scope_Info :: "('a, 'f) log_env \<Rightarrow> Scope \<Rightarrow> ('a, 'f) log_call \<Rightarrow> 'f log_effect list option" where
  "scope_Info env s c =
     (if outputLevel s \<ge> InfoLevel then emit_call env s zapInfo (stackTraceLevel s \<ge> ErrorLevel) c else Some [])"

definition scope_InfoEnabled :: "Scope \<Rightarrow> bool" where "scope_InfoEnabled s \<longleftrightarrow> outputLevel s \<ge> InfoLevel"

definition scope_Debug :: "('a, 'f) log_env \<Rightarrow> Scope \<Rightarrow> ('a, 'f) log_call \<Rightarrow> 'f log_effect list option" where
  "scope_Debug env s c =
     (if outputLevel s \<ge> DebugLevel then emit_call env s zapDebug (stackTraceLevel s \<ge> ErrorLevel) c else Some [])"

definition scope_DebugEnabled :: "Scope \<Rightarrow> bool" where "scope_DebugEnabled s \<longleftrightarrow> outputLevel s \<ge> DebugLevel"

lemmas scope_calls = scope_Fatal_def scope_Error_def scope_Warn_def scope_Info_def scope_Debug_def
lemmas scope_enabled = scope_FatalEnabled_def scope_ErrorEnabled_def scope_WarnEnabled_def scope_InfoEnabled_def
  scope_DebugEnabled_def

section \<open>The default scope\<close>

text \<open>The package's own scope: an entry of the table that the package registers when it is loaded.\<close>

definition initial_scopes :: scopes where
  "initial_scopes =
     (case RegisterScope DefaultScopeName ''Unscoped logging messages.'' 0 [] of None \<Rightarrow> [] | Some (_, ss) \<Rightarrow> ss)"

definition defaultScope :: "scopes \<Rightarrow> Scope" where
  "defaultScope ss = (case FindScope DefaultScopeName ss of Some s \<Rightarrow> s | None \<Rightarrow> snd (hd initial_scopes))"

text \<open>The functions of the package compare the stack trace level with the level of the call.\<close>

definition log_Fatal :: "('a, 'f) log_env \<Rightarrow> scopes \<Rightarrow> ('a, 'f) log_call \<Rightarrow> 'f log_effect list option" where
  "log_Fatal env ss c = (let d = defaultScope ss in
     if outputLevel d \<ge> FatalLevel then emit_call env d zapFatal (stackTraceLevel d \<ge> FatalLevel) c else Some [])"

definition log_Error :: "('a, 'f) log_env \<Rightarrow> scopes \<Rightarrow> ('a, 'f) log_call \<Rightarrow> 'f log_effect list option" where
  "log_Error env ss c = (let d = defaultScope ss in
     if outputLevel d \<ge> ErrorLevel then emit_call env d zapError (stackTraceLevel d \<ge> ErrorLevel) c else Some [])"

definition log_Warn :: "('a, 'f) log_env \<Rightarrow> scopes \<Rightarrow> ('a, 'f) log_call \<Rightarrow> 'f log_effect list option" where
  "log_Warn env ss c = (let d = defaultScope ss in
     if outputLevel d \<ge> WarnLevel then emit_call env d zapWarn (stackTraceLevel d \<ge> WarnLevel) c else Some [])"

definition log_Info :: "('a, 'f) log_env \<Rightarrow> scopes \<Rightarrow> ('a, 'f) log_call \<Rightarrow> 'f log_effect list option" where
  "log_Info env ss c = (let d = defaultScope ss in
     if outputLevel d \<ge> InfoLevel then emit_call env d zapInfo (stackTraceLevel d \<ge> InfoLevel) c else Some [])"

definition log_Debug :: "('a, 'f) log_env \<Rightarrow> scopes \<Rightarrow> ('a, 'f) log_call \<Rightarrow> 'f log_effect list option" where
  "log_Debug env ss c = (let d = defaultScope ss in
     if outputLevel d \<ge> DebugLevel then emit_call env d zapDebug (stackTraceLevel d \<ge> DebugLevel) c else Some [])"

definition log_FatalEnabled :: "scopes \<Rightarrow> bool" where "log_FatalEnabled ss \<longleftrightarrow> outputLevel (defaultScope ss) \<ge> FatalLevel"
definition log_ErrorEnabled :: "scopes \<Rightarrow> bool" where "log_ErrorEnabled ss \<longleftrightarrow> outputLevel (defaultScope ss) \<ge> ErrorLevel"
definition log_WarnEnabled :: "scopes \<Rightarrow> bool" where "log_WarnEnabled ss \<longleftrightarrow> outputLevel (defaultScope ss) \<ge> WarnLevel"
definition log_InfoEnabled :: "scopes \<Rightarrow> bool" where "log_InfoEnabled ss \<longleftrightarrow> outputLevel (defaultScope ss) \<ge> InfoLevel"
definition log_DebugEnabled :: "scopes \<Rightarrow> bool" where "log_DebugEnabled ss \<longleftrightarrow> outputLevel (defaultScope ss) \<ge> DebugLevel"

lemmas log_calls = log_Fatal_def log_Error_def log_Warn_def log_Info_def log_Debug_def

section \<open>Configuration\<close>

text \<open>The filter of the captured loggers: every level that is not named is treated as debug output.\<close>

definition enabler_fun :: "scopes \<Rightarrow> zap_level \<Rightarrow> bool" where
  "enabler_fun ss lvl =
     (if lvl = zapError then scope_ErrorEnabled (defaultScope ss)
      else if lvl = zapWarn then scope_WarnEnabled (defaultScope ss)
      else if lvl = zapInfo then scope_InfoEnabled (defaultScope ss)
      else scope_DebugEnabled (defaultScope ss))"

definition core_enabled :: "scopes \<Rightarrow> zap_core \<Rightarrow> zap_level \<Rightarrow> bool" where
  "core_enabled ss core lvl = (case core_enabler core of AllLevels \<Rightarrow> lvl \<ge> zapDebug | DefaultScopeLevels \<Rightarrow> enabler_fun ss lvl)"

text \<open>
  \<open>prepZap\<close>: \<open>open_ok\<close> is the outcome of opening a list of paths. The result is the error, or the two
  cores and the paths of the error sink; the opened files are returned with it, and a failure to open
  the output closes the error sink again.
\<close>

definition prepZap :: "(string list \<Rightarrow> bool) \<Rightarrow> Options \<Rightarrow> string list list \<times> (log_error + zap_core \<times> zap_core \<times> string list)" where
  "prepZap open_ok opts =
     (let rotated = RotateOutputPath opts \<noteq> []; file = RotateOutputPath opts; size = RotationMaxSize opts;
          backups = RotationMaxBackups opts; age = RotationMaxAge opts;
          errs = ErrorOutputPaths opts; outs = OutputPaths opts; json = JSONEncoding opts
      in if \<not> open_ok errs then ([], Inl OpenFailed)
         else if 0 < length outs \<and> \<not> open_ok outs then ([], Inl OpenFailed)
         else
           let opened = (if 0 < length outs then [errs, outs] else [errs]);
               sink = (if rotated \<and> 0 < length outs then MultiSink outs file size backups age
                       else if rotated then RotateSink file size backups age
                       else if 0 < length outs then PathSink outs else NilSink)
           in (opened, Inr (\<lparr>core_json = json, core_sink = sink, core_enabler = AllLevels\<rparr>,
                            \<lparr>core_json = json, core_sink = sink, core_enabler = DefaultScopeLevels\<rparr>, errs)))"

text \<open>A list of levels is applied from the left; what was applied before an error stays.\<close>

fun apply_levels :: "(Level \<Rightarrow> Scope \<Rightarrow> Scope) \<Rightarrow> string list \<Rightarrow> scopes \<Rightarrow> log_error option \<times> scopes" where
  "apply_levels setter [] ss = (None, ss)"
| "apply_levels setter (sl # sls) ss =
     (case convertScopedLevel sl of
        Inl e \<Rightarrow> (Some e, ss)
      | Inr (s, l) \<Rightarrow>
          (case FindScope s ss of
             Some scope \<Rightarrow> apply_levels setter sls (AList.update s (setter l scope) ss)
           | None \<Rightarrow>
               if s = OverrideScopeName then (None, map (\<lambda>(n, scope). (n, setter l scope)) ss)
               else (Some (UnknownScope s), ss)))"

definition processLevels :: "(Level \<Rightarrow> Scope \<Rightarrow> Scope) \<Rightarrow> string \<Rightarrow> scopes \<Rightarrow> log_error option \<times> scopes" where
  "processLevels setter arg ss = apply_levels setter (strings_split (CHR '','') arg) ss"

fun apply_callers :: "string list \<Rightarrow> scopes \<Rightarrow> log_error option \<times> scopes" where
  "apply_callers [] ss = (None, ss)"
| "apply_callers (s # sc) ss =
     (if s = [] then apply_callers sc ss
      else if s = OverrideScopeName then (None, map (\<lambda>(n, scope). (n, scope_SetLogCallers True scope)) ss)
      else case FindScope s ss of
          Some scope \<Rightarrow> apply_callers sc (AList.update s (scope_SetLogCallers True scope) ss)
        | None \<Rightarrow> (Some (UnknownScope s), ss))"

definition updateScopes :: "Options \<Rightarrow> scopes \<Rightarrow> log_error option \<times> scopes" where
  "updateScopes opts ss =
     (case processLevels scope_SetOutputLevel (outputLevels opts) ss of
        (Some e, ss) \<Rightarrow> (Some e, ss)
      | (None, ss) \<Rightarrow>
          (case processLevels scope_SetStackTraceLevel (stackTraceLevels opts) ss of
             (Some e, ss) \<Rightarrow> (Some e, ss)
           | (None, ss) \<Rightarrow> apply_callers (strings_split (CHR '','') (opt_logCallers opts)) ss))"

definition Configure :: "(string list \<Rightarrow> bool) \<Rightarrow> Options \<Rightarrow> log_state \<Rightarrow> log_error option \<times> log_state" where
  "Configure open_ok opts st =
     (case prepZap open_ok opts of
        (opened, Inl e) \<Rightarrow> (Some e, st\<lparr>ls_opened := ls_opened st @ opened\<rparr>)
      | (opened, Inr (core, captureCore, errSink)) \<Rightarrow>
          (let st = st\<lparr>ls_opened := ls_opened st @ opened\<rparr> in
           case updateScopes opts (ls_scopes st) of
             (Some e, ss) \<Rightarrow> (Some e, st\<lparr>ls_scopes := ss\<rparr>)
           | (None, ss) \<Rightarrow>
               let pt = \<lparr>pt_core = core, pt_errorSink = errSink\<rparr>;
                   l = stackTraceLevel (defaultScope ss);
                   captureLogger = \<lparr>cap_core = captureCore, cap_errorOutput = errSink, cap_callerSkip = 1,
                     cap_addCaller = sc_logCallers (defaultScope ss),
                     cap_stackFrom = (if l \<noteq> NoneLevel then Some (levelToZap l) else None)\<rparr>;
                   grpc = (if LogGrpc opts
                           then Some (captureLogger\<lparr>cap_callerSkip := cap_callerSkip captureLogger + 2\<rparr>)
                           else ls_grpc st)
               in (None, st\<lparr>ls_scopes := ss, ls_funcs := Some pt, ls_captured := Some captureLogger, ls_grpc := grpc\<rparr>)))"

text \<open>The package when it is loaded: the default scope, then the default options, the error dropped.\<close>

definition log_init :: "(string list \<Rightarrow> bool) \<Rightarrow> log_state" where
  "log_init open_ok =
     snd (Configure open_ok DefaultOptions
       \<lparr>ls_scopes = initial_scopes, ls_funcs = None, ls_captured = None, ls_grpc = None, ls_opened = []\<rparr>)"

definition log_Sync :: "(zap_core \<Rightarrow> string option) \<Rightarrow> log_state \<Rightarrow> (string option) option" where
  "log_Sync core_sync st = map_option (\<lambda>pt. core_sync (pt_core pt)) (ls_funcs st)"

section \<open>The time stamp of a line\<close>

record date_time =
  dt_year :: int
  dt_month :: int
  dt_day :: int
  dt_hour :: int
  dt_minute :: int
  dt_second :: int
  dt_nanosecond :: int

text \<open>The character of a digit as the code computes it: Go's division, cut to a byte, plus the character 0.\<close>

definition byte_digit :: "int \<Rightarrow> char" where
  "byte_digit d = char_of (uint ((of_int d :: u8) + 48))"

definition go_digit :: "int \<Rightarrow> int \<Rightarrow> char" where
  "go_digit n p = byte_digit ((n sdiv p) smod 10)"

definition go_tens :: "int \<Rightarrow> char" where
  "go_tens n = byte_digit (n sdiv 10)"

definition go_ones :: "int \<Rightarrow> char" where
  "go_ones n = byte_digit (n smod 10)"

definition formatDate :: "date_time \<Rightarrow> string" where
  "formatDate t =
     (let micros = dt_nanosecond t sdiv 1000; year = dt_year t in
      [go_digit year 1000, go_digit year 100, go_digit year 10, go_digit year 1, CHR ''-'',
       go_tens (dt_month t), go_ones (dt_month t), CHR ''-'', go_tens (dt_day t), go_ones (dt_day t), CHR ''T'',
       go_tens (dt_hour t), go_ones (dt_hour t), CHR '':'', go_tens (dt_minute t), go_ones (dt_minute t), CHR '':'',
       go_tens (dt_second t), go_ones (dt_second t), CHR ''.'',
       go_digit micros 100000, go_digit micros 10000, go_digit micros 1000, go_digit micros 100, go_digit micros 10,
       go_digit micros 1, CHR ''Z''])"

section \<open>Applying levels\<close>

lemma map_setter: "map_of (map (\<lambda>(n, scope). (n, f scope)) ss) x = map_option f (map_of ss x)"
  by (induction ss) auto

lemma apply_entries:
  assumes "\<forall>e \<in> set es. plain_scope (fst e) \<and> map_of ss (fst e) \<noteq> None" "wf_map es"
  shows "\<exists>ss'. apply_levels setter (map entry_text es) ss = (None, ss') \<and>
    (\<forall>x. map_of ss' x = map_option (\<lambda>sc. case map_of es x of Some l \<Rightarrow> setter l sc | None \<Rightarrow> sc) (map_of ss x))"
  using assms
proof (induction es arbitrary: ss)
  case Nil
  then show ?case by (auto simp: option.map_ident)
next
  case (Cons e es)
  obtain s l where e: "e = (s, l)" by (cases e)
  obtain sc where sc: "map_of ss s = Some sc" using Cons.prems(1) e by auto
  let ?ss = "AList.update s (setter l sc) ss"
  have "\<forall>e \<in> set es. plain_scope (fst e) \<and> map_of ?ss (fst e) \<noteq> None"
    using Cons.prems(1) by (auto simp: update_conv')
  then obtain ss' where ss': "apply_levels setter (map entry_text es) ?ss = (None, ss')"
    "\<forall>x. map_of ss' x = map_option (\<lambda>sc. case map_of es x of Some l \<Rightarrow> setter l sc | None \<Rightarrow> sc) (map_of ?ss x)"
    using Cons.IH [of ?ss] Cons.prems(2) by auto
  have "map_of es s = None" using Cons.prems(2) e by (simp add: map_of_eq_None_iff)
  then have "map_of ss' x = map_option (\<lambda>sc. case map_of (e # es) x of Some l \<Rightarrow> setter l sc | None \<Rightarrow> sc) (map_of ss x)" for x
    using ss'(2) sc by (auto simp: e update_conv')
  moreover have "apply_levels setter (map entry_text (e # es)) ss = (None, ss')"
    using ss'(1) sc convert_entry [of e] Cons.prems(1) by (simp add: e FindScope_def)
  ultimately show ?case by blast
qed

lemma processLevels_rep:
  assumes "levels_rep arg es" "\<forall>e \<in> set es. map_of ss (fst e) \<noteq> None"
  shows "\<exists>ss'. processLevels setter arg ss = (None, ss') \<and>
    (\<forall>x. map_of ss' x = map_option (\<lambda>sc. case map_of es x of Some l \<Rightarrow> setter l sc | None \<Rightarrow> sc) (map_of ss x))"
  using apply_entries [of es ss setter] assms unfolding processLevels_def levels_rep_split [OF assms(1)]
  by (auto simp: levels_rep_def)

lemma apply_levels_dom: "apply_levels setter sls ss = (err, ss') \<Longrightarrow> map_of ss' x = None \<longleftrightarrow> map_of ss x = None"
  by (induction setter sls ss arbitrary: err ss' rule: apply_levels.induct)
    (auto simp: FindScope_def map_setter update_conv' split: sum.splits option.splits if_splits)

lemma apply_callers_dom: "apply_callers sc ss = (err, ss') \<Longrightarrow> map_of ss' x = None \<longleftrightarrow> map_of ss x = None"
  by (induction sc ss arbitrary: err ss' rule: apply_callers.induct)
    (auto simp: FindScope_def map_setter update_conv' split: option.splits if_splits)

lemma updateScopes_dom: "updateScopes opts ss = (err, ss') \<Longrightarrow> map_of ss' x = None \<longleftrightarrow> map_of ss x = None"
  unfolding updateScopes_def processLevels_def
  by (auto dest!: apply_levels_dom [of _ _ _ _ _ x] apply_callers_dom [of _ _ _ _ x] split: prod.splits option.splits)

section \<open>Filtering\<close>

text \<open>A call of a level, and whether its effects hold an entry.\<close>

fun scope_log :: "Level \<Rightarrow> ('a, 'f) log_env \<Rightarrow> Scope \<Rightarrow> ('a, 'f) log_call \<Rightarrow> 'f log_effect list option" where
  "scope_log FatalLevel env s c = scope_Fatal env s c"
| "scope_log ErrorLevel env s c = scope_Error env s c"
| "scope_log WarnLevel env s c = scope_Warn env s c"
| "scope_log InfoLevel env s c = scope_Info env s c"
| "scope_log DebugLevel env s c = scope_Debug env s c"
| "scope_log NoneLevel env s c = Some []"

fun default_log :: "Level \<Rightarrow> ('a, 'f) log_env \<Rightarrow> scopes \<Rightarrow> ('a, 'f) log_call \<Rightarrow> 'f log_effect list option" where
  "default_log FatalLevel env ss c = log_Fatal env ss c"
| "default_log ErrorLevel env ss c = log_Error env ss c"
| "default_log WarnLevel env ss c = log_Warn env ss c"
| "default_log InfoLevel env ss c = log_Info env ss c"
| "default_log DebugLevel env ss c = log_Debug env ss c"
| "default_log NoneLevel env ss c = Some []"

definition entries :: "'f log_effect list \<Rightarrow> Entry list" where
  "entries effs = concat (map (\<lambda>e. case e of CoreWrite _ en _ \<Rightarrow> [en] | _ \<Rightarrow> []) effs)"

lemma entries_simps [simp]:
  "entries [] = []" "entries (CoreWrite core en fs # effs) = en # entries effs" "entries (ErrorLine t m # effs) = entries effs"
  "entries (ErrorSync # effs) = entries effs" "entries (ExitProcess n # effs) = entries effs" "entries (as @ bs) = entries as @ entries bs"
  by (simp_all add: entries_def)

definition the_entry :: "('a, 'f) log_env \<Rightarrow> Scope \<Rightarrow> zap_level \<Rightarrow> bool \<Rightarrow> ('a, 'f) log_call \<Rightarrow> Entry" where
  "the_entry env s level dump c =
     \<lparr>en_Message = call_text (le_fmt env) c, en_Level = level, en_Time = le_now env, en_LoggerName = nameToEmit s,
      en_Caller = (if sc_logCallers s then Some (callerSkip s + 2) else None), en_Stack = dump\<rparr>"

lemma emit_call_eq:
  "le_funcs env = Some pt \<Longrightarrow> emit_call env s level dump c =
     Some (CoreWrite (pt_core pt) (the_entry env s level dump c) (call_fields c) #
       (if level = zapFatal then [ExitProcess 1]
        else case le_write env (pt_core pt) (the_entry env s level dump c) (call_fields c) of
            None \<Rightarrow> [] | Some m \<Rightarrow> [ErrorLine (le_now env) m, ErrorSync]))"
  by (auto simp: emit_call_def scope_emit_def pt_write_def the_entry_def exited_def callerSkipOffset_def Let_def
      split: option.split)

lemma scope_log_entries:
  assumes "le_funcs env = Some pt" "l \<noteq> NoneLevel"
  shows "\<exists>effs. scope_log l env s c = Some effs \<and>
    entries effs = (if l \<le> outputLevel s
      then [the_entry env s (levelToZap l) ((if l = FatalLevel then FatalLevel else ErrorLevel) \<le> stackTraceLevel s) c] else [])"
  using assms(2) by (cases l) (auto simp: scope_calls emit_call_eq [OF assms(1)] split: option.split)

lemma default_log_entries:
  assumes "le_funcs env = Some pt" "l \<noteq> NoneLevel"
  shows "\<exists>effs. default_log l env ss c = Some effs \<and>
    entries effs = (if l \<le> outputLevel (defaultScope ss)
      then [the_entry env (defaultScope ss) (levelToZap l) (l \<le> stackTraceLevel (defaultScope ss)) c] else [])"
  using assms(2) by (cases l) (auto simp: log_calls Let_def emit_call_eq [OF assms(1)] split: option.split)

end
