(* ===== verification/Lifecycle.thy ===== *)
theory Lifecycle
  imports Servers Registration Health Log_Scopes
begin

text \<open>
  \<open>bootstrap/bootstrap.go\<close> and \<open>bootstrap/config.go\<close>: the start of the process, step by step with its
  exits, and its end. The state holds the parts that the start sets up: the log, the plugins, the
  limiter, the health checker, the servers and the registrar. Files, decoding, the naming service and
  the outcome of the first probe are parameters.
\<close>

section \<open>Configuration\<close>

record BootRegistry = Registry +
  br_Enable :: bool
  br_Host :: string

record BootApi = ApiConfig +
  ba_Option :: server_options

record 'o BootConfig =
  bc_Logger :: Options
  bc_Registry :: BootRegistry
  bc_APIServers :: "BootApi list"
  bc_Limit :: Config
  bc_Plugin :: "'o plugin_config"
  bc_Health :: HealthConfig

section \<open>The state of the process\<close>

datatype api_server = Grpc GrpcServer | Http HttpServer

fun server_GetProtocol :: "api_server \<Rightarrow> string" where
  "server_GetProtocol (Grpc g) = ''grpc''"
| "server_GetProtocol (Http h) = ''http''"

fun server_GetPort :: "api_server \<Rightarrow> u32" where
  "server_GetPort (Grpc g) = g_Port g"
| "server_GetPort (Http h) = h_port h"

fun server_Initialize :: "server_options \<Rightarrow> api_server \<Rightarrow> panic + api_server" where
  "server_Initialize opts (Grpc g) = bindR (grpc_Initialize opts g) (\<lambda>g. Inr (Grpc g))"
| "server_Initialize opts (Http h) = bindR (http_Initialize opts h) (\<lambda>h. Inr (Http h))"

fun server_Stop :: "api_server \<Rightarrow> bool" where
  "server_Stop (Grpc g) = grpc_Stop g"
| "server_Stop (Http h) = http_Stop h"

text \<open>The servers that the packages register when they are loaded.\<close>

definition Slots :: "(string \<times> api_server) list" where
  "Slots = snd (api_Register ''http'' (Http NewHttpServer) (snd (api_Register ''grpc'' (Grpc NewGrpcServer) [])))"

text \<open>
  The servers are objects of the table \<open>ap_slots\<close>, referred to by name; \<open>ap_launched\<close> are the names whose
  \<open>Run\<close> was started, in order. \<open>ap_deferred\<close>: a task waits to register; \<open>ap_heartbeat\<close>: the heartbeat
  task runs.
\<close>

record 'o app =
  ap_log :: log_state
  ap_plugins :: "('o, Process) plugins"
  ap_core :: Process
  ap_health :: "Checker option"
  ap_serverAddress :: string
  ap_limitServiceName :: string
  ap_slots :: "(string \<times> api_server) list"
  ap_launched :: "string list"
  ap_registrar :: registrar
  ap_deferred :: bool
  ap_heartbeat :: bool

datatype boot_message = ConfigPathEmpty | OpenConfigErr | DecodeConfigErr | NoApiServers | LogInitErr log_error
  | LocalHostErr | CoreInitErr init_error | ServerNotRegistered string | SdkErr | RegistryErr

text \<open>A start ends early by an exit with a message or by a panic.\<close>

datatype boot_stop = BootExit boot_message | BootPanic panic

type_synonym ('o, 'a) boot = "'o app \<Rightarrow> (boot_stop + 'a) \<times> 'o app"

definition bootThen :: "('o, 'a) boot \<Rightarrow> ('a \<Rightarrow> ('o, 'b) boot) \<Rightarrow> ('o, 'b) boot" where
  "bootThen m f s = (case m s of (Inl e, s') \<Rightarrow> (Inl e, s') | (Inr x, s') \<Rightarrow> f x s')"

definition bootExit :: "boot_message \<Rightarrow> ('o, 'a) boot" where
  "bootExit m s = (Inl (BootExit m), s)"

definition bootReturn :: "'a \<Rightarrow> ('o, 'a) boot" where
  "bootReturn x s = (Inr x, s)"

text \<open>
  What the start meets: the configuration file, the files of the log, the local address towards the
  naming service, the clock, the checker as it is after the wait for the first probe, with the time then,
  and the naming service.
\<close>

datatype dial_result = DialFails | OtherAddr | TcpAddr string

record 'o boot_env =
  be_opens :: "string \<Rightarrow> bool"
  be_decode :: "string \<Rightarrow> 'o BootConfig option"
  be_log_open :: "string list \<Rightarrow> bool"
  be_dial :: "string \<Rightarrow> dial_result"
  be_now :: int
  be_gate :: "Checker \<Rightarrow> int \<times> Checker"
  be_dials :: bool
  be_remote :: remote

section \<open>The steps\<close>

text \<open>The local address of a connection to the naming service.\<close>

definition GetLocalHost :: "(string \<Rightarrow> dial_result) \<Rightarrow> string \<Rightarrow> string option" where
  "GetLocalHost dial probeAddr =
     (if length probeAddr = 0 then Some ''127.0.0.1''
      else case dial probeAddr of DialFails \<Rightarrow> None | OtherAddr \<Rightarrow> None | TcpAddr ip \<Rightarrow> Some ip)"

definition loadConfig :: "'o boot_env \<Rightarrow> string \<Rightarrow> ('o, 'o BootConfig) boot" where
  "loadConfig env path =
     (if path = [] then bootExit ConfigPathEmpty
      else if \<not> be_opens env path then bootExit OpenConfigErr
      else case be_decode env path of
          None \<Rightarrow> bootExit DecodeConfigErr
        | Some c \<Rightarrow> bootReturn (c\<lparr>bc_Health := WithDefaults (bc_Health c)\<rparr>))"

text \<open>The options of the log: an unknown level leaves the output levels empty, and its error is dropped.\<close>

definition boot_log_options :: "Options \<Rightarrow> Options" where
  "boot_log_options opts =
     opt_SetLogCallers DefaultScopeName True
       (SetStackTraceLevel DefaultScopeName ''none''
         (snd (SetOutputLevel DefaultScopeName (opt_Level opts) opts)))"

definition boot_log :: "'o boot_env \<Rightarrow> Options \<Rightarrow> ('o, unit) boot" where
  "boot_log env opts s =
     (case Configure (be_log_open env) (boot_log_options opts) (ap_log s) of
        (Some e, l) \<Rightarrow> (Inl (BootExit (LogInitErr e)), s\<lparr>ap_log := l\<rparr>)
      | (None, l) \<Rightarrow> (Inr (), s\<lparr>ap_log := l\<rparr>))"

definition boot_plugins :: "'o plugin_config \<Rightarrow> ('o, unit) boot" where
  "boot_plugins c s = (Inr (), s\<lparr>ap_plugins := GlobalInitialize c (ap_plugins s)\<rparr>)"

definition boot_address :: "'o boot_env \<Rightarrow> BootRegistry \<Rightarrow> ('o, unit) boot" where
  "boot_address env r s =
     (if 0 < length (br_Host r)
      then (Inr (), s\<lparr>ap_serverAddress := br_Host r, ap_limitServiceName := reg_Name r\<rparr>)
      else if 0 < length (reg_PolarisServerAddress r)
      then (case GetLocalHost (be_dial env) (reg_PolarisServerAddress r) of
              None \<Rightarrow> (Inl (BootExit LocalHostErr), s)
            | Some addr \<Rightarrow> (Inr (), s\<lparr>ap_serverAddress := addr, ap_limitServiceName := reg_Name r\<rparr>))
      else (Inr (), s\<lparr>ap_limitServiceName := reg_Name r\<rparr>))"

text \<open>The function that the statistics read the numbers of streams and counters with.\<close>

definition server_stats :: "Process \<Rightarrow> nat \<times> nat" where
  "server_stats p =
     (case GetRateLimitServer p of
        Some (Some sv) \<Rightarrow> (ClientManager_ClientCount (clientMng sv), CounterCount (counterMng sv))
      | _ \<Rightarrow> (0, 0))"

definition boot_core :: "Config \<Rightarrow> ('o, unit) boot" where
  "boot_core limit s =
     (case Initialize (Some limit) (ap_core s) of
        Inl e \<Rightarrow> (Inl (BootPanic e), s)
      | Inr (Some e, p) \<Rightarrow> (Inl (BootExit (CoreInitErr e)), s\<lparr>ap_core := p\<rparr>)
      | Inr (None, p) \<Rightarrow>
          (Inr (), s\<lparr>ap_core := p, ap_plugins := SetServerStatsProvider (Some server_stats) (ap_plugins s)\<rparr>))"

definition boot_health :: "'o boot_env \<Rightarrow> HealthConfig \<Rightarrow> ('o, unit) boot" where
  "boot_health env c s = (Inr (), s\<lparr>ap_health := Some (health_Start (be_now env) c)\<rparr>)"

text \<open>A server is initialised and its \<open>Run\<close> started before the next entry is looked at.\<close>

fun startServers :: "BootApi list \<Rightarrow> ('o, string list) boot" where
  "startServers [] s = (Inr [], s)"
| "startServers (entry # es) s =
     (case map_of (ap_slots s) (api_Name entry) of
        None \<Rightarrow> (Inl (BootExit (ServerNotRegistered (api_Name entry))), s)
      | Some server \<Rightarrow>
          (case server_Initialize (ba_Option entry) server of
             Inl e \<Rightarrow> (Inl (BootPanic e), s)
           | Inr server' \<Rightarrow>
               (case startServers es
                   (s\<lparr>ap_slots := AList.update (api_Name entry) server' (ap_slots s),
                     ap_launched := ap_launched s @ [api_Name entry]\<rparr>) of
                  (Inl e, s') \<Rightarrow> (Inl e, s')
                | (Inr names, s') \<Rightarrow> (Inr (api_Name entry # names), s'))))"

text \<open>The servers as the registrar sees them: their protocol and the port of their last initialisation.\<close>

definition server_views :: "(string \<times> api_server) list \<Rightarrow> string list \<Rightarrow> APIServer list" where
  "server_views slots names =
     concat (map (\<lambda>n. case map_of slots n of
       None \<Rightarrow> [] | Some sv \<Rightarrow> [\<lparr>srv_Protocol = server_GetProtocol sv, srv_Port = server_GetPort sv\<rparr>]) names)"

definition boot_register :: "'o boot_env \<Rightarrow> BootRegistry \<Rightarrow> BootApi list \<Rightarrow> string list \<Rightarrow> ('o, unit) boot" where
  "boot_register env c es names s =
     (if \<not> br_Enable c then (Inr (), s)
      else
        let cfg = Registry.truncate c; (failed, r) = initPolarisClient cfg (ap_registrar s) in
        if failed then (Inl (BootExit SdkErr), s\<lparr>ap_registrar := r\<rparr>)
        else
          let (now, checker) = (case ap_health s of None \<Rightarrow> (be_now env, None) | Some k \<Rightarrow>
                                  (let (now, k') = be_gate env k in (now, Some k')));
              ctx = \<lparr>ctx_cfg = cfg, ctx_servers = server_views (ap_slots s) names,
                     ctx_apiServerConfigs = map ApiConfig.truncate es, ctx_serverAddress = ap_serverAddress s\<rparr>;
              (outcome, r') = selfRegisterWhenReady (AllowHeartbeat now checker) (be_dials env) (be_remote env) ctx r;
              s = s\<lparr>ap_registrar := r', ap_health := checker, ap_deferred := (ap_deferred s \<or> outcome = Deferred)\<rparr>
          in if outcome = RegisterFailed then (Inl (BootExit RegistryErr), s)
             else (Inr (), s\<lparr>ap_heartbeat := (ap_heartbeat s \<or> reg_HealthCheckEnable c)\<rparr>))"

text \<open>\<open>NonBlockingStart\<close>: the names of the servers, in the order of the configuration.\<close>

definition NonBlockingStart :: "'o boot_env \<Rightarrow> string \<Rightarrow> ('o, string list) boot" where
  "NonBlockingStart env path =
     bootThen (loadConfig env path) (\<lambda>config.
     bootThen (if length (bc_APIServers config) = 0 then bootExit NoApiServers else bootReturn ()) (\<lambda>_.
     bootThen (boot_log env (bc_Logger config)) (\<lambda>_.
     bootThen (boot_plugins (bc_Plugin config)) (\<lambda>_.
     bootThen (boot_address env (bc_Registry config)) (\<lambda>_.
     bootThen (boot_core (bc_Limit config)) (\<lambda>_.
     bootThen (boot_health env (bc_Health config)) (\<lambda>_.
     bootThen (startServers (bc_APIServers config)) (\<lambda>names.
     bootThen (boot_register env (bc_Registry config) (bc_APIServers config) names) (\<lambda>_.
     bootReturn names)))))))))"

section \<open>The end of the process\<close>

datatype shutdown_event = DeregisterCall string Instance | StopServer string | CancelContext | DestroyPlugin plugin_worker

text \<open>The servers that were created are stopped, in the order of the start.\<close>

definition stopServers :: "bool \<Rightarrow> string list \<Rightarrow> 'o app \<Rightarrow> shutdown_event list \<times> 'o app" where
  "stopServers connects names s =
     (let (calls, r) = selfDeregister connects (ap_registrar s);
          running = filter (\<lambda>n. case map_of (ap_slots s) n of None \<Rightarrow> False | Some sv \<Rightarrow> server_Stop sv) names
      in (map (\<lambda>(reqId, inst). DeregisterCall reqId inst) calls @ map StopServer running, s\<lparr>ap_registrar := r\<rparr>))"

text \<open>\<open>Start\<close> after the main loop was woken by a signal or by an error of a server: both do the same.\<close>

datatype 'e wake = Signal int | ServerError "'e run_error"

definition runMainLoop :: "bool \<Rightarrow> string list \<Rightarrow> 'e wake \<Rightarrow> 'o app \<Rightarrow> shutdown_event list \<times> 'o app" where
  "runMainLoop connects names w s = (case w of Signal _ \<Rightarrow> stopServers connects names s | ServerError _ \<Rightarrow> stopServers connects names s)"

definition finish_Start :: "bool \<Rightarrow> string list \<Rightarrow> 'e wake \<Rightarrow> 'o app \<Rightarrow> shutdown_event list \<times> 'o app" where
  "finish_Start connects names w s =
     (let (evs, s') = runMainLoop connects names w s
      in (evs @ [CancelContext] @ map DestroyPlugin (GlobalDestroy (ap_plugins s')), s'))"

end
