(* ===== verification/Log_Correct.thy ===== *)
theory Log_Correct
  imports Log_Scopes
begin

text \<open>
  What the operational log promises: the option strings are maps from scopes to levels, \<open>Configure\<close>
  gives every scope its level and the functions of a scope write exactly the messages of its level or
  a more severe one, a failed \<open>Configure\<close> keeps the writer in use, a fatal message ends the process, and
  the time stamp of a line can be read back.
\<close>

section \<open>Options as maps\<close>

fun set_output_levels :: "(string \<times> Level) list \<Rightarrow> Options \<Rightarrow> Options" where
  "set_output_levels [] opts = opts"
| "set_output_levels ((s, l) # sets) opts = set_output_levels sets (snd (SetOutputLevel s (levelToString l) opts))"

lemma set_output_levels_eq:
  "set_output_levels sets opts = opts\<lparr>outputLevels := set_levels sets (outputLevels opts)\<rparr>"
  by (induction sets opts rule: set_output_levels.induct) (simp_all add: SetOutputLevel_def)

definition default_levels :: "(string \<times> Level) list \<Rightarrow> string \<Rightarrow> Level option" where
  "default_levels sets = map_of [(DefaultScopeName, InfoLevel)] ++ map_of (rev sets)"

lemma set_output_levels_rep:
  assumes "\<forall>(s, l) \<in> set sets. plain_scope s"
  shows "\<exists>es. levels_rep (outputLevels (set_output_levels sets DefaultOptions)) es \<and> map_of es = default_levels sets"
  using set_levels_rep [OF default_levels_rep(1) assms] by (simp add: set_output_levels_eq default_levels_def)

text \<open>
  After any sequence of settings on the default options, the level that is read for a scope is the last
  one that was set for it, the info level for the default scope when none was, and an error otherwise.
\<close>
theorem output_levels_refine_map:
  assumes "\<forall>(s, l) \<in> set sets. plain_scope s" "plain_scope x"
  shows "GetOutputLevel x (set_output_levels sets DefaultOptions) =
    (case default_levels sets x of None \<Rightarrow> Inl (NoLevelDefined x) | Some l \<Rightarrow> Inr l)"
proof -
  obtain es where "levels_rep (outputLevels (set_output_levels sets DefaultOptions)) es" "map_of es = default_levels sets"
    using set_output_levels_rep [OF assms(1)] by blast
  then show ?thesis using get_scoped_rep assms(2) by (simp add: GetOutputLevel_def)
qed

theorem output_levels_refine_map_witness:
  "GetOutputLevel ''grpc'' (set_output_levels [(''grpc'', DebugLevel), (''default'', WarnLevel), (''grpc'', ErrorLevel)] DefaultOptions)
    = Inr ErrorLevel"
  using output_levels_refine_map [of "[(''grpc'', DebugLevel), (''default'', WarnLevel), (''grpc'', ErrorLevel)]" "''grpc''"]
  by (simp add: plain_scope_def default_levels_def)

text \<open>
  The callers of the options are a set of scopes: a setting changes the answer for its own scope only,
  whatever the string of callers was before.
\<close>
theorem log_callers_are_a_set:
  assumes "CHR '','' \<notin> set s" "s \<noteq> []" "x \<noteq> []"
  shows "opt_GetLogCallers x (opt_SetLogCallers s incl opts) = (if x = s then incl else opt_GetLogCallers x opts)"
  using assms by (rule callers_set)

theorem log_callers_are_a_set_witness:
  "\<not> opt_GetLogCallers ''b'' (opt_SetLogCallers ''a'' True DefaultOptions)"
  using log_callers_are_a_set [of "''a''" "''b''" True DefaultOptions]
  by (simp add: opt_GetLogCallers_def DefaultOptions_def)

section \<open>Configure\<close>

lemma Configure_cases:
  assumes "open_ok (ErrorOutputPaths opts)" "OutputPaths opts = [] \<or> open_ok (OutputPaths opts)"
  shows "\<exists>opened core cap errs. prepZap open_ok opts = (opened, Inr (core, cap, errs))"
  using assms by (auto simp: prepZap_def Let_def)

lemma Configure_ok:
  assumes "open_ok (ErrorOutputPaths opts)" "OutputPaths opts = [] \<or> open_ok (OutputPaths opts)"
    "updateScopes opts (ls_scopes st) = (None, ss)"
  shows "\<exists>st' pt cap. Configure open_ok opts st = (None, st') \<and> ls_scopes st' = ss \<and> ls_funcs st' = Some pt \<and>
    ls_captured st' = Some cap"
proof -
  obtain opened core cap errs where "prepZap open_ok opts = (opened, Inr (core, cap, errs))"
    using Configure_cases [OF assms(1,2)] by blast
  then show ?thesis using assms(3) by (simp add: Configure_def Let_def)
qed

lemma updateScopes_defaults:
  assumes "\<forall>(s, l) \<in> set sets. plain_scope s \<and> map_of ss s \<noteq> None" "map_of ss DefaultScopeName \<noteq> None"
  shows "\<exists>ss'. updateScopes (set_output_levels sets DefaultOptions) ss = (None, ss') \<and>
    (\<forall>x sc. map_of ss x = Some sc \<longrightarrow> (\<exists>sc'. map_of ss' x = Some sc' \<and>
       outputLevel sc' = (case default_levels sets x of Some l \<Rightarrow> l | None \<Rightarrow> outputLevel sc)))"
proof -
  let ?opts = "set_output_levels sets DefaultOptions"
  obtain es where es: "levels_rep (outputLevels ?opts) es" "map_of es = default_levels sets"
    using set_output_levels_rep [of sets] assms(1) by fastforce
  have "map_of ss (fst e) \<noteq> None" if "e \<in> set es" for e
  proof -
    have "default_levels sets (fst e) \<noteq> None" using that es(2) by (metis map_of_eq_None_iff image_eqI)
    then have "fst e = DefaultScopeName \<or> map_of (rev sets) (fst e) \<noteq> None"
      by (auto simp: default_levels_def map_add_def split: option.splits if_splits)
    then show ?thesis
    proof
      assume "map_of (rev sets) (fst e) \<noteq> None"
      then obtain l where "(fst e, l) \<in> set sets" by (auto dest!: map_of_SomeD)
      then show ?thesis using assms(1) by fast
    qed (use assms(2) in simp)
  qed
  then obtain s1 where s1: "processLevels scope_SetOutputLevel (outputLevels ?opts) ss = (None, s1)"
    "\<forall>x. map_of s1 x = map_option (\<lambda>sc. case map_of es x of Some l \<Rightarrow> scope_SetOutputLevel l sc | None \<Rightarrow> sc) (map_of ss x)"
    using processLevels_rep [OF es(1)] by blast
  have "map_of s1 DefaultScopeName \<noteq> None" using s1(2) assms(2) by simp
  then obtain s2 where s2: "processLevels scope_SetStackTraceLevel (stackTraceLevels ?opts) s1 = (None, s2)"
    "\<forall>x. map_of s2 x = map_option (\<lambda>sc. case map_of [(DefaultScopeName, NoneLevel)] x of
       Some l \<Rightarrow> scope_SetStackTraceLevel l sc | None \<Rightarrow> sc) (map_of s1 x)"
    using processLevels_rep [OF default_levels_rep(2), of s1 scope_SetStackTraceLevel] by (auto simp: set_output_levels_eq)
  have "updateScopes ?opts ss = (None, s2)"
    using s1(1) s2(1) by (simp add: updateScopes_def) (simp add: set_output_levels_eq DefaultOptions_def)
  moreover have "\<exists>sc'. map_of s2 x = Some sc' \<and> outputLevel sc' = (case default_levels sets x of Some l \<Rightarrow> l | None \<Rightarrow> outputLevel sc)"
    if "map_of ss x = Some sc" for x sc
    using that s1(2) s2(2) es(2) by (auto simp: scope_setters split: option.splits)
  ultimately show ?thesis by blast
qed

text \<open>
  Configuring the default options with any levels for registered scopes succeeds when the two standard
  streams open. Then every scope writes the messages of its level and of the more severe ones, each as one
  entry with its text, and no others.
\<close>
theorem configured_levels_filter:
  assumes "\<forall>(s, l) \<in> set sets. plain_scope s \<and> FindScope s (ls_scopes st) \<noteq> None"
    "FindScope DefaultScopeName (ls_scopes st) \<noteq> None" "FindScope x (ls_scopes st) = Some sc"
    "open_ok [''stdout'']" "open_ok [''stderr'']" "l \<noteq> NoneLevel"
  shows "\<exists>st' sc' effs. Configure open_ok (set_output_levels sets DefaultOptions) st = (None, st') \<and>
    FindScope x (ls_scopes st') = Some sc' \<and> scope_log l (env\<lparr>le_funcs := ls_funcs st'\<rparr>) sc' c = Some effs \<and>
    map en_Message (entries effs) =
      (if l \<le> (case default_levels sets x of Some d \<Rightarrow> d | None \<Rightarrow> outputLevel sc) then [call_text (le_fmt env) c] else [])"
proof -
  let ?opts = "set_output_levels sets DefaultOptions"
  obtain ss where ss: "updateScopes ?opts (ls_scopes st) = (None, ss)"
    "\<exists>sc'. map_of ss x = Some sc' \<and> outputLevel sc' = (case default_levels sets x of Some d \<Rightarrow> d | None \<Rightarrow> outputLevel sc)"
    using updateScopes_defaults [of sets "ls_scopes st"] assms(1-3) unfolding FindScope_def by blast
  have paths: "ErrorOutputPaths ?opts = [''stderr'']" "OutputPaths ?opts = [''stdout'']"
    by (simp_all add: set_output_levels_eq DefaultOptions_def)
  obtain st' pt where st': "Configure open_ok ?opts st = (None, st')" "ls_scopes st' = ss" "ls_funcs st' = Some pt"
    using Configure_ok [of open_ok ?opts st ss] ss(1) assms(4,5) paths by auto
  obtain sc' where sc': "map_of ss x = Some sc'"
    "outputLevel sc' = (case default_levels sets x of Some d \<Rightarrow> d | None \<Rightarrow> outputLevel sc)" using ss(2) by blast
  obtain effs where "scope_log l (env\<lparr>le_funcs := ls_funcs st'\<rparr>) sc' c = Some effs"
    "map en_Message (entries effs) = (if l \<le> outputLevel sc' then [call_text (le_fmt env) c] else [])"
    using scope_log_entries [of "env\<lparr>le_funcs := ls_funcs st'\<rparr>" pt l sc' c] st'(3) assms(6)
    by (auto simp: the_entry_def)
  then show ?thesis using st' sc' by (auto simp: FindScope_def)
qed

text \<open>
  A failed \<open>Configure\<close> leaves the writer, the captured loggers and the set of scopes as they were; the
  levels before the bad entry are applied all the same.
\<close>
theorem failed_Configure_keeps_writer:
  assumes "Configure open_ok opts st = (Some e, st')"
  shows "ls_funcs st' = ls_funcs st \<and> ls_captured st' = ls_captured st \<and> ls_grpc st' = ls_grpc st \<and>
    (FindScope x (ls_scopes st') = None \<longleftrightarrow> FindScope x (ls_scopes st) = None)"
  using assms updateScopes_dom [of opts "ls_scopes st" _ _ x]
  by (auto simp: Configure_def FindScope_def Let_def split: prod.splits sum.splits option.splits)

lemma initial_scopes_eq:
  "initial_scopes = [(DefaultScopeName, \<lparr>sc_name = DefaultScopeName, nameToEmit = [],
     sc_description = ''Unscoped logging messages.'', callerSkip = 0, outputLevel = InfoLevel,
     stackTraceLevel = NoneLevel, sc_logCallers = False\<rparr>)]"
  by (simp add: initial_scopes_def RegisterScope_def DefaultScopeName_def Let_def)

definition sample_open :: "string list \<Rightarrow> bool" where
  "sample_open paths \<longleftrightarrow> paths = [''stdout''] \<or> paths = [''stderr'']"

definition sample_log :: log_state where
  "sample_log = \<lparr>ls_scopes = initial_scopes @ [(''grpc'', \<lparr>sc_name = ''grpc'', nameToEmit = ''grpc'', sc_description = [],
     callerSkip = 0, outputLevel = InfoLevel, stackTraceLevel = NoneLevel, sc_logCallers = False\<rparr>)],
     ls_funcs = None, ls_captured = None, ls_grpc = None, ls_opened = []\<rparr>"

lemma sample_log_scopes:
  "FindScope ''grpc'' (ls_scopes sample_log) = Some \<lparr>sc_name = ''grpc'', nameToEmit = ''grpc'', sc_description = [],
     callerSkip = 0, outputLevel = InfoLevel, stackTraceLevel = NoneLevel, sc_logCallers = False\<rparr>"
  "FindScope DefaultScopeName (ls_scopes sample_log) \<noteq> None"
  by (simp_all add: FindScope_def sample_log_def initial_scopes_eq DefaultScopeName_def)

definition sample_log_env :: "(nat, nat) log_env" where
  "sample_log_env = \<lparr>le_write = (\<lambda>_ _ _. None), le_now = 7, le_fmt = (\<lambda>_. ''args'', \<lambda>t _. t), le_funcs = None\<rparr>"

theorem configured_levels_filter_witness:
  "\<exists>st' sc' effs. Configure sample_open (set_output_levels [(''grpc'', DebugLevel)] DefaultOptions) sample_log = (None, st') \<and>
    FindScope ''grpc'' (ls_scopes st') = Some sc' \<and>
    scope_log DebugLevel (sample_log_env\<lparr>le_funcs := ls_funcs st'\<rparr>) sc' (Msg ''m'' [1]) = Some effs \<and>
    map en_Message (entries effs) = [''m'']"
  using configured_levels_filter [of "[(''grpc'', DebugLevel)]" sample_log "''grpc''" _ sample_open DebugLevel sample_log_env "Msg ''m'' [1]",
      OF _ sample_log_scopes(2,1)]
  by (simp add: sample_log_scopes plain_scope_def sample_open_def default_levels_def sample_log_env_def)

theorem failed_Configure_keeps_writer_witness:
  "\<exists>st'. Configure sample_open (DefaultOptions\<lparr>outputLevels := ''default:warn,rpc:info''\<rparr>) sample_log = (Some (UnknownScope ''rpc''), st') \<and>
    ls_funcs st' = ls_funcs sample_log"
proof -
  have "fst (Configure sample_open (DefaultOptions\<lparr>outputLevels := ''default:warn,rpc:info''\<rparr>) sample_log) = Some (UnknownScope ''rpc'')"
    by code_simp
  then obtain st' where
    "Configure sample_open (DefaultOptions\<lparr>outputLevels := ''default:warn,rpc:info''\<rparr>) sample_log = (Some (UnknownScope ''rpc''), st')"
    by (cases "Configure sample_open (DefaultOptions\<lparr>outputLevels := ''default:warn,rpc:info''\<rparr>) sample_log") auto
  with failed_Configure_keeps_writer [OF this] show ?thesis by blast
qed

section \<open>Stack traces and fatal messages\<close>

text \<open>
  A method of the default scope does what the package's function of its level does, except where the
  stack trace level is between the level of errors and the level of the call: exactly for calls below
  errors that are written, of which one carries a stack trace and the other does not.
\<close>
theorem default_scope_methods_agree:
  assumes "le_funcs env = Some pt" "l \<noteq> NoneLevel"
  shows "default_log l env ss c = scope_log l env (defaultScope ss) c \<longleftrightarrow>
    (l \<le> outputLevel (defaultScope ss) \<and> WarnLevel \<le> l \<longrightarrow>
      (l \<le> stackTraceLevel (defaultScope ss) \<longleftrightarrow> ErrorLevel \<le> stackTraceLevel (defaultScope ss)))"
proof -
  have same: "emit_call env s level b c = emit_call env s level b' c \<longleftrightarrow> b = b'" for s level b b'
    by (auto simp: emit_call_eq [OF assms(1)] the_entry_def)
  show ?thesis using assms(2)
    by (cases l) (auto simp: log_calls scope_calls Let_def same level_order)
qed

text \<open>
  Once the package is configured, a message ends the process exactly when it is fatal and its scope is
  not silenced; the entry is written first, and nothing is reported after it.
\<close>
theorem fatal_ends_process:
  assumes "le_funcs env = Some pt" "l \<noteq> NoneLevel"
  shows "\<exists>effs. scope_log l env s c = Some effs \<and>
    (exited effs \<longleftrightarrow> l = FatalLevel \<and> outputLevel s \<noteq> NoneLevel) \<and>
    (exited effs \<longrightarrow> (\<exists>e. effs = [CoreWrite (pt_core pt) e (call_fields c), ExitProcess 1]))"
proof -
  have "FatalLevel \<le> outputLevel s \<longleftrightarrow> outputLevel s \<noteq> NoneLevel" by (cases "outputLevel s") (simp_all add: level_order)
  then show ?thesis using assms(2)
    by (cases l) (auto simp: scope_calls emit_call_eq [OF assms(1)] exited_def zap_levels split: option.split)
qed

definition sample_pt :: patchTable where
  "sample_pt = \<lparr>pt_core = \<lparr>core_json = False, core_sink = PathSink [''stdout''], core_enabler = AllLevels\<rparr>, pt_errorSink = [''stderr'']\<rparr>"

theorem default_scope_methods_agree_witness:
  "log_Info (sample_log_env\<lparr>le_funcs := Some sample_pt\<rparr>)
      [(DefaultScopeName, scope_SetStackTraceLevel ErrorLevel (snd (hd initial_scopes)))] (Sprint [1]) \<noteq>
   scope_Info (sample_log_env\<lparr>le_funcs := Some sample_pt\<rparr>)
      (defaultScope [(DefaultScopeName, scope_SetStackTraceLevel ErrorLevel (snd (hd initial_scopes)))]) (Sprint [1])"
  using default_scope_methods_agree [of "sample_log_env\<lparr>le_funcs := Some sample_pt\<rparr>" sample_pt InfoLevel
      "[(DefaultScopeName, scope_SetStackTraceLevel ErrorLevel (snd (hd initial_scopes)))]" "Sprint [1]"]
  by (simp add: defaultScope_def FindScope_def initial_scopes_eq scope_SetStackTraceLevel_def level_order)

theorem fatal_ends_process_witness:
  "\<exists>effs. scope_log FatalLevel (sample_log_env\<lparr>le_funcs := Some sample_pt\<rparr>) (snd (hd initial_scopes)) (Sprintf ''t'' [1]) = Some effs \<and>
    exited effs"
  using fatal_ends_process [of "sample_log_env\<lparr>le_funcs := Some sample_pt\<rparr>" sample_pt FatalLevel "snd (hd initial_scopes)" "Sprintf ''t'' [1]"]
  by (auto simp: initial_scopes_eq)

section \<open>Time stamps\<close>

text \<open>Reading the fields of a time stamp back, with the microseconds as the precision.\<close>

definition date_field :: "nat \<Rightarrow> nat \<Rightarrow> string \<Rightarrow> int" where
  "date_field i n text = read_pos (take n (drop i text))"

definition parseDate :: "string \<Rightarrow> date_time" where
  "parseDate text =
     \<lparr>dt_year = date_field 0 4 text, dt_month = date_field 5 2 text, dt_day = date_field 8 2 text,
      dt_hour = date_field 11 2 text, dt_minute = date_field 14 2 text, dt_second = date_field 17 2 text,
      dt_nanosecond = 1000 * date_field 20 6 text\<rparr>"

definition valid_date :: "date_time \<Rightarrow> bool" where
  "valid_date t \<longleftrightarrow> 0 \<le> dt_year t \<and> dt_year t < 10000 \<and> 1 \<le> dt_month t \<and> dt_month t \<le> 12 \<and>
     1 \<le> dt_day t \<and> dt_day t \<le> 31 \<and> 0 \<le> dt_hour t \<and> dt_hour t < 24 \<and> 0 \<le> dt_minute t \<and> dt_minute t < 60 \<and>
     0 \<le> dt_second t \<and> dt_second t < 60 \<and> 0 \<le> dt_nanosecond t \<and> dt_nanosecond t < 1000000000"

lemma digit_byte:
  assumes "0 \<le> d" "d < 10"
  shows "digit_val (byte_digit d) = d"
proof -
  have "d = 0 \<or> d = 1 \<or> d = 2 \<or> d = 3 \<or> d = 4 \<or> d = 5 \<or> d = 6 \<or> d = 7 \<or> d = 8 \<or> d = 9" using assms by presburger
  then show ?thesis by (auto simp: digit_val_def byte_digit_def)
qed

lemma pos_sdiv: "0 \<le> a \<Longrightarrow> 0 < b \<Longrightarrow> a sdiv b = a div (b :: int)"
  by (cases "a = 0") (simp_all add: signed_divide_int_def)

lemma pos_smod: "0 \<le> a \<Longrightarrow> 0 < b \<Longrightarrow> a smod b = a mod (b :: int)"
  by (cases "a = 0") (simp_all add: signed_modulo_int_def)

lemma digit_go_digit: "0 \<le> n \<Longrightarrow> 0 < p \<Longrightarrow> digit_val (go_digit n p) = n div p mod 10"
  by (simp add: go_digit_def pos_sdiv pos_smod pos_imp_zdiv_nonneg_iff digit_byte)

lemma digit_go_tens: "0 \<le> n \<Longrightarrow> n < 100 \<Longrightarrow> digit_val (go_tens n) = n div 10"
  by (simp add: go_tens_def pos_sdiv digit_byte)

lemma digit_go_ones: "0 \<le> n \<Longrightarrow> digit_val (go_ones n) = n mod 10"
  by (simp add: go_ones_def pos_smod digit_byte)

lemma read_two: "0 \<le> n \<Longrightarrow> n < 100 \<Longrightarrow> read_pos [go_tens n, go_ones n] = n"
  by (simp add: read_pos_def digit_go_tens digit_go_ones)

lemma div_below:
  assumes "0 < p" "n < p * k"
  shows "n div p < (k :: int)"
proof (rule ccontr)
  assume "\<not> n div p < k"
  then have "p * k \<le> p * (n div p)" using assms(1) by simp
  moreover have "p * (n div p) \<le> n" using mult_div_mod_eq [of p n] pos_mod_sign [OF assms(1), of n] by linarith
  ultimately show False using assms(2) by simp
qed

lemma push_digit: "10 * (n div (10 * p)) + n div p mod 10 = n div (p :: int)" if "0 < p"
  using that mult_div_mod_eq [of 10 "n div p"] by (simp add: zdiv_zmult2_eq mult.commute)

lemma read_four:
  assumes "0 \<le> n" "n < 10000"
  shows "read_pos [go_digit n 1000, go_digit n 100, go_digit n 10, go_digit n 1] = n"
proof -
  have top: "n div 1000 mod 10 = n div 1000"
    by (rule mod_pos_pos_trivial) (use assms div_below [of 1000 n 10] in \<open>simp_all add: pos_imp_zdiv_nonneg_iff\<close>)
  have "10 * (n div 1000) + n div 100 mod 10 = n div 100" "10 * (n div 100) + n div 10 mod 10 = n div 10"
    "10 * (n div 10) + n div 1 mod 10 = n"
    using push_digit [of 100 n] push_digit [of 10 n] push_digit [of 1 n] by simp_all
  then show ?thesis unfolding read_pos_def foldl.simps
    by (simp only: digit_go_digit [OF assms(1)] zero_less_numeral zero_less_one top mult_zero_right add_0)
qed

lemma read_six:
  assumes "0 \<le> n" "n < 1000000"
  shows "read_pos [go_digit n 100000, go_digit n 10000, go_digit n 1000, go_digit n 100, go_digit n 10, go_digit n 1] = n"
proof -
  have top: "n div 100000 mod 10 = n div 100000"
    by (rule mod_pos_pos_trivial) (use assms div_below [of 100000 n 10] in \<open>simp_all add: pos_imp_zdiv_nonneg_iff\<close>)
  have "10 * (n div 100000) + n div 10000 mod 10 = n div 10000" "10 * (n div 10000) + n div 1000 mod 10 = n div 1000"
    "10 * (n div 1000) + n div 100 mod 10 = n div 100" "10 * (n div 100) + n div 10 mod 10 = n div 10"
    "10 * (n div 10) + n div 1 mod 10 = n"
    using push_digit [of 10000 n] push_digit [of 1000 n] push_digit [of 100 n] push_digit [of 10 n] push_digit [of 1 n]
    by simp_all
  then show ?thesis unfolding read_pos_def foldl.simps
    by (simp only: digit_go_digit [OF assms(1)] zero_less_numeral zero_less_one top mult_zero_right add_0)
qed

text \<open>
  The time stamp of a line reads back as the date it was made from, cut to microseconds, for every
  valid date of a year below 10000; its length is 27 and it ends with Z whatever the location is.
\<close>
theorem time_stamp_round_trip:
  assumes "valid_date t"
  shows "parseDate (formatDate t) = t\<lparr>dt_nanosecond := 1000 * (dt_nanosecond t div 1000)\<rparr> \<and>
    length (formatDate t) = 27 \<and> last (formatDate t) = CHR ''Z''"
proof -
  let ?m = "dt_nanosecond t div 1000"
  have v: "0 \<le> dt_year t" "dt_year t < 10000" "0 \<le> dt_month t" "dt_month t < 100" "0 \<le> dt_day t" "dt_day t < 100"
    "0 \<le> dt_hour t" "dt_hour t < 100" "0 \<le> dt_minute t" "dt_minute t < 100" "0 \<le> dt_second t" "dt_second t < 100"
    "0 \<le> ?m" "?m < 1000000" "dt_nanosecond t sdiv 1000 = ?m" using assms div_below [of 1000 "dt_nanosecond t" 1000000]
    by (auto simp: valid_date_def pos_sdiv pos_imp_zdiv_nonneg_iff)
  have "parseDate (formatDate t) = t\<lparr>dt_nanosecond := 1000 * ?m\<rparr>"
    by (simp add: parseDate_def formatDate_def date_field_def Let_def v(15) numeral_eq_Suc)
      (simp add: read_two [OF v(3,4)] read_two [OF v(5,6)] read_two [OF v(7,8)] read_two [OF v(9,10)] read_two [OF v(11,12)]
        read_four [OF v(1,2)] read_six [OF v(13,14)])
  then show ?thesis by (simp add: formatDate_def Let_def)
qed

theorem time_stamp_round_trip_witness:
  "formatDate \<lparr>dt_year = 2021, dt_month = 3, dt_day = 14, dt_hour = 15, dt_minute = 9, dt_second = 26, dt_nanosecond = 535897932\<rparr>
     = ''2021-03-14T15:09:26.535897Z'' \<and>
   parseDate ''2021-03-14T15:09:26.535897Z'' =
     \<lparr>dt_year = 2021, dt_month = 3, dt_day = 14, dt_hour = 15, dt_minute = 9, dt_second = 26, dt_nanosecond = 535897000\<rparr>"
proof -
  let ?t = "\<lparr>dt_year = 2021, dt_month = 3, dt_day = 14, dt_hour = 15, dt_minute = 9, dt_second = 26, dt_nanosecond = 535897932\<rparr>"
  have "formatDate ?t = ''2021-03-14T15:09:26.535897Z''" by code_simp
  then show ?thesis using time_stamp_round_trip [of ?t] by (simp add: valid_date_def)
qed

section \<open>Captured messages\<close>

text \<open>
  The filter of the captured loggers knows three levels; every other one, fatal messages included, is
  let through only when the default scope writes debug messages.
\<close>

lemma captured_fatal_needs_debug:
  "core_enabled ss \<lparr>core_json = j, core_sink = k, core_enabler = DefaultScopeLevels\<rparr> zapFatal \<longleftrightarrow>
    outputLevel (defaultScope ss) = DebugLevel"
  by (simp add: core_enabled_def enabler_fun_def zap_levels scope_enabled)

text \<open>The defaults that the comments of the options give otherwise.\<close>

lemma default_options_values: "RotationMaxBackups DefaultOptions = 10" "\<not> LogGrpc DefaultOptions"
  by (simp_all add: DefaultOptions_def)

end
