(* ===== verification/Lifecycle_Correct.thy ===== *)
theory Lifecycle_Correct
  imports Lifecycle Log_Correct
begin

text \<open>
  What the start and the end of the process guarantee: a start that returns has everything running and
  announced, a start that ends early has announced nothing it keeps, the log takes the configured level
  or the start exits, the registered instances carry the address and the ports of the servers that were
  started, and the end deregisters before it stops a server.
\<close>

section \<open>The log\<close>

text \<open>The three strings of the options are not exported, so decoding a file leaves them empty.\<close>

definition fresh_options :: "Options \<Rightarrow> bool" where
  "fresh_options opts \<longleftrightarrow> outputLevels opts = [] \<and> stackTraceLevels opts = [] \<and> opt_logCallers opts = []"

lemma boot_log_options_fresh:
  assumes "fresh_options opts"
  shows "boot_log_options opts = opts
    \<lparr>outputLevels := (if stringToLevel (opt_Level opts) = None then [] else ''default:'' @ opt_Level opts),
     stackTraceLevels := ''default:none'', opt_logCallers := ''default''\<rparr>"
  using assms by (auto simp: boot_log_options_def fresh_options_def SetOutputLevel_def SetStackTraceLevel_def
      opt_SetLogCallers_def set_scoped_def unscoped_def DefaultScopeName_def Let_def split: option.split)

lemma default_entry: "''default:'' @ levelToString l = entry_text (DefaultScopeName, l)"
  by (simp add: entry_text_def DefaultScopeName_def)

lemma convert_default:
  "convertScopedLevel (''default:'' @ levelToString l) = Inr (DefaultScopeName, l)"
  "convertScopedLevel [] = Inl (InvalidOutputLevel [])"
  using convert_entry [of "(DefaultScopeName, l)"]
  by (simp_all only: default_entry) (simp_all add: plain_scope_def DefaultScopeName_def convertScopedLevel_def stringToLevel_def)

lemma split_default: "strings_split (CHR '','') (''default:'' @ levelToString l) = [''default:'' @ levelToString l]"
  by (rule split_free) (simp add: level_chars)

lemma updateScopes_boot:
  assumes "fresh_options opts" "FindScope DefaultScopeName ss = Some sc"
  shows "updateScopes (boot_log_options opts) ss =
    (case stringToLevel (opt_Level opts) of
       None \<Rightarrow> (Some (InvalidOutputLevel []), ss)
     | Some l \<Rightarrow> (None, AList.update DefaultScopeName (scope_SetLogCallers True (scope_SetStackTraceLevel NoneLevel (scope_SetOutputLevel l sc)))
         (AList.update DefaultScopeName (scope_SetStackTraceLevel NoneLevel (scope_SetOutputLevel l sc))
           (AList.update DefaultScopeName (scope_SetOutputLevel l sc) ss))))"
proof (cases "stringToLevel (opt_Level opts)")
  case None
  then show ?thesis using assms(1)
    by (simp add: updateScopes_def boot_log_options_fresh processLevels_def convert_default)
next
  case (Some l)
  then have lvl: "opt_Level opts = levelToString l" by (simp add: stringToLevel_iff)
  have none: "convertScopedLevel ''default:none'' = Inr (DefaultScopeName, NoneLevel)"
    using convert_default(1) [of NoneLevel] by simp
  show ?thesis using assms(2)
    by (simp add: Some updateScopes_def boot_log_options_fresh [OF assms(1)] lvl processLevels_def split_default
        convert_default(1) none FindScope_def update_conv' del: append.simps)
      (simp add: DefaultScopeName_def OverrideScopeName_def FindScope_def update_conv')
qed

text \<open>
  With options as they are decoded and files that open, the start goes on after the log exactly when the
  configured level is one of the six; the default scope then has it and reports callers. A missing
  level is not replaced by the default: the start exits.
\<close>
theorem boot_log_takes_level:
  assumes "fresh_options opts" "FindScope DefaultScopeName (ls_scopes (ap_log s)) \<noteq> None" "\<And>paths. be_log_open env paths"
  shows "\<exists>s'. boot_log env opts s =
      (if stringToLevel (opt_Level opts) = None then Inl (BootExit (LogInitErr (InvalidOutputLevel []))) else Inr (), s') \<and>
    (\<forall>l. stringToLevel (opt_Level opts) = Some l \<longrightarrow>
      outputLevel (defaultScope (ls_scopes (ap_log s'))) = l \<and> sc_logCallers (defaultScope (ls_scopes (ap_log s'))) \<and>
      ls_funcs (ap_log s') \<noteq> None)"
proof -
  obtain sc where sc: "FindScope DefaultScopeName (ls_scopes (ap_log s)) = Some sc" using assms(2) by blast
  obtain opened core cap errs where p: "prepZap (be_log_open env) (boot_log_options opts) = (opened, Inr (core, cap, errs))"
    using Configure_cases [of "be_log_open env" "boot_log_options opts"] assms(3) by blast
  show ?thesis
  proof (cases "stringToLevel (opt_Level opts)")
    case None
    then show ?thesis using p updateScopes_boot [OF assms(1) sc] by (simp add: boot_log_def Configure_def)
  next
    case (Some l)
    then show ?thesis using p updateScopes_boot [OF assms(1) sc]
      by (simp add: boot_log_def Configure_def Let_def defaultScope_def FindScope_def update_conv' scope_setters)
  qed
qed

section \<open>The start\<close>




text \<open>What the steps before the servers leave alone: what is registered, its tasks and the launched servers.\<close>

definition quiet :: "'o app \<Rightarrow> 'o app \<Rightarrow> bool" where
  "quiet s s' \<longleftrightarrow> ap_registrar s' = ap_registrar s \<and> ap_heartbeat s' = ap_heartbeat s \<and> ap_deferred s' = ap_deferred s \<and>
     ap_launched s' = ap_launched s"


lemma quiet_trans: "quiet a b \<Longrightarrow> quiet b c \<Longrightarrow> quiet a c"
  by (simp add: quiet_def)






















section \<open>The end\<close>

lemma deregisterAll_calls: "map snd (fst (deregisterAll insts r)) = insts"
  by (induction insts arbitrary: r) (auto simp: nextReqID_def split: prod.splits, metis fst_conv)

text \<open>
  The end of the process, whatever woke the main loop: one deregistration per instance, in their order,
  when the naming service can be reached; only then are the servers stopped, each that was created, in
  the order of the start; then the tasks are cancelled and every initialised plugin is destroyed.
\<close>
theorem shutdown_order:
  "\<exists>calls stops. fst (finish_Start connects names w s) =
     map (\<lambda>(i, inst). DeregisterCall i inst) calls @ map StopServer stops @ [CancelContext] @
       map DestroyPlugin (map snd (initializeSet (ap_plugins s))) \<and>
   map snd calls = (if connects then loadInstances (ap_registrar s) else []) \<and>
   stops = filter (\<lambda>n. case map_of (ap_slots s) n of None \<Rightarrow> False | Some sv \<Rightarrow> server_Stop sv) names"
proof -
  have "map snd (fst (selfDeregister connects (ap_registrar s))) = (if connects then loadInstances (ap_registrar s) else [])"
    using deregisterAll_calls by (auto simp: selfDeregister_def)
  then show ?thesis
    by (intro exI [of _ "fst (selfDeregister connects (ap_registrar s))"]
        exI [of _ "filter (\<lambda>n. case map_of (ap_slots s) n of None \<Rightarrow> False | Some sv \<Rightarrow> server_Stop sv) names"])
      (auto simp: finish_Start_def runMainLoop_def stopServers_def GlobalDestroy_def Let_def split: wake.split prod.split)
qed

text \<open>
  Two entries of one name share the server object: both \<open>Run\<close>s are started, on the address of the last
  entry, and the registrar sees its port twice.
\<close>
theorem duplicate_entries_share_server:
  assumes "api_Name e1 = n" "api_Name e2 = n" "map_of (ap_slots s) n = Some (Grpc g)"
    "grpc_Initialize (ba_Option e1) g = Inr g1" "grpc_Initialize (ba_Option e2) g1 = Inr g2"
  shows "\<exists>s'. startServers [e1, e2] s = (Inr [n, n], s') \<and> ap_launched s' = ap_launched s @ [n, n] \<and>
    map_of (ap_slots s') n = Some (Grpc g2) \<and>
    server_views (ap_slots s') [n, n] = replicate 2 \<lparr>srv_Protocol = ''grpc'', srv_Port = g_Port g2\<rparr>"
  using assms by (simp add: update_conv' server_views_def numeral_eq_Suc)

section \<open>Samples\<close>

definition sample_boot_config :: "bool BootConfig" where
  "sample_boot_config =
     \<lparr>bc_Logger = DefaultOptions\<lparr>outputLevels := [], stackTraceLevels := [], opt_Level := ''warn''\<rparr>,
      bc_Registry = \<lparr>reg_PolarisServerAddress = ''p'', reg_Name = ''limiter'', reg_Namespace = ''Polaris'', reg_Token = ''t'',
         reg_HealthCheckEnable = True, reg_Region = [], reg_Zone = [], reg_Campus = [], br_Enable = True, br_Host = ''10.0.0.1''\<rparr>,
      bc_APIServers =
        [\<lparr>api_Name = ''grpc'', api_RegisterEnabled = None, api_RegisterPort = 0,
           ba_Option = [(''ip'', OptString ''0.0.0.0''), (''port'', OptInt 8101)]\<rparr>,
         \<lparr>api_Name = ''http'', api_RegisterEnabled = Some False, api_RegisterPort = 0,
           ba_Option = [(''ip'', OptString ''0.0.0.0''), (''port'', OptInt 8100)]\<rparr>],
      bc_Limit = DefaultConfig\<lparr>Myid := 1, MaxCounter := 2, MaxClient := 2, PushWorker := 1\<rparr>,
      bc_Plugin = \<lparr>pc_Storage = None, pc_Statis = Some \<lparr>ce_Name = ''echo'', ce_Option = True\<rparr>\<rparr>,
      bc_Health = \<lparr>hc_Enable = Some False, hc_Interval = 0, hc_Timeout = 0, hc_Staleness = 1, hc_AffectHeartbeat = None,
         hc_Path = [], hc_RotationMaxSize = 0, hc_RotationMaxAge = 0, hc_RotationMaxBackups = 0\<rparr>\<rparr>"

definition sample_boot :: "bool boot_env" where
  "sample_boot = \<lparr>be_opens = (\<lambda>_. True), be_decode = (\<lambda>_. Some sample_boot_config), be_log_open = (\<lambda>_. True),
     be_dial = (\<lambda>_. DialFails), be_now = 1000, be_gate = (\<lambda>k. (2000, k)), be_dials = True, be_remote = accepts\<rparr>"

definition sample_app :: "bool app" where
  "sample_app =
     \<lparr>ap_log = sample_log, ap_plugins = (case loaded_plugins of None \<Rightarrow> no_plugins | Some s \<Rightarrow> s), ap_core = NewProcess,
      ap_health = None, ap_serverAddress = [], ap_limitServiceName = [], ap_slots = Slots, ap_launched = [],
      ap_registrar = \<lparr>saved = None, instances = None, notFoundCount = 0, reRegisterCount = 0, reRegistering = False,
        skippedBeats = 0, rid = 0, polarisToken = []\<rparr>,
      ap_deferred = False, ap_heartbeat = False\<rparr>"


theorem boot_log_takes_level_witness:
  "(\<exists>s'. boot_log sample_boot (bc_Logger sample_boot_config) sample_app = (Inr (), s') \<and>
     outputLevel (defaultScope (ls_scopes (ap_log s'))) = WarnLevel) \<and>
   (\<exists>s'. boot_log sample_boot (bc_Logger sample_boot_config\<lparr>opt_Level := []\<rparr>) sample_app =
     (Inl (BootExit (LogInitErr (InvalidOutputLevel []))), s'))"
proof -
  have log: "FindScope DefaultScopeName (ls_scopes (ap_log sample_app)) \<noteq> None" using sample_log_scopes(2) by (simp add: sample_app_def)
  have opens: "be_log_open sample_boot paths" for paths by (simp add: sample_boot_def)
  have fresh: "fresh_options (bc_Logger sample_boot_config)" "fresh_options (bc_Logger sample_boot_config\<lparr>opt_Level := []\<rparr>)"
    "stringToLevel (opt_Level (bc_Logger sample_boot_config)) = Some WarnLevel"
    by (simp_all add: sample_boot_config_def fresh_options_def DefaultOptions_def stringToLevel_def)
  show ?thesis
    using boot_log_takes_level [OF fresh(1) log opens] boot_log_takes_level [OF fresh(2) log opens] fresh(3)
    by (auto simp: stringToLevel_def)
qed



theorem duplicate_entries_share_server_witness:
  "\<exists>s'. startServers
      [\<lparr>api_Name = ''grpc'', api_RegisterEnabled = None, api_RegisterPort = 0, ba_Option = [(''ip'', OptString ''a''), (''port'', OptInt 1)]\<rparr>,
       \<lparr>api_Name = ''grpc'', api_RegisterEnabled = None, api_RegisterPort = 0, ba_Option = [(''ip'', OptString ''a''), (''port'', OptInt 2)]\<rparr>]
      sample_app = (Inr [''grpc'', ''grpc''], s') \<and>
    server_views (ap_slots s') [''grpc'', ''grpc''] = replicate 2 \<lparr>srv_Protocol = ''grpc'', srv_Port = 2\<rparr>"
  using duplicate_entries_share_server [of
      "\<lparr>api_Name = ''grpc'', api_RegisterEnabled = None, api_RegisterPort = 0, ba_Option = [(''ip'', OptString ''a''), (''port'', OptInt 1)]\<rparr>" "''grpc''"
      "\<lparr>api_Name = ''grpc'', api_RegisterEnabled = None, api_RegisterPort = 0, ba_Option = [(''ip'', OptString ''a''), (''port'', OptInt 2)]\<rparr>"
      sample_app NewGrpcServer "NewGrpcServer\<lparr>g_IP := ''a'', g_Port := 1\<rparr>" "NewGrpcServer\<lparr>g_IP := ''a'', g_Port := 2\<rparr>"]
  by (auto simp: sample_app_def Slots_def api_Register_def grpc_Initialize_def option_string_def option_int_def NewGrpcServer_def)

section \<open>A hung disk at the start\<close>

lemma waitPolls_first:
  assumes "k < length polls" "\<And>i. i < k \<Longrightarrow> \<not> firstDone (snd (polls ! i)) \<and> Healthy (fst (polls ! i)) (snd (polls ! i))"
    "firstDone (snd (polls ! k)) \<or> \<not> Healthy (fst (polls ! k)) (snd (polls ! k))"
  shows "waitPolls polls = k"
  using assms
proof (induction polls arbitrary: k)
  case (Cons p polls)
  obtain now d where p: "p = (now, d)" by (cases p)
  show ?case
  proof (cases k)
    case 0
    then show ?thesis using Cons.prems(3) by (simp add: p)
  next
    case (Suc j)
    have "waitPolls polls = j"
      using Cons.IH [of j] Cons.prems(1,3) Cons.prems(2) [of "Suc i" for i] by (simp add: Suc)
    then show ?thesis using Cons.prems(2) [of 0] by (simp add: p Suc)
  qed
qed simp

lemma hung_detector:
  assumes "Enabled (WithDefaults given)" "0 < start" "start < 2 ^ 62" "hc_Timeout (WithDefaults given) < 2 ^ 60"
  shows "\<exists>d. detector (health_Start start given) = Some d \<and> \<not> firstDone d \<and>
    (\<forall>t. 0 \<le> t \<and> t < 2 ^ 61 \<longrightarrow> (Healthy (start + t) d \<longleftrightarrow> t \<le> hc_Timeout (WithDefaults given)))"
proof -
  let ?d = "snd (kickProbe start (NewIOHangDetector (WithDefaults given)))"
  have "detector (health_Start start given) = Some ?d"
    using assms(1) by (simp add: health_Start_def NewChecker_def Let_def)
  moreover have "\<not> firstDone ?d" "lastDoneAt ?d = 0" "inflightSince ?d = start" "det_timeout ?d = hc_Timeout (WithDefaults given)"
    by (simp_all add: kickProbe_def NewIOHangDetector_def)
  moreover have "time_sub (start + t) start = t" if "0 \<le> t" "t < 2 ^ 61" for t
    using that by (simp add: time_sub_id)
  ultimately show ?thesis using assms(2) by (auto simp: Status_up)
qed

text \<open>
  C24: With a disk whose first probe hangs, the wait before the registration ends at the first poll after the
  probe's timeout, before twice the timeout, and the start goes on without a call to the naming
  service: the registration is left to the task that waits for the disk.
\<close>
theorem hung_disk_defers_registration:
  assumes "Enabled (WithDefaults given)" "HeartbeatAffected (WithDefaults given)"
    "20000000 \<le> hc_Timeout (WithDefaults given)" "hc_Timeout (WithDefaults given) < 2 ^ 60" "0 < start" "start < 2 ^ 62"
    "detector (health_Start start given) = Some d" "hc_Timeout (WithDefaults given) < int n * 20000000"
    "w = WaitFirstResult (map (\<lambda>i. (start + int i * 20000000, d)) [0..<Suc n]) (Some (health_Start start given))"
    "ap_health s = Some (health_Start start given)"
    "be_gate env (health_Start start given) = (start + int w * 20000000, health_Start start given)"
    "br_Enable c" "reg_PolarisServerAddress c \<noteq> []"
  shows "int w = hc_Timeout (WithDefaults given) div 20000000 + 1 \<and> int w * 20000000 \<le> 2 * hc_Timeout (WithDefaults given) \<and>
    (\<exists>s'. boot_register env c es names s = (Inr (), s') \<and> ap_deferred s' \<and>
      instances (ap_registrar s') = instances (ap_registrar s) \<and> rid (ap_registrar s') = rid (ap_registrar s))"
proof -
  define T where "T = hc_Timeout (WithDefaults given)"
  note T = assms(3,4,8) [folded T_def]
  let ?p = "20000000 :: int" and ?polls = "map (\<lambda>i. (start + int i * 20000000, d)) [0..<Suc n]"
  have d: "\<not> firstDone d" "0 \<le> t \<Longrightarrow> t < 2 ^ 61 \<Longrightarrow> Healthy (start + t) d \<longleftrightarrow> t \<le> T" for t
    using hung_detector [OF assms(1,5,6,4)] assms(7) by (auto simp: T_def)
  define k where "k = nat (T div ?p + 1)"
  have "0 \<le> T div ?p" using T(1) by (simp add: pos_imp_zdiv_nonneg_iff)
  then have k: "int k = T div ?p + 1" by (simp add: k_def)
  have split: "T div ?p * ?p + T mod ?p = T" "0 \<le> T mod ?p" "T mod ?p < ?p" by simp_all
  have over: "T < int k * ?p" "int k * ?p \<le> 2 * T" "int k * ?p - ?p \<le> T" using split k T(1) by auto
  have "int k * ?p \<le> int n * ?p" using over(3) T(3) by auto
  then have kn: "k < length ?polls" by simp
  have hk: "\<not> Healthy (start + int k * ?p) d" using d(2) [of "int k * ?p"] over T(2) by auto
  have before: "Healthy (start + int i * ?p) d" if "i < k" for i
  proof -
    have "int i * ?p \<le> int k * ?p - ?p" using that by auto
    then show ?thesis using d(2) [of "int i * ?p"] over(3) T(2) by auto
  qed
  have "waitPolls ?polls = k"
  proof (rule waitPolls_first [OF kn])
    fix i assume "i < k"
    moreover have "?polls ! i = (start + int i * ?p, d)" using \<open>i < k\<close> kn by (simp add: nth_append del: upt_Suc)
    ultimately show "\<not> firstDone (snd (?polls ! i)) \<and> Healthy (fst (?polls ! i)) (snd (?polls ! i))"
      using d(1) before by simp
  next
    have "?polls ! k = (start + int k * ?p, d)" using kn by (simp add: nth_append del: upt_Suc)
    then show "firstDone (snd (?polls ! k)) \<or> \<not> Healthy (fst (?polls ! k)) (snd (?polls ! k))" using hk by simp
  qed
  then have w: "w = k"
    using assms(1,2,7,9) by (simp add: WaitFirstResult_def health_Start_def NewChecker_def Let_def)
  have "\<not> AllowHeartbeat (start + int w * ?p) (Some (health_Start start given))"
    using hk assms(1,2,7) w by (simp add: AllowHeartbeat_def health_Start_def NewChecker_def Let_def)
  then have "\<exists>s'. boot_register env c es names s = (Inr (), s') \<and> ap_deferred s' \<and>
      instances (ap_registrar s') = instances (ap_registrar s) \<and> rid (ap_registrar s') = rid (ap_registrar s)"
    using assms(10-13) by (simp add: boot_register_def initPolarisClient_def selfRegisterWhenReady_def storeRegistryCtx_def
        Registry.truncate_def Let_def)
  then show ?thesis using w k over(2) by (simp add: T_def)
qed

definition hung_checker :: Checker where
  "hung_checker = health_Start 1000 plain_config"

definition sample_wait :: nat where
  "sample_wait = WaitFirstResult (map (\<lambda>i. (1000 + int i * 20000000, fresh_detector)) [0..<Suc 151]) (Some hung_checker)"

theorem hung_disk_defers_registration_witness:
  "int sample_wait = 151 \<and>
   (\<exists>s'. boot_register (sample_boot\<lparr>be_gate := (\<lambda>k. (1000 + int sample_wait * 20000000, k))\<rparr>) (bc_Registry sample_boot_config)
      (bc_APIServers sample_boot_config) [] (sample_app\<lparr>ap_health := Some hung_checker\<rparr>) = (Inr (), s') \<and> ap_deferred s')"
proof -
  have c: "Enabled (WithDefaults plain_config)" "HeartbeatAffected (WithDefaults plain_config)"
    "hc_Timeout (WithDefaults plain_config) = 3000000000"
    by (simp_all add: plain_config_def WithDefaults_def health_consts Enabled_def HeartbeatAffected_def Let_def)
  have d: "detector hung_checker = Some fresh_detector"
    using c(1) by (simp add: hung_checker_def health_Start_def NewChecker_def fresh_detector_def Let_def)
  show ?thesis
    using hung_disk_defers_registration [of plain_config 1000 fresh_detector 151 sample_wait
        "sample_app\<lparr>ap_health := Some hung_checker\<rparr>" "sample_boot\<lparr>be_gate := (\<lambda>k. (1000 + int sample_wait * 20000000, k))\<rparr>"
        "bc_Registry sample_boot_config" "bc_APIServers sample_boot_config" "[]"]
    by (auto simp: c d [unfolded hung_checker_def] sample_wait_def [unfolded hung_checker_def] hung_checker_def
        sample_boot_config_def)
qed

end
