(* ===== verification/Request_Context.thy ===== *)
theory Request_Context
  imports Endpoints
begin

text \<open>
  \<open>pkg/utils/context.go\<close>, the log fields of \<open>pkg/utils/zap.go\<close> that read it, and \<open>apiserver/http/http.go\<close>: the
  values that a request context carries, how an HTTP request fills it, and the answer of a handler. A
  context is nil or a list of keys and values, of which the last one put under a key is read.
\<close>

section \<open>Context values\<close>

datatype ctx_key = RequestIDKey | ClientIPKey | StructClientIPKey | ClientAddrKey | UserAgentKey

datatype ctx_value = CtxString string | CtxIP "IPAddress option"

type_synonym req_context = "(ctx_key \<times> ctx_value) list"

definition Background :: req_context where "Background = []"

definition WithValue :: "req_context \<Rightarrow> ctx_key \<Rightarrow> ctx_value \<Rightarrow> req_context" where
  "WithValue ctx k v = (k, v) # ctx"

definition WithRequestID :: "req_context \<Rightarrow> string \<Rightarrow> req_context" where
  "WithRequestID ctx requestID = WithValue ctx RequestIDKey (CtxString requestID)"

definition WithClientIP :: "req_context \<Rightarrow> string \<Rightarrow> req_context" where
  "WithClientIP ctx ip = WithValue ctx ClientIPKey (CtxString ip)"

definition WithStructClientIP :: "req_context \<Rightarrow> IPAddress option \<Rightarrow> req_context" where
  "WithStructClientIP ctx ip = WithValue ctx StructClientIPKey (CtxIP ip)"

definition WithClientAddr :: "req_context \<Rightarrow> string \<Rightarrow> req_context" where
  "WithClientAddr ctx addr = WithValue ctx ClientAddrKey (CtxString addr)"

definition WithUserAgent :: "req_context \<Rightarrow> string \<Rightarrow> req_context" where
  "WithUserAgent ctx agent = WithValue ctx UserAgentKey (CtxString agent)"

text \<open>A nil context, an absent value and a value of another type are read as the empty text.\<close>

definition ctx_string :: "req_context option \<Rightarrow> ctx_key \<Rightarrow> string" where
  "ctx_string ctx k = (case ctx of None \<Rightarrow> [] | Some c \<Rightarrow> (case map_of c k of Some (CtxString s) \<Rightarrow> s | _ \<Rightarrow> []))"

definition ParseRequestID :: "req_context option \<Rightarrow> string" where "ParseRequestID ctx = ctx_string ctx RequestIDKey"
definition ParseClientIP :: "req_context option \<Rightarrow> string" where "ParseClientIP ctx = ctx_string ctx ClientIPKey"
definition ParseClientAddr :: "req_context option \<Rightarrow> string" where "ParseClientAddr ctx = ctx_string ctx ClientAddrKey"
definition ParseUserAgent :: "req_context option \<Rightarrow> string" where "ParseUserAgent ctx = ctx_string ctx UserAgentKey"

text \<open>The address is a pointer: None is a nil one, and an absent value is a zero address.\<close>

definition zeroIPAddress :: IPAddress where
  "zeroIPAddress = \<lparr>LowValue = 0, HighValue = 0\<rparr>"

definition ParseStructClientIP :: "req_context option \<Rightarrow> IPAddress option" where
  "ParseStructClientIP ctx =
     (case ctx of
        None \<Rightarrow> Some zeroIPAddress
      | Some c \<Rightarrow> (case map_of c StructClientIPKey of Some (CtxIP ip) \<Rightarrow> ip | _ \<Rightarrow> Some zeroIPAddress))"

section \<open>Log fields\<close>

datatype zap_field = ZapString string string | ZapInt64 string int | ZapUint32 string u32

definition ZapRequestID :: "req_context option \<Rightarrow> zap_field" where
  "ZapRequestID ctx = ZapString ''request-id'' (ParseRequestID ctx)"
definition ZapClientAddr :: "req_context option \<Rightarrow> zap_field" where
  "ZapClientAddr ctx = ZapString ''client-addr'' (ParseClientAddr ctx)"
definition ZapUserAgent :: "req_context option \<Rightarrow> zap_field" where
  "ZapUserAgent ctx = ZapString ''user-agent'' (ParseUserAgent ctx)"
definition ZapMethod :: "string \<Rightarrow> zap_field" where
  "ZapMethod method = ZapString ''method'' method"
definition ZapLimitKey :: "string \<Rightarrow> zap_field" where
  "ZapLimitKey key = ZapString ''limiter-key'' key"
definition ZapLimitService :: "string \<Rightarrow> string \<Rightarrow> zap_field" where
  "ZapLimitService service namespace = ZapString ''service'' (namespace @ '':'' @ service)"
definition ZapMsgId :: "int \<Rightarrow> zap_field" where "ZapMsgId msgId = ZapInt64 ''msgId'' msgId"
definition ZapCode :: "u32 \<Rightarrow> zap_field" where "ZapCode code = ZapUint32 ''code'' code"

section \<open>HTTP requests\<close>

text \<open>The context of a request, from its header and the remote address of its connection.\<close>

definition requestCtx :: "string \<Rightarrow> string \<Rightarrow> req_context" where
  "requestCtx requestID remoteAddr =
     (let ctx = WithClientAddr (WithRequestID Background requestID) remoteAddr;
          addrSlice = strings_split (CHR '':'') remoteAddr
      in if length addrSlice = 2 then WithClientIP ctx (addrSlice ! 0) else ctx)"

text \<open>
  \<open>ParseProto\<close>: the body, or the error of reading it, and the library's decoding of it. The handler keeps
  the context even when it fails.
\<close>

record http_request =
  hr_requestID :: string
  hr_remoteAddr :: string
  hr_body :: "string + string"

definition ParseProto :: "(string \<Rightarrow> string + 'm) \<Rightarrow> http_request \<Rightarrow> (string + 'm) \<times> req_context" where
  "ParseProto unmarshal req =
     (bindR (hr_body req) unmarshal, requestCtx (hr_requestID req) (hr_remoteAddr req))"

datatype http_effect = AddHeader string string | WriteHeader int | WriteBody string

definition ResponseProto :: "('m \<Rightarrow> string + string) \<Rightarrow> req_context option \<Rightarrow> u32 \<Rightarrow> 'm option \<Rightarrow> http_effect list" where
  "ResponseProto marshal ctx code obj =
     (case obj of
        None \<Rightarrow> [WriteHeader 200]
      | Some m \<Rightarrow> [AddHeader ''Request-Id'' (ParseRequestID ctx), WriteHeader (Code2HTTPStatus code)] @
          (case marshal m of Inl _ \<Rightarrow> [] | Inr data \<Rightarrow> [WriteBody data]))"

section \<open>Lemmas\<close>

lemmas with_defs = WithRequestID_def WithClientIP_def WithStructClientIP_def WithClientAddr_def WithUserAgent_def WithValue_def
lemmas parse_defs = ParseRequestID_def ParseClientIP_def ParseClientAddr_def ParseUserAgent_def ctx_string_def

text \<open>The context that the interceptor builds for a stream, in the order of its calls.\<close>

definition stream_context :: "RequestContext \<Rightarrow> req_context" where
  "stream_context r =
     (let ctx = WithUserAgent (WithRequestID Background (rc_requestID r)) (rc_userAgent r);
          ctx = (case rc_clientAddr r of None \<Rightarrow> ctx | Some a \<Rightarrow> WithClientAddr ctx a)
      in WithStructClientIP (WithClientIP ctx (rc_clientIP r)) (Some (rc_structIP r)))"

text \<open>
  The values that \<open>parseContext\<close> puts into the context of a stream are the ones that the accessors read
  back: none hides another, and a peer without an address reads as the empty text.
\<close>
theorem stream_context_read_back:
  "let r = parseContext metadata peer; ctx = Some (stream_context r) in
   ParseRequestID ctx = rc_requestID r \<and> ParseUserAgent ctx = rc_userAgent r \<and> ParseClientIP ctx = rc_clientIP r \<and>
   ParseStructClientIP ctx = Some (NewIPAddress (rc_clientIP r)) \<and>
   ParseClientAddr ctx = (case peer of None \<Rightarrow> [] | Some a \<Rightarrow> a)"
  by (simp add: stream_context_def with_defs parse_defs ParseStructClientIP_def Background_def parseContext_def Let_def
      split: option.split)

section \<open>The wrapped stream\<close>

text \<open>
  \<open>streamInterceptor\<close> of \<open>apiserver/grpc/interceptor.go\<close> hands the handler a stream that calls the interceptor
  around every receive and send. A handler is seen as what it does with the stream, each receive with
  its time and each receive and send with the outcome of the transport, and the error it returns.
\<close>

datatype stream_op = Receives int bool | Sends rsp bool

datatype stream_log = ResponseInvalid | ErrorResponse "zap_field list" | HandlerErr string "zap_field list"

definition request_fields :: "interceptor \<Rightarrow> zap_field list" where
  "request_fields i =
     (let ctx = Some (stream_context (i_ctx i))
      in [ZapRequestID ctx, ZapClientAddr ctx, ZapUserAgent ctx, ZapMethod (i_fullMethod i)])"

fun response_log :: "interceptor \<Rightarrow> interceptor_log option \<Rightarrow> stream_log list" where
  "response_log i None = []"
| "response_log i (Some InvalidResponse) = [ResponseInvalid]"
| "response_log i (Some (SendErrorResp rspCode msgId)) = [ErrorResponse (request_fields i @ [ZapCode rspCode, ZapMsgId msgId])]"

fun stream_do :: "stream_op \<Rightarrow> interceptor \<Rightarrow> bool \<times> stream_log list \<times> interceptor" where
  "stream_do (Receives now fails) i = (let (failed, i') = RecvMsg now fails i in (failed, [], i'))"
| "stream_do (Sends r fails) i = (let (failed, l) = SendMsg r fails in (failed, response_log i l, i))"

fun stream_run :: "stream_op list \<Rightarrow> interceptor \<Rightarrow> bool list \<times> stream_log list \<times> interceptor" where
  "stream_run [] i = ([], [], i)"
| "stream_run (op # ops) i =
     (let (failed, ls, i1) = stream_do op i; (fs, ls', i2) = stream_run ops i1 in (failed # fs, ls @ ls', i2))"

definition streamInterceptor :: "RequestContext \<Rightarrow> string \<Rightarrow> stream_op list \<Rightarrow> string option \<Rightarrow> string option \<times> bool list \<times> stream_log list" where
  "streamInterceptor c fullMethod ops err =
     (let (fs, ls, tor) = stream_run ops (newInterceptor c fullMethod)
      in case err of None \<Rightarrow> (None, fs, ls) | Some e \<Rightarrow> (Some e, fs, ls @ [HandlerErr e (request_fields tor)]))"

fun transport_fails :: "stream_op \<Rightarrow> bool" where
  "transport_fails (Receives now fails) = fails"
| "transport_fails (Sends r fails) = fails"

fun sent_response :: "stream_op \<Rightarrow> rsp list" where
  "sent_response (Receives now fails) = []"
| "sent_response (Sends r fails) = [r]"

lemma request_fields_cong: "i_ctx i = i_ctx j \<Longrightarrow> i_fullMethod i = i_fullMethod j \<Longrightarrow> request_fields i = request_fields j"
  by (simp add: request_fields_def Let_def)

lemma response_log_cong: "i_ctx i = i_ctx j \<Longrightarrow> i_fullMethod i = i_fullMethod j \<Longrightarrow> response_log i l = response_log j l"
  using request_fields_cong [of i j] by (cases "(i, l)" rule: response_log.cases) simp_all

lemma stream_run_result:
  assumes "i_ctx i = c" "i_fullMethod i = m"
  shows "\<exists>i'. stream_run ops i = (map transport_fails ops, concat (map (\<lambda>r. response_log (newInterceptor c m) (interceptor_postProcess r)) (concat (map sent_response ops))), i') \<and>
    i_ctx i' = c \<and> i_fullMethod i' = m"
  using assms
proof (induction ops arbitrary: i)
  case (Cons op ops)
  obtain i1 where i1: "stream_do op i = (transport_fails op, concat (map (\<lambda>r. response_log (newInterceptor c m) (interceptor_postProcess r)) (sent_response op)), i1)"
    "i_ctx i1 = c" "i_fullMethod i1 = m"
  proof (cases op)
    case (Receives now fails)
    then show thesis using that [of "if fails then i else preProcess now i"] Cons.prems by (simp add: RecvMsg_def preProcess_def)
  next
    case (Sends r fails)
    then show thesis using that [of i] Cons.prems response_log_cong [of i "newInterceptor c m" "interceptor_postProcess r"]
      by (simp add: SendMsg_def newInterceptor_def)
  qed
  then show ?case using Cons.IH [OF i1(2,3)] by auto
qed simp

text \<open>
  The wrapping is transparent: the handler meets the outcomes of the transport, and its error is
  returned. The log has a line for every response that is not a success, sent or not, with the values of
  the request, and one for the error.
\<close>
theorem stream_is_transparent:
  "streamInterceptor c m ops err =
    (err, map transport_fails ops,
     concat (map (\<lambda>r. response_log (newInterceptor c m) (interceptor_postProcess r)) (concat (map sent_response ops))) @
     (case err of None \<Rightarrow> [] | Some e \<Rightarrow> [HandlerErr e (request_fields (newInterceptor c m))]))"
proof -
  obtain i' where i': "stream_run ops (newInterceptor c m) = (map transport_fails ops,
      concat (map (\<lambda>r. response_log (newInterceptor c m) (interceptor_postProcess r)) (concat (map sent_response ops))), i')"
    "i_ctx i' = c" "i_fullMethod i' = m"
    using stream_run_result [of "newInterceptor c m" c m ops] by (auto simp: newInterceptor_def)
  have "request_fields i' = request_fields (newInterceptor c m)" using i'(2,3) by (intro request_fields_cong) (simp_all add: newInterceptor_def)
  then show ?thesis using i'(1) by (simp add: streamInterceptor_def split: option.split)
qed

text \<open>
  The client's IP of an HTTP request is the host of its remote address when that has one colon; for an
  IPv6 peer, whose address has more, it stays empty, and the request is known by its address only.
\<close>
theorem http_client_ip:
  assumes "CHR '':'' \<notin> set host" "CHR '':'' \<notin> set port"
  shows "ParseClientIP (Some (requestCtx i (host @ '':'' @ port))) = host \<and>
    ParseClientIP (Some (requestCtx i (''['' @ host @ '':'' @ x @ '']:'' @ port))) = [] \<and>
    ParseClientAddr (Some (requestCtx i a)) = a \<and> ParseRequestID (Some (requestCtx i a)) = i"
proof -
  have one: "strings_split (CHR '':'') (host @ '':'' @ port) = [host, port]"
    using assms by (simp add: split_append split_free)
  have "strings_split (CHR '':'') (''['' @ host @ '':'' @ x @ '']:'' @ port) =
      (''['' @ host) # strings_split (CHR '':'') (x @ '']:'' @ port)"
    using split_append [of "CHR '':''" "''['' @ host" "x @ '']:'' @ port"] assms by simp
  moreover have "2 \<le> length (strings_split (CHR '':'') (x @ '']:'' @ port))"
  proof (rule ccontr)
    let ?items = "strings_split (CHR '':'') (x @ '']:'' @ port)"
    assume "\<not> 2 \<le> length ?items"
    then obtain item where item: "?items = [item]" using strings_split_nonempty [of "CHR '':''" "x @ '']:'' @ port"]
      by (cases ?items; cases "tl ?items") auto
    then have "item = x @ '']:'' @ port" using join_split [of "CHR '':''" "x @ '']:'' @ port"] by simp
    then show False using split_item_free [of item "CHR '':''" "x @ '']:'' @ port"] item by simp
  qed
  ultimately have many: "length (strings_split (CHR '':'') (''['' @ host @ '':'' @ x @ '']:'' @ port)) \<noteq> 2" by simp
  show ?thesis using one many
    by (simp add: requestCtx_def with_defs parse_defs Background_def Let_def)
qed

theorem http_client_ip_witness:
  "ParseClientIP (Some (requestCtx ''r1'' ''10.0.0.1:5000'')) = ''10.0.0.1'' \<and>
   ParseClientIP (Some (requestCtx ''r1'' ''[2001:db8::1]:5000'')) = []"
  using http_client_ip [of "''10.0.0.1''" "''5000''" "''r1''"] http_client_ip [of "''2001''" "''5000''" "''r1''" "''db8::1''"] by simp

end
