(* ===== verification/Statis_Workers.thy ===== *)
theory Statis_Workers
  imports Servers Metrics
begin

text \<open>
  The statistics plugins behind the interface \<open>Statis\<close> of \<open>plugin/statis_api.go\<close>: \<open>plugin/statis/echo\<close>, the
  file plugin of \<open>plugin/statis/file/file.go\<close> and the metrics plugin of \<open>plugin/statis/prometheus\<close>, from their
  initialisation on. The interface is a record of its methods; the locale states what its users rely
  on, and each plugin is an instance of it once it is initialised.
\<close>

section \<open>The interface\<close>

record 'w statis =
  CreateV1 :: "string \<Rightarrow> 'w \<Rightarrow> panic + (collectorV1 \<times> 'w)"
  CreateV2 :: "string \<Rightarrow> 'w \<Rightarrow> panic + (collectorV2 \<times> 'w)"
  Drop :: "Collector \<Rightarrow> 'w \<Rightarrow> panic + 'w"
  AddCall :: "int \<Rightarrow> APICallStatValueImpl \<Rightarrow> 'w \<Rightarrow> panic + 'w"
  AddLogEvent :: "Event \<Rightarrow> 'w \<Rightarrow> panic + 'w"
  AddTime :: "int \<Rightarrow> 'w \<Rightarrow> panic + 'w"

text \<open>The calls of the streams and of the limiter.\<close>

datatype statis_call = NewStreamV1 string | NewStreamV2 string | EndStream Collector | ApiCall int APICallStatValueImpl
  | LogEvent Event | ProcessTime int

fun statis_do :: "'w statis \<Rightarrow> statis_call \<Rightarrow> 'w \<Rightarrow> panic + 'w" where
  "statis_do st (NewStreamV1 uuid) w = bindR (CreateV1 st uuid w) (\<lambda>(c, w). Inr w)"
| "statis_do st (NewStreamV2 uuid) w = bindR (CreateV2 st uuid w) (\<lambda>(c, w). Inr w)"
| "statis_do st (EndStream c) w = Drop st c w"
| "statis_do st (ApiCall now v) w = AddCall st now v w"
| "statis_do st (LogEvent e) w = AddLogEvent st e w"
| "statis_do st (ProcessTime us) w = AddTime st us w"

fun statis_run :: "'w statis \<Rightarrow> statis_call list \<Rightarrow> 'w \<Rightarrow> panic + 'w" where
  "statis_run st [] w = Inr w"
| "statis_run st (c # cs) w = bindR (statis_do st c w) (statis_run st cs)"

locale ready_statis =
  fixes st :: "'w statis" and ready :: "'w \<Rightarrow> bool"
  assumes create1: "ready w \<Longrightarrow> \<exists>w'. CreateV1 st uuid w = Inr (NewRateLimitStatCollectorV1 uuid, w') \<and> ready w'"
    and create2: "ready w \<Longrightarrow> \<exists>w'. CreateV2 st uuid w = Inr (NewRateLimitStatCollector uuid, w') \<and> ready w'"
    and drops: "ready w \<Longrightarrow> \<exists>w'. Drop st c w = Inr w' \<and> ready w'"
    and calls: "ready w \<Longrightarrow> \<exists>w'. AddCall st now v w = Inr w' \<and> ready w'"
    and events: "ready w \<Longrightarrow> \<exists>w'. AddLogEvent st e w = Inr w' \<and> ready w'"
    and times: "ready w \<Longrightarrow> \<exists>w'. AddTime st us w = Inr w' \<and> ready w'"
begin

lemma do_ready: "ready w \<Longrightarrow> \<exists>w'. statis_do st c w = Inr w' \<and> ready w'"
proof (cases c)
  case (NewStreamV1 uuid)
  then show "ready w \<Longrightarrow> ?thesis" using create1 [of w uuid] by auto
next
  case (NewStreamV2 uuid)
  then show "ready w \<Longrightarrow> ?thesis" using create2 [of w uuid] by auto
qed (simp_all add: drops calls events times)

lemma run_ready: "ready w \<Longrightarrow> \<exists>w'. statis_run st cs w = Inr w' \<and> ready w'"
proof (induction cs arbitrary: w)
  case (Cons c cs)
  then obtain w1 where "statis_do st c w = Inr w1" "ready w1" using do_ready by blast
  then show ?case using Cons.IH [of w1] by simp
qed simp

end

section \<open>The echo plugin\<close>

text \<open>It gives out collectors and drops everything.\<close>

definition echo_statis :: "unit statis" where
  "echo_statis =
     \<lparr>CreateV1 = (\<lambda>uuid w. Inr (NewRateLimitStatCollectorV1 uuid, w)), CreateV2 = (\<lambda>uuid w. Inr (NewRateLimitStatCollector uuid, w)),
      Drop = (\<lambda>c w. Inr w), AddCall = (\<lambda>now v w. Inr w), AddLogEvent = (\<lambda>e w. Inr w), AddTime = (\<lambda>us w. Inr w)\<rparr>"

text \<open>What initialising a plugin can report: an option that is no configuration, or a wrong one.\<close>

datatype file_error = BadOption | BadReport report_error

definition echo_Initialize :: "'o ConfigEntry \<Rightarrow> unit \<Rightarrow> file_error option \<times> unit" where
  "echo_Initialize conf w = (None, w)"

interpretation echo: ready_statis echo_statis "\<lambda>_. True"
  by unfold_locales (simp_all add: echo_statis_def)

section \<open>The file plugin\<close>

text \<open>
  Its parts are nil until it is initialised, and every call but the one for processing times reaches
  into one of them. The JSON library turns the option into a configuration or fails. The tickers are
  made by the task that \<open>Start\<close> runs, with the seconds of the configuration as 64-bit nanoseconds: an
  interval that overflows to one that is not positive panics there.
\<close>

type_synonym file_worker = "FilePlugin option"

definition startTickers :: "ReportConfig \<Rightarrow> panic + unit" where
  "startTickers rc =
     (if mul64 (LogInterval rc) 1000000000 \<le> 0 \<or> mul64 (PrecisionLogInterval rc) 1000000000 \<le> 0
      then Inl NonPositiveTicker else Inr ())"

definition file_part :: "(FilePlugin \<Rightarrow> 'a \<times> FilePlugin) \<Rightarrow> file_worker \<Rightarrow> panic + ('a \<times> file_worker)" where
  "file_part f w = (case w of None \<Rightarrow> Inl NilPointer | Some p \<Rightarrow> (let (x, p) = f p in Inr (x, Some p)))"

definition file_Initialize :: "('o \<Rightarrow> ReportConfig option) \<Rightarrow> 'o ConfigEntry \<Rightarrow> file_worker \<Rightarrow> panic + (file_error option \<times> file_worker)" where
  "file_Initialize decode conf w =
     (case decode (ce_Option conf) of
        None \<Rightarrow> Inr (Some BadOption, w)
      | Some rc \<Rightarrow>
          (case NewFileLogger False rc of
             Inl e \<Rightarrow> Inr (Some (BadReport e), w)
           | Inr p \<Rightarrow> bindR (startTickers rc) (\<lambda>_. Inr (None, Some p))))"

definition file_statis :: "file_worker statis" where
  "file_statis =
     \<lparr>CreateV1 = (\<lambda>uuid. file_part (\<lambda>p. let (c, r) = CreateCollectorV1 uuid (curveReporter p) in (c, p\<lparr>curveReporter := r\<rparr>))),
      CreateV2 = (\<lambda>uuid. file_part (\<lambda>p. let (c, r) = CreateCollectorV2 uuid (curveReporter p) in (c, p\<lparr>curveReporter := r\<rparr>))),
      Drop = (\<lambda>c w. bindR (file_part (\<lambda>p. ((), file_DropCollector (Some c) p)) w) (\<lambda>(_, w). Inr w)),
      AddCall = (\<lambda>now v w. bindR (file_part (\<lambda>p. ((), file_AddAPICall now v p)) w) (\<lambda>(_, w). Inr w)),
      AddLogEvent = (\<lambda>e w. bindR (file_part (\<lambda>p. ((), file_AddEventToLog e p)) w) (\<lambda>(_, w). Inr w)),
      AddTime = (\<lambda>us w. Inr w)\<rparr>"

interpretation filed: ready_statis file_statis "\<lambda>w. w \<noteq> None"
  by unfold_locales (auto simp: file_statis_def file_part_def CreateCollectorV1_def CreateCollectorV2_def Let_def)

section \<open>The metrics plugin\<close>

text \<open>
  It works from its construction on. An entry \<open>file_log\<close> of the option adds the classified logs; a
  fault in it is only logged. The parameter \<open>decode\<close> is the JSON library on the normalised value.
\<close>

definition initFileLogger :: "(yaml \<Rightarrow> ReportConfig option) \<Rightarrow> yaml \<Rightarrow> StaticsWorker \<Rightarrow> panic + (file_error option \<times> StaticsWorker)" where
  "initFileLogger decode rawFileLog w =
     (case decode (normalizeYAMLMap rawFileLog) of
        None \<Rightarrow> Inr (Some BadOption, w)
      | Some rc \<Rightarrow>
          (case NewFileLogger True rc of
             Inl e \<Rightarrow> Inr (Some (BadReport e), w)
           | Inr p \<Rightarrow> bindR (startTickers rc) (\<lambda>_. Inr (None, w\<lparr>fileLogger := Some p\<rparr>))))"

definition metrics_Initialize ::
  "(yaml \<Rightarrow> ReportConfig option) \<Rightarrow> (string \<times> yaml) list ConfigEntry option \<Rightarrow> StaticsWorker \<Rightarrow> panic + (file_error option \<times> StaticsWorker)" where
  "metrics_Initialize decode conf w =
     (case Option.bind conf (\<lambda>c. map_of (ce_Option c) ''file_log'') of
        None \<Rightarrow> Inr (None, w)
      | Some rawFileLog \<Rightarrow> bindR (initFileLogger decode rawFileLog w) (\<lambda>(err, w). Inr (None, w)))"

definition metrics_statis :: "StaticsWorker statis" where
  "metrics_statis =
     \<lparr>CreateV1 = (\<lambda>uuid w. let c = NewRateLimitStatCollectorV1 uuid in Inr (c, CreateRateLimitStatCollector (CollV1 c) w)),
      CreateV2 = (\<lambda>uuid w. let c = NewRateLimitStatCollector uuid in Inr (c, CreateRateLimitStatCollector (CollV2 c) w)),
      Drop = (\<lambda>c w. Inr (DropRateLimitStatCollector (Some c) w)),
      AddCall = (\<lambda>now v w. Inr (metrics_AddAPICall now v w)),
      AddLogEvent = (\<lambda>e w. Inr (metrics_AddEventToLog e w)),
      AddTime = (\<lambda>us w. Inr (AddProcessTime us w))\<rparr>"

interpretation exported: ready_statis metrics_statis "\<lambda>_. True"
  by unfold_locales (simp_all add: metrics_statis_def Let_def)

section \<open>Properties\<close>

lemma file_Initialize_ready:
  assumes "file_Initialize decode conf None = Inr (err, w)"
  shows "w \<noteq> None \<longleftrightarrow> err = None"
  using assms by (auto simp: file_Initialize_def bindR_eq_Inr_iff split: option.splits sum.splits)

lemma no_file_part: "CreateV1 file_statis uuid None = Inl NilPointer" "CreateV2 file_statis uuid None = Inl NilPointer"
  by (simp_all add: file_statis_def file_part_def)

text \<open>
  The file plugin serves every sequence of calls that begins with a stream exactly when its
  initialisation did not fail: after an error its parts are nil, and the first stream panics.
\<close>
theorem file_plugin_serves_iff_initialised:
  assumes "file_Initialize decode conf None = Inr (err, w)"
  shows "(\<exists>w'. statis_run file_statis (NewStreamV2 uuid # cs) w = Inr w') \<longleftrightarrow> err = None"
proof
  assume "err = None"
  then show "\<exists>w'. statis_run file_statis (NewStreamV2 uuid # cs) w = Inr w'"
    using filed.run_ready [of w "NewStreamV2 uuid # cs"] file_Initialize_ready [OF assms] by blast
next
  assume "\<exists>w'. statis_run file_statis (NewStreamV2 uuid # cs) w = Inr w'"
  then have "w \<noteq> None" by (cases w) (simp_all add: no_file_part)
  then show "err = None" using file_Initialize_ready [OF assms] by simp
qed

text \<open>
  An option \<open>file_log\<close> that cannot be used never stops the metrics plugin: when its tickers can be
  made, initialisation returns no error, and whatever calls follow are served.
\<close>
theorem metrics_plugin_always_serves:
  assumes "\<And>y rc. decode y = Some rc \<Longrightarrow> startTickers rc = Inr ()"
  shows "\<exists>w w'. metrics_Initialize decode conf NewStaticsWorker = Inr (None, w) \<and> statis_run metrics_statis cs w = Inr w'"
proof -
  have "\<exists>w. metrics_Initialize decode conf NewStaticsWorker = Inr (None, w)"
  proof (cases "Option.bind conf (\<lambda>c. map_of (ce_Option c) ''file_log'')")
    case (Some y)
    have "\<exists>err w. initFileLogger decode y NewStaticsWorker = Inr (err, w)"
      using assms by (auto simp: initFileLogger_def split: option.split sum.split)
    then show ?thesis using Some by (auto simp: metrics_Initialize_def)
  qed (simp add: metrics_Initialize_def)
  then show ?thesis using exported.run_ready by blast
qed

text \<open>The error of the initialisation, as the plugin table takes it: only the file plugin has one.\<close>

fun worker_error :: "('o \<Rightarrow> ReportConfig option) \<Rightarrow> plugin_worker \<Rightarrow> 'o ConfigEntry \<Rightarrow> file_error option" where
  "worker_error decode FileWorker c = (case file_Initialize decode c None of Inr (err, w) \<Rightarrow> err | Inl e \<Rightarrow> None)"
| "worker_error decode EchoWorker c = fst (echo_Initialize c ())"
| "worker_error decode PrometheusWorker c = None"

lemma worker_error_file: "file_Initialize decode c None = Inr (Some e, w) \<Longrightarrow> worker_error decode FileWorker c = Some e"
  by simp

text \<open>
  C27: When the HTTP server comes first, the gRPC server serves with a file plugin whose option is wrong,
  and the first stream panics. When the gRPC server comes first, it sends the error and serves nothing.
\<close>
theorem failed_file_plugin_panics:
  assumes "configured pl = Some (FileWorker, c)" "\<not> statisOnce pl" "file_Initialize decode c None = Inr (Some e, w)"
    "\<And>a. re_listen env a = None" "finishInit p"
  shows "(\<exists>herr h' pl' gerr g' pl''. http_Run env (worker_error decode) h pl = (herr, True, h', pl') \<and>
      grpc_Run env (worker_error decode) p g pl' statics = (gerr, True, g', pl'', Some FileWorker) \<and>
      statis_run file_statis (NewStreamV2 uuid # cs) w = Inl NilPointer) \<and>
    (\<exists>g' pl'. grpc_Run env (worker_error decode) p g pl statics = (Some (StatisErr e), False, g', pl', statics))"
proof
  note failed = worker_error_file [OF assms(3)]
  have "w = None" using file_Initialize_ready [OF assms(3)] by simp
  then have "statis_run file_statis (NewStreamV2 uuid # cs) w = Inl NilPointer" by (simp add: no_file_part)
  then show "\<exists>herr h' pl' gerr g' pl''. http_Run env (worker_error decode) h pl = (herr, True, h', pl') \<and>
      grpc_Run env (worker_error decode) p g pl' statics = (gerr, True, g', pl'', Some FileWorker) \<and>
      statis_run file_statis (NewStreamV2 uuid # cs) w = Inl NilPointer"
    using http_first_serves_failed_plugin [where init_err = "worker_error decode", OF assms(1,2) failed assms(4,5), of h g statics] by metis
  show "\<exists>g' pl'. grpc_Run env (worker_error decode) p g pl statics = (Some (StatisErr e), False, g', pl', statics)"
    by (rule grpc_first_sends_plugin_error [where init_err = "worker_error decode", OF assms(1,2) failed assms(4,5)])
qed

definition sample_report_config :: ReportConfig where
  "sample_report_config =
     \<lparr>RateLimitAppName = ''limiter'', RateLimitReportLogPath = ''report.log'', RateLimitPrecisionLogPath = ''precision.log'',
      RateLimitEventLogPath = ''event.log'', ServerAppName = ''server'', ServerReportLogPath = ''server.log'',
      PrecisionLogInterval = 1, LogInterval = 60, LogSize = 0, LogBackups = 0, LogMaxAge = 0\<rparr>"

text \<open>An option here is whether the interval of the report is given.\<close>

definition sample_decode :: "bool \<Rightarrow> ReportConfig option" where
  "sample_decode given = Some (if given then sample_report_config else sample_report_config\<lparr>LogInterval := 0\<rparr>)"

definition sample_yaml :: "yaml \<Rightarrow> ReportConfig option" where
  "sample_yaml y = (if y = StringMap [] then None else Some sample_report_config)"

lemma sample_failed_file:
  "file_Initialize sample_decode \<lparr>ce_Name = ''file'', ce_Option = False\<rparr> None = Inr (Some (BadReport LogIntervalSmall), None)"
  by (simp add: file_Initialize_def sample_decode_def NewFileLogger_def Validate_def sample_report_config_def)

theorem file_plugin_serves_iff_initialised_witness:
  "\<nexists>w'. statis_run file_statis [NewStreamV2 ''a'', ProcessTime 5] None = Inr w'"
  using file_plugin_serves_iff_initialised [OF sample_failed_file, of "''a''" "[ProcessTime 5]"] by simp

theorem metrics_plugin_always_serves_witness:
  "\<exists>w w'. metrics_Initialize sample_yaml (Some \<lparr>ce_Name = ''prometheus'', ce_Option = [(''file_log'', YamlMap [])]\<rparr>) NewStaticsWorker =
     Inr (None, w) \<and> statis_run metrics_statis [NewStreamV2 ''a'', ProcessTime 5] w = Inr w'"
proof (rule metrics_plugin_always_serves)
  show "startTickers rc = Inr ()" if "sample_yaml y = Some rc" for y rc
    using that by (auto simp: sample_yaml_def startTickers_def sample_report_config_def mul64_def i64_def split: if_splits)
qed

theorem failed_file_plugin_panics_witness:
  "statis_run file_statis [NewStreamV2 ''a''] None = Inl NilPointer \<and>
   (\<exists>g' pl'. grpc_Run listening (worker_error sample_decode) started_process NewGrpcServer sample_plugins None =
     (Some (StatisErr (BadReport LogIntervalSmall)), False, g', pl', None))"
proof -
  have "configured sample_plugins = Some (FileWorker, \<lparr>ce_Name = ''file'', ce_Option = False\<rparr>)" "\<not> statisOnce sample_plugins"
    "finishInit started_process" "re_listen listening a = None" for a
    by (simp_all add: sample_plugins_def configured_def no_plugins_def listening_def started_process_def)
  then show ?thesis
    using failed_file_plugin_panics [of sample_plugins _ sample_decode _ _ listening started_process NewHttpServer NewGrpcServer None
      "''a''" "[]"] sample_failed_file by metis
qed

end
