(* ===== verification/Report_Files.thy ===== *)
theory Report_Files
  imports Statis_Workers
begin

text \<open>
  The log files of the file plugin: which writer \<open>report.go\<close>, \<open>event_log.go\<close> and \<open>log_stat.go\<close> (under
  \<open>plugin/statis/file\<close>) make for which file, the text of a report, and the task of \<open>file.go\<close> that
  writes them between the calls of the streams.
\<close>

section \<open>Writers\<close>

text \<open>A writer is what the rotating file of the library is made of.\<close>

record file_writer =
  Filename :: string
  MaxSize :: int
  MaxBackups :: int
  MaxAge :: int

definition initLogger :: "string \<Rightarrow> int \<Rightarrow> int \<Rightarrow> int \<Rightarrow> file_writer" where
  "initLogger fileName sz backups age =
     \<lparr>Filename = fileName, MaxSize = sz, MaxBackups = backups, MaxAge = age\<rparr>"

type_synonym reportHandler = "(string \<times> file_writer) list"

definition NewReportHandler :: "ReportConfig \<Rightarrow> reportHandler" where
  "NewReportHandler rc =
     AList.update (RateLimitAppName rc) (initLogger (RateLimitReportLogPath rc) (LogSize rc) (LogBackups rc) (LogMaxAge rc))
       (AList.update (ServerAppName rc) (initLogger (ServerReportLogPath rc) (LogSize rc) (LogBackups rc) (LogMaxAge rc)) [])"

definition event_writer :: "ReportConfig \<Rightarrow> file_writer" where
  "event_writer rc = initLogger (RateLimitEventLogPath rc) (LogSize rc) (LogBackups rc) (LogMaxAge rc)"

text \<open>The precision log takes only the path from the configuration.\<close>

definition LogStatHandler_initLogger :: "string \<Rightarrow> file_writer" where
  "LogStatHandler_initLogger reportLogPath =
     \<lparr>Filename = reportLogPath, MaxSize = 100, MaxBackups = 20, MaxAge = 10\<rparr>"

definition NewLogStatHandler :: "ReportConfig \<Rightarrow> file_writer" where
  "NewLogStatHandler rc = LogStatHandler_initLogger (RateLimitPrecisionLogPath rc)"

section \<open>Reports\<close>

text \<open>
  \<open>Report\<close>: the writer that gets a record, and the text; \<open>now\<close> is the time as the library prints it,
  \<open>ServerAddress\<close> the address of the process. The writer of an unknown application is nil.
\<close>

definition report_text :: "string \<Rightarrow> string \<Rightarrow> ReportRecord \<Rightarrow> string" where
  "report_text now ServerAddress rec =
     now @ ''\<newline>'' @
     concat (map (\<lambda>item. AppName rec @ '' '' @ ServerAddress @ '' '' @ TagStr item @ '' '' @ ValueStr item @ '' 0'' @ ''\<newline>'') (Tags rec))"

definition handler_Report :: "string \<Rightarrow> string \<Rightarrow> ReportRecord \<Rightarrow> reportHandler \<Rightarrow> panic + (file_writer \<times> string)" where
  "handler_Report now ServerAddress rec loggers =
     (case map_of loggers (AppName rec) of
        None \<Rightarrow> Inl NilPointer
      | Some w \<Rightarrow> Inr (w, report_text now ServerAddress rec))"

section \<open>The task\<close>

text \<open>
  A tick of \<open>file.go\<close>: unlike \<open>reportTick\<close>, which the metrics plugin runs with shared collectors, it
  always builds the curve record itself.
\<close>

definition worker_reportTick :: "string \<Rightarrow> Timeval \<Rightarrow> int \<Rightarrow> FilePlugin \<Rightarrow> panic + FilePlugin" where
  "worker_reportTick limitService tv now p =
     bindR (server_BuildReportRecord limitService now (serverReporter p)) (\<lambda>((srvRecord, _), sr).
       let p1 = Report srvRecord (p\<lparr>serverReporter := sr\<rparr>);
           (rateLimitRecord, r) = BuildReportRecord limitService tv (curveReporter p1);
           p2 = Report rateLimitRecord (p1\<lparr>curveReporter := r\<rparr>);
           ((out, total), er) = LogAllEvents (eventReporter p2)
       in Inr (p2\<lparr>eventReporter := er, eventLines := eventLines p2 @ out\<rparr>))"

datatype file_event = StreamCall statis_call | PrecisionTick Timeval | ReportTick Timeval int

fun file_step :: "(int \<Rightarrow> string) \<Rightarrow> string \<Rightarrow> file_event \<Rightarrow> file_worker \<Rightarrow> panic + file_worker" where
  "file_step rfc3339 limitService (StreamCall c) w = statis_do file_statis c w"
| "file_step rfc3339 limitService (PrecisionTick tv) w =
     bindR (file_part (\<lambda>p. ((), precisionTick rfc3339 tv p)) w) (\<lambda>(_, w). Inr w)"
| "file_step rfc3339 limitService (ReportTick tv now) w =
     (case w of None \<Rightarrow> Inl NilPointer | Some p \<Rightarrow> bindR (worker_reportTick limitService tv now p) (\<lambda>p. Inr (Some p)))"

fun file_run :: "(int \<Rightarrow> string) \<Rightarrow> string \<Rightarrow> file_event list \<Rightarrow> file_worker \<Rightarrow> panic + file_worker" where
  "file_run rfc3339 limitService [] w = Inr w"
| "file_run rfc3339 limitService (e # es) w = bindR (file_step rfc3339 limitService e w) (file_run rfc3339 limitService es)"

lemma curve_Report: "curveReporter (Report rec p) = curveReporter p"
  by (simp add: Report_def)

lemma worker_reportTick_eq:
  "\<not> sharedCollector (curveReporter p) \<Longrightarrow> worker_reportTick limitService tv now p = reportTick limitService tv now p"
  by (auto simp: worker_reportTick_def reportTick_def Let_def curve_Report split: prod.splits intro!: arg_cong2 [where f = bindR])

section \<open>Where the records go\<close>

text \<open>
  The applications of the reporters are those of the configuration, and every record that was
  written is of one of them. The collectors are not shared.
\<close>

definition file_inv :: "ReportConfig \<Rightarrow> FilePlugin \<Rightarrow> bool" where
  "file_inv rc p \<longleftrightarrow> appName (curveReporter p) = RateLimitAppName rc \<and> serverAppName (serverReporter p) = ServerAppName rc \<and>
     \<not> sharedCollector (curveReporter p) \<and>
     (\<forall>rec \<in> set (reportLog p). HasTags rec \<and> AppName rec \<in> {RateLimitAppName rc, ServerAppName rc})"

lemma Report_inv: "file_inv rc p \<Longrightarrow> AppName rec \<in> {RateLimitAppName rc, ServerAppName rc} \<Longrightarrow> file_inv rc (Report rec p)"
  by (auto simp: file_inv_def Report_def)

lemma reporter_update_inv:
  "file_inv rc p \<Longrightarrow> appName r = appName (curveReporter p) \<Longrightarrow> sharedCollector r = sharedCollector (curveReporter p) \<Longrightarrow>
     file_inv rc (p\<lparr>curveReporter := r\<rparr>)"
  "file_inv rc p \<Longrightarrow> serverAppName sr = serverAppName (serverReporter p) \<Longrightarrow> file_inv rc (p\<lparr>serverReporter := sr\<rparr>)"
  "file_inv rc p \<Longrightarrow> file_inv rc (p\<lparr>eventReporter := er\<rparr>)"
  "file_inv rc p \<Longrightarrow> file_inv rc (p\<lparr>precisionLog := pl\<rparr>)"
  "file_inv rc p \<Longrightarrow> file_inv rc (p\<lparr>eventLines := el\<rparr>)"
  by (simp_all add: file_inv_def)

lemma merge_frame:
  assumes "MergeAllStatValues tv isCurve r = (merged, r')"
  shows "appName r' = appName r \<and> sharedCollector r' = sharedCollector r"
  using assms by (auto simp: MergeAllStatValues_def Let_def split: prod.splits)

lemma takeValue_returns:
  assumes "ReqCount v \<noteq> 0"
  shows "\<exists>l v'. takeValue v = Inr (l, v')"
proof -
  have "sint (ReqCount v) \<noteq> 0"
  proof
    assume "sint (ReqCount v) = 0"
    then have "of_int (sint (ReqCount v)) = (0 :: 32 word)" by simp
    then show False using assms by simp
  qed
  then show ?thesis by (simp add: takeValue_def Let_def quot64_def AddReqCount_def)
qed

lemma reportEntries_returns: "\<exists>ls vs. reportEntries now interval m = Inr (ls, vs)"
proof (induction m)
  case (Cons kv m)
  then show ?case using takeValue_returns [of "snd kv"] by (cases kv) (auto simp: bindR_eq_Inr_iff)
qed simp

lemma server_record:
  "\<exists>rec ls sr. server_BuildReportRecord limitService now s = Inr ((rec, ls), sr) \<and> AppName rec = serverAppName s \<and>
     serverAppName sr = serverAppName s"
  using reportEntries_returns [of now "reportInterval s" "collections s"] by (auto simp: server_BuildReportRecord_def)

lemma worker_reportTick_inv:
  assumes "file_inv rc p"
  shows "\<exists>p'. worker_reportTick limitService tv now p = Inr p' \<and> file_inv rc p'"
proof -
  obtain rec ls sr where s: "server_BuildReportRecord limitService now (serverReporter p) = Inr ((rec, ls), sr)"
    "AppName rec = serverAppName (serverReporter p)" "serverAppName sr = serverAppName (serverReporter p)"
    using server_record [of limitService now "serverReporter p"] by blast
  define p1 where "p1 = Report rec (p\<lparr>serverReporter := sr\<rparr>)"
  have p1: "file_inv rc p1" unfolding p1_def
    using assms s(2,3) by (intro Report_inv reporter_update_inv(2)) (simp_all add: file_inv_def)
  obtain rl r where c: "BuildReportRecord limitService tv (curveReporter p1) = (rl, r)" by fastforce
  then have r: "AppName rl = appName (curveReporter p1)" "appName r = appName (curveReporter p1)"
    "sharedCollector r = sharedCollector (curveReporter p1)"
    using merge_frame by (auto simp: BuildReportRecord_def split: prod.splits)
  define p2 where "p2 = Report rl (p1\<lparr>curveReporter := r\<rparr>)"
  have p2: "file_inv rc p2" unfolding p2_def
    using p1 r by (intro Report_inv reporter_update_inv(1)) (simp_all add: file_inv_def)
  obtain out total er where l: "LogAllEvents (eventReporter p2) = ((out, total), er)" by (metis surj_pair)
  have "file_inv rc (p2\<lparr>eventReporter := er, eventLines := eventLines p2 @ out\<rparr>)"
    by (intro reporter_update_inv p2)
  then show ?thesis using s(1) c l by (simp add: worker_reportTick_def Let_def p1_def [symmetric] p2_def [symmetric])
qed

lemma file_part_unit:
  "bindR (file_part (\<lambda>p. ((), f p)) w) (\<lambda>(_, w). Inr w) = (case w of None \<Rightarrow> Inl NilPointer | Some p \<Rightarrow> Inr (Some (f p)))"
  by (simp add: file_part_def split: option.split)

lemma file_call_inv:
  assumes "file_inv rc p"
  shows "\<exists>p'. statis_do file_statis c (Some p) = Inr (Some p') \<and> file_inv rc p'"
  using assms
  by (cases c)
    (auto simp: file_statis_def file_part_def Let_def CreateCollectorV1_def CreateCollectorV2_def file_DropCollector_def DropCollector_def
      file_AddAPICall_def AddIncrement_def getAndCreateStoreValue_def file_AddEventToLog_def file_inv_def split: prod.splits option.splits)

lemma file_step_inv:
  assumes "file_inv rc p"
  shows "\<exists>p'. file_step rfc3339 limitService e (Some p) = Inr (Some p') \<and> file_inv rc p'"
proof (cases e)
  case (StreamCall c)
  then show ?thesis using file_call_inv [OF assms] by simp
next
  case (PrecisionTick tv)
  obtain merged r where m: "MergeAllStatValues tv False (curveReporter p) = (merged, r)" by fastforce
  have "file_inv rc (p\<lparr>curveReporter := r, precisionLog := ls\<rparr>)" for ls
    using merge_frame [OF m] by (intro reporter_update_inv assms) simp_all
  then show ?thesis using PrecisionTick m by (simp add: file_part_unit precisionTick_def split: prod.splits)
next
  case (ReportTick tv now)
  then show ?thesis using worker_reportTick_inv [OF assms, of limitService tv now] by auto
qed

lemma file_run_inv:
  "file_inv rc p \<Longrightarrow> \<exists>p'. file_run rfc3339 limitService es (Some p) = Inr (Some p') \<and> file_inv rc p'"
proof (induction es arbitrary: p)
  case (Cons e es)
  then obtain p1 where "file_step rfc3339 limitService e (Some p) = Inr (Some p1)" "file_inv rc p1"
    using file_step_inv by blast
  then show ?case using Cons.IH [of p1] by simp
qed simp

text \<open>
  C28: An initialised file plugin runs through any calls and ticks without a panic, and every record that
  it reports has a file: the one for the rate limits when it is of that application, and the one for
  the served calls otherwise.
\<close>
theorem reports_reach_their_files:
  assumes "decode (ce_Option conf) = Some rc0" "Validate rc0 = Inr rc" "file_Initialize decode conf None = Inr (err, w)"
  shows "\<exists>p. file_run rfc3339 limitService es w = Inr (Some p) \<and>
    (\<forall>rec \<in> set (reportLog p). \<exists>f. handler_Report now ServerAddress rec (NewReportHandler rc) = Inr (f, report_text now ServerAddress rec) \<and>
       Filename f = (if AppName rec = RateLimitAppName rc then RateLimitReportLogPath rc else ServerReportLogPath rc))"
proof -
  obtain p0 where p0: "w = Some p0" "file_inv rc p0"
    using assms by (auto simp: file_Initialize_def NewFileLogger_def startTickers_def file_inv_def NewRateLimitCurveReporter_def
        NewServerCurveReporter_def split: if_splits)
  then obtain p where p: "file_run rfc3339 limitService es w = Inr (Some p)" "file_inv rc p" using file_run_inv by blast
  have "\<exists>f. handler_Report now ServerAddress rec (NewReportHandler rc) = Inr (f, report_text now ServerAddress rec) \<and>
      Filename f = (if AppName rec = RateLimitAppName rc then RateLimitReportLogPath rc else ServerReportLogPath rc)"
    if "rec \<in> set (reportLog p)" for rec
    using that p(2) by (auto simp: file_inv_def handler_Report_def NewReportHandler_def update_conv' initLogger_def)
  then show ?thesis using p(1) by blast
qed

text \<open>Two applications of one name share a writer: the records of the served calls never get to their file.\<close>

theorem same_name_shares_file:
  assumes "ServerAppName rc = RateLimitAppName rc" "handler_Report now ServerAddress rec (NewReportHandler rc) = Inr (f, txt)"
  shows "Filename f = RateLimitReportLogPath rc"
  using assms by (auto simp: handler_Report_def NewReportHandler_def initLogger_def split: if_splits)

definition sample_valid :: ReportConfig where
  "sample_valid = sample_report_config\<lparr>LogSize := 100, LogBackups := 20, LogMaxAge := 10\<rparr>"

definition sample_calls :: "file_event list" where
  "sample_calls =
     [StreamCall (ApiCall 5 (NewAPICall \<lparr>ApiKey = InitQuotaV2, ApiCode = 200000, ApiMsgType = MsgSync, ApiDuration = 0\<rparr> 7)),
      ReportTick \<lparr>Sec = 100, Usec = 0\<rparr> 6]"

lemma sample_names:
  "(case file_Initialize sample_decode \<lparr>ce_Name = ''file'', ce_Option = True\<rparr> None of
      Inr (None, w) \<Rightarrow> (case file_run (\<lambda>t. []) ''limiter'' sample_calls w of Inr (Some p) \<Rightarrow> map AppName (reportLog p) | _ \<Rightarrow> [])
    | _ \<Rightarrow> []) = [''server'']"
  by code_simp

theorem reports_reach_their_files_witness:
  "\<exists>w p. file_Initialize sample_decode \<lparr>ce_Name = ''file'', ce_Option = True\<rparr> None = Inr (None, w) \<and>
     file_run (\<lambda>t. []) ''limiter'' sample_calls w = Inr (Some p) \<and> map AppName (reportLog p) = [''server''] \<and>
     (\<forall>rec \<in> set (reportLog p). \<exists>f. handler_Report ''now'' ''127.0.0.1'' rec (NewReportHandler sample_valid) =
        Inr (f, report_text ''now'' ''127.0.0.1'' rec) \<and> Filename f = ''server.log'')"
proof -
  obtain w where init: "file_Initialize sample_decode \<lparr>ce_Name = ''file'', ce_Option = True\<rparr> None = Inr (None, w)"
    using sample_names by (auto split: sum.splits option.splits prod.splits)
  have "Validate sample_report_config = Inr sample_valid"
    by (simp add: sample_report_config_def sample_valid_def Validate_def)
  then obtain p where p: "file_run (\<lambda>t. []) ''limiter'' sample_calls w = Inr (Some p)"
    "\<forall>rec \<in> set (reportLog p). \<exists>f. handler_Report ''now'' ''127.0.0.1'' rec (NewReportHandler sample_valid) =
       Inr (f, report_text ''now'' ''127.0.0.1'' rec) \<and>
       Filename f = (if AppName rec = RateLimitAppName sample_valid then RateLimitReportLogPath sample_valid else ServerReportLogPath sample_valid)"
    using reports_reach_their_files [OF _ _ init, of sample_report_config sample_valid "\<lambda>t. []" "''limiter''" sample_calls "''now''" "''127.0.0.1''"]
    unfolding sample_decode_def by fastforce
  then have "map AppName (reportLog p) = [''server'']" using sample_names init by simp
  with init p show ?thesis by (force simp: sample_valid_def sample_report_config_def)
qed

theorem same_name_shares_file_witness:
  "Filename (initLogger ''report.log'' 0 0 0) = ''report.log''"
  using same_name_shares_file [of "sample_report_config\<lparr>ServerAppName := ''limiter''\<rparr>" "''now''" "''a''" "\<lparr>AppName = ''limiter'', Tags = []\<rparr>"]
  by (simp add: sample_report_config_def handler_Report_def NewReportHandler_def initLogger_def)

end
