(* ===== verification/Health_Probe.thy ===== *)
theory Health_Probe
  imports Health
begin

text \<open>
  The background task of \<open>pkg/health\<close>: the probe file of \<open>probe_file.go\<close>, the loop of \<open>iohang.go\<close> as a run of
  its ticks and of the writes that return, and the checker of the process in \<open>checker.go\<close>.
\<close>

section \<open>The probe file\<close>

record probeSink =
  sink_path :: string
  sink_MaxSize :: int
  sink_MaxAge :: int
  sink_MaxBackups :: int

definition newProbeSink :: "HealthConfig \<Rightarrow> probeSink" where
  "newProbeSink c =
     \<lparr>sink_path = hc_Path c, sink_MaxSize = hc_RotationMaxSize c, sink_MaxAge = hc_RotationMaxAge c,
      sink_MaxBackups = hc_RotationMaxBackups c\<rparr>"

text \<open>What the rotating file and the system answer to the write, the opening and the sync of one probe.\<close>

record disk_answer =
  on_write :: "probe_err option"
  on_open :: "probe_err option"
  on_sync :: "probe_err option"

text \<open>\<open>fmt.Errorf\<close> with \<open>%w\<close>: the text is prefixed, the chain goes on with that of the wrapped error.\<close>

definition wrap :: "string \<Rightarrow> probe_err \<Rightarrow> probe_err" where
  "wrap prefix e = \<lparr>err_chain = err_chain e, err_text = prefix @ '': '' @ err_text e\<rparr>"

definition WriteAndSync :: "probeSink \<Rightarrow> disk_answer \<Rightarrow> probe_err option" where
  "WriteAndSync s a =
     (case on_write a of
        Some e \<Rightarrow> Some (wrap (''write probe file '' @ sink_path s) e)
      | None \<Rightarrow>
          (case on_open a of
             Some e \<Rightarrow> Some (wrap (''open probe file for sync '' @ sink_path s) e)
           | None \<Rightarrow>
               (case on_sync a of
                  Some e \<Rightarrow> Some (wrap (''sync probe file '' @ sink_path s) e)
                | None \<Rightarrow> None)))"

text \<open>The first error that the disk gave, before it was wrapped.\<close>

definition disk_error :: "disk_answer \<Rightarrow> probe_err option" where
  "disk_error a = (case on_write a of Some e \<Rightarrow> Some e | None \<Rightarrow> (case on_open a of Some e \<Rightarrow> Some e | None \<Rightarrow> on_sync a))"

section \<open>The loop\<close>

text \<open>
  A tick at some time, or the return of the probe in flight with what the disk answered. The probes
  that are in flight are counted beside the detector; a return without one does not happen.
\<close>

datatype probe_event = ProbeTick int | ProbeReturn int disk_answer

record probe_task =
  task_det :: IOHangDetector
  in_flight :: nat
  task_log :: "health_log list"

definition det_Start :: "int \<Rightarrow> HealthConfig \<Rightarrow> probe_task" where
  "det_Start now c = \<lparr>task_det = snd (kickProbe now (NewIOHangDetector c)), in_flight = 1, task_log = []\<rparr>"

fun probe_step :: "probeSink \<Rightarrow> probe_event \<Rightarrow> probe_task \<Rightarrow> probe_task option" where
  "probe_step s (ProbeTick now) t =
     (let (started, d) = kickProbe now (task_det t)
      in Some (t\<lparr>task_det := d, in_flight := (if started then Suc (in_flight t) else in_flight t)\<rparr>))"
| "probe_step s (ProbeReturn finished a) t =
     (if in_flight t = 0 then None
      else let (out, d) = finishProbe finished (WriteAndSync s a) (task_det t)
           in Some (t\<lparr>task_det := d, in_flight := in_flight t - 1, task_log := task_log t @ out\<rparr>))"

fun probe_run :: "probeSink \<Rightarrow> probe_event list \<Rightarrow> probe_task \<Rightarrow> probe_task option" where
  "probe_run s [] t = Some t"
| "probe_run s (e # es) t = Option.bind (probe_step s e t) (probe_run s es)"

section \<open>The checker of the process\<close>

type_synonym defaultChecker = "Checker option"

definition SetDefault :: "Checker option \<Rightarrow> defaultChecker \<Rightarrow> defaultChecker" where
  "SetDefault c dc = c"

definition LivenessReport :: "defaultChecker \<Rightarrow> HealthReport" where
  "LivenessReport dc = (case dc of Some c \<Rightarrow> Liveness | None \<Rightarrow> Liveness)"

definition ReadinessReport :: "int \<Rightarrow> defaultChecker \<Rightarrow> HealthReport" where
  "ReadinessReport now dc =
     (case dc of Some c \<Rightarrow> Readiness now (Some c)
      | None \<Rightarrow> Readiness now (Some \<lparr>ioHangEnabled = False, affectHeartbeat = False, detector = None\<rparr>))"

definition default_AllowHeartbeat :: "int \<Rightarrow> defaultChecker \<Rightarrow> bool" where
  "default_AllowHeartbeat now dc = (case dc of Some c \<Rightarrow> AllowHeartbeat now (Some c) | None \<Rightarrow> True)"

section \<open>Lemmas\<close>

lemma WriteAndSync_none: "WriteAndSync s a = None \<longleftrightarrow> disk_error a = None"
  by (simp add: WriteAndSync_def disk_error_def split: option.split)

lemma contains_Nil [simp]: "contains t []"
  by (cases t) simp_all

lemma contains_prefix: "contains t sub \<Longrightarrow> contains (pre @ t) sub"
  by (induction pre) simp_all

text \<open>Wrapping keeps the class of an error: the chain is kept, and the text with it.\<close>

lemma wrap_device: "isDeviceError e \<Longrightarrow> isDeviceError (wrap prefix e)"
  using contains_prefix [of "err_text e" _ "prefix @ '': ''"] by (auto simp: isDeviceError_def wrap_def list_ex_iff)

lemma WriteAndSync_device:
  assumes "disk_error a = Some e" "isDeviceError e"
  shows "\<exists>w. WriteAndSync s a = Some w \<and> isDeviceError w"
  using assms wrap_device by (auto simp: WriteAndSync_def disk_error_def split: option.splits)

text \<open>At most one probe is in flight, and the flag says whether one is.\<close>

definition task_inv :: "HealthConfig \<Rightarrow> probe_task \<Rightarrow> bool" where
  "task_inv c t \<longleftrightarrow> in_flight t = (if probing (task_det t) then 1 else 0) \<and> (\<not> probing (task_det t) \<longrightarrow> inflightSince (task_det t) = 0) \<and>
     det_interval (task_det t) = hc_Interval c \<and> det_timeout (task_det t) = hc_Timeout c \<and> det_staleness (task_det t) = hc_Staleness c"

lemma task_inv_start: "task_inv c (det_Start now c)"
  by (simp add: task_inv_def det_Start_def kickProbe_def NewIOHangDetector_def)

lemma finishProbe_frame:
  assumes "finishProbe finished err d = (out, d')"
  shows "\<not> probing d'" "inflightSince d' = 0" "det_interval d' = det_interval d" "det_timeout d' = det_timeout d"
    "det_staleness d' = det_staleness d" "lastDoneAt d' = finished"
    "lastErr d' = map_option (\<lambda>e. \<lparr>pe_msg = err_text e, pe_device = isDeviceError e\<rparr>) err"
  using assms by (auto simp: finishProbe_def ProbeOnce_done_def Let_def split: option.splits)

lemma probe_step_inv:
  assumes "task_inv c t" "probe_step s e t = Some t'"
  shows "task_inv c t'"
proof (cases e)
  case (ProbeTick now)
  then show ?thesis using assms by (auto simp: task_inv_def kickProbe_def split: if_splits)
next
  case (ProbeReturn finished a)
  obtain out d where d: "finishProbe finished (WriteAndSync s a) (task_det t) = (out, d)" by fastforce
  show ?thesis using assms ProbeReturn d finishProbe_frame [OF d] by (auto simp: task_inv_def split: if_splits)
qed

lemma probe_run_inv: "task_inv c t \<Longrightarrow> probe_run s es t = Some t' \<Longrightarrow> task_inv c t'"
proof (induction es arbitrary: t)
  case (Cons e es)
  then obtain t1 where t1: "probe_step s e t = Some t1" "probe_run s es t1 = Some t'" by (auto simp: bind_eq_Some_conv)
  show ?case using Cons.IH [OF probe_step_inv [OF Cons.prems(1) t1(1)] t1(2)] .
qed simp

lemma probe_run_append: "probe_run s (es @ es') t = Option.bind (probe_run s es t) (probe_run s es')"
  by (induction es arbitrary: t) (auto split: bind_splits)

section \<open>Properties\<close>

text \<open>
  C21: Whatever the ticks and the probes before it, a probe that returns decides the readiness for as long
  as its result is fresh: the process is down exactly when the error of the probe is a device error,
  and the heartbeats, when they are affected, stop with it. It is down whenever the disk answered a
  device error, at the write, the opening or the sync, since wrapping does not hide it.
\<close>
theorem readiness_follows_last_probe:
  assumes "probe_run s (es @ [ProbeReturn finished a]) (det_Start start (WithDefaults c)) = Some t"
    and "0 < finished" "finished \<le> now" "now - finished \<le> hc_Staleness (WithDefaults c)" "now - finished < 2 ^ 63"
    and "Enabled (WithDefaults c)" "dc = SetDefault (Some (NewChecker (WithDefaults c) (Some (task_det t)))) dc0"
  shows "report_up (ReadinessReport now dc) = (\<forall>e. WriteAndSync s a = Some e \<longrightarrow> \<not> isDeviceError e) \<and>
    default_AllowHeartbeat now dc = (report_up (ReadinessReport now dc) \<or> \<not> HeartbeatAffected (WithDefaults c)) \<and>
    (\<forall>e. disk_error a = Some e \<and> isDeviceError e \<longrightarrow> \<not> report_up (ReadinessReport now dc))"
proof -
  obtain t0 out where t0: "task_inv (WithDefaults c) t0" "finishProbe finished (WriteAndSync s a) (task_det t0) = (out, task_det t)"
    using assms(1) probe_run_inv [OF task_inv_start]
    by (fastforce simp: probe_run_append bind_eq_Some_conv split: prod.splits if_splits)
  note frame = finishProbe_frame [OF t0(2)]
  have "time_sub now finished = now - finished" using assms(3,5) by (intro time_sub_id) auto
  then have status: "Healthy now (task_det t) \<longleftrightarrow> (\<forall>e. WriteAndSync s a = Some e \<longrightarrow> \<not> isDeviceError e)"
    using frame t0(1) assms(2-4) by (cases "WriteAndSync s a") (auto simp: Status_up task_inv_def)
  have up: "report_up (ReadinessReport now dc) = Healthy now (task_det t)"
    and heart: "default_AllowHeartbeat now dc = (Healthy now (task_det t) \<or> \<not> HeartbeatAffected (WithDefaults c))"
    using assms(6,7) by (simp_all add: ReadinessReport_def SetDefault_def Readiness_def NewChecker_def default_AllowHeartbeat_def
        AllowHeartbeat_def Healthy_def Let_def)
  have "\<not> Healthy now (task_det t)" if "disk_error a = Some e" "isDeviceError e" for e
    using WriteAndSync_device [OF that, of s] status by blast
  then show ?thesis using up heart status by blast
qed

text \<open>A full disk at the first probe, and then a sync that meets an input error.\<close>

definition sample_sink :: probeSink where
  "sample_sink = newProbeSink (WithDefaults plain_config)"

definition sync_fault :: disk_answer where
  "sync_fault = \<lparr>on_write = None, on_open = None, on_sync = Some \<lparr>err_chain = [EIO], err_text = ''sync p: input/output error''\<rparr>\<rparr>"

definition full_answer :: disk_answer where
  "full_answer = \<lparr>on_write = Some disk_full, on_open = None, on_sync = None\<rparr>"

definition sample_probes :: "probe_event list" where
  "sample_probes = [ProbeTick 1500, ProbeReturn 2000 full_answer, ProbeTick 3000]"

theorem readiness_follows_last_probe_witness:
  "\<exists>t. probe_run sample_sink (sample_probes @ [ProbeReturn 4000 sync_fault]) (det_Start 1000 (WithDefaults plain_config)) = Some t \<and>
     \<not> report_up (ReadinessReport 5000 (Some (NewChecker (WithDefaults plain_config) (Some (task_det t)))))"
proof -
  obtain t where t: "probe_run sample_sink (sample_probes @ [ProbeReturn 4000 sync_fault]) (det_Start 1000 (WithDefaults plain_config)) = Some t"
    by (simp add: sample_probes_def det_Start_def kickProbe_def NewIOHangDetector_def finishProbe_def ProbeOnce_done_def Let_def)
  have "isDeviceError \<lparr>err_chain = [EIO], err_text = ''sync p: input/output error''\<rparr>" by code_simp
  then show ?thesis
    using readiness_follows_last_probe [OF t, of 5000 "Some (NewChecker (WithDefaults plain_config) (Some (task_det t)))" None] t
    by (auto simp: sync_fault_def disk_error_def SetDefault_def plain_config_def WithDefaults_def Enabled_def health_consts Let_def
        add64_def mul64_def i64_def)
qed

end
