(* ===== verification/Cas_Max.thy ===== *)
theory Cas_Max
  imports Stream_Client Metrics
begin

text \<open>
  The compare-and-swap loops that keep a maximum: \<open>UpdateLastSendTime\<close> of \<open>ratelimitv2/client.go\<close>,
  \<open>CasMaxLatency\<close> of \<open>plugin/statis_api_obj_srv.go\<close> and \<open>AddProcessTime\<close> of the metrics plugin. The other
  theories model each as one atomic update; here the loads and the swaps of any number of callers
  interleave freely, every run ends, and its result is that of the atomic updates in any order.
\<close>

section \<open>The steps of the callers\<close>

text \<open>A caller is before its load, holds the value it has loaded, or has returned whether it stored its own.\<close>

datatype cas_pc = AtLoad | AtSwap int | Returned bool

record cas_state =
  cell :: int
  callers :: "(int \<times> cas_pc) list"

inductive cas_step :: "cas_state \<Rightarrow> cas_state \<Rightarrow> bool" where
  not_greater: "i < length (callers s) \<Longrightarrow> callers s ! i = (v, AtLoad) \<Longrightarrow> v \<le> cell s \<Longrightarrow>
    cas_step s (s\<lparr>callers := (callers s)[i := (v, Returned False)]\<rparr>)"
| loaded: "i < length (callers s) \<Longrightarrow> callers s ! i = (v, AtLoad) \<Longrightarrow> cell s < v \<Longrightarrow>
    cas_step s (s\<lparr>callers := (callers s)[i := (v, AtSwap (cell s))]\<rparr>)"
| swapped: "i < length (callers s) \<Longrightarrow> callers s ! i = (v, AtSwap old) \<Longrightarrow> cell s = old \<Longrightarrow>
    cas_step s (s\<lparr>cell := v, callers := (callers s)[i := (v, Returned True)]\<rparr>)"
| retried: "i < length (callers s) \<Longrightarrow> callers s ! i = (v, AtSwap old) \<Longrightarrow> cell s \<noteq> old \<Longrightarrow>
    cas_step s (s\<lparr>callers := (callers s)[i := (v, AtLoad)]\<rparr>)"

inductive_cases cas_stepE: "cas_step s s'"

definition cas_start :: "int \<Rightarrow> int list \<Rightarrow> cas_state" where
  "cas_start c vs = \<lparr>cell = c, callers = map (\<lambda>v. (v, AtLoad)) vs\<rparr>"

fun returned :: "cas_pc \<Rightarrow> bool" where
  "returned (Returned b) = True"
| "returned _ = False"

definition all_returned :: "cas_state \<Rightarrow> bool" where
  "all_returned s \<longleftrightarrow> list_all (\<lambda>(v, pc). returned pc) (callers s)"

text \<open>Runs of a given number of steps.\<close>

inductive cas_run :: "nat \<Rightarrow> cas_state \<Rightarrow> cas_state \<Rightarrow> bool" where
  stop: "cas_run 0 s s"
| step: "cas_step s s1 \<Longrightarrow> cas_run n s1 s2 \<Longrightarrow> cas_run (Suc n) s s2"

section \<open>The invariant\<close>

text \<open>
  The cell holds the start value or one that was stored, and nothing stored is above it; a caller
  that returned has its value at most there, and one that loaded did so below its value.
\<close>

definition cas_inv :: "int \<Rightarrow> int list \<Rightarrow> cas_state \<Rightarrow> bool" where
  "cas_inv c vs s \<longleftrightarrow> map fst (callers s) = vs \<and> c \<le> cell s \<and> (cell s = c \<or> (cell s, Returned True) \<in> set (callers s)) \<and>
     (\<forall>(v, pc) \<in> set (callers s). case pc of AtLoad \<Rightarrow> True | AtSwap old \<Rightarrow> old < v \<and> old \<le> cell s | Returned b \<Rightarrow> v \<le> cell s)"

lemma cas_inv_start: "cas_inv c vs (cas_start c vs)"
  by (auto simp: cas_inv_def cas_start_def comp_def)

lemma map_fst_update: "i < length xs \<Longrightarrow> fst (xs ! i) = v \<Longrightarrow> map fst (xs[i := (v, pc)]) = map fst xs"
  by (metis fst_conv length_map list_update_id map_update nth_map)

lemma in_list_update: "x \<in> set (xs[i := y]) \<Longrightarrow> x = y \<or> x \<in> set xs"
  using set_update_subset_insert by fastforce

lemma kept_in_update: "i < length xs \<Longrightarrow> xs ! i \<noteq> x \<Longrightarrow> x \<in> set xs \<Longrightarrow> x \<in> set (xs[i := y])"
  by (metis in_set_conv_nth length_list_update nth_list_update_neq)

lemma cas_inv_update:
  assumes inv: "cas_inv c vs s" and i: "i < length (callers s)" "callers s ! i = (v, pc)" and pc: "\<not> returned pc"
    and new: "case pc' of AtLoad \<Rightarrow> c' = cell s | AtSwap old \<Rightarrow> old < v \<and> old \<le> cell s \<and> c' = cell s
      | Returned b \<Rightarrow> if b then c' = v \<and> cell s < v else v \<le> cell s \<and> c' = cell s"
  shows "cas_inv c vs (s\<lparr>cell := c', callers := (callers s)[i := (v, pc')]\<rparr>)"
proof -
  have up: "cell s \<le> c'" using new by (cases pc') (auto split: if_splits)
  have old: "case q of AtLoad \<Rightarrow> True | AtSwap old \<Rightarrow> old < w \<and> old \<le> c' | Returned b \<Rightarrow> w \<le> c'"
    if "(w, q) \<in> set (callers s)" for w q
    using inv that up unfolding cas_inv_def by (cases q) (fastforce split: cas_pc.splits)+
  have here: "case pc' of AtLoad \<Rightarrow> True | AtSwap old \<Rightarrow> old < v \<and> old \<le> c' | Returned b \<Rightarrow> v \<le> c'"
    using new by (cases pc') (auto split: if_splits)
  have top: "c' = c \<or> (c', Returned True) \<in> set ((callers s)[i := (v, pc')])"
  proof (cases "pc' = Returned True")
    case True
    then show ?thesis using new i(1) by (simp add: set_update_memI)
  next
    case False
    then have "c' = cell s" using new by (cases pc') (auto split: if_splits)
    moreover have "cell s = c \<or> (cell s, Returned True) \<in> set (callers s)" using inv by (simp add: cas_inv_def)
    moreover have "callers s ! i \<noteq> (cell s, Returned True)" using i(2) pc by auto
    ultimately show ?thesis using kept_in_update [OF i(1)] by blast
  qed
  have "map fst ((callers s)[i := (v, pc')]) = vs" using inv i by (simp add: cas_inv_def map_fst_update)
  then show ?thesis using inv up top old here
    unfolding cas_inv_def by (auto dest!: in_list_update)
qed

lemma cas_step_inv: "cas_step s s' \<Longrightarrow> cas_inv c vs s \<Longrightarrow> cas_inv c vs s'"
proof (induction rule: cas_step.induct)
  case (not_greater i s v)
  then show ?case using cas_inv_update [of c vs s i v AtLoad "cell s" "Returned False"] by simp
next
  case (loaded i s v)
  then show ?case using cas_inv_update [of c vs s i v AtLoad "cell s" "AtSwap (cell s)"] by simp
next
  case (swapped i s v old)
  have "old < v" using swapped nth_mem [of i "callers s"] by (force simp: cas_inv_def)
  then show ?case using swapped cas_inv_update [of c vs s i v "AtSwap old" v "Returned True"] by simp
next
  case (retried i s v old)
  then show ?case using cas_inv_update [of c vs s i v "AtSwap old" "cell s" AtLoad] by simp
qed

lemma cas_run_inv: "cas_run n s s' \<Longrightarrow> cas_inv c vs s \<Longrightarrow> cas_inv c vs s'"
  by (induction rule: cas_run.induct) (auto intro: cas_step_inv)

section \<open>Every run ends\<close>

text \<open>
  The steps that a caller may still take without another one storing, and, for every store that is
  still possible, the two that it can cost each of the others.
\<close>

fun pending :: "nat \<Rightarrow> int \<Rightarrow> int \<times> cas_pc \<Rightarrow> nat" where
  "pending n c (v, Returned b) = 0"
| "pending n c (v, AtLoad) = 2 * n + 1 + 2"
| "pending n c (v, AtSwap old) = 2 * n + 1 + (if old = c then 1 else 3)"

definition cas_measure :: "cas_state \<Rightarrow> nat" where
  "cas_measure s = sum_list (map (pending (length (callers s)) (cell s)) (callers s))"

lemma pending_change: "pending n c' x \<le> pending n c x + 2"
  by (cases x; cases "snd x") auto

lemma sum_pending_change: "sum_list (map (pending n c') xs) \<le> sum_list (map (pending n c) xs) + 2 * length xs"
  by (induction xs) (auto simp: add.assoc intro!: order_trans [OF add_mono [OF pending_change]])

lemma sum_map_update:
  fixes f :: "'a \<Rightarrow> nat"
  shows "i < length xs \<Longrightarrow> sum_list (map f (xs[i := y])) + f (xs ! i) = sum_list (map f xs) + f y"
  by (induction xs arbitrary: i) (auto split: nat.split)

lemma cas_step_decreases: "cas_step s s' \<Longrightarrow> cas_inv c vs s \<Longrightarrow> cas_measure s' < cas_measure s"
proof (induction rule: cas_step.induct)
  case (not_greater i s v)
  then show ?case using sum_map_update [of i "callers s" "pending (length (callers s)) (cell s)" "(v, Returned False)"]
    by (simp add: cas_measure_def)
next
  case (loaded i s v)
  then show ?case using sum_map_update [of i "callers s" "pending (length (callers s)) (cell s)" "(v, AtSwap (cell s))"]
    by (simp add: cas_measure_def)
next
  case (swapped i s v old)
  have "old < v" using swapped nth_mem [of i "callers s"] by (force simp: cas_inv_def)
  then show ?case
    using swapped sum_map_update [of i "callers s" "pending (length (callers s)) v" "(v, Returned True)"]
      sum_pending_change [of "length (callers s)" v "callers s" "cell s"]
    by (simp add: cas_measure_def)
next
  case (retried i s v old)
  then show ?case using sum_map_update [of i "callers s" "pending (length (callers s)) (cell s)" "(v, AtLoad)"]
    by (simp add: cas_measure_def)
qed

lemma cas_run_measure: "cas_run n s s' \<Longrightarrow> cas_inv c vs s \<Longrightarrow> cas_measure s' + n \<le> cas_measure s"
proof (induction rule: cas_run.induct)
  case (step s s1 n s2)
  then show ?case using cas_step_decreases [OF step.hyps(1) step.prems] cas_step_inv [OF step.hyps(1) step.prems] by simp
qed simp

lemma cas_measure_start: "cas_measure (cas_start c vs) = length vs * (2 * length vs + 3)"
  by (simp add: cas_measure_def cas_start_def comp_def sum_list_triv algebra_simps)

lemma cas_progress: "\<not> all_returned s \<Longrightarrow> \<exists>s'. cas_step s s'"
proof -
  assume "\<not> all_returned s"
  then obtain v pc where "(v, pc) \<in> set (callers s)" "\<not> returned pc" by (auto simp: all_returned_def list_all_iff)
  then obtain i where i: "i < length (callers s)" "callers s ! i = (v, pc)" by (auto simp: in_set_conv_nth)
  show ?thesis
  proof (cases pc)
    case AtLoad
    then show ?thesis using i not_greater [of i s v] loaded [of i s v] by (cases "v \<le> cell s") auto
  next
    case (AtSwap old)
    then show ?thesis using i swapped [of i s v old] retried [of i s v old] by (cases "cell s = old") auto
  qed (use \<open>\<not> returned pc\<close> in auto)
qed

section \<open>Properties\<close>

lemma fold_max_start: "(c :: int) \<le> fold max vs c"
proof (induction vs arbitrary: c)
  case (Cons v vs)
  show ?case using order_trans [OF max.cobounded2 Cons.IH] by simp
qed simp

lemma fold_max_ge: "v \<in> set vs \<Longrightarrow> v \<le> fold max vs (c :: int)"
proof (induction vs arbitrary: c)
  case (Cons w vs)
  then show ?case using fold_max_start [of "max w c" vs] by auto
qed simp

lemma fold_max_in: "fold max vs c = c \<or> fold max vs c \<in> set (vs :: int list)"
  by (induction vs arbitrary: c) (fastforce simp: max_def)+

lemma cas_max_result:
  assumes "cas_run n (cas_start c vs) s" "all_returned s"
  shows "cell s = fold max vs c"
proof (rule antisym)
  have inv: "cas_inv c vs s" using cas_run_inv [OF assms(1) cas_inv_start] .
  have "cell s = c \<or> cell s \<in> set vs" using inv by (force simp: cas_inv_def)
  then show "cell s \<le> fold max vs c" using fold_max_ge fold_max_start by auto
  have "v \<le> cell s" if v: "v \<in> set vs" for v
  proof -
    obtain pc where pc: "(v, pc) \<in> set (callers s)" using inv v by (auto simp: cas_inv_def)
    then have "returned pc" using assms(2) by (auto simp: all_returned_def list_all_iff)
    then show ?thesis using inv pc by (cases pc) (auto simp: cas_inv_def)
  qed
  then show "fold max vs c \<le> cell s" using fold_max_in [of vs c] inv by (auto simp: cas_inv_def)
qed

text \<open>
  However the loads and swaps of the callers interleave, a run has at most n (2 n + 3) steps for n
  callers, it can only stop when all have returned, and then the cell holds the maximum of its start
  value and of all values: no update is lost and no caller loops for ever.
\<close>
theorem cas_max_terminates:
  assumes "cas_run n (cas_start c vs) s"
  shows "n \<le> length vs * (2 * length vs + 3) \<and> ((\<nexists>s'. cas_step s s') \<longleftrightarrow> all_returned s) \<and>
    (all_returned s \<longrightarrow> cell s = fold max vs c)"
proof -
  have bound: "n \<le> length vs * (2 * length vs + 3)"
    using cas_run_measure [OF assms cas_inv_start] by (simp add: cas_measure_start)
  have stuck: "\<nexists>s'. cas_step s s'" if "all_returned s"
  proof
    assume "\<exists>s'. cas_step s s'"
    then obtain s' where "cas_step s s'" ..
    then obtain i v pc where "i < length (callers s)" "callers s ! i = (v, pc)" "\<not> returned pc" by (rule cas_stepE) auto
    then show False using that nth_mem [of i "callers s"] by (force simp: all_returned_def list_all_iff)
  qed
  show ?thesis using bound stuck cas_progress cas_max_result [OF assms] by blast
qed

text \<open>The atomic updates of the other theories, one after the other.\<close>

lemma atomic_latency: "MaxLatency (fold CasMaxLatency vs a) = fold max vs (MaxLatency a)"
  by (induction vs arbitrary: a) (simp_all add: CasMaxLatency_max max.commute)

lemma atomic_send_time: "lastSentMicro (fold (\<lambda>v t. snd (UpdateLastSendTime t v)) vs t) = fold max vs (lastSentMicro t)"
  by (induction vs arbitrary: t) (simp_all add: UpdateLastSendTime_def max_def)

lemma atomic_process_max: "list_all (\<lambda>v. 0 \<le> v) vs \<Longrightarrow> processMax (fold AddProcessTime vs w) = fold max vs (processMax w)"
  by (induction vs arbitrary: w) (simp_all add: AddProcessTime_def max_def Let_def)

lemma fold_max_mset: "mset us = mset vs \<Longrightarrow> fold max us (c :: int) = fold max vs c"
proof (rule antisym)
  have le: "fold max xs c \<le> fold max ys c" if "set xs = set ys" for xs ys :: "int list"
    using fold_max_in [of xs c] fold_max_start [of c ys] fold_max_ge [of _ ys c] that by auto
  assume "mset us = mset vs"
  then have "set us = set vs" by (rule mset_eq_setD)
  then show "fold max us c \<le> fold max vs c" "fold max vs c \<le> fold max us c" using le by simp_all
qed

text \<open>
  C29: The three loops end as the atomic updates in any order do, whatever the interleaving: the time of
  the last message, the maximal latency and the maximal processing time are those of the model.
\<close>
theorem cas_loops_are_atomic:
  assumes "cas_run n (cas_start c vs) s" "all_returned s" "mset us = mset vs"
  shows "(lastSentMicro t = c \<longrightarrow> lastSentMicro (fold (\<lambda>v t. snd (UpdateLastSendTime t v)) us t) = cell s) \<and>
    (MaxLatency a = c \<longrightarrow> MaxLatency (fold CasMaxLatency us a) = cell s) \<and>
    (processMax w = c \<and> list_all (\<lambda>v. 0 \<le> v) us \<longrightarrow> processMax (fold AddProcessTime us w) = cell s)"
proof -
  have "cell s = fold max us c" using cas_max_result [OF assms(1,2)] fold_max_mset [OF assms(3)] by simp
  then show ?thesis by (simp add: atomic_latency atomic_send_time atomic_process_max)
qed

text \<open>Two callers that load the same value: the smaller one has to try again and finds a greater one.\<close>

definition sample_cas :: cas_state where
  "sample_cas = \<lparr>cell = 5, callers = [(3, Returned False), (5, Returned True)]\<rparr>"

lemma sample_cas_run: "cas_run 5 (cas_start 0 [3, 5]) sample_cas"
proof -
  let ?s = "\<lambda>c a b. \<lparr>cell = c, callers = [(3, a), (5, b)]\<rparr>"
  have 1: "cas_step (?s 0 AtLoad AtLoad) (?s 0 (AtSwap 0) AtLoad)" using loaded [of 0 "?s 0 AtLoad AtLoad" 3] by simp
  have 2: "cas_step (?s 0 (AtSwap 0) AtLoad) (?s 0 (AtSwap 0) (AtSwap 0))"
    using loaded [of 1 "?s 0 (AtSwap 0) AtLoad" 5] by simp
  have 3: "cas_step (?s 0 (AtSwap 0) (AtSwap 0)) (?s 5 (AtSwap 0) (Returned True))"
    using swapped [of 1 "?s 0 (AtSwap 0) (AtSwap 0)" 5 0] by simp
  have 4: "cas_step (?s 5 (AtSwap 0) (Returned True)) (?s 5 AtLoad (Returned True))"
    using retried [of 0 "?s 5 (AtSwap 0) (Returned True)" 3 0] by simp
  have 5: "cas_step (?s 5 AtLoad (Returned True)) (?s 5 (Returned False) (Returned True))"
    using not_greater [of 0 "?s 5 AtLoad (Returned True)" 3] by simp
  have "cas_run (Suc (Suc (Suc (Suc (Suc 0))))) (?s 0 AtLoad AtLoad) (?s 5 (Returned False) (Returned True))"
    by (intro cas_run.step [OF 1] cas_run.step [OF 2] cas_run.step [OF 3] cas_run.step [OF 4] cas_run.step [OF 5] cas_run.stop)
  then show ?thesis by (simp add: sample_cas_def cas_start_def numeral_eq_Suc)
qed

theorem cas_max_terminates_witness:
  "\<exists>n s. cas_run n (cas_start 0 [3, 5]) s \<and> n \<le> 14 \<and> (\<nexists>s'. cas_step s s') \<and> cell s = 5"
  using cas_max_terminates [OF sample_cas_run] sample_cas_run
  by (intro exI [of _ 5] exI [of _ sample_cas]) (auto simp: sample_cas_def all_returned_def)

theorem cas_loops_are_atomic_witness:
  "MaxLatency (fold CasMaxLatency [5, 3] (NewAPICall \<lparr>ApiKey = InitQuotaV2, ApiCode = 0, ApiMsgType = MsgSync, ApiDuration = 0\<rparr> 7)) = 5"
  using cas_loops_are_atomic [OF sample_cas_run, of "[5, 3]" _ "NewAPICall \<lparr>ApiKey = InitQuotaV2, ApiCode = 0, ApiMsgType = MsgSync, ApiDuration = 0\<rparr> 7"]
  by (auto simp: sample_cas_def all_returned_def NewAPICall_def)

end
