(* ===== verification/Json_Text.thy ===== *)
theory Json_Text
  imports Text_Format
begin

text \<open>
  The text that Go's \<open>json.Marshal\<close> builds for a structure of texts and numbers, byte by byte, as far as
  the events and the precision log of the program use it, and a reader of such texts. Strings are
  bytes: a text that is not UTF-8 is repaired by the library, and \<open>scrub\<close> is that repair.
\<close>

section \<open>Bytes and runes\<close>

abbreviation code :: "char \<Rightarrow> nat" where "code c \<equiv> of_char c"

definition in_range :: "nat \<Rightarrow> nat \<Rightarrow> char \<Rightarrow> bool" where
  "in_range lo hi c \<longleftrightarrow> lo \<le> code c \<and> code c \<le> hi"

text \<open>The ranges of the bytes that must follow the first byte of a character of more than one byte.\<close>

definition rune_tail :: "nat \<Rightarrow> (nat \<times> nat) list option" where
  "rune_tail b =
     (if b < 0xC2 \<or> 0xF4 < b then None
      else if b \<le> 0xDF then Some [(0x80, 0xBF)]
      else if b = 0xE0 then Some [(0xA0, 0xBF), (0x80, 0xBF)]
      else if b = 0xED then Some [(0x80, 0x9F), (0x80, 0xBF)]
      else if b \<le> 0xEF then Some [(0x80, 0xBF), (0x80, 0xBF)]
      else if b = 0xF0 then Some [(0x90, 0xBF), (0x80, 0xBF), (0x80, 0xBF)]
      else if b = 0xF4 then Some [(0x80, 0x8F), (0x80, 0xBF), (0x80, 0xBF)]
      else Some [(0x80, 0xBF), (0x80, 0xBF), (0x80, 0xBF)])"

fun follow :: "(nat \<times> nat) list \<Rightarrow> string \<Rightarrow> bool" where
  "follow [] cs \<longleftrightarrow> True"
| "follow (r # rs) [] \<longleftrightarrow> False"
| "follow ((lo, hi) # rs) (d # ds) \<longleftrightarrow> in_range lo hi d \<and> follow rs ds"

text \<open>The number of bytes of the UTF-8 character at the start of a text, or 0 when there is none.\<close>

fun rune_len :: "string \<Rightarrow> nat" where
  "rune_len [] = 0"
| "rune_len (c # cs) =
     (if code c < 0x80 then 1
      else case rune_tail (code c) of
             None \<Rightarrow> 0
           | Some rs \<Rightarrow> if follow rs cs then Suc (length rs) else 0)"

fun valid_utf8 :: "string \<Rightarrow> bool" where
  "valid_utf8 [] \<longleftrightarrow> True"
| "valid_utf8 (c # cs) \<longleftrightarrow> rune_len (c # cs) \<noteq> 0 \<and> valid_utf8 (drop (rune_len (c # cs) - 1) cs)"

text \<open>The replacement character stands for every byte that starts no character.\<close>

definition replacement :: string where "replacement = [CHR 0xEF, CHR 0xBF, CHR 0xBD]"

fun scrub :: "string \<Rightarrow> string" where
  "scrub [] = []"
| "scrub (c # cs) =
     (if rune_len (c # cs) = 0 then replacement @ scrub cs
      else c # take (rune_len (c # cs) - 1) cs @ scrub (drop (rune_len (c # cs) - 1) cs))"

section \<open>Printing\<close>

definition hex_char :: "nat \<Rightarrow> char" where
  "hex_char n = (''0123456789abcdef'' ! n)"

text \<open>An ASCII byte, with the escapes that also keep the text safe in HTML.\<close>

definition esc_ascii :: "char \<Rightarrow> string" where
  "esc_ascii c =
     (if c = CHR 0x22 \<or> c = CHR 0x5C then [CHR 0x5C, c]
      else if c = CHR 0x08 then [CHR 0x5C, CHR ''b'']
      else if c = CHR 0x0C then [CHR 0x5C, CHR ''f'']
      else if c = CHR 0x0A then [CHR 0x5C, CHR ''n'']
      else if c = CHR 0x0D then [CHR 0x5C, CHR ''r'']
      else if c = CHR 0x09 then [CHR 0x5C, CHR ''t'']
      else if code c < 0x20 \<or> c \<in> {CHR ''<'', CHR ''>'', CHR ''&''} then
        [CHR 0x5C, CHR ''u'', CHR ''0'', CHR ''0'', hex_char (code c div 16), hex_char (code c mod 16)]
      else [c])"

text \<open>The line separators U+2028 and U+2029 are escaped as well.\<close>

definition is_separator :: "string \<Rightarrow> bool" where
  "is_separator s \<longleftrightarrow> take 3 s = [CHR 0xE2, CHR 0x80, CHR 0xA8] \<or> take 3 s = [CHR 0xE2, CHR 0x80, CHR 0xA9]"

fun json_body :: "string \<Rightarrow> string" where
  "json_body [] = []"
| "json_body (c # cs) =
     (let n = rune_len (c # cs) in
      if code c < 0x80 then esc_ascii c @ json_body cs
      else if n = 0 then [CHR 0x5C] @ ''ufffd'' @ json_body cs
      else if is_separator (c # cs) then [CHR 0x5C] @ ''u202'' @ [hex_char (code (cs ! 1) mod 16)] @ json_body (drop 2 cs)
      else c # take (n - 1) cs @ json_body (drop (n - 1) cs))"

definition json_string :: "string \<Rightarrow> string" where
  "json_string s = [CHR 0x22] @ json_body s @ [CHR 0x22]"

datatype json_value = JText string | JNumber int

fun json_scalar :: "json_value \<Rightarrow> string" where
  "json_scalar (JText s) = json_string s"
| "json_scalar (JNumber n) = dec_int n"

fun json_fields :: "(string \<times> json_value) list \<Rightarrow> string" where
  "json_fields [] = []"
| "json_fields [(k, v)] = json_string k @ '':'' @ json_scalar v"
| "json_fields ((k, v) # fs) = json_string k @ '':'' @ json_scalar v @ '','' @ json_fields fs"

definition json_object :: "(string \<times> json_value) list \<Rightarrow> string" where
  "json_object fs = ''{'' @ json_fields fs @ ''}''"

section \<open>Reading\<close>

definition hex_val :: "char \<Rightarrow> nat option" where
  "hex_val c =
     (if in_range 0x30 0x39 c then Some (code c - 0x30)
      else if in_range 0x61 0x66 c then Some (code c - 0x61 + 10)
      else if in_range 0x41 0x46 c then Some (code c - 0x41 + 10)
      else None)"

fun hex_read :: "nat \<Rightarrow> string \<Rightarrow> nat option" where
  "hex_read acc [] = Some acc"
| "hex_read acc (c # cs) = Option.bind (hex_val c) (\<lambda>d. hex_read (acc * 16 + d) cs)"

text \<open>The UTF-8 bytes of a character of the basic plane.\<close>

definition utf8_bytes :: "nat \<Rightarrow> string" where
  "utf8_bytes n =
     (if n < 0x80 then [char_of n]
      else if n < 0x800 then [char_of (0xC0 + n div 64), char_of (0x80 + n mod 64)]
      else [char_of (0xE0 + n div 4096), char_of (0x80 + n div 64 mod 64), char_of (0x80 + n mod 64)])"

definition unescape_short :: "char \<Rightarrow> char option" where
  "unescape_short d =
     (if d \<in> {CHR 0x22, CHR 0x5C, CHR ''/''} then Some d
      else if d = CHR ''b'' then Some (CHR 0x08) else if d = CHR ''f'' then Some (CHR 0x0C)
      else if d = CHR ''n'' then Some (CHR 0x0A) else if d = CHR ''r'' then Some (CHR 0x0D)
      else if d = CHR ''t'' then Some (CHR 0x09) else None)"

definition prepend :: "string \<Rightarrow> (string \<times> 'a) option \<Rightarrow> (string \<times> 'a) option" where
  "prepend p r = map_option (\<lambda>(s, t). (p @ s, t)) r"

text \<open>The contents of a string up to its closing quote, and the text after it.\<close>

fun unescape :: "string \<Rightarrow> (string \<times> string) option" where
  "unescape [] = None"
| "unescape (c # cs) =
     (if c = CHR 0x22 then Some ([], cs)
      else if c = CHR 0x5C then
        (case cs of
           [] \<Rightarrow> None
         | d # ds \<Rightarrow>
             if d = CHR ''u'' then
               (if length ds < 4 then None
                else Option.bind (hex_read 0 (take 4 ds)) (\<lambda>n. prepend (utf8_bytes n) (unescape (drop 4 ds))))
             else Option.bind (unescape_short d) (\<lambda>b. prepend [b] (unescape ds)))
      else if code c < 0x20 then None
      else prepend [c] (unescape cs))"

section \<open>Reading back what was printed\<close>

lemma prepend_simps [simp]:
  "prepend p (Some (s, t)) = Some (p @ s, t)" "prepend [] r = r" "prepend p (prepend q r) = prepend (p @ q) r" "prepend p None = None"
  by (cases r; auto simp: prepend_def)+

lemma hex_char_codes: "n < 16 \<Longrightarrow> code (hex_char n) = (if n < 10 then 48 + n else 87 + n)"
  by (auto simp: hex_char_def less_Suc_eq numeral_eq_Suc)

lemma hex_val_char: "n < 16 \<Longrightarrow> hex_val (hex_char n) = Some n"
  by (simp add: hex_val_def in_range_def hex_char_codes)

lemma hex_read_two: "m < 16 \<Longrightarrow> n < 16 \<Longrightarrow> hex_read 0 [CHR ''0'', CHR ''0'', hex_char m, hex_char n] = Some (m * 16 + n)"
  by (simp add: hex_val_char) (simp add: hex_val_def in_range_def)

lemma unescape_plain: "c \<noteq> CHR 0x22 \<Longrightarrow> c \<noteq> CHR 0x5C \<Longrightarrow> 0x20 \<le> code c \<Longrightarrow> unescape (c # t) = prepend [c] (unescape t)"
  by simp

lemma unescape_hex:
  assumes "code c < 0x80"
  shows "unescape ([CHR 0x5C, CHR ''u'', CHR ''0'', CHR ''0'', hex_char (code c div 16), hex_char (code c mod 16)] @ t) = prepend [c] (unescape t)"
proof -
  have "hex_read 0 [CHR ''0'', CHR ''0'', hex_char (code c div 16), hex_char (code c mod 16)] = Some (code c)"
    using assms by (subst hex_read_two) auto
  moreover have "utf8_bytes (code c) = [c]" using assms by (simp add: utf8_bytes_def)
  ultimately show ?thesis by (simp del: hex_read.simps)
qed

lemma unescape_short_esc: "c \<noteq> CHR ''u'' \<Longrightarrow> unescape_short c = Some b \<Longrightarrow> unescape ([CHR 0x5C, c] @ t) = prepend [b] (unescape t)"
  by simp

lemma unescape_esc:
  assumes "code c < 0x80"
  shows "unescape (esc_ascii c @ t) = prepend [c] (unescape t)"
proof (cases "c \<in> {CHR 0x22, CHR 0x5C, CHR 0x08, CHR 0x0C, CHR 0x0A, CHR 0x0D, CHR 0x09}")
  case True
  then show ?thesis by (auto simp: esc_ascii_def unescape_short_def)
next
  case False
  then have ne: "c \<noteq> CHR 0x22" "c \<noteq> CHR 0x5C" "c \<noteq> CHR 0x08" "c \<noteq> CHR 0x0C" "c \<noteq> CHR 0x0A" "c \<noteq> CHR 0x0D" "c \<noteq> CHR 0x09"
    by simp_all
  show ?thesis
  proof (cases "code c < 0x20 \<or> c \<in> {CHR ''<'', CHR ''>'', CHR ''&''}")
    case True
    with ne have "esc_ascii c = [CHR 0x5C, CHR ''u'', CHR ''0'', CHR ''0'', hex_char (code c div 16), hex_char (code c mod 16)]"
      by (simp add: esc_ascii_def)
    then show ?thesis using unescape_hex [OF assms] by (simp only:)
  next
    case plain: False
    with ne have "esc_ascii c = [c]" by (simp add: esc_ascii_def)
    then show ?thesis using ne plain unescape_plain [of c t] by simp
  qed
qed

lemma unescape_raw: "list_all (\<lambda>c. 0x80 \<le> code c) xs \<Longrightarrow> unescape (xs @ t) = prepend xs (unescape t)"
proof (induction xs)
  case (Cons c xs)
  then have "c \<noteq> CHR 0x22" "c \<noteq> CHR 0x5C" "0x20 \<le> code c" by auto
  then show ?case using Cons by simp
qed simp

lemma follow_bytes:
  "follow rs cs \<Longrightarrow> list_all (\<lambda>(lo, hi). 0x80 \<le> lo) rs \<Longrightarrow> length rs \<le> length cs \<and> list_all (\<lambda>c. 0x80 \<le> code c) (take (length rs) cs)"
  by (induction rs cs rule: follow.induct) (auto simp: in_range_def)

lemma rune_tail_high: "rune_tail b = Some rs \<Longrightarrow> list_all (\<lambda>(lo, hi). 0x80 \<le> lo) rs"
  by (simp add: rune_tail_def split: if_splits) (auto dest: sym)

lemma rune_bytes:
  assumes "0x80 \<le> code c" "rune_len (c # cs) \<noteq> 0"
  shows "list_all (\<lambda>c. 0x80 \<le> code c) (take (rune_len (c # cs) - 1) cs)" "rune_len (c # cs) - 1 \<le> length cs"
proof -
  obtain rs where "rune_tail (code c) = Some rs" "follow rs cs" "rune_len (c # cs) = Suc (length rs)"
    using assms by (auto split: option.splits if_splits)
  then show "list_all (\<lambda>c. 0x80 \<le> code c) (take (rune_len (c # cs) - 1) cs)" "rune_len (c # cs) - 1 \<le> length cs"
    using follow_bytes rune_tail_high by auto
qed

lemma separator_bytes:
  assumes "is_separator (c # cs)"
  shows "\<exists>x ds. c = CHR 0xE2 \<and> cs = CHR 0x80 # x # ds \<and> (x = CHR 0xA8 \<or> x = CHR 0xA9)"
  using assms by (cases cs; cases "tl cs") (auto simp: is_separator_def)

lemma char_of_bytes:
  "char_of (226 :: nat) = CHR 0xE2" "char_of (128 :: nat) = CHR 0x80" "char_of (168 :: nat) = CHR 0xA8" "char_of (169 :: nat) = CHR 0xA9"
  "char_of (239 :: nat) = CHR 0xEF" "char_of (191 :: nat) = CHR 0xBF" "char_of (189 :: nat) = CHR 0xBD"
  by code_simp+

lemma unescape_separator:
  assumes "x = CHR 0xA8 \<or> x = CHR 0xA9"
  shows "unescape ([CHR 0x5C] @ ''u202'' @ [hex_char (code x mod 16)] @ t) = prepend [CHR 0xE2, CHR 0x80, x] (unescape t)"
  using assms by (auto simp: hex_val_def in_range_def hex_char_def utf8_bytes_def char_of_bytes)

lemma unescape_replacement: "unescape ([CHR 0x5C] @ ''ufffd'' @ t) = prepend replacement (unescape t)"
  by (simp add: hex_val_def in_range_def utf8_bytes_def replacement_def char_of_bytes)

lemma unescape_body: "unescape (json_body s @ CHR 0x22 # t) = Some (scrub s, t)"
proof (induction s rule: json_body.induct)
  case (2 c cs)
  let ?n = "rune_len (c # cs)"
  consider "code c < 0x80" | "0x80 \<le> code c" "?n = 0" | "0x80 \<le> code c" "?n \<noteq> 0" "is_separator (c # cs)"
    | "0x80 \<le> code c" "?n \<noteq> 0" "\<not> is_separator (c # cs)" by linarith
  then show ?case
  proof cases
    case 1
    then have "?n = 1" by (simp add: Let_def)
    then show ?thesis using 1 2(1) by (simp add: unescape_esc del: rune_len.simps)
  next
    case 2
    then show ?thesis using "2.IH"(2) unescape_replacement [of "json_body cs @ CHR 0x22 # t"]
      by (simp del: rune_len.simps unescape.simps)
  next
    case 3
    then obtain x ds where x: "c = CHR 0xE2" "cs = CHR 0x80 # x # ds" "x = CHR 0xA8 \<or> x = CHR 0xA9" using separator_bytes by blast
    then have n: "?n = 3" by (auto simp: in_range_def rune_tail_def)
    show ?thesis using 3 x n "2.IH"(3) unescape_separator [OF x(3)] by (simp del: rune_len.simps unescape.simps)
  next
    case 4
    let ?raw = "c # take (?n - 1) cs" and ?rest = "drop (?n - 1) cs"
    have "json_body (c # cs) = ?raw @ json_body ?rest" "scrub (c # cs) = ?raw @ scrub ?rest"
      using 4 by (simp_all add: Let_def del: rune_len.simps)
    moreover have "unescape (?raw @ json_body ?rest @ CHR 0x22 # t) = prepend ?raw (unescape (json_body ?rest @ CHR 0x22 # t))"
      using 4(1) rune_bytes(1) [OF 4(1,2)] by (intro unescape_raw) simp
    ultimately show ?thesis using "2.IH"(4) 4 by (simp del: rune_len.simps unescape.simps json_body.simps scrub.simps)
  qed
qed simp

lemma digits_acc_nonempty: "digits_acc n acc \<noteq> []"
  by (induction n acc rule: digits_acc.induct) (subst digits_acc.simps, simp)

section \<open>Objects\<close>

text \<open>A number without a fraction, as far as its digits go.\<close>

definition is_digit :: "char \<Rightarrow> bool" where "is_digit c \<longleftrightarrow> c \<in> set ''0123456789''"

definition read_natural :: "string \<Rightarrow> (int \<times> string) option" where
  "read_natural s = (if takeWhile is_digit s = [] then None else Some (read_pos (takeWhile is_digit s), dropWhile is_digit s))"

definition read_number :: "string \<Rightarrow> (int \<times> string) option" where
  "read_number s =
     (case s of
        [] \<Rightarrow> None
      | c # cs \<Rightarrow> if c = CHR ''-'' then map_option (\<lambda>(n, r). (- n, r)) (read_natural cs) else read_natural s)"

definition read_value :: "string \<Rightarrow> (json_value \<times> string) option" where
  "read_value s =
     (case s of
        [] \<Rightarrow> None
      | c # cs \<Rightarrow>
          if c = CHR 0x22 then map_option (\<lambda>(t, r). (JText t, r)) (unescape cs)
          else map_option (\<lambda>(n, r). (JNumber n, r)) (read_number s))"

definition expect :: "char \<Rightarrow> string \<Rightarrow> string option" where
  "expect c s = (case s of [] \<Rightarrow> None | d # ds \<Rightarrow> if d = c then Some ds else None)"

definition read_field :: "string \<Rightarrow> ((string \<times> json_value) \<times> string) option" where
  "read_field s =
     Option.bind (expect (CHR 0x22) s) (\<lambda>s. Option.bind (unescape s) (\<lambda>(k, s).
     Option.bind (expect (CHR '':'') s) (\<lambda>s. Option.bind (read_value s) (\<lambda>(v, s). Some ((k, v), s)))))"

text \<open>The fields up to the closing brace; the first argument bounds their number.\<close>

fun read_fields :: "nat \<Rightarrow> string \<Rightarrow> ((string \<times> json_value) list \<times> string) option" where
  "read_fields 0 s = None"
| "read_fields (Suc n) s =
     Option.bind (read_field s) (\<lambda>(f, s).
       case expect (CHR '','') s of
         Some s \<Rightarrow> map_option (\<lambda>(fs, r). (f # fs, r)) (read_fields n s)
       | None \<Rightarrow> map_option (\<lambda>r. ([f], r)) (expect (CHR ''}'') s))"

definition json_read :: "string \<Rightarrow> ((string \<times> json_value) list \<times> string) option" where
  "json_read s = Option.bind (expect (CHR ''{'') s) (\<lambda>s. read_fields (length s) s)"

fun scrub_value :: "json_value \<Rightarrow> json_value" where
  "scrub_value (JText s) = JText (scrub s)"
| "scrub_value (JNumber n) = JNumber n"

abbreviation scrub_fields :: "(string \<times> json_value) list \<Rightarrow> (string \<times> json_value) list" where
  "scrub_fields \<equiv> map (\<lambda>(k, v). (scrub k, scrub_value v))"

lemma expect_simps [simp]: "expect c (c # s) = Some s" "d \<noteq> c \<Longrightarrow> expect c (d # s) = None" "expect c [] = None"
  by (simp_all add: expect_def)

lemma read_natural_dec:
  assumes "0 \<le> n" "t = [] \<or> \<not> is_digit (hd t)"
  shows "read_natural (dec_pos n @ t) = Some (n, t)"
proof -
  have d: "\<forall>c \<in> set (dec_pos n). is_digit c" using dec_pos_digits [OF assms(1)] unfolding is_digit_def by blast
  have "dec_pos n \<noteq> []" by (simp add: dec_pos_def digits_acc_nonempty)
  moreover have "takeWhile is_digit (dec_pos n @ t) = dec_pos n" "dropWhile is_digit (dec_pos n @ t) = t"
    using d assms(2) by (cases t; simp add: takeWhile_append2 dropWhile_append2)+
  ultimately show ?thesis using assms(1) by (simp add: read_natural_def read_dec_pos)
qed

lemma read_number_dec:
  assumes "t = [] \<or> \<not> is_digit (hd t)"
  shows "read_number (dec_int n @ t) = Some (n, t)"
proof (cases "n < 0")
  case True
  then show ?thesis using read_natural_dec [of "- n" t] assms by (simp add: dec_int_def read_number_def)
next
  case False
  then obtain c cs where cs: "dec_pos n = c # cs" using digits_acc_nonempty by (metis dec_pos_def neq_Nil_conv)
  then have "c \<noteq> CHR ''-''" using minus_dec_pos(2) [of n cs] False by auto
  then show ?thesis using read_natural_dec [of n t] assms False cs by (simp add: dec_int_def read_number_def)
qed

lemma dec_int_first: "\<exists>c cs. dec_int n = c # cs \<and> c \<noteq> CHR 0x22"
proof (cases "n < 0")
  case False
  then obtain c cs where cs: "dec_pos n = c # cs" using digits_acc_nonempty by (metis dec_pos_def neq_Nil_conv)
  then show ?thesis using False dec_pos_digits [of n] by (auto simp: dec_int_def)
qed (simp add: dec_int_def)

lemma read_value_scalar:
  assumes "t = [] \<or> \<not> is_digit (hd t)"
  shows "read_value (json_scalar v @ t) = Some (scrub_value v, t)"
proof (cases v)
  case (JText s)
  then show ?thesis by (simp add: read_value_def json_string_def unescape_body)
next
  case (JNumber n)
  then show ?thesis using read_number_dec [OF assms, of n] dec_int_first [of n] by (auto simp: read_value_def)
qed

lemma read_field_printed:
  assumes "t = [] \<or> \<not> is_digit (hd t)"
  shows "read_field (json_string k @ '':'' @ json_scalar v @ t) = Some ((scrub k, scrub_value v), t)"
  using read_value_scalar [OF assms, of v] by (simp add: read_field_def json_string_def unescape_body del: json_scalar.simps)

lemma read_fields_printed:
  "fs \<noteq> [] \<Longrightarrow> length fs \<le> n \<Longrightarrow> read_fields n (json_fields fs @ ''}'' @ t) = Some (scrub_fields fs, t)"
proof (induction fs arbitrary: n rule: json_fields.induct)
  case (2 k v)
  then obtain m where "n = Suc m" by (cases n) auto
  then show ?case using read_field_printed [of "''}'' @ t" k v] by (simp add: is_digit_def)
next
  case (3 k v f fs)
  then obtain m where m: "n = Suc m" "length (f # fs) \<le> m" by (cases n) auto
  have "read_fields m (json_fields (f # fs) @ ''}'' @ t) = Some (scrub_fields (f # fs), t)" using 3(1) m(2) by simp
  then show ?case using m(1) read_field_printed [of "'','' @ json_fields (f # fs) @ ''}'' @ t" k v]
    by (simp add: is_digit_def del: json_fields.simps(2))
qed simp

lemma length_json_fields: "length fs \<le> length (json_fields fs)"
  by (induction fs rule: json_fields.induct) (auto simp: json_string_def)

text \<open>A printed object reads back as its fields, with the texts repaired, and leaves what follows it.\<close>

lemma json_read_object: "fs \<noteq> [] \<Longrightarrow> json_read (json_object fs @ t) = Some (scrub_fields fs, t)"
  using read_fields_printed [of fs "length (json_fields fs @ ''}'' @ t)" t] length_json_fields [of fs]
  by (simp add: json_read_def json_object_def)

section \<open>Lines\<close>

text \<open>No byte of a printed object is a control character, so it stays on one line.\<close>

definition printable :: "string \<Rightarrow> bool" where
  "printable s \<longleftrightarrow> (\<forall>c \<in> set s. 0x20 \<le> code c)"

lemma printable_append [simp]: "printable (s @ t) \<longleftrightarrow> printable s \<and> printable t"
  by (auto simp: printable_def)

lemma printable_Cons [simp]: "printable (c # s) \<longleftrightarrow> 0x20 \<le> code c \<and> printable s" "printable []"
  by (simp_all add: printable_def)

lemma printable_esc: "code c < 0x80 \<Longrightarrow> printable (esc_ascii c)"
  by (auto simp: esc_ascii_def hex_char_codes)

lemma printable_raw: "list_all (\<lambda>c. 0x80 \<le> code c) s \<Longrightarrow> printable s"
  by (auto simp: printable_def list_all_iff)

lemma printable_body: "printable (json_body s)"
proof (induction s rule: json_body.induct)
  case (2 c cs)
  let ?n = "rune_len (c # cs)"
  have raw: "printable (take (?n - 1) cs)" if "0x80 \<le> code c" "?n \<noteq> 0" using rune_bytes(1) [OF that] by (rule printable_raw)
  show ?case using 2 raw printable_esc [of c]
    by (cases "code c < 0x80"; cases "?n = 0"; cases "is_separator (c # cs)")
      (auto simp: Let_def hex_char_codes simp del: rune_len.simps)
qed simp

lemma printable_dec: "printable (dec_int n)"
proof -
  have "printable (dec_pos m)" if "0 \<le> m" for m
    using dec_pos_digits [OF that] by (fastforce simp: printable_def)
  then show ?thesis by (simp add: dec_int_def)
qed

lemma printable_string: "printable (json_string s)"
  by (simp add: json_string_def printable_body)

lemma printable_scalar: "printable (json_scalar v)"
  by (cases v) (simp_all add: printable_string printable_dec)

lemma printable_object: "printable (json_object fs)"
proof -
  have "printable (json_fields fs)"
    by (induction fs rule: json_fields.induct) (simp_all add: printable_string printable_scalar del: json_scalar.simps)
  then show ?thesis by (simp add: json_object_def)
qed

text \<open>The lines of a file, and a file of lines that are printable.\<close>

fun split_lines :: "string \<Rightarrow> string \<Rightarrow> string list" where
  "split_lines acc [] = (if acc = [] then [] else [rev acc])"
| "split_lines acc (c # cs) = (if c = CHR 0x0A then rev acc # split_lines [] cs else split_lines (c # acc) cs)"

lemma split_lines_one: "printable s \<Longrightarrow> split_lines acc (s @ [CHR 0x0A] @ t) = (rev acc @ s) # split_lines [] t"
  by (induction s arbitrary: acc) auto

lemma split_lines_printable:
  "\<forall>s \<in> set ls. printable s \<Longrightarrow> split_lines [] (concat (map (\<lambda>s. s @ [CHR 0x0A]) ls)) = ls"
proof (induction ls)
  case (Cons s ls)
  then show ?case using split_lines_one [of s "[]" "concat (map (\<lambda>s. s @ [CHR 0x0A]) ls)"] by simp
qed simp

lemma scrub_valid: "valid_utf8 s \<Longrightarrow> scrub s = s"
proof (induction s rule: valid_utf8.induct)
  case (2 c cs)
  then show ?case by (simp del: rune_len.simps)
qed simp

end
