(* ===== verification/Log_Lines.thy ===== *)
theory Log_Lines
  imports Json_Text Report_Files Endpoints
begin

text \<open>
  The lines of the log files of the file plugin. Events (\<open>ratelimitv2/event.go\<close>) and the precision log
  (\<open>plugin/statis/file/log_stat.go\<close>) are written as JSON objects, which read back whatever the clients
  put into their texts; the lines of a report are not escaped.
\<close>

section \<open>The texts of the events\<close>

text \<open>
  The times of the events are formatted by \<open>TimestampMsToUtcIso8601\<close>, over the text that the library
  formats; addresses and durations by their \<open>String\<close> methods.
\<close>

fun event_fields :: "(int \<Rightarrow> string) \<Rightarrow> Event \<Rightarrow> (string \<times> json_value) list" where
  "event_fields rfc3339 (StreamUpdate e) =
     [(''time_number'', JText (TimestampMsToUtcIso8601 rfc3339 (sue_TimeNumber e))),
      (''event'', JText (GetEventType (StreamUpdate e))), (''stream_id'', JText (sue_StreamId e)),
      (''ip_address'', JText (IPAddress_String (sue_IPAddress e))), (''action'', JText (sue_Action e))]"
| "event_fields rfc3339 (ClientUpdate e) =
     [(''time_number'', JText (TimestampMsToUtcIso8601 rfc3339 (cue_TimeNumber e))),
      (''event'', JText (GetEventType (ClientUpdate e))), (''client_id'', JText (cue_ClientId e)),
      (''ip_address'', JText (IPAddress_String (cue_IPAddress e))), (''action'', JText (cue_Action e))]"
| "event_fields rfc3339 (ClientStreamUpdate e) =
     [(''time_number'', JText (TimestampMsToUtcIso8601 rfc3339 (csue_TimeNumber e))),
      (''event'', JText (GetEventType (ClientStreamUpdate e))), (''last_stream_id'', JText (csue_LastStreamId e)),
      (''stream_id'', JText (csue_StreamId e)), (''client_id'', JText (csue_ClientId e)),
      (''ip_address'', JText (IPAddress_String (csue_IPAddress e))), (''action'', JText (csue_Action e))]"
| "event_fields rfc3339 (CounterClientUpdate e) =
     [(''time_number'', JText (TimestampMsToUtcIso8601 rfc3339 (ccue_TimeNumber e))),
      (''event'', JText (GetEventType (CounterClientUpdate e))), (''namespace'', JText (ccue_Namespace e)),
      (''service'', JText (ccue_Service e)), (''labels'', JText (ccue_Labels e)),
      (''duration'', JText (duration_String (ccue_Duration e))), (''client_id'', JText (ccue_ClientId e)),
      (''ip_address'', JText (IPAddress_String (ccue_IPAddress e))), (''action'', JText (ccue_Action e)),
      (''client_count'', JNumber (ccue_ClientCount e))]"
| "event_fields rfc3339 (QuotaChange e) =
     [(''time_number'', JText (TimestampMsToUtcIso8601 rfc3339 (qce_TimeNumber e))),
      (''event'', JText (GetEventType (QuotaChange e))), (''namespace'', JText (qce_Namespace e)),
      (''service'', JText (qce_Service e)), (''labels'', JText (qce_Labels e)),
      (''duration'', JText (duration_String (qce_Duration e))), (''action'', JText (qce_Action e)),
      (''client_id'', JText (qce_ClientId e)), (''latest_amount'', JNumber (uint (qce_LatestAmount e))),
      (''current_amount'', JNumber (uint (qce_CurrentAmount e)))]"
| "event_fields rfc3339 (CounterUpdate e) =
     [(''time_number'', JText (TimestampMsToUtcIso8601 rfc3339 (coue_TimeNumber e))),
      (''event'', JText (GetEventType (CounterUpdate e))), (''namespace'', JText (coue_Namespace e)),
      (''service'', JText (coue_Service e)), (''labels'', JText (coue_Labels e)),
      (''duration'', JText (duration_String (coue_Duration e))), (''action'', JText (coue_Action e)),
      (''amount'', JNumber (uint (coue_Amount e)))]"

definition ToJson :: "(int \<Rightarrow> string) \<Rightarrow> Event \<Rightarrow> string" where
  "ToJson rfc3339 e = json_object (event_fields rfc3339 e)"

section \<open>The texts of the precision log\<close>

definition logStat_fields :: "LogStatValue \<Rightarrow> (string \<times> json_value) list" where
  "logStat_fields i =
     [(''namespace'', JText (ls_Namespace i)), (''service'', JText (ls_Service i)), (''method'', JText (ls_Method i)),
      (''app_id'', JText (ls_AppId i)), (''uin'', JText (ls_Uin i)), (''labels'', JText (ls_Labels i)),
      (''duration'', JNumber (ls_Duration i)), (''passed'', JNumber (ls_Passed i)), (''total'', JNumber (ls_Total i)),
      (''limited'', JNumber (ls_Limited i)), (''time_number'', JNumber (ls_TimeNumber i)), (''time_str'', JText (ls_TimeStr i))]"

definition LogStatValue_String :: "LogStatValue \<Rightarrow> string" where
  "LogStatValue_String i = json_object (logStat_fields i)"

section \<open>The files\<close>

text \<open>
  The encoder of the logging library turns a message into what is appended to the file. The log files
  are configured to write the message alone, with the line ending of the library.
\<close>

definition event_file :: "(string \<Rightarrow> string) \<Rightarrow> (int \<Rightarrow> string) \<Rightarrow> FilePlugin \<Rightarrow> string" where
  "event_file encode rfc3339 p = concat (map (encode \<circ> ToJson rfc3339) (eventLines p))"

definition precision_file :: "(string \<Rightarrow> string) \<Rightarrow> FilePlugin \<Rightarrow> string" where
  "precision_file encode p = concat (map (encode \<circ> LogStatValue_String) (precisionLog p))"

lemma event_fields_nonempty: "event_fields rfc3339 e \<noteq> []"
  by (cases e) simp_all

lemma object_file_reads_back:
  assumes "\<And>m. encode m = m @ [CHR 0x0A]" "\<And>x. fields_of x \<noteq> []"
  shows "map json_read (split_lines [] (concat (map (encode \<circ> (json_object \<circ> fields_of)) xs))) = map (\<lambda>x. Some (scrub_fields (fields_of x), [])) xs"
proof -
  have "concat (map (encode \<circ> (json_object \<circ> fields_of)) xs) = concat (map (\<lambda>s. s @ [CHR 0x0A]) (map (json_object \<circ> fields_of) xs))"
    using assms(1) by (simp add: comp_def)
  then have "split_lines [] (concat (map (encode \<circ> (json_object \<circ> fields_of)) xs)) = map (json_object \<circ> fields_of) xs"
    using split_lines_printable [of "map (json_object \<circ> fields_of) xs"] printable_object by (simp add: comp_def)
  then show ?thesis using json_read_object [OF assms(2), of _ "[]"] by simp
qed

section \<open>Properties\<close>

text \<open>
  C30: Whatever texts the clients send, the event log has one line per event and the precision log one per
  value, and each line reads back as the fields of the structure, with every byte that is not part of
  a UTF-8 character replaced.
\<close>
theorem logs_read_back:
  assumes "\<And>m. encode m = m @ [CHR 0x0A]"
  shows "map json_read (split_lines [] (event_file encode rfc3339 p)) =
      map (\<lambda>e. Some (scrub_fields (event_fields rfc3339 e), [])) (eventLines p) \<and>
    map json_read (split_lines [] (precision_file encode p)) = map (\<lambda>i. Some (scrub_fields (logStat_fields i), [])) (precisionLog p)"
proof -
  have "ToJson rfc3339 = json_object \<circ> event_fields rfc3339" "LogStatValue_String = json_object \<circ> logStat_fields"
    by (simp_all add: fun_eq_iff ToJson_def LogStatValue_String_def)
  then show ?thesis
    using object_file_reads_back [OF assms, of "event_fields rfc3339" "eventLines p"]
      object_file_reads_back [OF assms, of logStat_fields "precisionLog p"]
    by (simp add: event_file_def precision_file_def event_fields_nonempty logStat_fields_def)
qed

text \<open>The part of a tag after its namespace.\<close>

definition tag_rest :: "string \<Rightarrow> StatValue \<Rightarrow> string" where
  "tag_rest limitService v = drop (length (''namespace='' @ tag_Namespace (tags_of v))) (rateLimitTag limitService v)"

lemma rateLimitTag_rest: "rateLimitTag limitService v = ''namespace='' @ tag_Namespace (tags_of v) @ tag_rest limitService v"
  by (simp add: tag_rest_def rateLimitTag_def Let_def)

lemma tag_rest_namespace:
  assumes "tags_of w = (tags_of v)\<lparr>tag_Namespace := ns\<rparr>"
  shows "tag_rest limitService w = tag_rest limitService v"
  using assms by (simp add: tag_rest_def rateLimitTag_def Let_def)

lemma check_namespace:
  assumes "fst (CheckRateLimitInitRequest tv req slide) = None" "Init_Target req = Some t" "ns \<noteq> []"
  shows "fst (CheckRateLimitInitRequest tv (req\<lparr>Init_Target := Some (t\<lparr>Target_Namespace := ns\<rparr>)\<rparr>) slide) = None"
  using assms by (auto simp: CheckRateLimitInitRequest_def checkInitRequest_def GetService_def GetNamespace_def Let_def split: if_splits option.splits)

text \<open>
  C31: The lines of a report are not escaped: with a line break in its namespace, which the checks of the
  initialisation accept, a client has the report of its rule read as that of any rule, with any
  numbers, followed by its own.
\<close>
theorem report_lines_can_be_forged:
  assumes "tags_of w = (tags_of v)\<lparr>tag_Namespace := ns\<rparr>"
    and "ns = tag_Namespace (tags_of u) @ tag_rest limitService u @ '' '' @ numbers @ '' 0'' @ [CHR 0x0A] @
      app @ '' '' @ address @ '' namespace='' @ tag_Namespace (tags_of v)"
    and "fst (CheckRateLimitInitRequest tv req slide) = None" "Init_Target req = Some t"
  shows "report_text now address \<lparr>AppName = app, Tags = [\<lparr>TagStr = rateLimitTag limitService w, ValueStr = own\<rparr>]\<rparr> =
      report_text now address \<lparr>AppName = app, Tags = [\<lparr>TagStr = rateLimitTag limitService u, ValueStr = numbers\<rparr>,
        \<lparr>TagStr = rateLimitTag limitService v, ValueStr = own\<rparr>]\<rparr> \<and>
    fst (CheckRateLimitInitRequest tv (req\<lparr>Init_Target := Some (t\<lparr>Target_Namespace := ns\<rparr>)\<rparr>) slide) = None"
proof
  show "report_text now address \<lparr>AppName = app, Tags = [\<lparr>TagStr = rateLimitTag limitService w, ValueStr = own\<rparr>]\<rparr> =
      report_text now address \<lparr>AppName = app, Tags = [\<lparr>TagStr = rateLimitTag limitService u, ValueStr = numbers\<rparr>,
        \<lparr>TagStr = rateLimitTag limitService v, ValueStr = own\<rparr>]\<rparr>"
    using assms(1,2) by (simp add: report_text_def rateLimitTag_rest tag_rest_namespace [OF assms(1)])
  have "ns \<noteq> []" using assms(2) by simp
  then show "fst (CheckRateLimitInitRequest tv (req\<lparr>Init_Target := Some (t\<lparr>Target_Namespace := ns\<rparr>)\<rparr>) slide) = None"
    by (rule check_namespace [OF assms(3,4)])
qed

text \<open>A client id with a quote, a line break, a tag and a byte that is no UTF-8.\<close>

definition odd_id :: string where
  "odd_id = [CHR 0x22, CHR 0x0A, CHR ''<'', CHR 0xC3, CHR 0xA9, CHR 0xFF]"

definition odd_events :: FilePlugin where
  "odd_events =
     \<lparr>curveReporter = NewRateLimitCurveReporter ''limiter'', serverReporter = NewServerCurveReporter sample_valid, eventReporter = [],
      reportLog = [], precisionLog = [],
      eventLines = [ClientUpdate \<lparr>cue_TimeNumber = 0, cue_ClientId = odd_id, cue_IPAddress = \<lparr>LowValue = 1, HighValue = 0\<rparr>, cue_Action = ''add''\<rparr>]\<rparr>"

theorem logs_read_back_witness:
  "map (map_option (\<lambda>(fs, r). (map_of fs ''client_id'', r))) (map json_read (split_lines [] (event_file (\<lambda>m. m @ [CHR 0x0A]) (\<lambda>t. []) odd_events))) =
     [Some (Some (JText [CHR 0x22, CHR 0x0A, CHR ''<'', CHR 0xC3, CHR 0xA9, CHR 0xEF, CHR 0xBF, CHR 0xBD]), [])]"
proof -
  have "map json_read (split_lines [] (event_file (\<lambda>m. m @ [CHR 0x0A]) (\<lambda>t. []) odd_events)) =
      map (\<lambda>e. Some (scrub_fields (event_fields (\<lambda>t. []) e), [])) (eventLines odd_events)"
    by (rule logs_read_back [THEN conjunct1]) simp
  moreover have "scrub odd_id = [CHR 0x22, CHR 0x0A, CHR ''<'', CHR 0xC3, CHR 0xA9, CHR 0xEF, CHR 0xBF, CHR 0xBD]" by code_simp
  moreover have "scrub ''client_id'' = ''client_id''" "scrub ''time_number'' = ''time_number''" "scrub ''event'' = ''event''" by code_simp+
  ultimately show ?thesis by (simp add: odd_events_def)
qed

definition with_namespace :: "string \<Rightarrow> StatValue" where
  "with_namespace ns = ValueV2 ((one_value 0)\<lparr>StatLabels := (StatLabels (one_value 0))\<lparr>stat_Namespace := ns\<rparr>\<rparr>)"

lemma tags_with_namespace: "tags_of (with_namespace ns) = (tags_of (with_namespace ''n''))\<lparr>tag_Namespace := ns\<rparr>"
  by (simp add: with_namespace_def one_value_def accessor_defs)

theorem report_lines_can_be_forged_witness:
  "\<exists>ns. report_text ''now'' ''addr'' \<lparr>AppName = ''app'', Tags = [\<lparr>TagStr = rateLimitTag ''l'' (with_namespace ns), ValueStr = ''mine''\<rparr>]\<rparr> =
      report_text ''now'' ''addr'' \<lparr>AppName = ''app'', Tags = [\<lparr>TagStr = rateLimitTag ''l'' (with_namespace ''other''), ValueStr = ''any''\<rparr>,
        \<lparr>TagStr = rateLimitTag ''l'' (with_namespace ''n''), ValueStr = ''mine''\<rparr>]\<rparr> \<and>
    fst (CheckRateLimitInitRequest \<lparr>Sec = 0, Usec = 0\<rparr> (sample_init\<lparr>Init_Target := Some ((the (Init_Target sample_init))\<lparr>Target_Namespace := ns\<rparr>)\<rparr>) 1) = None"
proof -
  have "fst (CheckRateLimitInitRequest \<lparr>Sec = 0, Usec = 0\<rparr> sample_init 1) = None"
    by (simp add: CheckRateLimitInitRequest_def checkInitRequest_def sample_init_def GetService_def GetNamespace_def seconds_def
        mul64_def i64_def Second_def)
  moreover have "Init_Target sample_init = Some (the (Init_Target sample_init))" by (simp add: sample_init_def)
  ultimately show ?thesis
    using report_lines_can_be_forged [where u = "with_namespace ''other''" and limitService = "''l''" and numbers = "''any''" and
        app = "''app''" and address = "''addr''", OF tags_with_namespace refl] by blast
qed

end
