(* ===== verification/Call_Races.thy ===== *)
theory Call_Races
  imports Server_Report
begin

text \<open>
  The statistics of the served calls, \<open>plugin/statis/file/server_curve.go\<close>, while calls and a report run at
  once. \<open>Server_Report\<close> makes each call and each report one step; here every load, every atomic addition
  and every operation of the map is a step of its own, for the entry of one key, and the callers and
  the reporter interleave freely. The maximum is updated in one step, which \<open>Cas_Max\<close> justifies.
\<close>

section \<open>The entry of a key\<close>

text \<open>The values that were made for the key, and the one that the map holds.\<close>

record call_entry =
  objs :: "APICallStatValueImpl list"
  slot :: "nat option"

definition touch :: "nat \<Rightarrow> (APICallStatValueImpl \<Rightarrow> APICallStatValueImpl) \<Rightarrow> 'a call_entry_scheme \<Rightarrow> 'a call_entry_scheme" where
  "touch i f s = s\<lparr>objs := (objs s)[i := f (objs s ! i)]\<rparr>"

section \<open>The callers\<close>

text \<open>Where a caller is in \<open>AddIncrement\<close>, and the value it has found.\<close>

datatype adder_pc = BeforeLoad | Missed | AtCount nat | AtLatency nat | AtMax nat | AtTime nat | Added

text \<open>A call: what was measured, and when it was added.\<close>

type_synonym served_call = "APICallStatValueImpl \<times> int"

fun adder_move :: "served_call \<Rightarrow> 'a call_entry_scheme \<Rightarrow> adder_pc \<Rightarrow> ('a call_entry_scheme \<times> adder_pc) option" where
  "adder_move c s BeforeLoad = Some (s, case slot s of Some i \<Rightarrow> AtCount i | None \<Rightarrow> Missed)"
| "adder_move c s Missed =
     (case slot s of
        Some i \<Rightarrow> Some (s, AtCount i)
      | None \<Rightarrow> Some (s\<lparr>objs := objs s @ [ApiClone (fst c)], slot := Some (length (objs s))\<rparr>, AtTime (length (objs s))))"
| "adder_move c s (AtCount i) = Some (touch i (AddReqCount 1) s, AtLatency i)"
| "adder_move c s (AtLatency i) = Some (touch i (AddLatency (Latency (fst c))) s, AtMax i)"
| "adder_move c s (AtMax i) = Some (touch i (CasMaxLatency (Latency (fst c))) s, AtTime i)"
| "adder_move c s (AtTime i) = Some (touch i (SetLastUpdateTime (snd c)) s, Added)"
| "adder_move c s Added = None"

section \<open>The reporter\<close>

text \<open>
  Where the reporter is in its visit of the key: it has loaded the value, found it without calls,
  decided to delete it, or is somewhere in \<open>GetValueStr\<close> with what it has read.
\<close>

datatype report_pc = Away | Visiting nat int | Unused nat int | Expired nat | Taking nat | TookCount nat "32 word" | LoadLatency nat "32 word"
  | TookLatency nat "32 word" int | LoadMax nat "32 word" int | TookMax nat "32 word" int int

text \<open>What a line prints: the calls, the sum of their latencies, the maximum.\<close>

type_synonym printed_line = "32 word \<times> int \<times> int"

fun report_move :: "int \<Rightarrow> int \<Rightarrow> 'a call_entry_scheme \<Rightarrow> report_pc \<Rightarrow> ('a call_entry_scheme \<times> report_pc \<times> printed_line list) option" where
  "report_move interval now s Away = map_option (\<lambda>i. (s, Visiting i now, [])) (slot s)"
| "report_move interval now s (Visiting i t) = Some (s, if ReqCount (objs s ! i) = 0 then Unused i t else Taking i, [])"
| "report_move interval now s (Unused i t) =
     Some (s, if mul64 2 interval \<le> sub64 t (ApiLastUpdateTime (objs s ! i)) then Expired i else Away, [])"
| "report_move interval now s (Expired i) = Some (s\<lparr>slot := None\<rparr>, Away, [])"
| "report_move interval now s (Taking i) = Some (s, TookCount i (ReqCount (objs s ! i)), [])"
| "report_move interval now s (TookCount i n) = Some (touch i (AddReqCount (0 - n)) s, LoadLatency i n, [])"
| "report_move interval now s (LoadLatency i n) = Some (s, TookLatency i n (Latency (objs s ! i)), [])"
| "report_move interval now s (TookLatency i n l) = Some (touch i (AddLatency (sub64 0 l)) s, LoadMax i n l, [])"
| "report_move interval now s (LoadMax i n l) = Some (s, TookMax i n l (MaxLatency (objs s ! i)), [])"
| "report_move interval now s (TookMax i n l m) = Some (touch i (ResetMaxLatency m) s, Away, [(n, l, m)])"

section \<open>Runs\<close>

record call_race = call_entry +
  adders :: "(served_call \<times> adder_pc) list"
  reporting :: report_pc
  printed_lines :: "printed_line list"

inductive race_step :: "int \<Rightarrow> call_race \<Rightarrow> call_race \<Rightarrow> bool" for interval where
  call: "j < length (adders s) \<Longrightarrow> adders s ! j = (c, pc) \<Longrightarrow> adder_move c s pc = Some (s1, pc') \<Longrightarrow>
    race_step interval s (s1\<lparr>adders := (adders s)[j := (c, pc')]\<rparr>)"
| report: "report_move interval now s (reporting s) = Some (s1, pc', out) \<Longrightarrow>
    race_step interval s (s1\<lparr>reporting := pc', printed_lines := printed_lines s @ out\<rparr>)"

inductive_cases race_stepE: "race_step interval s s'"

definition race_start :: "served_call list \<Rightarrow> call_race" where
  "race_start cs = \<lparr>objs = [], slot = None, adders = map (\<lambda>c. (c, BeforeLoad)) cs, reporting = Away, printed_lines = []\<rparr>"

inductive race_reach :: "int \<Rightarrow> served_call list \<Rightarrow> call_race \<Rightarrow> bool" for interval cs where
  init: "race_reach interval cs (race_start cs)"
| step: "race_reach interval cs s \<Longrightarrow> race_step interval s s' \<Longrightarrow> race_reach interval cs s'"

section \<open>What is conserved\<close>

text \<open>Whether a caller has added its call, and its latency, to a value; the values it still refers to.\<close>

fun in_count :: "adder_pc \<Rightarrow> bool" where
  "in_count BeforeLoad = False"
| "in_count Missed = False"
| "in_count (AtCount i) = False"
| "in_count _ = True"

fun in_latency :: "adder_pc \<Rightarrow> bool" where
  "in_latency (AtLatency i) = False"
| "in_latency pc = in_count pc"

fun adder_ref :: "adder_pc \<Rightarrow> nat set" where
  "adder_ref (AtCount i) = {i}"
| "adder_ref (AtLatency i) = {i}"
| "adder_ref (AtMax i) = {i}"
| "adder_ref (AtTime i) = {i}"
| "adder_ref _ = {}"

text \<open>What the reporter has taken out of a value and not printed yet, and the value it refers to.\<close>

fun taken_count :: "report_pc \<Rightarrow> 32 word" where
  "taken_count (LoadLatency i n) = n"
| "taken_count (TookLatency i n l) = n"
| "taken_count (LoadMax i n l) = n"
| "taken_count (TookMax i n l m) = n"
| "taken_count _ = 0"

fun taken_latency :: "report_pc \<Rightarrow> int" where
  "taken_latency (LoadMax i n l) = l"
| "taken_latency (TookMax i n l m) = l"
| "taken_latency _ = 0"

fun report_ref :: "report_pc \<Rightarrow> nat set" where
  "report_ref Away = {}"
| "report_ref (Visiting i t) = {i}"
| "report_ref (Unused i t) = {i}"
| "report_ref (Expired i) = {i}"
| "report_ref (Taking i) = {i}"
| "report_ref (TookCount i n) = {i}"
| "report_ref (LoadLatency i n) = {i}"
| "report_ref (TookLatency i n l) = {i}"
| "report_ref (LoadMax i n l) = {i}"
| "report_ref (TookMax i n l m) = {i}"

definition held_count :: "call_race \<Rightarrow> 32 word" where
  "held_count s = sum_list (map ReqCount (objs s)) + taken_count (reporting s) + sum_list (map fst (printed_lines s))"

definition held_latency :: "call_race \<Rightarrow> int" where
  "held_latency s = sum_list (map Latency (objs s)) + taken_latency (reporting s) + sum_list (map (fst \<circ> snd) (printed_lines s))"

definition made_count :: "call_race \<Rightarrow> 32 word" where
  "made_count s = sum_list (map (\<lambda>(c, pc). if in_count pc then 1 else 0) (adders s))"

definition made_latency :: "call_race \<Rightarrow> int" where
  "made_latency s = sum_list (map (\<lambda>(c, pc). if in_latency pc then Latency (fst c) else 0) (adders s))"

definition race_inv :: "served_call list \<Rightarrow> call_race \<Rightarrow> bool" where
  "race_inv cs s \<longleftrightarrow> map fst (adders s) = cs \<and> held_count s = made_count s \<and> i64 (held_latency s) = i64 (made_latency s) \<and>
     (\<forall>(c, pc) \<in> set (adders s). adder_ref pc \<subseteq> {..<length (objs s)}) \<and> report_ref (reporting s) \<subseteq> {..<length (objs s)} \<and>
     set_option (slot s) \<subseteq> {..<length (objs s)}"

lemma race_inv_start: "race_inv cs (race_start cs)"
  by (auto simp: race_inv_def race_start_def held_count_def made_count_def held_latency_def made_latency_def comp_def sum_list_0)

lemma sum_list_map_update:
  fixes f :: "'a \<Rightarrow> 'b :: ab_group_add"
  shows "i < length xs \<Longrightarrow> sum_list (map f (xs[i := y])) = sum_list (map f xs) - f (xs ! i) + f y"
  by (simp add: map_update sum_list_update_at)

text \<open>The effect of one operation on the sums.\<close>

lemma touch_sums:
  assumes "i < length (objs s)"
  shows "sum_list (map ReqCount (objs (touch i f s))) = sum_list (map ReqCount (objs s)) - ReqCount (objs s ! i) + ReqCount (f (objs s ! i))"
    "sum_list (map Latency (objs (touch i f s))) = sum_list (map Latency (objs s)) - Latency (objs s ! i) + Latency (f (objs s ! i))"
    "length (objs (touch i f s)) = length (objs s)" "slot (touch i f s) = slot s"
  using assms by (simp_all add: touch_def sum_list_map_update)

lemma value_ops [simp]:
  "ReqCount (AddLatency l a) = ReqCount a" "ReqCount (CasMaxLatency l a) = ReqCount a" "ReqCount (SetLastUpdateTime t a) = ReqCount a"
  "ReqCount (AddReqCount n a) = ReqCount a + n" "ReqCount (ResetMaxLatency l a) = ReqCount a" "ReqCount (ApiClone a) = ReqCount a"
  "Latency (AddLatency l a) = add64 (Latency a) l" "Latency (CasMaxLatency l a) = Latency a" "Latency (SetLastUpdateTime t a) = Latency a"
  "Latency (AddReqCount n a) = Latency a" "Latency (ResetMaxLatency l a) = Latency a" "Latency (ApiClone a) = Latency a"
  by (simp_all add: AddLatency_def CasMaxLatency_def SetLastUpdateTime_def AddReqCount_def ResetMaxLatency_def ApiClone_def)

text \<open>A move of a caller adds to the values what it adds to its own account.\<close>

lemma adder_move_sums:
  assumes "adder_move c s pc = Some (s1, pc')" "ReqCount (fst c) = 1" "adder_ref pc \<subseteq> {..<length (objs s)}" "set_option (slot s) \<subseteq> {..<length (objs s)}"
  shows "sum_list (map ReqCount (objs s1)) = sum_list (map ReqCount (objs s)) + (if in_count pc' then 1 else 0) - (if in_count pc then 1 else 0)"
    "i64 (sum_list (map Latency (objs s1)) + (if in_latency pc then Latency (fst c) else 0)) =
       i64 (sum_list (map Latency (objs s)) + (if in_latency pc' then Latency (fst c) else 0))"
    "length (objs s) \<le> length (objs s1)" "adder_ref pc' \<subseteq> {..<length (objs s1)}" "set_option (slot s1) \<subseteq> {..<length (objs s1)}"
proof -
  have lat: "i64 (x - y + add64 y l) = i64 (x + l)" for x y l
    using i64_add_right [of "x - y" "y + l"] by (simp add: add64_def algebra_simps)
  show "sum_list (map ReqCount (objs s1)) = sum_list (map ReqCount (objs s)) + (if in_count pc' then 1 else 0) - (if in_count pc then 1 else 0)"
    "i64 (sum_list (map Latency (objs s1)) + (if in_latency pc then Latency (fst c) else 0)) =
       i64 (sum_list (map Latency (objs s)) + (if in_latency pc' then Latency (fst c) else 0))"
    "length (objs s) \<le> length (objs s1)" "adder_ref pc' \<subseteq> {..<length (objs s1)}" "set_option (slot s1) \<subseteq> {..<length (objs s1)}"
    using assms by (cases pc; auto simp: touch_sums lat split: option.splits)+
qed

text \<open>A move of the reporter takes from the values what it carries or prints.\<close>

lemma report_move_sums:
  assumes "report_move interval now s pc = Some (s1, pc', out)" "report_ref pc \<subseteq> {..<length (objs s)}" "set_option (slot s) \<subseteq> {..<length (objs s)}"
  shows "sum_list (map ReqCount (objs s1)) + taken_count pc' + sum_list (map fst out) = sum_list (map ReqCount (objs s)) + taken_count pc"
    "i64 (sum_list (map Latency (objs s1)) + taken_latency pc' + sum_list (map (fst \<circ> snd) out)) = i64 (sum_list (map Latency (objs s)) + taken_latency pc)"
    "length (objs s1) = length (objs s)" "report_ref pc' \<subseteq> {..<length (objs s1)}" "set_option (slot s1) \<subseteq> {..<length (objs s1)}"
proof -
  have lat: "i64 (x - y + add64 y (sub64 0 l) + l) = i64 x" for x y l
  proof -
    have "add64 y (sub64 0 l) = i64 (y - l)" using i64_add_right [of y "- l"] by (simp add: add64_def sub64_def)
    then show ?thesis using i64_add_right [of "x - y + l" "y - l"] by (simp add: algebra_simps)
  qed
  show "sum_list (map ReqCount (objs s1)) + taken_count pc' + sum_list (map fst out) = sum_list (map ReqCount (objs s)) + taken_count pc"
    "i64 (sum_list (map Latency (objs s1)) + taken_latency pc' + sum_list (map (fst \<circ> snd) out)) = i64 (sum_list (map Latency (objs s)) + taken_latency pc)"
    "length (objs s1) = length (objs s)" "report_ref pc' \<subseteq> {..<length (objs s1)}" "set_option (slot s1) \<subseteq> {..<length (objs s1)}"
    using assms by (cases pc; auto simp: touch_sums lat split: if_splits)+
qed

lemma adder_move_frame:
  assumes "adder_move c s pc = Some (s1, pc')"
  shows "call_race.more s1 = call_race.more s" "adders (s1 :: call_race) = adders s" "reporting s1 = reporting s" "printed_lines s1 = printed_lines s"
  using assms by (cases pc; auto simp: touch_def split: option.splits)+

lemma report_move_frame:
  assumes "report_move interval now (s :: call_race) pc = Some (s1, pc', out)"
  shows "adders s1 = adders s" "printed_lines s1 = printed_lines s" "reporting s1 = reporting s"
  using assms by (cases pc; auto simp: touch_def split: if_splits)+

lemma race_step_inv:
  assumes "race_step interval s s'" "race_inv cs s" "\<forall>c \<in> set cs. ReqCount (fst c) = 1"
  shows "race_inv cs s'"
  using assms(1)
proof (cases rule: race_step.cases)
  case (call j c pc s1 pc')
  have j: "fst (adders s ! j) = c" "snd (adders s ! j) = pc" "(c, pc) \<in> set (adders s)" using call(2,3) nth_mem [of j "adders s"] by auto
  then have c: "ReqCount (fst c) = 1" using assms(2,3) by (force simp: race_inv_def)
  have refs: "adder_ref pc \<subseteq> {..<length (objs s)}" "set_option (slot s) \<subseteq> {..<length (objs s)}"
    using assms(2) j(3) by (auto simp: race_inv_def)
  note sums = adder_move_sums [OF call(4) c refs]
  note frame = adder_move_frame [OF call(4)]
  have "map fst (adders s') = map fst (adders s)" using call(1,2) j(1) by (simp add: map_update) (metis list_update_id nth_map)
  moreover have "held_count s' = made_count s'"
  proof -
    have "held_count s' = held_count s + (if in_count pc' then 1 else 0) - (if in_count pc then 1 else 0)"
      using sums(1) frame call(1) by (simp add: held_count_def)
    moreover have "made_count s' = made_count s + (if in_count pc' then 1 else 0) - (if in_count pc then 1 else 0)"
      using call(1-3) frame by (simp add: made_count_def sum_list_map_update)
    ultimately show ?thesis using assms(2) by (simp add: race_inv_def)
  qed
  moreover have "i64 (held_latency s') = i64 (made_latency s')"
  proof -
    let ?x = "if in_latency pc then Latency (fst c) else 0" and ?x' = "if in_latency pc' then Latency (fst c) else 0"
    let ?r = "taken_latency (reporting s) + sum_list (map (fst \<circ> snd) (printed_lines s))"
    have "i64 (held_latency s') = i64 (sum_list (map Latency (objs s1)) + ?r)"
      using frame call(1) by (simp add: held_latency_def add.assoc)
    also have "\<dots> = i64 (held_latency s + (?x' - ?x))"
      using i64_cong_add [OF sums(2), of "?r - ?x"] by (simp add: held_latency_def algebra_simps)
    also have "\<dots> = i64 (made_latency s + (?x' - ?x))" using assms(2) unfolding race_inv_def by (intro i64_cong_add) blast
    also have "made_latency s + (?x' - ?x) = made_latency s'" using call(1-3) frame by (simp add: made_latency_def sum_list_map_update)
    finally show ?thesis .
  qed
  moreover have "\<forall>(c, pc) \<in> set (adders s'). adder_ref pc \<subseteq> {..<length (objs s')}"
  proof (clarify)
    fix d q n
    assume d: "(d, q) \<in> set (adders s')" and n: "n \<in> adder_ref q"
    have "set (adders s') \<subseteq> insert (c, pc') (set (adders s))" using call(1) by (simp add: set_update_subset_insert)
    then consider "d = c" "q = pc'" | "(d, q) \<in> set (adders s)" using d by blast
    then show "n < length (objs s')"
    proof cases
      case 1
      then show ?thesis using n sums(4) call(1) by auto
    next
      case 2
      then have "adder_ref q \<subseteq> {..<length (objs s)}" using assms(2) by (auto simp: race_inv_def)
      then show ?thesis using n sums(3) call(1) by auto
    qed
  qed
  moreover have "report_ref (reporting s') \<subseteq> {..<length (objs s')}" using assms(2) sums(3) frame call(1) by (auto simp: race_inv_def)
  ultimately show ?thesis using assms(2) sums(5) call(1) by (simp add: race_inv_def)
next
  case (report now s1 pc' out)
  have refs: "report_ref (reporting s) \<subseteq> {..<length (objs s)}" "set_option (slot s) \<subseteq> {..<length (objs s)}"
    using assms(2) by (auto simp: race_inv_def)
  note sums = report_move_sums [OF report(2) refs]
  note frame = report_move_frame [OF report(2)]
  have "held_count s' = held_count s" using sums(1) frame report(1) by (simp add: held_count_def algebra_simps)
  moreover have "i64 (held_latency s') = i64 (held_latency s)"
    using i64_cong_add [OF sums(2), of "sum_list (map (fst \<circ> snd) (printed_lines s))"] frame report(1)
    by (simp add: held_latency_def algebra_simps)
  ultimately show ?thesis using assms(2) sums(3-5) frame report(1)
    by (simp add: race_inv_def made_count_def made_latency_def)
qed

lemma race_reach_inv: "race_reach interval cs s \<Longrightarrow> \<forall>c \<in> set cs. ReqCount (fst c) = 1 \<Longrightarrow> race_inv cs s"
  by (induction rule: race_reach.induct) (auto intro: race_inv_start race_step_inv)

section \<open>One at a time\<close>






text \<open>A run that is given as the moves of its callers and of the reporter at some time.\<close>

datatype race_move = Caller nat | Reporter int

fun race_exec :: "int \<Rightarrow> race_move list \<Rightarrow> call_race \<Rightarrow> call_race option" where
  "race_exec interval [] s = Some s"
| "race_exec interval (Caller j # ms) s =
     (if length (adders s) \<le> j then None
      else let (c, pc) = adders s ! j in
           Option.bind (adder_move c s pc) (\<lambda>(s1, pc'). race_exec interval ms (s1\<lparr>adders := (adders s)[j := (c, pc')]\<rparr>)))"
| "race_exec interval (Reporter now # ms) s =
     Option.bind (report_move interval now s (reporting s)) (\<lambda>(s1, pc', out).
       race_exec interval ms (s1\<lparr>reporting := pc', printed_lines := printed_lines s @ out\<rparr>))"

lemma race_exec_reach: "race_exec interval ms s = Some s' \<Longrightarrow> race_reach interval cs s \<Longrightarrow> race_reach interval cs s'"
proof (induction interval ms s rule: race_exec.induct)
  case (2 interval j ms s)
  then show ?case
    by (fastforce simp: bind_eq_Some_conv Let_def split: if_splits prod.splits intro: race_reach.step race_step.call)
next
  case (3 interval now ms s)
  then show ?case by (fastforce simp: bind_eq_Some_conv intro: race_reach.step race_step.report)
qed simp

section \<open>Properties\<close>


text \<open>
  C33: However calls and reports interleave, when all have finished the printed lines and the values that
  were made for the key together hold every call once, and the whole of the latencies.
\<close>
theorem interleaved_calls_are_conserved:
  assumes "race_reach interval cs s" "\<forall>c \<in> set cs. ReqCount (fst c) = 1"
    and "\<forall>(c, pc) \<in> set (adders s). pc = Added" "reporting s = Away"
  shows "sum_list (map fst (printed_lines s)) + sum_list (map ReqCount (objs s)) = of_nat (length cs) \<and>
    i64 (sum_list (map (fst \<circ> snd) (printed_lines s)) + sum_list (map Latency (objs s))) = i64 (sum_list (map (\<lambda>c. Latency (fst c)) cs))"
proof -
  have inv: "race_inv cs s" using race_reach_inv assms(1,2) by blast
  have added: "\<forall>x \<in> set (adders s). snd x = Added" using assms(3) by auto
  have all: "map (\<lambda>(c, pc). g c pc) (adders s) = map (\<lambda>c. g c Added) cs" for g :: "served_call \<Rightarrow> adder_pc \<Rightarrow> 'b"
    using added inv by (auto simp: race_inv_def case_prod_unfold)
  have "made_count s = of_nat (length cs)" unfolding made_count_def
    using all [of "\<lambda>c pc. if in_count pc then 1 else 0 :: 32 word"] by (simp add: sum_list_triv)
  moreover have "made_latency s = sum_list (map (\<lambda>c. Latency (fst c)) cs)" unfolding made_latency_def
    using all [of "\<lambda>c pc. if in_latency pc then Latency (fst c) else 0"] by simp
  ultimately show ?thesis using inv assms(4) by (simp add: race_inv_def held_count_def held_latency_def add.commute)
qed

text \<open>
  C34: But a call can be added to a value that the map has lost: when the reporter finds the entry unused
  for two intervals and deletes it after a caller has loaded it, that call is in no report, whatever
  follows.
\<close>
theorem deleted_entry_loses_call:
  assumes "ReqCount (fst c) = 1" "ReqCount (fst d) = 1" "0 \<le> interval" "interval < 2 ^ 60" "0 \<le> snd c" "snd c < 2 ^ 60"
  shows "\<exists>s. race_reach interval [c, d] s \<and> (\<forall>(c, pc) \<in> set (adders s). pc = Added) \<and>
    (\<nexists>s'. race_step interval s s') \<and> sum_list (map fst (printed_lines s)) = 1"
proof -
  let ?now = "snd c + 2 * interval"
  have t: "sub64 ?now (snd c) = 2 * interval" "mul64 2 interval = 2 * interval"
    using assms(3-6) by (simp_all add: sub64_def mul64_def in64_def)
  let ?ms = "[Caller 0, Caller 0, Caller 0, Reporter 0, Reporter 0, Reporter 0, Reporter 0, Reporter 0, Reporter 0, Reporter 0, Reporter 0,
    Caller 1, Reporter ?now, Reporter ?now, Reporter ?now, Reporter ?now, Caller 1, Caller 1, Caller 1, Caller 1]"
  obtain s where s: "race_exec interval ?ms (race_start [c, d]) = Some s" "adders s = [(c, Added), (d, Added)]" "slot s = None"
    "reporting s = Away" "map fst (printed_lines s) = [1]"
    using assms(1,2) t
    by (simp add: race_start_def touch_def SetLastUpdateTime_def AddReqCount_def AddLatency_def ResetMaxLatency_def CasMaxLatency_def ApiClone_def)
  have "race_reach interval [c, d] s" by (rule race_exec_reach [OF s(1) race_reach.init])
  moreover have "\<nexists>s'. race_step interval s s'"
    using s(2-4) by (auto elim!: race_stepE simp: less_Suc_eq)
  ultimately show ?thesis using s(2,5) by auto
qed

section \<open>Sample runs\<close>

text \<open>Two calls of one kind that take 7 and 5 units, in the course of which a report is made.\<close>

definition sample_call :: "int \<Rightarrow> served_call" where
  "sample_call latency = (one_call 200000 latency, 0)"

definition sample_moves :: "race_move list" where
  "sample_moves = [Caller 0, Caller 1, Caller 0, Caller 1, Caller 1, Reporter 9, Reporter 9, Reporter 9, Caller 0, Caller 1, Reporter 9,
     Reporter 9, Reporter 9, Reporter 9, Caller 1, Caller 1, Reporter 9]"


theorem interleaved_calls_are_conserved_witness:
  "\<exists>s. race_exec 60000000000 sample_moves (race_start [sample_call 7, sample_call 5]) = Some s \<and> printed_lines s = [(2, 12, 7)] \<and>
     sum_list (map fst (printed_lines s)) + sum_list (map ReqCount (objs s)) = (2 :: 32 word)"
proof -
  let ?cs = "[sample_call 7, sample_call 5]"
  obtain s where s: "race_exec 60000000000 sample_moves (race_start ?cs) = Some s" "adders s = map (\<lambda>c. (c, Added)) ?cs" "reporting s = Away"
    "printed_lines s = [(2, 12, 7)]"
    by (simp add: sample_moves_def sample_call_def race_start_def touch_def SetLastUpdateTime_def AddReqCount_def AddLatency_def
        ResetMaxLatency_def CasMaxLatency_def ApiClone_def one_call_def NewAPICall_def add64_def sub64_def i64_def)
  have "race_reach 60000000000 ?cs s" by (rule race_exec_reach [OF s(1) race_reach.init])
  moreover have "\<forall>c \<in> set ?cs. ReqCount (fst c) = 1" by (simp add: sample_call_def one_call_def NewAPICall_def)
  moreover have "\<forall>(c, pc) \<in> set (adders s). pc = Added" using s(2) by simp
  ultimately show ?thesis using interleaved_calls_are_conserved [of 60000000000 ?cs s] s(1,3,4) by auto
qed

theorem deleted_entry_loses_call_witness:
  "\<exists>s. race_reach 60000000000 [sample_call 7, sample_call 5] s \<and> (\<forall>(c, pc) \<in> set (adders s). pc = Added) \<and>
     (\<nexists>s'. race_step 60000000000 s s') \<and> sum_list (map fst (printed_lines s)) = 1"
  by (rule deleted_entry_loses_call) (simp_all add: sample_call_def one_call_def NewAPICall_def)

end
