(* ===== verification/Usage_Export.thy ===== *)
theory Usage_Export
  imports Metrics Server_Properties
begin

text \<open>
  From the report of a client to the metrics: \<open>ratelimitv2/core.go\<close> and \<open>counter.go\<close> add what a report has used
  to the collector of its stream, and the metrics plugin exports what the collectors hold. What is used
  of a rule is exported for that rule as long as the keys of the collector still name the rules they
  were made for; a key that has passed to another rule in the meantime is charged to that rule.
\<close>

section \<open>What a usage adds to a collector\<close>

text \<open>The rule of a counter as the metrics name it.\<close>

definition rule_of :: "counterV2 \<Rightarrow> dimensionKey" where
  "rule_of c =
     \<lparr>dim_Namespace = id_Namespace (cIdentifier c), dim_Service = id_Service (cIdentifier c), dim_Method = Method (subLabels c),
      dim_AppId = AppId (subLabels c), dim_Uin = Uin (subLabels c), dim_Labels = Labels (subLabels c),
      dim_Duration = duration_String (id_Duration (cIdentifier c))\<rparr>"

text \<open>The usages of a report that are charged, each with its counter: those before the first that is refused.\<close>

fun charged :: "Config \<Rightarrow> (u32 \<Rightarrow> nat option) \<Rightarrow> QuotaSum list \<Rightarrow> (nat \<times> QuotaSum) list" where
  "charged c look [] = []"
| "charged c look (q # qs) =
     (let (code, k) = unboxCounterKey c (Sum_CounterKey q) in
      if code \<noteq> ExecuteSuccess then []
      else (case look k of None \<Rightarrow> [] | Some ref \<Rightarrow> (ref, q) # charged c look qs))"

text \<open>What they use of a rule, for one of the two amounts of a usage.\<close>

definition used_of :: "(QuotaSum \<Rightarrow> u32) \<Rightarrow> Server \<Rightarrow> QuotaSum list \<Rightarrow> dimensionKey \<Rightarrow> int" where
  "used_of f sv qs k = sum_list (map (\<lambda>(ref, q). if rule_of (stored sv ref) = k then uint (f q) else 0) (charged (cfg sv) (looked sv) qs))"

text \<open>What a collector holds for a rule.\<close>

definition coll_held :: "(rateLimitData \<Rightarrow> int) \<Rightarrow> collector \<Rightarrow> dimensionKey \<Rightarrow> int" where
  "coll_held g col k = of_rule g (coll_values (CollV2 col)) k"

text \<open>The values of a collector are those of the rules that their keys name now.\<close>

definition labels_ok :: "Server \<Rightarrow> collector \<Rightarrow> bool" where
  "labels_ok sv col \<longleftrightarrow> (\<forall>k \<in> key_range (MaxCounter (cfg sv)). \<forall>ref sk v. looked sv k = Some ref \<longrightarrow> map_of (statValues col) sk = Some v \<longrightarrow>
     CounterKeyV2 sk = counterKey (stored sv ref) \<longrightarrow> dimension (ValueV2 v) = rule_of (stored sv ref))"

definition values_nonneg :: "collector \<Rightarrow> bool" where
  "values_nonneg col \<longleftrightarrow> (\<forall>v \<in> set (coll_values (CollV2 col)). 0 \<le> Passed (curve_of v) \<and> 0 \<le> Limited (curve_of v))"

section \<open>The steps of a report\<close>

text \<open>The value that a usage adds.\<close>

definition usage_value :: "counterV2 \<Rightarrow> client \<Rightarrow> int \<Rightarrow> QuotaSum \<Rightarrow> RateLimitStatValueV2" where
  "usage_value c s t q =
     \<lparr>StatKey = \<lparr>CounterKeyV2 = counterKey c, ClientIPV2 = clientIP s\<rparr>, Total = uint (maxAmount c),
      CurveData = InitValues (uint (Sum_Used q)) (uint (Sum_Limited q)) t,
      PrecisionData = InitValues (uint (Sum_Used q)) (uint (Sum_Limited q)) t,
      StatLabels = \<lparr>stat_Namespace = id_Namespace (cIdentifier c), stat_Service = id_Service (cIdentifier c), stat_Method = Method (subLabels c),
        stat_AppId = AppId (subLabels c), stat_Uin = Uin (subLabels c), stat_Labels = Labels (subLabels c),
        stat_Duration = id_Duration (cIdentifier c)\<rparr>,
      ExpireDuration = expireDurationMilli c, LastUpdateTime = t\<rparr>"

lemma doQuotaStatReport_collector:
  assumes "doQuotaStatReport start (Sum_Used q) (Sum_Limited q) (Some r) c m col = Inr col'"
  shows "col' = (if idle q then col else AddStatValue col (usage_value c (clientObjs m ! r) (i64 (start sdiv 1000)) q))"
  using assms by (auto simp: doQuotaStatReport_def idle_def usage_value_def Let_def bindR_eq_Inr_iff word_gt_0 deref_def split: if_splits option.splits)

lemma usage_value_rule: "dimension (ValueV2 (usage_value c s t q)) = rule_of c"
  by (simp add: usage_value_def dimension_def rule_of_def accessor_defs Let_def)

lemma Allocate_frame:
  assumes "Allocate tv self cl q ts start c m = Inr (l, c', m')"
  shows "c' = c\<lparr>allocator := allocator c'\<rparr>" "counterObjs m' = counterObjs m" "clientObjs m' = clientObjs m"
  using assms by (auto simp: Allocate_def doPush_def Let_def bindR_eq_Inr_iff split: option.splits if_splits prod.splits)

section \<open>Amounts\<close>

lemma sum_over_update:
  fixes h :: "'v \<Rightarrow> int"
  shows "sum_list (map (h \<circ> snd) (AList.update k v m)) = sum_list (map (h \<circ> snd) m) + h v - (case map_of m k of None \<Rightarrow> 0 | Some e \<Rightarrow> h e)"
  by (induction m) (auto split: option.splits)

lemma held_as_sum:
  "coll_held g col k = sum_list (map ((\<lambda>v. if dimension (ValueV2 v) = k then g (curve_of (ValueV2 v)) else 0) \<circ> snd) (statValues col))"
  by (simp add: coll_held_def of_rule_def comp_def)

lemma held_bound:
  assumes "values_nonneg col" "map_of (statValues col) sk = Some e" "g = Passed \<or> g = Limited"
  shows "0 \<le> g (CurveData e)" "g (CurveData e) \<le> coll_held g col (dimension (ValueV2 e))"
proof -
  have all: "\<forall>v \<in> set (coll_values (CollV2 col)). 0 \<le> g (curve_of v)" using assms(1,3) by (auto simp: values_nonneg_def)
  have e: "ValueV2 e \<in> set (coll_values (CollV2 col))" using map_of_SomeD [OF assms(2)] by force
  then show "0 \<le> g (CurveData e)" using all by (fastforce simp: accessor_defs)
  let ?h = "\<lambda>v. if dimension v = dimension (ValueV2 e) then g (curve_of v) else 0"
  have "?h (ValueV2 e) \<le> sum_list (map ?h (coll_values (CollV2 col)))"
    using e all by (intro member_le_sum_list) auto
  then show "g (CurveData e) \<le> coll_held g col (dimension (ValueV2 e))" by (simp add: coll_held_def of_rule_def accessor_defs)
qed

lemma held_AddStatValue:
  assumes "values_nonneg col" "g = Passed \<or> g = Limited" "0 \<le> g (CurveData v)"
    and "coll_held g col (dimension (ValueV2 v)) + g (CurveData v) < 2 ^ 63"
    and "\<And>e. map_of (statValues col) (StatKey v) = Some e \<Longrightarrow> dimension (ValueV2 e) = dimension (ValueV2 v)"
  shows "coll_held g (AddStatValue col v) k = coll_held g col k + (if dimension (ValueV2 v) = k then g (CurveData v) else 0)"
proof (cases "map_of (statValues col) (StatKey v)")
  case None
  then show ?thesis by (simp add: held_as_sum AddStatValue_cases sum_over_update accessor_defs)
next
  case (Some e)
  note b = held_bound [OF assms(1) Some assms(2)]
  have d: "dimension (ValueV2 e) = dimension (ValueV2 v)" using assms(5) Some by blast
  have a: "dimension (ValueV2 (addToExisting e v)) = dimension (ValueV2 v)"
    using d by (simp add: dimension_def addToExisting_def accessor_defs Let_def)
  have "g (CurveData (addToExisting e v)) = add64 (g (CurveData e)) (g (CurveData v))"
    using assms(2) by (auto simp: addToExisting_def AddValues_def AddPassed_def AddLimited_def)
  moreover have "add64 (g (CurveData e)) (g (CurveData v)) = g (CurveData e) + g (CurveData v)"
    using b assms(3,4) d by (intro add64_id) (simp add: in64_def)
  ultimately show ?thesis using Some a d by (simp add: held_as_sum AddStatValue_cases sum_over_update accessor_defs)
qed

lemma nonneg_AddStatValue:
  assumes "values_nonneg col" "0 \<le> Passed (CurveData v)" "0 \<le> Limited (CurveData v)"
    and "\<And>e. map_of (statValues col) (StatKey v) = Some e \<Longrightarrow>
      Passed (CurveData e) + Passed (CurveData v) < 2 ^ 63 \<and> Limited (CurveData e) + Limited (CurveData v) < 2 ^ 63"
  shows "values_nonneg (AddStatValue col v)"
proof -
  have sub: "set (AList.update (StatKey v) x (statValues col)) \<subseteq> insert (StatKey v, x) (set (statValues col))" for x
    by (rule set_update_subset)
  show ?thesis
  proof (cases "map_of (statValues col) (StatKey v)")
    case None
    then show ?thesis using assms(1-3) sub [of v] by (fastforce simp: values_nonneg_def AddStatValue_cases accessor_defs)
  next
    case (Some e)
    have "0 \<le> Passed (CurveData e)" "0 \<le> Limited (CurveData e)" using held_bound(1) [OF assms(1) Some] by auto
    then have "0 \<le> Passed (CurveData (addToExisting e v))" "0 \<le> Limited (CurveData (addToExisting e v))"
      using assms(2,3) assms(4) [OF Some] by (simp_all add: addToExisting_def AddValues_def AddPassed_def AddLimited_def add64_id in64_def)
    then show ?thesis using assms(1) sub [of "addToExisting e v"] Some
      by (fastforce simp: values_nonneg_def AddStatValue_cases accessor_defs)
  qed
qed

lemma labels_AddStatValue:
  assumes "labels_ok sv col" "k \<in> key_range (MaxCounter (cfg sv))" "looked sv k = Some ref" "StatKey v = \<lparr>CounterKeyV2 = counterKey (stored sv ref), ClientIPV2 = ip\<rparr>"
    and "dimension (ValueV2 v) = rule_of (stored sv ref)"
    and "\<And>k' ref'. k' \<in> key_range (MaxCounter (cfg sv)) \<Longrightarrow> looked sv k' = Some ref' \<Longrightarrow>
      counterKey (stored sv ref') = counterKey (stored sv ref) \<Longrightarrow> ref' = ref"
  shows "labels_ok sv (AddStatValue col v)"
proof -
  have kept: "dimension (ValueV2 (addToExisting e v)) = dimension (ValueV2 e)" for e
    by (simp add: dimension_def addToExisting_def accessor_defs Let_def)
  show ?thesis unfolding labels_ok_def
  proof (intro ballI allI impI)
    fix k' ref' sk w
    assume k': "k' \<in> key_range (MaxCounter (cfg sv))" and a: "looked sv k' = Some ref'" "map_of (statValues (AddStatValue col v)) sk = Some w" "CounterKeyV2 sk = counterKey (stored sv ref')"
    show "dimension (ValueV2 w) = rule_of (stored sv ref')"
    proof (cases "sk = StatKey v \<and> map_of (statValues col) sk = None")
      case True
      then have "counterKey (stored sv ref') = counterKey (stored sv ref)" using assms(4) a(3) by simp
      then have "ref' = ref" by (rule assms(6) [OF k' a(1)])
      moreover have "w = v" using True a(2) by (auto simp: AddStatValue_get)
      ultimately show ?thesis using assms(5) by simp
    next
      case False
      then obtain e where e: "map_of (statValues col) sk = Some e" "w = (if sk = StatKey v then addToExisting e v else e)"
        using a(2) by (auto simp: AddStatValue_get split: if_splits)
      then have "dimension (ValueV2 w) = dimension (ValueV2 e)" using kept by simp
      then show ?thesis using assms(1) k' a(1,3) e(1) unfolding labels_ok_def by metis
    qed
  qed
qed

section \<open>A report\<close>

text \<open>Two servers with the same keys and rules.\<close>

definition same_rules :: "Server \<Rightarrow> Server \<Rightarrow> bool" where
  "same_rules sv sv' \<longleftrightarrow> cfg sv' = cfg sv \<and> counterMng sv' = counterMng sv \<and> clientObjs (mem sv') = clientObjs (mem sv) \<and>
     (\<forall>ref. rule_of (stored sv' ref) = rule_of (stored sv ref) \<and> counterKey (stored sv' ref) = counterKey (stored sv ref))"

lemma same_rulesD:
  assumes "same_rules sv sv'"
  shows "cfg sv' = cfg sv" "counterMng sv' = counterMng sv" "clientObjs (mem sv') = clientObjs (mem sv)" "looked sv' = looked sv"
    "rule_of (stored sv' ref) = rule_of (stored sv ref)" "counterKey (stored sv' ref) = counterKey (stored sv ref)"
  using assms by (simp_all add: same_rules_def looked_def fun_eq_iff)

lemma same_rules_used: "same_rules sv sv' \<Longrightarrow> used_of f sv' qs k = used_of f sv qs k"
  using same_rulesD [of sv sv'] by (simp add: used_of_def)

lemma same_rules_labels: "same_rules sv sv' \<Longrightarrow> labels_ok sv' col = labels_ok sv col"
  using same_rulesD [of sv sv'] by (simp add: labels_ok_def)

lemma used_of_nonneg: "0 \<le> used_of f sv qs k"
  unfolding used_of_def by (intro sum_list_nonneg) auto

text \<open>One usage that is charged: the counter keeps its rule, and the collector gets its value.\<close>

lemma usage_step:
  assumes "acquireUses tv (Some r) ts start (q # qs) c0 sv col = Inr ((code, lefts, c1), sv', col')"
    and "unboxCounterKey (cfg sv) (Sum_CounterKey q) = (ExecuteSuccess, k)" "GetCounter k (counterMng sv) = Inr (ExecuteSuccess, Some ref)"
  obtains sv1 col1 lefts1 where "acquireUses tv (Some r) ts start qs (Some ref) sv1 col1 = Inr ((code, lefts1, c1), sv', col')" "same_rules sv sv1"
    "col1 = (if idle q then col else AddStatValue col (usage_value (counter_Update tv (stored sv ref)) (clientObjs (mem sv) ! r) (i64 (start sdiv 1000)) q))"
proof -
  have ref: "ref < length (counterObjs (mem sv))"
    using assms by (auto simp: bindR_eq_Inr_iff derefCounter_def split: if_splits)
  obtain col1 left c' m' lefts1 where D: "doQuotaStatReport start (Sum_Used q) (Sum_Limited q) (Some r) (counter_Update tv (stored sv ref)) (mem sv) col = Inr col1"
    and A: "Allocate tv ref (Some r) q ts start (counter_Update tv (stored sv ref)) (mem sv) = Inr (left, c', m')"
    and N: "acquireUses tv (Some r) ts start qs (Some ref) (sv\<lparr>mem := boxLeft (cfg sv) left (setCounter ref c' m')\<rparr>) col1 = Inr ((code, lefts1, c1), sv', col')"
    using assms ref by (auto simp: bindR_eq_Inr_iff derefCounter_def counter_AcquireQuota_def stored_def Let_def)
  note F = Allocate_frame [OF A]
  have "rule_of c' = rule_of (stored sv ref)" "counterKey c' = counterKey (stored sv ref)"
    by (subst F(1), simp add: rule_of_def counter_Update_def)+
  then have "same_rules sv (sv\<lparr>mem := boxLeft (cfg sv) left (setCounter ref c' m')\<rparr>)"
    using F(2,3) ref by (auto simp: same_rules_def stored_def boxLeft_def setCounter_def nth_list_update)
  then show thesis using that N doQuotaStatReport_collector [OF D] by blast
qed

lemma usage_value_fields:
  "StatKey (usage_value c s t q) = \<lparr>CounterKeyV2 = counterKey c, ClientIPV2 = clientIP s\<rparr>"
  "Passed (CurveData (usage_value c s t q)) = uint (Sum_Used q)" "Limited (CurveData (usage_value c s t q)) = uint (Sum_Limited q)"
  by (simp_all add: usage_value_def InitValues_def)

text \<open>What a report adds to the collector of its stream.\<close>

lemma acquireUses_collector:
  assumes "acquireUses tv (Some r) ts start qs c0 sv col = Inr ((code, lefts, c1), sv', col')"
    and "int (length (counters (counterMng sv))) = uint (maxSize (counterMng sv))" "config_ok (cfg sv)" "maxSize (counterMng sv) = MaxCounter (cfg sv)"
    and "\<And>k k' ref ref'. k \<in> key_range (MaxCounter (cfg sv)) \<Longrightarrow> k' \<in> key_range (MaxCounter (cfg sv)) \<Longrightarrow> looked sv k = Some ref \<Longrightarrow>
      looked sv k' = Some ref' \<Longrightarrow> counterKey (stored sv ref') = counterKey (stored sv ref) \<Longrightarrow> ref' = ref"
    and "labels_ok sv col" "values_nonneg col"
    and "\<And>k. coll_held Passed col k + used_of Sum_Used sv qs k < 2 ^ 63" "\<And>k. coll_held Limited col k + used_of Sum_Limited sv qs k < 2 ^ 63"
  shows "coll_held Passed col' k = coll_held Passed col k + used_of Sum_Used sv qs k \<and> coll_held Limited col' k = coll_held Limited col k + used_of Sum_Limited sv qs k \<and>
    values_nonneg col' \<and> labels_ok sv' col' \<and> collectorId col' = collectorId col"
  using assms
proof (induction qs arbitrary: c0 sv col lefts)
  case Nil
  then show ?case by (simp add: used_of_def)
next
  case (Cons q qs)
  obtain cd key where u: "unboxCounterKey (cfg sv) (Sum_CounterKey q) = (cd, key)" by fastforce
  show ?case
  proof (cases "cd = ExecuteSuccess \<and> looked sv key \<noteq> None")
    case False
    have "key \<noteq> 0" if "cd = ExecuteSuccess" using u that unbox_iff [OF Cons.prems(3)] by auto
    then have "col' = col" "sv' = sv" using False Cons.prems(1) u GetCounter_cases [OF Cons.prems(2), of key]
      by (auto simp: bindR_eq_Inr_iff looked_def codes split: if_splits)
    moreover have "charged (cfg sv) (looked sv) (q # qs) = []" using False u by auto
    ultimately show ?thesis using Cons.prems by (simp add: used_of_def)
  next
    case True
    then obtain ref where ref: "looked sv key = Some ref" and cd: "cd = ExecuteSuccess" by auto
    have key: "key \<noteq> 0" "\<not> maxSize (counterMng sv) < key" "key \<in> key_range (MaxCounter (cfg sv))"
      using u cd unbox_iff [OF Cons.prems(3)] Cons.prems(4) by (auto simp: key_range_def)
    have get: "GetCounter key (counterMng sv) = Inr (ExecuteSuccess, Some ref)"
      using GetCounter_cases [OF Cons.prems(2), of key] key(1,2) ref by (simp add: looked_def)
    obtain sv1 col1 lefts1 where N: "acquireUses tv (Some r) ts start qs (Some ref) sv1 col1 = Inr ((code, lefts1, c1), sv', col')"
      and same: "same_rules sv sv1"
      and col1: "col1 = (if idle q then col else AddStatValue col (usage_value (counter_Update tv (stored sv ref)) (clientObjs (mem sv) ! r) (i64 (start sdiv 1000)) q))"
      using usage_step [OF Cons.prems(1) u [unfolded cd] get] by blast
    have split: "used_of f sv (q # qs) j = (if rule_of (stored sv ref) = j then uint (f q) else 0) + used_of f sv qs j" for f j
      using u cd ref by (simp add: used_of_def)
    let ?v = "usage_value (counter_Update tv (stored sv ref)) (clientObjs (mem sv) ! r) (i64 (start sdiv 1000)) q"
    have upd: "rule_of (counter_Update tv (stored sv ref)) = rule_of (stored sv ref)" "counterKey (counter_Update tv (stored sv ref)) = counterKey (stored sv ref)"
      by (simp_all add: counter_Update_def rule_of_def)
    have dim: "dimension (ValueV2 ?v) = rule_of (stored sv ref)" using usage_value_rule upd(1) by simp
    have old: "dimension (ValueV2 e) = dimension (ValueV2 ?v)" if "map_of (statValues col) (StatKey ?v) = Some e" for e
      using Cons.prems(6) key(3) ref that dim upd(2) unfolding labels_ok_def by (simp add: usage_value_fields)
    have room: "coll_held Passed col (dimension (ValueV2 ?v)) + Passed (CurveData ?v) < 2 ^ 63"
      "coll_held Limited col (dimension (ValueV2 ?v)) + Limited (CurveData ?v) < 2 ^ 63"
      using Cons.prems(8,9) [of "rule_of (stored sv ref)"] split [of Sum_Used] split [of Sum_Limited] dim
        used_of_nonneg [of Sum_Used sv qs "rule_of (stored sv ref)"] used_of_nonneg [of Sum_Limited sv qs "rule_of (stored sv ref)"]
      by (simp_all add: usage_value_fields)
    have H: "coll_held Passed col1 j = coll_held Passed col j + (if rule_of (stored sv ref) = j then uint (Sum_Used q) else 0)"
      "coll_held Limited col1 j = coll_held Limited col j + (if rule_of (stored sv ref) = j then uint (Sum_Limited q) else 0)" for j
      using col1 held_AddStatValue [OF Cons.prems(7) _ _ room(1), of j] held_AddStatValue [OF Cons.prems(7) _ _ room(2), of j] old dim
      by (auto simp: usage_value_fields idle_def)
    have nonneg: "values_nonneg col1"
      using col1 nonneg_AddStatValue [OF Cons.prems(7), of ?v] held_bound [OF Cons.prems(7)] old room Cons.prems(7)
      by (fastforce simp: usage_value_fields)
    have labels: "labels_ok sv col1"
      using col1 Cons.prems(6) labels_AddStatValue [OF Cons.prems(6) key(3) ref _ dim] Cons.prems(5) [OF key(3) _ ref] upd(2)
      by (simp add: usage_value_fields)
    note S = same_rulesD [OF same]
    have "coll_held Passed col' k = coll_held Passed col1 k + used_of Sum_Used sv1 qs k \<and> coll_held Limited col' k = coll_held Limited col1 k + used_of Sum_Limited sv1 qs k \<and>
      values_nonneg col' \<and> labels_ok sv' col' \<and> collectorId col' = collectorId col1"
    proof (rule Cons.IH [OF N])
      show "labels_ok sv1 col1" using labels same_rules_labels [OF same] by simp
      show "coll_held Passed col1 j + used_of Sum_Used sv1 qs j < 2 ^ 63" for j
        using Cons.prems(8) [of j] H(1) [of j] split [of Sum_Used j] same_rules_used [OF same] by simp
      show "coll_held Limited col1 j + used_of Sum_Limited sv1 qs j < 2 ^ 63" for j
        using Cons.prems(9) [of j] H(2) [of j] split [of Sum_Limited j] same_rules_used [OF same] by simp
      show "ref2 = ref1" if "k1 \<in> key_range (MaxCounter (cfg sv1))" "k2 \<in> key_range (MaxCounter (cfg sv1))" "looked sv1 k1 = Some ref1" "looked sv1 k2 = Some ref2" "counterKey (stored sv1 ref2) = counterKey (stored sv1 ref1)" for k1 k2 ref1 ref2
        using Cons.prems(5) that S by metis
    qed (use nonneg Cons.prems(2-4) S in simp_all)
    moreover have "collectorId col1 = collectorId col" using col1 by (simp add: AddStatValue_cases split: option.splits)
    ultimately show ?thesis using H [of k] split [of Sum_Used k] split [of Sum_Limited k] same_rules_used [OF same] by simp
  qed
qed

section \<open>The collector in the plugin\<close>

text \<open>The plugin holds the collector of the stream; what the stream adds to it is there at once.\<close>

definition put_collector :: "collector \<Rightarrow> StaticsWorker \<Rightarrow> StaticsWorker" where
  "put_collector col s = s\<lparr>workerCollectors := AList.update (collectorId col) (CollV2 col) (workerCollectors s)\<rparr>"

lemma of_rule_concat: "of_rule g (concat vss) k = sum_list (map (\<lambda>vs. of_rule g vs k) vss)"
  by (induction vss) simp_all

lemma pending_put_collector:
  assumes "map_of (workerCollectors s) (collectorId col) = Some (CollV2 col)" "collectorId col' = collectorId col"
  shows "pending g (put_collector col' s) k = pending g s k + coll_held g col' k - coll_held g col k"
proof -
  have "of_rule g (all_values cs) k = sum_list (map ((\<lambda>c. of_rule g (coll_values c) k) \<circ> snd) cs)" for cs
    by (simp add: all_values_def of_rule_concat comp_def)
  then show ?thesis using assms by (simp add: pending_def put_collector_def sum_over_update coll_held_def)
qed

lemma all_values_put_collector:
  assumes "v \<in> set (all_values (workerCollectors (put_collector col s)) @ all_values (workerDropped (put_collector col s)))"
  shows "v \<in> set (coll_values (CollV2 col)) \<or> v \<in> set (all_values (workerCollectors s) @ all_values (workerDropped s))"
  using assms set_update_subset [of "collectorId col" "CollV2 col" "workerCollectors s"]
  by (fastforce simp: put_collector_def all_values_def)

lemma table_keys_inj:
  assumes "server_ok sv logs T" "k \<in> key_range (MaxCounter (cfg sv))" "looked sv k = Some ref"
  shows "counterKey (stored sv ref) = k"
proof -
  note S = server_okD [OF assms(1)]
  have "k \<in> usedKeys (counterMng sv)" using table_okD(6) [OF S(7), of k] assms(2,3) S(2) by (cases "k \<in> usedKeys (counterMng sv)") (auto simp: looked_def)
  then obtain i where "map_of (counterMap (counterMng sv)) i = Some k" using table_okD(5) [OF S(7)] by blast
  then have "slot_ok (counterMng sv) (counterObjs (mem sv)) i k" using table_okD(4) [OF S(7)] by blast
  then show ?thesis using assms(3) by (auto simp: slot_ok_def looked_def stored_def)
qed

text \<open>What a worker holds that has the collector, when nothing it holds is negative.\<close>

lemma held_pending:
  assumes "map_of (workerCollectors s) (collectorId col) = Some (CollV2 col)" "g = Passed \<or> g = Limited"
    and "\<forall>v \<in> set (all_values (workerCollectors s) @ all_values (workerDropped s)). 0 \<le> Passed (curve_of v) \<and> 0 \<le> Limited (curve_of v)"
  shows "coll_held g col k \<le> pending g s k" "0 \<le> pending g s k"
proof -
  have pos: "0 \<le> of_rule g vs k" if "set vs \<subseteq> set (all_values (workerCollectors s) @ all_values (workerDropped s))" for vs
    unfolding of_rule_def using assms(2,3) that by (intro sum_list_nonneg) auto
  show "0 \<le> pending g s k" unfolding pending_def by (rule pos) simp
  have "pending g (put_collector (col\<lparr>statValues := []\<rparr>) s) k = pending g s k - coll_held g col k"
    using pending_put_collector [OF assms(1), of "col\<lparr>statValues := []\<rparr>" g k] by (simp add: coll_held_def)
  moreover have "0 \<le> pending g (put_collector (col\<lparr>statValues := []\<rparr>) s) k"
    unfolding pending_def by (rule pos) (use all_values_put_collector [of _ "col\<lparr>statValues := []\<rparr>" s] in auto)
  ultimately show "coll_held g col k \<le> pending g s k" by simp
qed

text \<open>A whole report adds to the collector, for every rule, what it has used of it.\<close>

lemma report_collector:
  assumes "server_ok sv logs T" "AcquireQuota tv (Some r) start (Some q) sv col = Inr ((resp, c), sv', col')"
    and "CheckRateLimitReportRequest tv (Some q) = None" "labels_ok sv col" "values_nonneg col"
    and "\<And>j. coll_held Passed col j + used_of Sum_Used sv (QuotaUses q) j < 2 ^ 63"
    and "\<And>j. coll_held Limited col j + used_of Sum_Limited sv (QuotaUses q) j < 2 ^ 63"
  shows "coll_held Passed col' k = coll_held Passed col k + used_of Sum_Used sv (QuotaUses q) k \<and>
    coll_held Limited col' k = coll_held Limited col k + used_of Sum_Limited sv (QuotaUses q) k \<and>
    values_nonneg col' \<and> labels_ok sv' col' \<and> collectorId col' = collectorId col"
proof -
  note S = server_okD [OF assms(1)]
  obtain code lefts c1 where U: "acquireUses tv (Some r) (Report_Timestamp q) start (QuotaUses q) None sv col = Inr ((code, lefts, c1), sv', col')"
    using assms(2,3) by (auto simp: AcquireQuota_def bindR_eq_Inr_iff Let_def)
  show ?thesis
  proof (rule acquireUses_collector [OF U table_okD(2) [OF S(7)] S(1,2) _ assms(4,5)])
    show "ref' = ref" if "k1 \<in> key_range (MaxCounter (cfg sv))" "k2 \<in> key_range (MaxCounter (cfg sv))" "looked sv k1 = Some ref" "looked sv k2 = Some ref'"
      "counterKey (stored sv ref') = counterKey (stored sv ref)" for k1 k2 ref ref'
      using table_keys_inj [OF assms(1) that(1,3)] table_keys_inj [OF assms(1) that(2,4)] that(3-5) by simp
  qed (rule assms(6,7))+
qed

section \<open>Properties\<close>

text \<open>
  C35: What a report uses of a rule reaches the metrics of that rule: the first flush after the report
  exports, for every rule, what was pending and what the charged usages of the report add. This
  needs that the collector of the stream has values only under keys that still name their rules,
  which the report keeps.
\<close>
theorem reports_are_exported_by_rule:
  assumes "server_ok sv logs T" "T \<le> t" "t < 2 ^ 62" "i64 (start sdiv 1000) = t"
    and "r < length (clientObjs (mem sv))" "CheckRateLimitReportRequest tv (Some q) = None"
    and "map_of (workerCollectors s) (collectorId col) = Some (CollV2 col)" "labels_ok sv col"
    and "\<And>v. v \<in> set (all_values (workerCollectors s) @ all_values (workerDropped s)) \<Longrightarrow> 0 \<le> Passed (curve_of v) \<and> 0 \<le> Limited (curve_of v)"
    and "\<And>k. pending Passed s k + pending Limited s k + used_of Sum_Used sv (QuotaUses q) k + used_of Sum_Limited sv (QuotaUses q) k < 2 ^ 63"
  shows "\<exists>resp c sv' col'. AcquireQuota tv (Some r) start (Some q) sv col = Inr ((resp, c), sv', col') \<and> labels_ok sv' col' \<and>
    (\<forall>k. \<exists>new. metricOps (flushOnce svcName tv' n (put_collector col' s)) = metricOps s @ new \<and>
      ops_sum (pass_to k) new = pending Passed s k + used_of Sum_Used sv (QuotaUses q) k \<and>
      ops_sum (limit_to k) new = pending Limited s k + used_of Sum_Limited sv (QuotaUses q) k)"
proof -
  obtain resp c sv' col' logs' where A: "AcquireQuota tv (Some r) start (Some q) sv col = Inr ((resp, c), sv', col')"
    using AcquireQuota_ok [OF assms(1-4) refl assms(5), of tv "Some q" col] by blast
  have all: "\<forall>v \<in> set (all_values (workerCollectors s) @ all_values (workerDropped s)). 0 \<le> Passed (curve_of v) \<and> 0 \<le> Limited (curve_of v)"
    using assms(9) by blast
  have "set (coll_values (CollV2 col)) \<subseteq> set (all_values (workerCollectors s) @ all_values (workerDropped s))"
    using map_of_SomeD [OF assms(7)] by (force simp: all_values_def)
  then have nonneg: "values_nonneg col" using all unfolding values_nonneg_def by blast
  note part = held_pending [OF assms(7) _ all]
  have used: "0 \<le> used_of f sv (QuotaUses q) k" for f k by (rule used_of_nonneg)
  have C: "coll_held Passed col' k = coll_held Passed col k + used_of Sum_Used sv (QuotaUses q) k \<and>
      coll_held Limited col' k = coll_held Limited col k + used_of Sum_Limited sv (QuotaUses q) k \<and>
      values_nonneg col' \<and> labels_ok sv' col' \<and> collectorId col' = collectorId col" for k
  proof (rule report_collector [OF assms(1) A assms(6,8) nonneg])
    show "coll_held Passed col j + used_of Sum_Used sv (QuotaUses q) j < 2 ^ 63" for j
      using part [of Passed j] part [of Limited j] assms(10) [of j] used [of Sum_Limited j] by simp
    show "coll_held Limited col j + used_of Sum_Limited sv (QuotaUses q) j < 2 ^ 63" for j
      using part [of Passed j] part [of Limited j] assms(10) [of j] used [of Sum_Used j] by simp
  qed
  let ?s = "put_collector col' s"
  have P: "pending Passed ?s k = pending Passed s k + used_of Sum_Used sv (QuotaUses q) k"
    "pending Limited ?s k = pending Limited s k + used_of Sum_Limited sv (QuotaUses q) k" for k
    using C [of k] pending_put_collector [OF assms(7), of col'] by simp_all
  have "\<exists>new. metricOps (flushOnce svcName tv' n ?s) = metricOps ?s @ new \<and> ops_sum (pass_to k) new = pending Passed ?s k \<and>
      ops_sum (limit_to k) new = pending Limited ?s k \<and> ops_sum (total_to k) new = pending Passed ?s k + pending Limited ?s k" for k
  proof (rule flush_exports [THEN conjunct1])
    show "0 \<le> Passed (curve_of v) \<and> 0 \<le> Limited (curve_of v)"
      if "v \<in> set (all_values (workerCollectors ?s) @ all_values (workerDropped ?s))" for v
      using all_values_put_collector [OF that] C [of k] all unfolding values_nonneg_def by blast
    show "pending Passed ?s k + pending Limited ?s k < 2 ^ 63" using P assms(10) [of k] by simp
  qed simp
  then have "\<forall>k. \<exists>new. metricOps (flushOnce svcName tv' n ?s) = metricOps s @ new \<and>
      ops_sum (pass_to k) new = pending Passed s k + used_of Sum_Used sv (QuotaUses q) k \<and>
      ops_sum (limit_to k) new = pending Limited s k + used_of Sum_Limited sv (QuotaUses q) k"
    using P by (metis put_collector_def StaticsWorker.select_convs(9) StaticsWorker.surjective StaticsWorker.update_convs(4))
  then show ?thesis using A C by blast
qed

lemma reports_are_exported_by_rule_witness:
  "\<exists>col' new k. metricOps (flushOnce ''svc'' (at_ms 120000) 1 (put_collector col' (put_collector (NewRateLimitStatCollector ''k1'') NewStaticsWorker))) = new \<and>
     k = rule_of (stored (sample_core 4) 0) \<and> ops_sum (pass_to k) new = 7 \<and> ops_sum (limit_to k) new = 0"
proof -
  obtain logs where ok: "server_ok (sample_core 4) logs 100030" using sample_server_ok by blast
  let ?q = "report_of 0x1000001 7 100040" and ?col = "NewRateLimitStatCollector ''k1'' :: collector"
  let ?s = "put_collector ?col NewStaticsWorker" and ?k = "rule_of (stored (sample_core 4) 0)"
  have q: "CheckRateLimitReportRequest (at_ms 100040) (Some ?q) = None" "i64 (100040000 sdiv 1000) = 100040"
    "unboxCounterKey sample_config 0x1000001 = (ExecuteSuccess, 1)" by code_simp+
  have "looked (sample_core 4) 1 = Some 0" using sample_rest unfolding looked_def by blast
  then have "charged (cfg (sample_core 4)) (looked (sample_core 4)) (QuotaUses ?q) = [(0, \<lparr>Sum_CounterKey = 0x1000001, Sum_Used = 7, Sum_Limited = 0\<rparr>)]"
    using q(3) by (simp add: report_of_def sample_values(3))
  then have used: "used_of Sum_Used (sample_core 4) (QuotaUses ?q) k = (if ?k = k then 7 else 0)" "used_of Sum_Limited (sample_core 4) (QuotaUses ?q) k = 0" for k
    by (simp_all add: used_of_def)
  have empty: "all_values (workerCollectors ?s) @ all_values (workerDropped ?s) = []"
    by (simp add: put_collector_def NewStaticsWorker_def NewRateLimitStatCollector_def all_values_def)
  then have none: "pending g ?s k = 0" for g k unfolding pending_def empty by simp
  have "\<exists>resp c sv' col'. AcquireQuota (at_ms 100040) (Some 0) 100040000 (Some ?q) (sample_core 4) ?col = Inr ((resp, c), sv', col') \<and> labels_ok sv' col' \<and>
    (\<forall>k. \<exists>new. metricOps (flushOnce ''svc'' (at_ms 120000) 1 (put_collector col' ?s)) = metricOps ?s @ new \<and>
      ops_sum (pass_to k) new = pending Passed ?s k + used_of Sum_Used (sample_core 4) (QuotaUses ?q) k \<and>
      ops_sum (limit_to k) new = pending Limited ?s k + used_of Sum_Limited (sample_core 4) (QuotaUses ?q) k)"
  proof (rule reports_are_exported_by_rule [OF ok _ _ q(2) _ q(1)])
    show "0 < length (clientObjs (mem (sample_core 4)))" by (simp add: sample_values)
    show "map_of (workerCollectors ?s) (collectorId ?col) = Some (CollV2 ?col)" by (simp add: put_collector_def NewStaticsWorker_def)
    show "labels_ok (sample_core 4) ?col" by (simp add: labels_ok_def NewRateLimitStatCollector_def)
    show "0 \<le> Passed (curve_of v) \<and> 0 \<le> Limited (curve_of v)"
      if "v \<in> set (all_values (workerCollectors ?s) @ all_values (workerDropped ?s))" for v using that unfolding empty by simp
  qed (simp_all add: none used)
  then obtain col' where "\<forall>k. \<exists>new. metricOps (flushOnce ''svc'' (at_ms 120000) 1 (put_collector col' ?s)) = metricOps ?s @ new \<and>
      ops_sum (pass_to k) new = (if ?k = k then 7 else 0) \<and> ops_sum (limit_to k) new = 0"
    unfolding none used by auto
  then obtain new where "metricOps (flushOnce ''svc'' (at_ms 120000) 1 (put_collector col' ?s)) = metricOps ?s @ new"
    "ops_sum (pass_to ?k) new = 7" "ops_sum (limit_to ?k) new = 0"
    by force
  moreover have "metricOps ?s = []" by (simp add: put_collector_def NewStaticsWorker_def)
  ultimately show ?thesis by auto
qed

section \<open>A key that has passed to another rule\<close>












end
