(* ===== verification/Flush_Races.thy ===== *)
theory Flush_Races
  imports Usage_Export
begin

text \<open>
  The flush loop of the metrics plugin (\<open>plugin/statis/prometheus/statis.go\<close>) while streams begin, report
  and end. \<open>Metrics\<close> makes a flush and the end of a stream one step each; here every critical section of
  \<open>DropRateLimitStatCollector\<close> and of \<open>flushOnce\<close> is a step of its own, and a flush visits the collectors
  one after the other. The collectors are objects that the tables, the flush and the streams refer to by
  their id.
\<close>

section \<open>The schedule\<close>

definition flushInterval :: int where "flushInterval = 60000000000"

text \<open>
  \<open>Truncate\<close> counts from the start of the year 1, which lies a whole number of minutes before the epoch
  of the clock.
\<close>

definition Truncate :: "int \<Rightarrow> int \<Rightarrow> int" where
  "Truncate t d = (if d \<le> 0 then t else t - t mod d)"

definition firstFlushDelay :: "int \<Rightarrow> int" where
  "firstFlushDelay now = Truncate now flushInterval + flushInterval - now"

text \<open>
  What the loop selects: the timer or the ticker fires, or the context is cancelled. The value says
  whether the loop has returned.
\<close>

datatype loop_event = Fires Timeval int | Cancelled

fun flushTicks :: "string \<Rightarrow> loop_event list \<Rightarrow> StaticsWorker \<Rightarrow> bool \<times> StaticsWorker" where
  "flushTicks svcName [] s = (False, s)"
| "flushTicks svcName (Cancelled # es) s = (True, s)"
| "flushTicks svcName (Fires tv n # es) s = flushTicks svcName es (flushOnce svcName tv n s)"

fun flushLoop :: "string \<Rightarrow> loop_event list \<Rightarrow> StaticsWorker \<Rightarrow> bool \<times> StaticsWorker" where
  "flushLoop svcName [] s = (False, s)"
| "flushLoop svcName (Cancelled # es) s = (True, s)"
| "flushLoop svcName (Fires tv n # es) s = flushTicks svcName es (flushOnce svcName tv n s)"

text \<open>The first flush is on the next full minute, at most a minute away.\<close>

lemma first_flush:
  "0 < firstFlushDelay now" "firstFlushDelay now \<le> flushInterval" "(now + firstFlushDelay now) mod flushInterval = 0"
  by (simp_all add: firstFlushDelay_def Truncate_def flushInterval_def minus_mod_eq_mult_div)

text \<open>The loop flushes once for every tick before the cancellation, and never after it.\<close>

lemma flushTicks_run:
  "flushTicks svcName (map (\<lambda>(tv, n). Fires tv n) ts @ Cancelled # es) s = (True, foldl (\<lambda>s (tv, n). flushOnce svcName tv n s) s ts)"
  by (induction ts arbitrary: s) auto

lemma flushLoop_run:
  "flushLoop svcName (map (\<lambda>(tv, n). Fires tv n) ts @ Cancelled # es) s = (True, foldl (\<lambda>s (tv, n). flushOnce svcName tv n s) s ts)"
  by (cases ts) (auto simp: flushTicks_run)

section \<open>Streams and flushes\<close>






text \<open>The visit of one collector: dump, take the curve data, expire.\<close>

definition visitCollector :: "Timeval \<Rightarrow> string \<Rightarrow> (dimensionKey \<times> dimensionStats) list \<Rightarrow> (string \<times> collector) list
    \<Rightarrow> (dimensionKey \<times> dimensionStats) list \<times> (string \<times> collector) list" where
  "visitCollector tv cid agg h =
     (case map_of h cid of
        None \<Rightarrow> (agg, h)
      | Some c \<Rightarrow>
          let (agg', ds, vs') = flushValues agg (coll_values (CollV2 c))
          in (agg', case rebuild tv True vs' (CollV2 c) of CollV2 c' \<Rightarrow> AList.update cid c' h | CollV1 c' \<Rightarrow> h))"





section \<open>What is conserved\<close>





















section \<open>A flush alone\<close>

fun visitAll :: "Timeval \<Rightarrow> string list \<Rightarrow> (dimensionKey \<times> dimensionStats) list \<Rightarrow> (string \<times> collector) list
    \<Rightarrow> (dimensionKey \<times> dimensionStats) list \<times> (string \<times> collector) list" where
  "visitAll tv [] agg h = (agg, h)"
| "visitAll tv (cid # ids) agg h = (let (agg', h') = visitCollector tv cid agg h in visitAll tv ids agg' h')"


text \<open>The visits of a flush that is alone sum up what \<open>flushOnce\<close> does.\<close>

lemma visitAll_flushCollectors:
  assumes "visitAll tv (map fst cs) agg h = (agg', h')" "distinct (map fst cs)" "\<forall>(cid, c) \<in> set cs. map_of h cid = Some c"
  shows "agg' = fst (flushCollectors tv agg (map (\<lambda>(cid, c). (cid, CollV2 c)) cs))"
  using assms
proof (induction cs arbitrary: agg h)
  case (Cons ic cs)
  obtain cid c where ic: "ic = (cid, c)" by fastforce
  obtain agg1 ds vs' where F: "flushValues agg (coll_values (CollV2 c)) = (agg1, ds, vs')" by (metis prod.exhaust)
  have "map_of h cid = Some c" using Cons.prems(3) ic by simp
  moreover obtain c' where "rebuild tv True vs' (CollV2 c) = CollV2 c'" by simp
  ultimately have V: "visitCollector tv cid agg h = (agg1, AList.update cid c' h)" using F by (simp add: visitCollector_def)
  have "\<forall>(i, c) \<in> set cs. map_of (AList.update cid c' h) i = Some c"
  proof (clarify)
    fix i d assume d: "(i, d) \<in> set cs"
    then have "i \<noteq> cid" using Cons.prems(2) ic by force
    then show "map_of (AList.update cid c' h) i = Some d" using Cons.prems(3) d by (auto simp: update_conv')
  qed
  moreover have "visitAll tv (map fst cs) agg1 (AList.update cid c' h) = (agg', h')" using Cons.prems(1) V ic by simp
  ultimately have "agg' = fst (flushCollectors tv agg1 (map (\<lambda>(cid, c). (cid, CollV2 c)) cs))" using Cons.IH Cons.prems(2) by simp
  then show ?case using F ic by (simp split: prod.split)
qed simp



section \<open>Properties\<close>





end
