(* ===== verification/Object_Pools.thy ===== *)
theory Object_Pools
  imports Usage_Export
begin

text \<open>
  The object pools of the statistics (\<open>PoolGet...\<close> and \<open>PoolPut...\<close> in \<open>plugin/statis_api_obj_srv.go\<close>,
  \<open>statis_api_obj_limit.go\<close> and \<open>plugin/statis/file/log_stat.go\<close>). A pool hands out an object that an earlier
  caller has left in any state; the caller overwrites fields of it, uses it and puts it back. The other
  theories build a new value instead; here the writes are made field by field on whatever comes out of
  the pool, and what is done with the object is shown to be the same.
\<close>

section \<open>Pools\<close>

text \<open>
  A pool of the library is any state with an operation that returns an object or nothing, and one that
  takes an object back. Without an object the caller makes a zero one.
\<close>

definition PoolGet :: "('p \<Rightarrow> 'o option \<times> 'p) \<Rightarrow> 'o \<Rightarrow> 'p \<Rightarrow> 'o \<times> 'p" where
  "PoolGet get zero p = (case get p of (None, p') \<Rightarrow> (zero, p') | (Some v, p') \<Rightarrow> (v, p'))"

text \<open>Callers one after the other: each gets an object, fills it, uses it and puts it back.\<close>

fun pooled_run :: "('p \<Rightarrow> 'o option \<times> 'p) \<Rightarrow> ('o \<Rightarrow> 'p \<Rightarrow> 'p) \<Rightarrow> 'o \<Rightarrow> ('i \<Rightarrow> 'o \<Rightarrow> 'o) \<Rightarrow> ('i \<Rightarrow> 'o \<Rightarrow> 's \<Rightarrow> 's) \<Rightarrow> 'i list
    \<Rightarrow> 'p \<times> 's \<Rightarrow> 'p \<times> 's" where
  "pooled_run get put zero fill use [] (p, s) = (p, s)"
| "pooled_run get put zero fill use (i # inputs) (p, s) =
     (let (v, p') = PoolGet get zero p; v' = fill i v in pooled_run get put zero fill use inputs (put v' p', use i v' s))"

text \<open>The contract: what is done with a filled object does not depend on what the object was.\<close>

locale pooled =
  fixes fill :: "'i \<Rightarrow> 'o \<Rightarrow> 'o" and fresh :: "'i \<Rightarrow> 'o" and use :: "'i \<Rightarrow> 'o \<Rightarrow> 's \<Rightarrow> 's"
  assumes use_fill: "use i (fill i v) s = use i (fresh i) s"
begin

lemma run: "snd (pooled_run get put zero fill use inputs (p, s)) = fold (\<lambda>i. use i (fresh i)) inputs s"
  by (induction inputs arbitrary: p s) (simp_all add: use_fill split: prod.split)

end

section \<open>Served calls\<close>

text \<open>The writes of the service and of the push; the maximum and the time of the object are left as they are.\<close>

definition fill_api_call :: "int \<times> APICallStatKey \<times> int \<Rightarrow> APICallStatValueImpl \<Rightarrow> APICallStatValueImpl" where
  "fill_api_call = (\<lambda>(now, key, latency) v0.
     let v1 = v0\<lparr>ApiStatKey := (ApiStatKey v0)\<lparr>ApiKey := ApiKey key\<rparr>\<rparr>;
         v2 = v1\<lparr>ApiStatKey := (ApiStatKey v1)\<lparr>ApiCode := ApiCode key\<rparr>\<rparr>;
         v3 = v2\<lparr>ApiStatKey := (ApiStatKey v2)\<lparr>ApiMsgType := ApiMsgType key\<rparr>\<rparr>;
         v4 = v3\<lparr>ApiStatKey := (ApiStatKey v3)\<lparr>ApiDuration := ApiDuration key\<rparr>\<rparr>;
         v5 = v4\<lparr>Latency := latency\<rparr>
     in v5\<lparr>ReqCount := 1\<rparr>)"

definition zero_api_call :: APICallStatValueImpl where
  "zero_api_call =
     \<lparr>ApiStatKey = \<lparr>ApiKey = InitQuotaV1, ApiCode = 0, ApiMsgType = MsgSync, ApiDuration = 0\<rparr>, Latency = 0, ReqCount = 0,
      MaxLatency = 0, ApiLastUpdateTime = 0\<rparr>"

text \<open>The reporter clones the object or reads it, and overwrites the two fields in the clone.\<close>

lemma fill_api_call_eq:
  "fill_api_call (now, key, latency) v = (NewAPICall key latency)\<lparr>MaxLatency := MaxLatency v, ApiLastUpdateTime := ApiLastUpdateTime v\<rparr>"
  by (cases key; cases v) (simp add: fill_api_call_def NewAPICall_def)

interpretation api_pool: pooled fill_api_call "\<lambda>(now, key, latency). NewAPICall key latency" "\<lambda>(now, _) v. AddIncrement now v"
  by unfold_locales
    (auto simp: fill_api_call_eq NewAPICall_def AddIncrement_def getAndCreateStoreValue_def ApiClone_def SetLastUpdateTime_def
      Let_def split: option.splits prod.splits)

section \<open>Usages\<close>

definition data_InitValues :: "int \<Rightarrow> int \<Rightarrow> int \<Rightarrow> rateLimitData \<Rightarrow> rateLimitData" where
  "data_InitValues passed limited lastFetchTime r = r\<lparr>Passed := passed, Limited := limited, LastFetchTime := lastFetchTime\<rparr>"

definition fill_usage :: "counterV2 \<times> client \<times> int \<times> QuotaSum \<Rightarrow> RateLimitStatValueV2 \<Rightarrow> RateLimitStatValueV2" where
  "fill_usage = (\<lambda>(c, s, startTimeMilli, q) v0.
     let v1 = v0\<lparr>StatKey := (StatKey v0)\<lparr>ClientIPV2 := clientIP s\<rparr>\<rparr>;
         v2 = v1\<lparr>StatKey := (StatKey v1)\<lparr>CounterKeyV2 := counterKey c\<rparr>\<rparr>;
         labels = StatLabels v2;
         v3 = v2\<lparr>StatLabels := labels\<lparr>stat_Namespace := id_Namespace (cIdentifier c), stat_Service := id_Service (cIdentifier c),
           stat_Method := Method (subLabels c), stat_AppId := AppId (subLabels c), stat_Uin := Uin (subLabels c),
           stat_Labels := Labels (subLabels c), stat_Duration := id_Duration (cIdentifier c)\<rparr>\<rparr>;
         v4 = v3\<lparr>PrecisionData := data_InitValues (uint (Sum_Used q)) (uint (Sum_Limited q)) startTimeMilli (PrecisionData v3)\<rparr>;
         v5 = v4\<lparr>CurveData := data_InitValues (uint (Sum_Used q)) (uint (Sum_Limited q)) startTimeMilli (CurveData v4)\<rparr>;
         v6 = v5\<lparr>Total := uint (maxAmount c)\<rparr>;
         v7 = v6\<lparr>LastUpdateTime := startTimeMilli\<rparr>
     in v7\<lparr>ExpireDuration := expireDurationMilli c\<rparr>)"

definition zero_usage :: RateLimitStatValueV2 where
  "zero_usage =
     \<lparr>StatKey = \<lparr>CounterKeyV2 = 0, ClientIPV2 = \<lparr>LowValue = 0, HighValue = 0\<rparr>\<rparr>, Total = 0, CurveData = InitValues 0 0 0,
      PrecisionData = InitValues 0 0 0,
      StatLabels = \<lparr>stat_Namespace = [], stat_Service = [], stat_Method = [], stat_AppId = [], stat_Uin = [], stat_Labels = [], stat_Duration = 0\<rparr>,
      ExpireDuration = 0, LastUpdateTime = 0\<rparr>"

lemma fill_usage_eq: "fill_usage (c, s, t, q) v = usage_value c s t q"
  by (cases v) (auto simp: fill_usage_def usage_value_def data_InitValues_def InitValues_def Let_def
    intro!: RateLimitStatKeyV2.equality rateLimitData.equality StatLabelsV2.equality)

interpretation usage_pool: pooled fill_usage "\<lambda>(c, s, t, q). usage_value c s t q" "\<lambda>_ v col. AddStatValue col v"
  by unfold_locales (auto simp: fill_usage_eq)

section \<open>Values of the precision log\<close>

definition fill_log_value :: "(int \<Rightarrow> string) \<times> StatValue \<Rightarrow> LogStatValue \<Rightarrow> LogStatValue" where
  "fill_log_value = (\<lambda>(rfc3339, v) i0.
     let t = tags_of v; d = precision_of v;
         i1 = i0\<lparr>ls_Namespace := tag_Namespace t, ls_Service := tag_Service t, ls_Method := tag_Method t, ls_AppId := tag_AppId t,
           ls_Uin := tag_Uin t, ls_Labels := tag_Labels t, ls_Duration := duration_Milliseconds (tag_Duration t)\<rparr>;
         i2 = i1\<lparr>ls_Passed := GetPassed d, ls_Limited := GetLimited d, ls_Total := total_of v, ls_TimeNumber := GetLastFetchTime d\<rparr>
     in i2\<lparr>ls_TimeStr := TimestampMsToUtcIso8601 rfc3339 (ls_TimeNumber i2)\<rparr>)"

definition zero_log_value :: LogStatValue where
  "zero_log_value =
     \<lparr>ls_Namespace = [], ls_Service = [], ls_Method = [], ls_AppId = [], ls_Uin = [], ls_Labels = [], ls_Duration = 0, ls_Passed = 0,
      ls_Total = 0, ls_Limited = 0, ls_TimeNumber = 0, ls_TimeStr = []\<rparr>"

lemma fill_log_value_eq: "fill_log_value (rfc3339, v) i = logStatValue rfc3339 v"
  by (cases i) (simp add: fill_log_value_def logStatValue_def Let_def)

interpretation log_pool: pooled fill_log_value "\<lambda>(rfc3339, v). logStatValue rfc3339 v" "\<lambda>_ i written. written @ [i]"
  by unfold_locales (auto simp: fill_log_value_eq)

section \<open>Properties\<close>

text \<open>
  C38: The pools only save allocations: whatever a pool hands out, and whatever was left in it, a sequence of
  served calls changes the reporter, a sequence of usages changes a collector, and a sequence of values is
  written to the precision log, as with values that are built anew.
\<close>
theorem pools_only_save_allocations:
  "snd (pooled_run get put zero_api_call fill_api_call (\<lambda>(now, _) v. AddIncrement now v) calls (p, reporter)) =
     fold (\<lambda>(now, key, latency). AddIncrement now (NewAPICall key latency)) calls reporter \<and>
   snd (pooled_run get' put' zero_usage fill_usage (\<lambda>_ v col. AddStatValue col v) usages (p', col)) =
     fold (\<lambda>(c, s, t, q) col. AddStatValue col (usage_value c s t q)) usages col \<and>
   snd (pooled_run get'' put'' zero_log_value fill_log_value (\<lambda>_ i written. written @ [i]) logged (p'', [])) =
     map (\<lambda>(rfc3339, v). logStatValue rfc3339 v) logged"
proof -
  have "fold (\<lambda>i written. written @ [case i of (rfc3339, v) \<Rightarrow> logStatValue rfc3339 v]) logged acc =
      acc @ map (\<lambda>(rfc3339, v). logStatValue rfc3339 v) logged" for acc
    by (induction logged arbitrary: acc) auto
  then show ?thesis
    using api_pool.run [of get put zero_api_call calls p reporter] usage_pool.run [of get' put' zero_usage usages p' col]
      log_pool.run [of get'' put'' zero_log_value logged p'' "[]"]
    by (simp add: case_prod_unfold)
qed

end
