(* ===== verification/Worker_Tasks.thy ===== *)
theory Worker_Tasks
  imports Flush_Races Report_Files
begin

text \<open>
  The life of the tasks of the statistics plugins: the loop of \<open>plugin/statis/file/file.go\<close> (\<open>file_logger.go\<close> has
  the same one for the metrics plugin), from its start to \<open>Destroy\<close>, while streams still call the plugin. The
  end of the context and a tick can be ready at once, and then either is taken; once the loop has
  returned nothing is written any more.
\<close>

section \<open>The loop of the file plugin\<close>

record file_task =
  task_worker :: file_worker
  task_cancelled :: bool
  task_ended :: bool

text \<open>\<open>Start\<close> runs the loop for an initialised plugin; the cancel function is nil before.\<close>

definition file_Start :: "file_worker \<Rightarrow> file_task" where
  "file_Start w = \<lparr>task_worker = w, task_cancelled = False, task_ended = (w = None)\<rparr>"

definition file_Destroy :: "file_task \<Rightarrow> file_task" where
  "file_Destroy t = (if task_worker t = None then t else t\<lparr>task_cancelled := True\<rparr>)"

datatype task_event = Runs file_event | Destroyed | SeesDone

fun is_call :: "file_event \<Rightarrow> bool" where
  "is_call (StreamCall c) = True"
| "is_call _ = False"

fun task_enabled :: "task_event \<Rightarrow> file_task \<Rightarrow> bool" where
  "task_enabled (Runs e) t = (is_call e \<or> \<not> task_ended t)"
| "task_enabled Destroyed t = True"
| "task_enabled SeesDone t = (task_cancelled t \<and> \<not> task_ended t)"

fun task_do :: "(int \<Rightarrow> string) \<Rightarrow> string \<Rightarrow> task_event \<Rightarrow> file_task \<Rightarrow> panic + file_task" where
  "task_do rfc3339 svcName (Runs e) t = bindR (file_step rfc3339 svcName e (task_worker t)) (\<lambda>w. Inr (t\<lparr>task_worker := w\<rparr>))"
| "task_do rfc3339 svcName Destroyed t = Inr (file_Destroy t)"
| "task_do rfc3339 svcName SeesDone t = Inr (t\<lparr>task_ended := True\<rparr>)"

text \<open>A run, None when an event is not possible where it stands.\<close>

fun task_run :: "(int \<Rightarrow> string) \<Rightarrow> string \<Rightarrow> task_event list \<Rightarrow> file_task \<Rightarrow> (panic + file_task) option" where
  "task_run rfc3339 svcName [] t = Some (Inr t)"
| "task_run rfc3339 svcName (e # es) t =
     (if \<not> task_enabled e t then None
      else case task_do rfc3339 svcName e t of Inl x \<Rightarrow> Some (Inl x) | Inr t' \<Rightarrow> task_run rfc3339 svcName es t')"

section \<open>The end of the metrics plugin\<close>

text \<open>What \<open>Destroy\<close> ends: the loop of the classified logs, if there is one, and the flush loop, if it was started.\<close>

datatype ended_task = EndsFileLogger | EndsFlushLoop

definition metrics_Destroy :: "bool \<Rightarrow> StaticsWorker \<Rightarrow> ended_task list" where
  "metrics_Destroy hasCancel s = (if fileLogger s = None then [] else [EndsFileLogger]) @ (if hasCancel then [EndsFlushLoop] else [])"

section \<open>Lemmas\<close>

text \<open>What was written to the files.\<close>

definition written :: "file_worker \<Rightarrow> (ReportRecord list \<times> LogStatValue list \<times> Event list) option" where
  "written = map_option (\<lambda>p. (reportLog p, precisionLog p, eventLines p))"

lemma call_writes_nothing:
  assumes "file_step rfc3339 svcName (StreamCall c) w = Inr w'"
  shows "written w' = written w" "w' = None \<longleftrightarrow> w = None"
  using assms
  by (cases c; cases w;
    auto simp: written_def file_statis_def file_part_def Let_def CreateCollectorV1_def CreateCollectorV2_def file_DropCollector_def
      file_AddAPICall_def file_AddEventToLog_def split: prod.splits option.splits)+

lemma metrics_call_exports_nothing:
  "statis_do metrics_statis c w = Inr w' \<Longrightarrow> metricOps w' = metricOps w \<and> map_option (\<lambda>p. written (Some p)) (fileLogger w') =
     map_option (\<lambda>p. written (Some p)) (fileLogger w)"
  by (cases c)
    (auto simp: metrics_statis_def CreateRateLimitStatCollector_def addCollector_def DropRateLimitStatCollector_def metrics_AddAPICall_def
      metrics_AddEventToLog_def AddProcessTime_def RegisterCollector_def file_DropCollector_def file_AddAPICall_def file_AddEventToLog_def
      written_def Let_def option.map_comp comp_def split: option.splits)

text \<open>Calls alone: they are always possible, and write nothing.\<close>

lemma calls_run:
  assumes "task_worker t \<noteq> None"
  shows "\<exists>w. task_run rfc3339 svcName (map (Runs \<circ> StreamCall) cs) t = Some (Inr (t\<lparr>task_worker := w\<rparr>)) \<and> w \<noteq> None \<and>
    written w = written (task_worker t)"
  using assms
proof (induction cs arbitrary: t)
  case (Cons c cs)
  obtain w1 where w1: "statis_do file_statis c (task_worker t) = Inr w1" "w1 \<noteq> None" using filed.do_ready [OF Cons.prems] by blast
  then have "written w1 = written (task_worker t)" using call_writes_nothing(1) [of rfc3339 svcName c "task_worker t" w1] by simp
  then show ?case using w1 Cons.IH [of "t\<lparr>task_worker := w1\<rparr>"] by simp
next
  case Nil
  then show ?case by (intro exI [of _ "task_worker t"]) simp
qed

lemma task_run_append:
  "task_run rfc3339 svcName es t = Some (Inr t') \<Longrightarrow> task_run rfc3339 svcName (es @ fs) t = task_run rfc3339 svcName fs t'"
  by (induction es arbitrary: t) (auto split: sum.splits if_splits)

section \<open>The last interval\<close>

text \<open>
  What the streams add after the last tick is never written: the end of the context can be seen at
  once, no report is made then, and whatever streams do later, no tick is possible any more.
\<close>

theorem destroy_drops_last_interval:
  assumes "task_worker t \<noteq> None" "\<not> task_ended t"
  shows "\<exists>t'. task_run rfc3339 svcName (map (Runs \<circ> StreamCall) before @ [Destroyed, SeesDone] @ map (Runs \<circ> StreamCall) after) t = Some (Inr t') \<and>
    written (task_worker t') = written (task_worker t) \<and> (\<forall>e. task_enabled (Runs e) t' \<longrightarrow> is_call e)"
proof -
  obtain w where w: "task_run rfc3339 svcName (map (Runs \<circ> StreamCall) before) t = Some (Inr (t\<lparr>task_worker := w\<rparr>))" "w \<noteq> None"
    "written w = written (task_worker t)" using calls_run [OF assms(1)] by blast
  define t1 where "t1 = t\<lparr>task_worker := w, task_cancelled := True, task_ended := True\<rparr>"
  have "task_worker t1 \<noteq> None" using w(2) by (simp add: t1_def)
  from calls_run [OF this] obtain w' where w': "task_run rfc3339 svcName (map (Runs \<circ> StreamCall) after) t1 = Some (Inr (t1\<lparr>task_worker := w'\<rparr>))"
    "written w' = written (task_worker t1)" by blast
  moreover have "task_run rfc3339 svcName (map (Runs \<circ> StreamCall) before @ [Destroyed, SeesDone] @ map (Runs \<circ> StreamCall) after) t =
      task_run rfc3339 svcName (map (Runs \<circ> StreamCall) after) t1"
    using w(2) assms(2) by (cases w) (auto simp: task_run_append [OF w(1)] file_Destroy_def t1_def)
  ultimately show ?thesis using w(3) by (auto simp: t1_def)
qed

text \<open>One call that was served before the end and is in no report.\<close>

theorem destroy_drops_last_interval_witness:
  "\<exists>p t'. NewFileLogger False sample_report_config = Inr p \<and>
     task_run (\<lambda>_. []) ''svc'' [Runs (StreamCall (ApiCall 5 (one_call 200000 3))), Destroyed, SeesDone] (file_Start (Some p)) = Some (Inr t') \<and>
     written (task_worker t') = Some ([], [], [])"
proof -
  obtain p where p: "NewFileLogger False sample_report_config = Inr p" "written (Some p) = Some ([], [], [])"
    by (simp add: NewFileLogger_def Validate_def sample_report_config_def written_def)
  have "task_worker (file_Start (Some p)) \<noteq> None" "\<not> task_ended (file_Start (Some p))" by (simp_all add: file_Start_def)
  from destroy_drops_last_interval [OF this, of "\<lambda>_. []" "''svc''" "[ApiCall 5 (one_call 200000 3)]" "[]"] p
  show ?thesis by (auto simp: file_Start_def simp del: task_run.simps)
qed

end
