(* ===== verification/Duration_Text.thy ===== *)
theory Duration_Text
  imports Json_Text
begin

text \<open>
  The JSON form of durations, \<open>pkg/utils/stat.go\<close>: a duration is written as its text and read back with
  \<open>time.ParseDuration\<close> of the Go library, which is modelled here as far as it is used: signs, the terms
  with their units, fractions and the checks for overflow. The library multiplies the fraction as a
  floating-point number; that product is an argument, of which exactness is used only where it is exact
  in the 53 bits of the format.
\<close>

section \<open>Parsing\<close>

text \<open>\<open>leadingInt\<close> and \<open>leadingFraction\<close>, after the digits that are read already.\<close>

fun leadingInt :: "int \<Rightarrow> string \<Rightarrow> (int \<times> string) option" where
  "leadingInt x [] = Some (x, [])"
| "leadingInt x (c # cs) =
     (if \<not> is_digit c then Some (x, c # cs)
      else if 2 ^ 63 div 10 < x then None
      else if 2 ^ 63 < 10 * x + digit_val c then None
      else leadingInt (10 * x + digit_val c) cs)"

fun leadingFraction :: "int \<Rightarrow> int \<Rightarrow> bool \<Rightarrow> string \<Rightarrow> int \<times> int \<times> string" where
  "leadingFraction x scale over [] = (x, scale, [])"
| "leadingFraction x scale over (c # cs) =
     (if \<not> is_digit c then (x, scale, c # cs)
      else if over then leadingFraction x scale True cs
      else if (2 ^ 63 - 1) div 10 < x then leadingFraction x scale True cs
      else if 2 ^ 63 < 10 * x + digit_val c then leadingFraction x scale True cs
      else leadingFraction (10 * x + digit_val c) (10 * scale) False cs)"

definition unit_map :: "string \<Rightarrow> int option" where
  "unit_map = map_of [(''ns'', 1), (''us'', 1000), (micro_sign @ ''s'', 1000), ([CHR 0xCE, CHR 0xBC] @ ''s'', 1000), (''ms'', 1000000),
     (''s'', 1000000000), (''m'', 60000000000), (''h'', 3600000000000)]"

definition in_number :: "char \<Rightarrow> bool" where
  "in_number c \<longleftrightarrow> c = CHR ''.'' \<or> is_digit c"

text \<open>What follows the integer part: the fraction, its scale and whether it has digits.\<close>

definition fraction_part :: "string \<Rightarrow> int \<times> int \<times> bool \<times> string" where
  "fraction_part s =
     (case s of
        [] \<Rightarrow> (0, 1, False, [])
      | c # cs \<Rightarrow>
          if c = CHR ''.'' then (let (f, scale, s') = leadingFraction 0 1 False cs in (f, scale, length s' \<noteq> length cs, s'))
          else (0, 1, False, s))"

text \<open>One term: a number and its unit; \<open>fmul f unit scale\<close> is the product of the fraction with the unit.\<close>

definition parseTerm :: "(int \<Rightarrow> int \<Rightarrow> int \<Rightarrow> int) \<Rightarrow> string \<Rightarrow> (int \<times> string) option" where
  "parseTerm fmul s =
     (if s = [] \<or> \<not> in_number (hd s) then None
      else case leadingInt 0 s of
             None \<Rightarrow> None
           | Some (v, s1) \<Rightarrow>
               let (f, scale, post, s2) = fraction_part s1 in
               if length s1 = length s \<and> \<not> post then None
               else let u = takeWhile (\<lambda>c. \<not> in_number c) s2; rest = dropWhile (\<lambda>c. \<not> in_number c) s2 in
                    if u = [] then None
                    else case unit_map u of
                           None \<Rightarrow> None
                         | Some unit_ns \<Rightarrow>
                             if 2 ^ 63 div unit_ns < v then None
                             else let w = v * unit_ns + (if 0 < f then fmul f unit_ns scale else 0) in
                                  if 0 < f \<and> 2 ^ 63 < w then None else Some (w, rest))"

lemma leadingInt_length: "leadingInt x s = Some (v, s') \<Longrightarrow> length s' \<le> length s"
  by (induction x s rule: leadingInt.induct) (auto split: if_splits)

lemma leadingFraction_length: "length (snd (snd (leadingFraction x scale over s))) \<le> length s"
  by (induction x scale over s rule: leadingFraction.induct) (auto intro: le_SucI)

lemma parseTerm_length:
  assumes "parseTerm fmul s = Some (w, rest)"
  shows "length rest < length s"
proof -
  obtain v s1 where s1: "leadingInt 0 s = Some (v, s1)" using assms by (auto simp: parseTerm_def split: if_splits option.splits)
  obtain f scale post s2 where F: "fraction_part s1 = (f, scale, post, s2)" by (metis prod_cases4)
  have "rest = dropWhile (\<lambda>c. \<not> in_number c) s2" "takeWhile (\<lambda>c. \<not> in_number c) s2 \<noteq> []"
    using assms s1 F by (auto simp: parseTerm_def Let_def split: if_splits option.splits)
  then have "length rest < length s2"
    by (metis append_eq_conv_conj length_append length_greater_0_conv less_add_same_cancel2 takeWhile_dropWhile_id)
  moreover have "length s2 \<le> length s1"
    using F leadingFraction_length [of 0 1 False "tl s1"] by (auto simp: fraction_part_def Let_def split: list.splits if_splits prod.splits)
  ultimately show ?thesis using leadingInt_length [OF s1] by simp
qed

function parseTerms :: "(int \<Rightarrow> int \<Rightarrow> int \<Rightarrow> int) \<Rightarrow> int \<Rightarrow> string \<Rightarrow> int option" where
  "parseTerms fmul d s =
     (if s = [] then Some d
      else case parseTerm fmul s of
             None \<Rightarrow> None
           | Some (v, rest) \<Rightarrow> if 2 ^ 63 < (d + v) mod 2 ^ 64 then None else parseTerms fmul ((d + v) mod 2 ^ 64) rest)"
  by pat_completeness auto
termination by (relation "measure (\<lambda>(fmul, d, s). length s)") (auto dest: parseTerm_length)

declare parseTerms.simps [simp del]

definition ParseDuration :: "(int \<Rightarrow> int \<Rightarrow> int \<Rightarrow> int) \<Rightarrow> string \<Rightarrow> int option" where
  "ParseDuration fmul s =
     (let neg = (s \<noteq> [] \<and> hd s = CHR ''-''); t = (if s \<noteq> [] \<and> hd s \<in> {CHR ''-'', CHR ''+''} then tl s else s) in
      if t = ''0'' then Some 0
      else if t = [] then None
      else Option.bind (parseTerms fmul 0 t) (\<lambda>d.
             if neg then Some (i64 (- d)) else if 2 ^ 63 - 1 < d then None else Some d))"

section \<open>JSON\<close>

definition Duration_MarshalJSON :: "int \<Rightarrow> string" where
  "Duration_MarshalJSON d = json_string (duration_String d)"

text \<open>The text of a JSON string; anything else is an error for a duration.\<close>

definition json_text :: "string \<Rightarrow> string option" where
  "json_text b = Option.bind (expect (CHR 0x22) b) (\<lambda>b. Option.bind (unescape b) (\<lambda>(s, rest). if rest = [] then Some s else None))"

definition Duration_UnmarshalJSON :: "(int \<Rightarrow> int \<Rightarrow> int \<Rightarrow> int) \<Rightarrow> string \<Rightarrow> int option" where
  "Duration_UnmarshalJSON fmul b = Option.bind (json_text b) (ParseDuration fmul)"

section \<open>Printed numbers\<close>

definition digits :: "string \<Rightarrow> bool" where
  "digits s \<longleftrightarrow> (\<forall>c \<in> set s. is_digit c)"

lemma digits_simps [simp]: "digits []" "digits (c # s) \<longleftrightarrow> is_digit c \<and> digits s" "digits (s @ t) \<longleftrightarrow> digits s \<and> digits t"
  by (auto simp: digits_def)

lemma digit_val_bounds: "is_digit c \<Longrightarrow> 0 \<le> digit_val c \<and> digit_val c \<le> 9"
  by (auto simp: is_digit_def digit_val_def)

abbreviation read_from :: "int \<Rightarrow> string \<Rightarrow> int" where
  "read_from x s \<equiv> foldl (\<lambda>n c. 10 * n + digit_val c) x s"

lemma read_from_mono: "digits s \<Longrightarrow> 0 \<le> x \<Longrightarrow> x \<le> read_from x s"
proof (induction s arbitrary: x)
  case (Cons c s)
  have "0 \<le> digit_val c" using digit_val_bounds Cons.prems(1) by simp
  then have "10 * x + digit_val c \<le> read_from (10 * x + digit_val c) s" "x \<le> 10 * x + digit_val c" using Cons by simp_all
  then show ?case by simp
qed simp

lemma leadingInt_digits:
  assumes "digits s" "0 \<le> x" "read_from x s \<le> 2 ^ 63" "t = [] \<or> \<not> is_digit (hd t)"
  shows "leadingInt x (s @ t) = Some (read_from x s, t)"
  using assms
proof (induction s arbitrary: x)
  case Nil
  then show ?case by (cases t) auto
next
  case (Cons c s)
  have d: "0 \<le> digit_val c" using digit_val_bounds Cons.prems(1) by simp
  have le: "10 * x + digit_val c \<le> 2 ^ 63" using read_from_mono [of s "10 * x + digit_val c"] Cons.prems d by simp
  then have "x \<le> 2 ^ 63 div 10" using d by simp
  then show ?case using Cons le d by simp
qed

lemma leadingFraction_digits:
  assumes "digits s" "0 \<le> x" "read_from x s < 2 ^ 60" "t = [] \<or> \<not> is_digit (hd t)"
  shows "leadingFraction x scale False (s @ t) = (read_from x s, scale * 10 ^ length s, t)"
  using assms
proof (induction s arbitrary: x scale)
  case Nil
  then show ?case by (cases t) auto
next
  case (Cons c s)
  have d: "0 \<le> digit_val c" using digit_val_bounds Cons.prems(1) by simp
  have le: "10 * x + digit_val c < 2 ^ 60" using read_from_mono [of s "10 * x + digit_val c"] Cons.prems d by simp
  then have "x \<le> (2 ^ 63 - 1) div 10" using d by simp
  then show ?case using Cons le d by simp
qed

lemma dec_pos_number: "0 \<le> n \<Longrightarrow> digits (dec_pos n) \<and> dec_pos n \<noteq> [] \<and> read_from 0 (dec_pos n) = n"
proof -
  assume n: "0 \<le> n"
  have "digits (dec_pos n)" using dec_pos_digits [OF n] unfolding digits_def is_digit_def by blast
  moreover have "dec_pos n \<noteq> []" by (simp add: dec_pos_def digits_acc_nonempty)
  moreover have "read_from 0 (dec_pos n) = n" using read_dec_pos [OF n] by (simp add: read_pos_def)
  ultimately show ?thesis by blast
qed

text \<open>The fraction that is printed: none, or the digits of the remainder without trailing zeros.\<close>

lemma digit_char_is: "0 \<le> d \<Longrightarrow> d < 10 \<Longrightarrow> is_digit (digit_char d)"
  using digit_char_range by (simp add: is_digit_def)

lemma frac_digits_printing:
  assumes "0 \<le> v"
  shows "\<exists>ds. frac_digits prec v True acc = CHR ''.'' # ds @ acc \<and> digits ds \<and> length ds = prec \<and> read_from 0 ds = v mod 10 ^ prec"
  using assms
proof (induction prec arbitrary: v acc)
  case (Suc prec)
  obtain ds where ds: "frac_digits prec (v div 10) True (digit_char (v mod 10) # acc) = CHR ''.'' # ds @ digit_char (v mod 10) # acc"
    "digits ds" "length ds = prec" "read_from 0 ds = v div 10 mod 10 ^ prec"
    using Suc.IH [of "v div 10" "digit_char (v mod 10) # acc"] Suc.prems by (auto simp: pos_imp_zdiv_nonneg_iff)
  have "read_from 0 (ds @ [digit_char (v mod 10)]) = v mod 10 ^ Suc prec"
    using ds(4) zmod_zmult2_eq [of "10 ^ prec" v 10] by (simp add: digit_val_char)
  then show ?case using ds digit_char_is [of "v mod 10"]
    by (intro exI [of _ "ds @ [digit_char (v mod 10)]"]) simp
qed simp

lemma frac_digits_result:
  assumes "0 \<le> v"
  shows "if v mod 10 ^ prec = 0 then frac_digits prec v False acc = acc
    else \<exists>ds. frac_digits prec v False acc = CHR ''.'' # ds @ acc \<and> digits ds \<and> ds \<noteq> [] \<and> length ds \<le> prec \<and>
      read_from 0 ds * 10 ^ (prec - length ds) = v mod 10 ^ prec \<and> read_from 0 ds < 10 ^ length ds"
  using assms
proof (induction prec arbitrary: v)
  case (Suc prec)
  have v10: "0 \<le> v div 10" using Suc.prems by (simp add: pos_imp_zdiv_nonneg_iff)
  have m: "v mod 10 ^ Suc prec = 10 * (v div 10 mod 10 ^ prec) + v mod 10" using zmod_zmult2_eq [of "10 ^ prec" v 10] by simp
  show ?case
  proof (cases "v mod 10 = 0")
    case True
    have f: "frac_digits (Suc prec) v False acc = frac_digits prec (v div 10) False acc" using True by simp
    show ?thesis
    proof (cases "v div 10 mod 10 ^ prec = 0")
      case True
      then show ?thesis using Suc.IH [OF v10] \<open>v mod 10 = 0\<close> m f by simp
    next
      case False
      then obtain ds where "frac_digits prec (v div 10) False acc = CHR ''.'' # ds @ acc" "digits ds" "ds \<noteq> []" "length ds \<le> prec"
        "read_from 0 ds * 10 ^ (prec - length ds) = v div 10 mod 10 ^ prec" "read_from 0 ds < 10 ^ length ds"
        using Suc.IH [OF v10] by auto
      then show ?thesis using False True m f Suc_diff_le by (auto simp: mult.left_commute)
    qed
  next
    case False
    obtain ds where ds: "frac_digits prec (v div 10) True (digit_char (v mod 10) # acc) = CHR ''.'' # ds @ digit_char (v mod 10) # acc"
      "digits ds" "length ds = prec" "read_from 0 ds = v div 10 mod 10 ^ prec"
      using frac_digits_printing [OF v10, of prec "digit_char (v mod 10) # acc"] by auto
    have r: "read_from 0 (ds @ [digit_char (v mod 10)]) = v mod 10 ^ Suc prec" using ds(4) m by (simp add: digit_val_char)
    have nz: "v mod 10 ^ Suc prec \<noteq> 0"
    proof -
      have "0 \<le> v div 10 mod 10 ^ prec" by simp
      then show ?thesis using m False pos_mod_sign [of 10 v] by linarith
    qed
    have "v mod 10 ^ Suc prec < 10 ^ Suc prec" by (rule pos_mod_bound) simp
    then show ?thesis using False ds r nz digit_char_is [of "v mod 10"]
      by (auto intro!: exI [of _ "ds @ [digit_char (v mod 10)]"])
  qed
qed simp

section \<open>Printed durations\<close>

text \<open>
  A number and a unit that is printed. The product of the fraction is exact when the scale divides the
  unit: then both factors and their product are whole numbers below \<open>2 ^ 53\<close>.
\<close>

definition exact_product :: "(int \<Rightarrow> int \<Rightarrow> int \<Rightarrow> int) \<Rightarrow> bool" where
  "exact_product fmul \<longleftrightarrow> (\<forall>f unit_ns scale. 0 < f \<longrightarrow> f < scale \<longrightarrow> scale dvd unit_ns \<longrightarrow> unit_ns \<le> 3600000000000 \<longrightarrow>
     fmul f unit_ns scale = f * (unit_ns div scale))"

definition unit_word :: "string \<Rightarrow> bool" where
  "unit_word u \<longleftrightarrow> u \<noteq> [] \<and> (\<forall>c \<in> set u. \<not> in_number c)"

lemma unit_word_take:
  assumes "unit_word u" "rest = [] \<or> in_number (hd rest)"
  shows "takeWhile (\<lambda>c. \<not> in_number c) (u @ rest) = u" "dropWhile (\<lambda>c. \<not> in_number c) (u @ rest) = rest"
    "\<not> is_digit (hd (u @ rest))" "u @ rest \<noteq> []" "hd (u @ rest) \<noteq> CHR ''.''"
proof -
  have u: "u \<noteq> []" "\<forall>c \<in> set u. \<not> in_number c" using assms(1) by (simp_all add: unit_word_def)
  then show "takeWhile (\<lambda>c. \<not> in_number c) (u @ rest) = u" "dropWhile (\<lambda>c. \<not> in_number c) (u @ rest) = rest"
    using assms(2) by (cases rest; simp add: takeWhile_append2 dropWhile_append2)+
  have "\<not> in_number (hd u)" using u hd_in_set by blast
  then show "\<not> is_digit (hd (u @ rest))" "u @ rest \<noteq> []" "hd (u @ rest) \<noteq> CHR ''.''" using u(1) by (auto simp: in_number_def)
qed

lemma parseTerm_parts:
  assumes "in_number (hd s)" "leadingInt 0 s = Some (n, s1)" "length s1 < length s" "fraction_part s1 = (f, scale, post, u @ rest)"
    and "unit_word u" "rest = [] \<or> in_number (hd rest)" "unit_map u = Some k" "n \<le> 2 ^ 63 div k"
    and "w = n * k + (if 0 < f then fmul f k scale else 0)" "w \<le> 2 ^ 63"
  shows "parseTerm fmul s = Some (w, rest)"
proof -
  have "s \<noteq> []" "u \<noteq> []" using assms(3,5) by (auto simp: unit_word_def)
  then show ?thesis
    using assms(1,3,7-10) by (simp add: parseTerm_def assms(2,4) unit_word_take(1,2) [OF assms(5,6)] Let_def)
qed

lemma parseTerm_whole:
  assumes "0 \<le> n" "unit_map u = Some k" "unit_word u" "rest = [] \<or> in_number (hd rest)" "0 < k" "n * k \<le> 2 ^ 63"
  shows "parseTerm fmul (dec_pos n @ u @ rest) = Some (n * k, rest)"
proof -
  note U = unit_word_take [OF assms(3,4)] and D = dec_pos_number [OF assms(1)]
  have "n * 1 \<le> n * k" using assms(1,5) by (intro mult_left_mono) simp_all
  then have n: "n \<le> 2 ^ 63" "n \<le> 2 ^ 63 div k" using assms(5,6) zdiv_mono1 [OF assms(6,5)] by simp_all
  have L: "leadingInt 0 (dec_pos n @ u @ rest) = Some (n, u @ rest)"
    using leadingInt_digits [of "dec_pos n" 0 "u @ rest"] D n(1) U(3) by simp
  have F: "fraction_part (u @ rest) = (0, 1, False, u @ rest)" using U(4,5) by (cases "u @ rest") (auto simp: fraction_part_def)
  have first: "in_number (hd (dec_pos n @ u @ rest))" using D by (cases "dec_pos n") (auto simp: in_number_def)
  show ?thesis
    by (rule parseTerm_parts [OF first L _ F assms(3,4,2) n(2)]) (use D assms(6) in simp_all)
qed

lemma parseTerm_frac:
  assumes "exact_product fmul" "0 \<le> v" "unit_map u = Some (10 ^ prec)" "unit_word u" "rest = [] \<or> in_number (hd rest)" "prec \<le> 9"
    and "v \<le> 2 ^ 63"
  shows "parseTerm fmul (dec_pos (v div 10 ^ prec) @ frac_digits prec v False (u @ rest)) = Some (v, rest)"
proof (cases "v mod 10 ^ prec = 0")
  case True
  then have "v div 10 ^ prec * 10 ^ prec = v" using div_mult_mod_eq [of v "10 ^ prec"] by simp
  then show ?thesis using parseTerm_whole [of "v div 10 ^ prec" u "10 ^ prec" rest fmul] frac_digits_result [of v prec "u @ rest"] True assms
    by (simp add: pos_imp_zdiv_nonneg_iff)
next
  case False
  let ?n = "v div 10 ^ prec"
  obtain ds where ds: "frac_digits prec v False (u @ rest) = CHR ''.'' # ds @ u @ rest" "digits ds" "ds \<noteq> []" "length ds \<le> prec"
    "read_from 0 ds * 10 ^ (prec - length ds) = v mod 10 ^ prec" "read_from 0 ds < 10 ^ length ds"
    using frac_digits_result [OF assms(2), of prec "u @ rest"] False by auto
  note U = unit_word_take [OF assms(4,5)]
  have n0: "0 \<le> ?n" using assms(2) by (simp add: pos_imp_zdiv_nonneg_iff)
  note D = dec_pos_number [OF n0]
  have vsum: "?n * 10 ^ prec + v mod 10 ^ prec = v" by (rule div_mult_mod_eq)
  have nk: "?n * 10 ^ prec \<le> 2 ^ 63" using vsum assms(7) pos_mod_sign [of "10 ^ prec" v, OF zero_less_power] by linarith
  then have n: "?n \<le> 2 ^ 63 div 10 ^ prec" using zdiv_mono1 [OF nk, of "10 ^ prec"] by simp
  have "?n * 1 \<le> ?n * 10 ^ prec" using n0 by (intro mult_left_mono) simp_all
  then have n1: "?n \<le> 2 ^ 63" using nk by linarith
  have L: "leadingInt 0 (dec_pos ?n @ CHR ''.'' # ds @ u @ rest) = Some (?n, CHR ''.'' # ds @ u @ rest)"
    using leadingInt_digits [of "dec_pos ?n" 0 "CHR ''.'' # ds @ u @ rest"] D n1 by (simp add: is_digit_def)
  have "(10 :: int) ^ length ds \<le> 10 ^ 9" using ds(4) assms(6) by (intro power_increasing) auto
  then have "read_from 0 ds < 2 ^ 60" using ds(6) by simp
  then have LF: "leadingFraction 0 1 False (ds @ u @ rest) = (read_from 0 ds, 10 ^ length ds, u @ rest)"
    using leadingFraction_digits [OF ds(2), of 0 "u @ rest" 1] U(3) by simp
  have F: "fraction_part (CHR ''.'' # ds @ u @ rest) = (read_from 0 ds, 10 ^ length ds, True, u @ rest)"
    using LF ds(3) by (simp add: fraction_part_def)
  have f0: "0 < read_from 0 ds"
  proof -
    have "read_from 0 ds \<noteq> 0" using ds(5) False by auto
    then show ?thesis using read_from_mono [OF ds(2), of 0] by simp
  qed
  have dvd: "(10 :: int) ^ length ds dvd 10 ^ prec" using ds(4) by (rule le_imp_power_dvd)
  have "(10 :: int) ^ prec \<le> 10 ^ 9" using assms(6) by (intro power_increasing) auto
  then have unit_bound: "(10 :: int) ^ prec \<le> 3600000000000" by simp
  have "fmul (read_from 0 ds) (10 ^ prec) (10 ^ length ds) = read_from 0 ds * (10 ^ prec div 10 ^ length ds)"
    using assms(1) f0 ds(6) dvd unit_bound unfolding exact_product_def by blast
  also have "10 ^ prec div 10 ^ length ds = (10 :: int) ^ (prec - length ds)" using ds(4) by (simp add: power_diff)
  also have "read_from 0 ds * 10 ^ (prec - length ds) = v mod 10 ^ prec" by (rule ds(5))
  finally have M: "fmul (read_from 0 ds) (10 ^ prec) (10 ^ length ds) = v mod 10 ^ prec" .
  have first: "in_number (hd (dec_pos ?n @ CHR ''.'' # ds @ u @ rest))" using D by (cases "dec_pos ?n") (auto simp: in_number_def)
  show ?thesis unfolding ds(1)
  proof (rule parseTerm_parts [OF first L _ F assms(4,5,3) n])
    show "v = ?n * 10 ^ prec + (if 0 < read_from 0 ds then fmul (read_from 0 ds) (10 ^ prec) (10 ^ length ds) else 0)"
      by (simp only: if_P [OF f0] M vsum)
  qed (use D assms(7) in simp_all)
qed

lemma printed_units:
  "unit_map ''ns'' = Some 1" "unit_map (micro_sign @ ''s'') = Some (10 ^ 3)" "unit_map ''ms'' = Some (10 ^ 6)" "unit_map ''s'' = Some (10 ^ 9)"
  "unit_map ''m'' = Some 60000000000" "unit_map ''h'' = Some 3600000000000"
  by (simp_all add: unit_map_def micro_sign_def)

lemma unit_words:
  "unit_word ''ns''" "unit_word (micro_sign @ ''s'')" "unit_word ''ms''" "unit_word ''s''" "unit_word ''m''" "unit_word ''h''"
  by (simp_all add: unit_word_def in_number_def is_digit_def micro_sign_def)

lemma number_first: "0 \<le> n \<Longrightarrow> dec_pos n @ t \<noteq> [] \<and> in_number (hd (dec_pos n @ t))"
  using dec_pos_number [of n] by (cases "dec_pos n") (auto simp: in_number_def)

lemma frac_digits_cong: "x mod 10 ^ prec = y mod 10 ^ prec \<Longrightarrow> frac_digits prec x p acc = frac_digits prec y p acc" for x y :: int
proof (induction prec arbitrary: x y p acc)
  case (Suc prec)
  have split: "z mod 10 ^ Suc prec = 10 * (z div 10 mod 10 ^ prec) + z mod 10" for z :: int
    using zmod_zmult2_eq [of "10 ^ prec" z 10] by simp
  have aux: "a = c \<and> b = e" if "10 * a + b = 10 * c + e" "0 \<le> b" "b < 10" "0 \<le> e" "e < 10" for a b c e :: int
    using that int_div_pos_eq [of _ 10] int_mod_pos_eq [of _ 10] by metis
  have "10 * (x div 10 mod 10 ^ prec) + x mod 10 = 10 * (y div 10 mod 10 ^ prec) + y mod 10"
    using Suc.prems unfolding split .
  from aux [OF this] have "x div 10 mod 10 ^ prec = y div 10 mod 10 ^ prec \<and> x mod 10 = y mod 10" by simp
  then show ?case using Suc.IH [of "x div 10" "y div 10"] by (simp add: Let_def)
qed simp

lemma parseTerms_step:
  assumes "s \<noteq> []" "parseTerm fmul s = Some (v, rest)" "0 \<le> d" "0 \<le> v" "d + v \<le> 2 ^ 63"
  shows "parseTerms fmul d s = parseTerms fmul (d + v) rest"
  using assms by (subst parseTerms.simps) simp

lemma parseTerms_end [simp]: "parseTerms fmul d [] = Some d"
  by (subst parseTerms.simps) simp

lemma parse_last:
  assumes "exact_product fmul" "0 \<le> v" "unit_map u = Some (10 ^ prec)" "unit_word u" "prec \<le> 9" "0 \<le> d" "d + v \<le> 2 ^ 63"
  shows "parseTerms fmul d (dec_pos (v div 10 ^ prec) @ frac_digits prec v False u) = Some (d + v)"
proof -
  have "parseTerm fmul (dec_pos (v div 10 ^ prec) @ frac_digits prec v False (u @ [])) = Some (v, [])"
    by (rule parseTerm_frac) (use assms in auto)
  moreover have "dec_pos (v div 10 ^ prec) @ frac_digits prec v False u \<noteq> []"
    using number_first [of "v div 10 ^ prec"] assms(2) by (simp add: pos_imp_zdiv_nonneg_iff)
  ultimately show ?thesis using parseTerms_step [OF _ _ assms(6,2,7)] by simp
qed

lemma parse_whole:
  assumes "0 \<le> n" "unit_map u = Some k" "unit_word u" "rest \<noteq> []" "in_number (hd rest)" "0 < k" "0 \<le> d" "d + n * k \<le> 2 ^ 63"
  shows "parseTerms fmul d (dec_pos n @ u @ rest) = parseTerms fmul (d + n * k) rest"
proof (rule parseTerms_step)
  show "dec_pos n @ u @ rest \<noteq> []" using number_first [OF assms(1)] by blast
  show nk: "0 \<le> n * k" using assms(1,6) by simp
  show "parseTerm fmul (dec_pos n @ u @ rest) = Some (n * k, rest)"
    by (rule parseTerm_whole) (use assms nk in auto)
qed (use assms(7,8) in simp_all)

lemma parse_duration_abs:
  assumes "exact_product fmul" "0 < u" "u \<le> 2 ^ 63"
  shows "parseTerms fmul 0 (duration_abs u) = Some u"
proof -
  consider "u < 1000" | "1000 \<le> u" "u < 1000000" | "1000000 \<le> u" "u < 1000000000" | "1000000000 \<le> u" by linarith
  then show ?thesis
  proof cases
    case 1
    then show ?thesis using parse_last [OF assms(1), of u "''ns''" 0 0] assms printed_units unit_words by (simp add: duration_abs_def)
  next
    case 2
    then show ?thesis using parse_last [OF assms(1), of u "micro_sign @ ''s''" 3 0] assms printed_units unit_words
      by (simp add: duration_abs_def with_frac_def)
  next
    case 3
    then show ?thesis using parse_last [OF assms(1), of u "''ms''" 6 0] assms printed_units unit_words
      by (simp add: duration_abs_def with_frac_def)
  next
    case 4
    define w where "w = u div 1000000000"
    define h where "h = w div 60 div 60"
    define m where "m = w div 60"
    have w: "0 \<le> w" "0 \<le> h" "0 \<le> m" using assms(2) by (simp_all add: w_def h_def m_def pos_imp_zdiv_nonneg_iff)
    define low where "low = u mod 60000000000"
    have m60: "m = u div 60000000000" unfolding m_def w_def using zdiv_zmult2_eq [of 60 u 1000000000] by simp
    have low: "low div 10 ^ 9 = w mod 60" "low mod 10 ^ 9 = u mod 10 ^ 9" "0 \<le> low"
      unfolding low_def w_def using div_mod_decomp_int [of u 1000000000] zmod_zmult2_eq [of 60 u 1000000000] by simp_all
    have "u = m * 60000000000 + low" unfolding m60 low_def by simp
    moreover have "m = h * 60 + m mod 60" unfolding h_def m_def by simp
    ultimately have parts: "u = h * 3600000000000 + m mod 60 * 60000000000 + low" by linarith
    have m: "0 \<le> m mod 60" "m mod 60 \<le> m" using w(3) by (simp_all add: zmod_le_nonneg_dividend)
    let ?secs = "dec_pos (low div 10 ^ 9) @ frac_digits 9 low False ''s''"
    have secs: "dec_pos (w mod 60) @ frac_digits 9 u False ''s'' = ?secs" using low(1) frac_digits_cong [OF low(2)] by simp
    have last: "parseTerms fmul d ?secs = Some (d + low)" if "0 \<le> d" "d + low \<le> 2 ^ 63" for d
      by (rule parse_last [OF assms(1) low(3)]) (use that printed_units unit_words in auto)
    have secs_first: "?secs \<noteq> []" "in_number (hd ?secs)" using number_first [of "low div 10 ^ 9"] low(1) by auto
    have mins: "parseTerms fmul d (dec_pos (m mod 60) @ ''m'' @ ?secs) = Some (d + m mod 60 * 60000000000 + low)"
      if "0 \<le> d" "d + m mod 60 * 60000000000 + low \<le> 2 ^ 63" for d
    proof -
      have "parseTerms fmul d (dec_pos (m mod 60) @ ''m'' @ ?secs) = parseTerms fmul (d + m mod 60 * 60000000000) ?secs"
        by (rule parse_whole) (use that m(1) low(3) secs_first printed_units unit_words in auto)
      then show ?thesis using last [of "d + m mod 60 * 60000000000"] that m(1) by simp
    qed
    consider "m = 0" "h = 0" | "0 < m" "h = 0" | "0 < m" "0 < h"
      using w unfolding h_def m_def by (metis div_0 order_le_less)
    then show ?thesis
    proof cases
      case 1
      then have "duration_abs u = ?secs" using 4 secs unfolding h_def m_def w_def by (simp add: duration_abs_def Let_def)
      then show ?thesis using last [of 0] parts 1 assms(3) by simp
    next
      case 2
      then have "duration_abs u = dec_pos (m mod 60) @ ''m'' @ ?secs" using 4 secs unfolding h_def m_def w_def by (simp add: duration_abs_def Let_def)
      then show ?thesis using mins [of 0] parts 2 assms(3) by simp
    next
      case 3
      then have "duration_abs u = dec_pos h @ ''h'' @ dec_pos (m mod 60) @ ''m'' @ ?secs"
        using 4 secs unfolding h_def m_def w_def by (simp add: duration_abs_def Let_def)
      moreover have "parseTerms fmul 0 (dec_pos h @ ''h'' @ dec_pos (m mod 60) @ ''m'' @ ?secs) =
          parseTerms fmul (0 + h * 3600000000000) (dec_pos (m mod 60) @ ''m'' @ ?secs)"
        by (rule parse_whole) (use parts m(1) low(3) w(2) assms(3) number_first [of "m mod 60"] printed_units unit_words in auto)
      ultimately show ?thesis using mins [of "h * 3600000000000"] parts w(2) assms(3) by simp
    qed
  qed
qed

section \<open>The text is UTF-8\<close>

lemma valid_ascii: "list_all (\<lambda>c. code c < 0x80) s \<Longrightarrow> valid_utf8 (s @ t) = valid_utf8 t"
  by (induction s) auto

definition plain :: "string \<Rightarrow> bool" where
  "plain s \<longleftrightarrow> list_all (\<lambda>c. code c < 0x80) s"

lemma plain_simps [simp]: "plain []" "plain (c # s) \<longleftrightarrow> code c < 0x80 \<and> plain s" "plain (s @ t) \<longleftrightarrow> plain s \<and> plain t"
  by (simp_all add: plain_def)

lemma plain_valid: "plain s \<Longrightarrow> valid_utf8 s"
  using valid_ascii [of s "[]"] by (simp add: plain_def)

lemma plain_digits: "digits s \<Longrightarrow> plain s"
  by (induction s) (auto simp: is_digit_def)

lemma plain_frac: "0 \<le> v \<Longrightarrow> frac_digits prec v False acc = p @ acc \<Longrightarrow> plain p"
proof -
  assume v: "0 \<le> v" and f: "frac_digits prec v False acc = p @ acc"
  show "plain p"
  proof (cases "v mod 10 ^ prec = 0")
    case True
    then show ?thesis using frac_digits_result [OF v, of prec acc] f by simp
  next
    case False
    then show ?thesis using frac_digits_result [OF v, of prec acc] f plain_digits by auto
  qed
qed

lemma frac_prefix: "0 \<le> v \<Longrightarrow> \<exists>p. frac_digits prec v False acc = p @ acc"
  using frac_digits_result [of v prec acc] by (cases "v mod 10 ^ prec = 0") auto

lemma valid_duration_abs:
  assumes "0 \<le> u"
  shows "valid_utf8 (duration_abs u)"
proof -
  have dec: "plain (dec_pos n)" if "0 \<le> n" for n using dec_pos_number [OF that] plain_digits by blast
  have fr: "valid_utf8 (frac_digits prec u False acc) = valid_utf8 acc" for prec acc
    using frac_prefix [OF assms, of prec acc] plain_frac [OF assms] valid_ascii by (metis plain_def)
  have pre: "valid_utf8 (s @ t) = valid_utf8 t" if "plain s" for s t using that valid_ascii by (simp add: plain_def)
  have nonneg: "0 \<le> u div k" "0 \<le> x mod 60" if "0 < k" for k x :: int using assms that by (simp_all add: pos_imp_zdiv_nonneg_iff)
  have "valid_utf8 (micro_sign @ ''s'')" by code_simp
  then show ?thesis
    using assms by (simp add: duration_abs_def with_frac_def Let_def pre fr dec nonneg plain_valid flip: append_assoc)
qed

text \<open>The text of a duration is valid, so that its JSON string reads back.\<close>

lemma json_duration: "json_text (json_string (duration_String d)) = Some (duration_String d)"
proof -
  have "valid_utf8 (duration_String d)"
    using valid_duration_abs [of d] valid_duration_abs [of "- d"] plain_valid [of "''0s''"] valid_ascii [of "''-''" "duration_abs (- d)"]
    by (auto simp: duration_String_def)
  then show ?thesis using unescape_body [of "duration_String d" "[]"] by (simp add: json_text_def json_string_def scrub_valid)
qed

text \<open>The text of a positive duration, alone and with a sign.\<close>

lemma ParseDuration_abs:
  assumes "exact_product fmul" "s = duration_abs u" "0 < u" "u \<le> 2 ^ 63"
  shows "ParseDuration fmul s = (if 2 ^ 63 - 1 < u then None else Some u) \<and> ParseDuration fmul (CHR ''-'' # s) = Some (i64 (- u))"
proof -
  have P: "parseTerms fmul 0 s = Some u" using parse_duration_abs [OF assms(1,3,4)] assms(2) by simp
  have "parseTerm fmul ''0'' = None" "in_number (CHR ''0'')"
    by (simp_all add: parseTerm_def in_number_def is_digit_def digit_val_def fraction_part_def)
  then have "s \<noteq> ''0''" using P by (subst (asm) parseTerms.simps) auto
  moreover have "s \<noteq> []" using P assms(3) by auto
  moreover have "in_number (hd s)"
    using P \<open>s \<noteq> []\<close> by (subst (asm) parseTerms.simps) (auto simp: parseTerm_def split: if_splits)
  then have "hd s \<noteq> CHR ''-''" "hd s \<noteq> CHR ''+''" by (auto simp: in_number_def is_digit_def)
  ultimately show ?thesis using P by (simp add: ParseDuration_def Let_def)
qed

section \<open>Properties\<close>

text \<open>
  C39: A duration that is written as JSON reads back as itself, for every 64-bit value, whatever stands in
  the variable it is read into.
\<close>
theorem duration_json_round_trip:
  assumes "exact_product fmul" "in64 d"
  shows "Duration_UnmarshalJSON fmul (Duration_MarshalJSON d) = Some d"
proof -
  have zero: "parseTerms fmul 0 ''0s'' = Some 0"
  proof -
    have "dec_pos 0 @ frac_digits 9 0 False ''s'' = ''0s''" by code_simp
    then show ?thesis using parse_last [OF assms(1), of 0 "''s''" 9 0] printed_units unit_words by simp
  qed
  note pos = ParseDuration_abs [OF assms(1)]
  have "ParseDuration fmul (duration_String d) = Some d"
  proof -
    consider "d = 0" | "0 < d" "d \<le> 2 ^ 63 - 1" | "d < 0" "- d \<le> 2 ^ 63" using assms(2) by (fastforce simp: in64_def)
    then show ?thesis
    proof cases
      case 1
      then show ?thesis using zero by (simp add: duration_String_def ParseDuration_def)
    next
      case 2
      then show ?thesis using pos [OF refl, of d] by (simp add: duration_String_def)
    next
      case 3
      then show ?thesis using pos [OF refl, of "- d"] assms(2) by (simp add: duration_String_def)
    qed
  qed
  then show ?thesis by (simp add: Duration_UnmarshalJSON_def Duration_MarshalJSON_def json_duration)
qed

text \<open>The most negative duration, and the one of the repository's own test.\<close>

theorem duration_json_round_trip_witness:
  "Duration_UnmarshalJSON (\<lambda>f unit_ns scale. f * unit_ns div scale) (Duration_MarshalJSON (- (2 ^ 63))) = Some (- (2 ^ 63)) \<and>
    Duration_UnmarshalJSON (\<lambda>f unit_ns scale. f * unit_ns div scale) (Duration_MarshalJSON 4830000000000) = Some 4830000000000"
proof -
  have "exact_product (\<lambda>f unit_ns scale. f * unit_ns div scale)"
    by (auto simp: exact_product_def div_mult_swap)
  then show ?thesis using duration_json_round_trip [of _ "- (2 ^ 63)"] duration_json_round_trip [of _ 4830000000000]
    by (simp add: in64_def)
qed

end
