(* ===== verification/Command_Line.thy ===== *)
theory Command_Line
  imports Lifecycle
begin

text \<open>
  The command line, \<open>main.go\<close> and \<open>cmd/\<close>: the commands with the flags that each accepts, and what each
  runs. The library that parses the arguments is an argument: given the commands it returns the one that
  is named and the values of the flags that stand on the line, or an error, which is dropped.
\<close>

section \<open>Commands\<close>

datatype command_name = StartCmd | RestartCmd | VersionCmd | RevisionCmd

text \<open>A flag: its long and short name and its default.\<close>

record command_flag =
  flag_Name :: string
  flag_Short :: string
  flag_Default :: string

record Command =
  command_Use :: string
  command_Flags :: "command_flag list"

definition config_flag :: command_flag where
  "config_flag = \<lparr>flag_Name = ''config'', flag_Short = ''c'', flag_Default = ''polaris-limiter.yaml''\<rparr>"

text \<open>The flag is added to the command \<open>start\<close> only.\<close>

fun command_of :: "command_name \<Rightarrow> Command" where
  "command_of StartCmd = \<lparr>command_Use = ''start'', command_Flags = [config_flag]\<rparr>"
| "command_of RestartCmd = \<lparr>command_Use = ''restart'', command_Flags = []\<rparr>"
| "command_of VersionCmd = \<lparr>command_Use = ''version'', command_Flags = []\<rparr>"
| "command_of RevisionCmd = \<lparr>command_Use = ''revision'', command_Flags = []\<rparr>"

definition rootCmd :: "(command_name \<times> Command) list" where
  "rootCmd = map (\<lambda>c. (c, command_of c)) [StartCmd, RestartCmd, VersionCmd, RevisionCmd]"

section \<open>Running a command\<close>

text \<open>What a run prints, and the start it makes: the path of the configuration and whether it restarts.\<close>

record command_run =
  printed :: "string list"
  started :: "(string \<times> bool) option"

fun Run :: "command_name \<Rightarrow> string \<Rightarrow> command_run" where
  "Run StartCmd configFilePath = \<lparr>printed = [''rate-limit server start''], started = Some (configFilePath, False)\<rparr>"
| "Run RestartCmd configFilePath = \<lparr>printed = [''rate-limit server restart''], started = Some (configFilePath, True)\<rparr>"
| "Run VersionCmd configFilePath = \<lparr>printed = [''version: '' @ Version], started = None\<rparr>"
| "Run RevisionCmd configFilePath = \<lparr>printed = [''revision: '' @ GetRevision Version BuildDate], started = None\<rparr>"

type_synonym flag_parser = "(command_name \<times> Command) list \<Rightarrow> string list \<Rightarrow> (command_name \<times> (string \<times> string) list) option"

text \<open>The variable of the flag has the default from the moment the flag is declared.\<close>

definition Execute :: "flag_parser \<Rightarrow> string list \<Rightarrow> command_run" where
  "Execute parse args =
     (case parse rootCmd args of
        None \<Rightarrow> \<lparr>printed = [], started = None\<rparr>
      | Some (c, given) \<Rightarrow> Run c (case map_of given (flag_Name config_flag) of Some v \<Rightarrow> v | None \<Rightarrow> flag_Default config_flag))"

text \<open>The parser accepts no flag that the command does not have.\<close>

definition knows_flags :: "flag_parser \<Rightarrow> bool" where
  "knows_flags parse \<longleftrightarrow> (\<forall>cmds args c given. parse cmds args = Some (c, given) \<longrightarrow>
     (\<exists>d. (c, d) \<in> set cmds \<and> fst ` set given \<subseteq> flag_Name ` set (command_Flags d)))"

text \<open>\<open>Start\<close> up to the main loop: both commands make the same start, of which \<open>restart\<close> is ignored.\<close>

definition Start :: "'o boot_env \<Rightarrow> string \<Rightarrow> bool \<Rightarrow> ('o, string list) boot" where
  "Start env configPath restart = NonBlockingStart env configPath"

definition run_process :: "flag_parser \<Rightarrow> 'o boot_env \<Rightarrow> string list \<Rightarrow> 'o app \<Rightarrow> string list \<times> ((boot_stop + string list) \<times> 'o app) option" where
  "run_process parse env args s =
     (let r = Execute parse args in (printed r, map_option (\<lambda>(path, restart). Start env path restart s) (started r)))"

section \<open>What the arguments decide\<close>

text \<open>\<open>restart\<close> always starts from the default path; only \<open>start\<close> can name another.\<close>

lemma restart_has_default_path:
  assumes "knows_flags parse" "started (Execute parse args) = Some (path, True)"
  shows "path = ''polaris-limiter.yaml''"
proof -
  obtain c given where P: "parse rootCmd args = Some (c, given)" "started (Run c (case map_of given ''config'' of Some v \<Rightarrow> v | None \<Rightarrow> ''polaris-limiter.yaml'')) = Some (path, True)"
    using assms(2) by (auto simp: Execute_def config_flag_def split: option.splits)
  then have c: "c = RestartCmd" by (cases c) auto
  obtain d where "(c, d) \<in> set rootCmd" "fst ` set given \<subseteq> flag_Name ` set (command_Flags d)"
    using assms(1) P(1) unfolding knows_flags_def by blast
  then have "given = []" using c by (auto simp: rootCmd_def)
  then show ?thesis using P(2) c by simp
qed

text \<open>A line that the parser refuses starts nothing and prints nothing of the program.\<close>

lemma refused_line: "parse rootCmd args = None \<Longrightarrow> run_process parse env args s = ([], None)"
  by (simp add: run_process_def Execute_def)

end
