(* ===== verification/Shutdown_Races.thy ===== *)
theory Shutdown_Races
  imports Lifecycle
begin

text \<open>
  The end of the process (\<open>Start\<close>, \<open>runMainLoop\<close> and \<open>stopServers\<close> in \<open>bootstrap/bootstrap.go\<close>) while the
  tasks of \<open>bootstrap/registry.go\<close> still run: the instances are deregistered first, then the servers are
  stopped, and only then is the context cancelled that ends the heartbeats and a task that registers
  again. Each call to the naming service is written to a log, from which one reads what is left there: an instance stays from the answer to its registration to the call that
  deregisters it, which is taken to succeed.
\<close>

section \<open>Calls\<close>

text \<open>An instance is the same for the naming service when its service, host and port are.\<close>

type_synonym place = "string \<times> string \<times> string \<times> u32"

definition place_of :: "Instance \<Rightarrow> place" where
  "place_of i = (inst_Namespace i, inst_Service i, inst_Host i, inst_Port i)"

datatype naming_call = RegisterAnswered place | DeregisterSent place

fun left_after :: "naming_call list \<Rightarrow> place set \<Rightarrow> place set" where
  "left_after [] S = S"
| "left_after (RegisterAnswered p # cs) S = left_after cs (insert p S)"
| "left_after (DeregisterSent p # cs) S = left_after cs (S - {p})"

text \<open>The calls of one registration that are answered.\<close>

fun register_calls :: "remote \<Rightarrow> Instance list \<Rightarrow> registrar \<Rightarrow> naming_call list" where
  "register_calls remote [] r = []"
| "register_calls remote (inst # rest) r =
     (let (reqId, r1) = nextReqID inst r in
      case remote reqId inst of None \<Rightarrow> [] | Some resp \<Rightarrow> RegisterAnswered (place_of inst) # register_calls remote rest r1)"

definition attempt_calls :: "turn \<Rightarrow> registrar \<Rightarrow> naming_call list" where
  "attempt_calls t r =
     (if 0 < calcReRegisterDelay (reRegisterCount r) (jitter t) \<and> cancelled t then []
      else case saved r of
             None \<Rightarrow> []
           | Some ctx \<Rightarrow> if dials t then register_calls (answers_of t) (toRegister (polarisToken r) ctx) r else [])"

section \<open>Steps\<close>

datatype main_pc = Looping | Deregistering "Instance list" | Stopping "string list" | CancelledContext

record ending =
  registry :: registrar
  main :: main_pc
  naming_calls :: "naming_call list"

text \<open>
  The main goroutine: woken, deregistering, stopping the servers, cancelling. \<open>connects\<close> says whether the naming
  service can be dialled.
\<close>

inductive main_step :: "bool \<Rightarrow> string list \<Rightarrow> ending \<Rightarrow> ending \<Rightarrow> bool" for connects names where
  wake: "main s = Looping \<Longrightarrow> main_step connects names s (s\<lparr>main := Deregistering (if connects then loadInstances (registry s) else [])\<rparr>)"
| deregister: "main s = Deregistering (i # rest) \<Longrightarrow> nextReqID i (registry s) = (reqId, r) \<Longrightarrow>
    main_step connects names s (s\<lparr>registry := r, main := Deregistering rest, naming_calls := naming_calls s @ [DeregisterSent (place_of i)]\<rparr>)"
| deregistered: "main s = Deregistering [] \<Longrightarrow> main_step connects names s (s\<lparr>main := Stopping names\<rparr>)"
| stop: "main s = Stopping (n # ns) \<Longrightarrow> main_step connects names s (s\<lparr>main := Stopping ns\<rparr>)"
| cancel: "main s = Stopping [] \<Longrightarrow> main_step connects names s (s\<lparr>main := CancelledContext\<rparr>)"

text \<open>The tasks: a round of heartbeats, and a turn of a registration task while there is one. The context
  can only be seen as ended when it is.\<close>

inductive task_step :: "ending \<Rightarrow> ending \<Rightarrow> bool" where
  beat: "main s \<noteq> CancelledContext \<Longrightarrow> heartbeatRound ready dial remote (registry s) = (started, r) \<Longrightarrow>
    task_step s (s\<lparr>registry := r\<rparr>)"
| turn: "reRegistering (registry s) \<Longrightarrow> attempt t (registry s) = (out, r) \<Longrightarrow>
    cancelled t \<or> endedAfter t \<longrightarrow> main s = CancelledContext \<Longrightarrow>
    task_step s (s\<lparr>registry := r, naming_calls := naming_calls s @ attempt_calls t (registry s)\<rparr>)"

text \<open>Runs of the whole, and runs without a turn of a registration task.\<close>

inductive ending_run :: "bool \<Rightarrow> string list \<Rightarrow> ending \<Rightarrow> ending \<Rightarrow> bool" for connects names where
  none: "ending_run connects names s s"
| main: "ending_run connects names s s1 \<Longrightarrow> main_step connects names s1 s2 \<Longrightarrow> ending_run connects names s s2"
| task: "ending_run connects names s s1 \<Longrightarrow> task_step s1 s2 \<Longrightarrow> ending_run connects names s s2"

inductive quiet_run :: "bool \<Rightarrow> string list \<Rightarrow> ending \<Rightarrow> ending \<Rightarrow> bool" for connects names where
  none: "quiet_run connects names s s"
| main: "quiet_run connects names s s1 \<Longrightarrow> main_step connects names s1 s2 \<Longrightarrow> quiet_run connects names s s2"
| beat: "quiet_run connects names s s1 \<Longrightarrow> main s1 \<noteq> CancelledContext \<Longrightarrow> heartbeatRound ready dial remote (registry s1) = (started, r) \<Longrightarrow>
    quiet_run connects names s (s1\<lparr>registry := r\<rparr>)"

section \<open>Lemmas\<close>

lemma left_after_append: "left_after (cs @ ds) S = left_after ds (left_after cs S)"
  by (induction cs S rule: left_after.induct) auto

lemma left_after_deregister: "left_after (map (DeregisterSent \<circ> place_of) insts) S = S - place_of ` set insts"
  by (induction insts arbitrary: S) auto

lemma left_after_register:
  assumes "\<And>i inst. remote i inst \<noteq> None"
  shows "left_after (register_calls remote insts r) S = S \<union> place_of ` set insts"
  using assms
proof (induction insts arbitrary: r S)
  case (Cons inst rest)
  obtain reqId r1 where N: "nextReqID inst r = (reqId, r1)" by fastforce
  obtain resp where "remote reqId inst = Some resp" using Cons.prems by blast
  then show ?case using Cons N by simp
qed simp

lemma nextReqID_frame: "nextReqID i r = (reqId, r') \<Longrightarrow> instances r' = instances r \<and> saved r' = saved r \<and> reRegistering r' = reRegistering r \<and>
  polarisToken r' = polarisToken r \<and> reRegisterCount r' = reRegisterCount r"
  by (auto simp: nextReqID_def)

lemma sendHeartbeats_instances: "sendHeartbeats remote insts r = (started, r') \<Longrightarrow> instances r' = instances r"
proof (induction insts arbitrary: r)
  case (Cons inst rest)
  then show ?case
    by (auto simp: nextReqID_def handleHeartbeatResp_def triggerAsyncReRegister_def Let_def split: prod.splits option.splits if_splits)
qed simp

lemma heartbeatRound_instances: "heartbeatRound ready dial remote r = (started, r') \<Longrightarrow> instances r' = instances r"
  by (auto simp: heartbeatRound_def Let_def split: if_splits dest: sendHeartbeats_instances)

text \<open>Where the main goroutine is, the log says which instances it has deregistered.\<close>

definition quiet_inv :: "naming_call list \<Rightarrow> Instance list \<Rightarrow> ending \<Rightarrow> bool" where
  "quiet_inv calls insts s \<longleftrightarrow> loadInstances (registry s) = insts \<and>
     (\<exists>sent. naming_calls s = calls @ map (DeregisterSent \<circ> place_of) sent \<and>
        (case main s of Looping \<Rightarrow> sent = [] | Deregistering rest \<Rightarrow> sent @ rest = insts | _ \<Rightarrow> sent = insts))"

lemma quiet_run_inv:
  assumes "quiet_run True names s s'" "main s = Looping"
  shows "quiet_inv (naming_calls s) (loadInstances (registry s)) s'"
  using assms
proof (induction rule: quiet_run.induct)
  case none
  then show ?case by (simp add: quiet_inv_def)
next
  case (main s s1 s2)
  from main(2) main(3) [OF main(4)] show ?case
  proof (cases rule: main_step.cases)
    case (deregister i rest reqId r)
    obtain sent where d: "naming_calls s1 = naming_calls s @ map (DeregisterSent \<circ> place_of) sent" "sent @ i # rest = loadInstances (registry s)"
      using main(3) [OF main(4)] deregister(2) by (auto simp: quiet_inv_def)
    have "loadInstances r = loadInstances (registry s1)" using nextReqID_frame [OF deregister(3)] by (simp add: loadInstances_def)
    then show ?thesis using main(3) [OF main(4)] deregister d
      by (auto simp: quiet_inv_def intro!: exI [of _ "sent @ [i]"])
  qed (auto simp: quiet_inv_def)
next
  case (beat s s1 ready dial remote started r)
  have "loadInstances r = loadInstances (registry s1)" using heartbeatRound_instances [OF beat(3)] by (simp add: loadInstances_def)
  then show ?case using beat(4) [OF beat(5)] by (simp add: quiet_inv_def)
qed

text \<open>The main goroutine alone: deregistering all, stopping all.\<close>

lemma deregister_all:
  assumes "main s = Deregistering insts" "ending_run c names s0 s"
  shows "\<exists>s'. ending_run c names s0 s' \<and> main s' = Deregistering [] \<and>
    naming_calls s' = naming_calls s @ map (DeregisterSent \<circ> place_of) insts \<and> saved (registry s') = saved (registry s) \<and>
    reRegistering (registry s') = reRegistering (registry s) \<and> polarisToken (registry s') = polarisToken (registry s) \<and>
    reRegisterCount (registry s') = reRegisterCount (registry s)"
  using assms
proof (induction insts arbitrary: s)
  case (Cons i rest)
  obtain reqId r where N: "nextReqID i (registry s) = (reqId, r)" by fastforce
  let ?s = "s\<lparr>registry := r, main := Deregistering rest, naming_calls := naming_calls s @ [DeregisterSent (place_of i)]\<rparr>"
  have "ending_run c names s0 ?s" using ending_run.main [OF Cons.prems(2) main_step.deregister [OF Cons.prems(1) N]] .
  from Cons.IH [OF _ this] nextReqID_frame [OF N] show ?case by simp
qed auto

lemma stop_all:
  assumes "main s = Stopping ns" "ending_run c names s0 s"
  shows "ending_run c names s0 (s\<lparr>main := CancelledContext\<rparr>)"
  using assms
proof (induction ns arbitrary: s)
  case Nil
  then show ?case using ending_run.main main_step.cancel by blast
next
  case (Cons n ns)
  have "ending_run c names s0 (s\<lparr>main := Stopping ns\<rparr>)" using ending_run.main [OF Cons.prems(2) main_step.stop [OF Cons.prems(1)]] .
  from Cons.IH [OF _ this] show ?case by simp
qed

definition answering_turn :: turn where
  "answering_turn = \<lparr>jitter = 0, cancelled = False, dials = True, answers_of = (\<lambda>i inst. Some \<lparr>rsp_Code = 200000, rsp_Id = i\<rparr>), endedAfter = False\<rparr>"

lemma registerAll_answers:
  assumes "\<And>i inst. remote i inst \<noteq> None"
  shows "\<exists>insts' r'. registerAll remote insts r = (Some insts', r')"
  using assms
proof (induction insts arbitrary: r)
  case (Cons inst rest)
  obtain reqId r1 where N: "nextReqID inst r = (reqId, r1)" by fastforce
  obtain resp where "remote reqId inst = Some resp" using Cons.prems by blast
  moreover obtain insts' r' where "registerAll remote rest r1 = (Some insts', r')" using Cons by blast
  ultimately show ?case using N by simp
qed simp

lemma answering_attempt:
  assumes "saved r = Some ctx"
  shows "\<exists>out r'. attempt answering_turn r = (out, r') \<and> \<not> reRegistering r'"
    "attempt_calls answering_turn r = register_calls (answers_of answering_turn) (toRegister (polarisToken r) ctx) r"
proof -
  obtain insts' r' where "registerAll (answers_of answering_turn) (toRegister (polarisToken r) ctx) r = (Some insts', r')"
    using registerAll_answers [of "answers_of answering_turn"] by (force simp: answering_turn_def)
  then show "\<exists>out r'. attempt answering_turn r = (out, r') \<and> \<not> reRegistering r'"
    using assms by (simp add: attempt_def doSelfRegister_def answering_turn_def Let_def)
  show "attempt_calls answering_turn r = register_calls (answers_of answering_turn) (toRegister (polarisToken r) ctx) r"
    using assms by (simp add: attempt_calls_def answering_turn_def)
qed

section \<open>Properties\<close>

text \<open>
  C40: A shutdown that no registration task runs through deregisters every instance, whatever heartbeats
  are sent in between. But the context that ends the tasks is cancelled last: a task that waits for its
  next attempt when the process is told to stop can register the instances again after they were
  deregistered, and they stay registered when the process is gone.
\<close>
theorem shutdown_can_leave_instances:
  assumes "main s = Looping" "left_after (naming_calls s) {} \<subseteq> place_of ` set (loadInstances (registry s))"
  shows "(\<forall>s'. quiet_run True names s s' \<and> main s' = CancelledContext \<longrightarrow> left_after (naming_calls s') {} = {}) \<and>
    (\<forall>ctx. reRegistering (registry s) \<and> saved (registry s) = Some ctx \<longrightarrow>
      (\<exists>s'. ending_run True names s s' \<and> main s' = CancelledContext \<and> \<not> reRegistering (registry s') \<and>
        place_of ` set (toRegister (polarisToken (registry s)) ctx) \<subseteq> left_after (naming_calls s') {}))"
proof (intro conjI allI impI; elim conjE)
  fix s' assume "quiet_run True names s s'" "main s' = CancelledContext"
  then have "naming_calls s' = naming_calls s @ map (DeregisterSent \<circ> place_of) (loadInstances (registry s))"
    using quiet_run_inv [of names s s'] assms(1) by (auto simp: quiet_inv_def)
  then show "left_after (naming_calls s') {} = {}" using assms(2) by (auto simp: left_after_append left_after_deregister)
next
  fix ctx assume ctx: "reRegistering (registry s)" "saved (registry s) = Some ctx"
  let ?s1 = "s\<lparr>main := Deregistering (loadInstances (registry s))\<rparr>"
  have "main_step True names s ?s1" using main_step.wake [OF assms(1), of True] by simp
  then have "ending_run True names s ?s1" using ending_run.main [OF ending_run.none] by blast
  then obtain s2 where s2: "ending_run True names s s2" "main s2 = Deregistering []" "saved (registry s2) = Some ctx"
    "reRegistering (registry s2)" "polarisToken (registry s2) = polarisToken (registry s)"
    using deregister_all [of ?s1 "loadInstances (registry s)" True names s] ctx by auto
  obtain out r where A: "attempt answering_turn (registry s2) = (out, r)" "\<not> reRegistering r"
    using answering_attempt(1) [OF s2(3)] by blast
  let ?s3 = "s2\<lparr>registry := r, naming_calls := naming_calls s2 @ attempt_calls answering_turn (registry s2)\<rparr>"
  have "task_step s2 ?s3" by (rule task_step.turn [OF s2(4) A(1)]) (simp add: answering_turn_def)
  then have "ending_run True names s ?s3" using ending_run.task [OF s2(1)] by blast
  moreover have "main_step True names ?s3 (?s3\<lparr>main := Stopping names\<rparr>)" by (rule main_step.deregistered) (simp add: s2(2))
  ultimately have "ending_run True names s (?s3\<lparr>main := Stopping names\<rparr>)" by (rule ending_run.main)
  from stop_all [OF _ this] have E: "ending_run True names s (?s3\<lparr>main := CancelledContext\<rparr>)" by simp
  have "place_of ` set (toRegister (polarisToken (registry s)) ctx) \<subseteq> left_after (naming_calls ?s3) {}"
    using left_after_register [of "answers_of answering_turn" "toRegister (polarisToken (registry s)) ctx" "registry s2"] s2(5)
    by (simp add: left_after_append answering_attempt(2) [OF s2(3)]) (simp add: answering_turn_def)
  then show "\<exists>s'. ending_run True names s s' \<and> main s' = CancelledContext \<and> \<not> reRegistering (registry s') \<and>
      place_of ` set (toRegister (polarisToken (registry s)) ctx) \<subseteq> left_after (naming_calls s') {}"
    using E A(2) by (intro exI [of _ "?s3\<lparr>main := CancelledContext\<rparr>"]) simp
qed

theorem shutdown_can_leave_instances_witness:
  "\<exists>s'. ending_run True [''grpc''] \<lparr>registry = sample_registrar\<lparr>reRegistering := True, reRegisterCount := 1\<rparr>, main = Looping, naming_calls = []\<rparr> s' \<and>
    main s' = CancelledContext \<and> \<not> reRegistering (registry s') \<and> (''Polaris'', ''limiter'', ''10.0.0.1'', 8101) \<in> left_after (naming_calls s') {}"
proof -
  let ?r = "sample_registrar\<lparr>reRegistering := True, reRegisterCount := 1\<rparr>"
  let ?s = "\<lparr>registry = ?r, main = Looping, naming_calls = []\<rparr>"
  have "saved ?r = Some sample_ctx" "reRegistering ?r" "polarisToken ?r = ''t''" by (simp_all add: sample_registrar_def)
  then have "\<exists>s'. ending_run True [''grpc''] ?s s' \<and> main s' = CancelledContext \<and> \<not> reRegistering (registry s') \<and>
      place_of ` set (toRegister ''t'' sample_ctx) \<subseteq> left_after (naming_calls s') {}"
    using shutdown_can_leave_instances [of ?s "[''grpc'']"] by simp
  then show ?thesis by (auto simp: sample_toRegister place_of_def)
qed

end
